(* ===== verification/JsNumber.thy ===== *)
theory JsNumber
  imports Complex_Main "HOL-Library.Log_Nat"
begin

text \<open>
  The numbers of the program. A TypeScript \<open>number\<close> is an IEEE-754 double. A finite double is
  modelled by the rational it denotes, and every arithmetic operation of the source is written with
  \<open>fl\<close>, the rounding of an exact result to 53 significant bits, ties to even. Decimal literals such
  as 0.15 are \<open>lit 15 100\<close>: the double nearest to the decimal. The exponent range is not bounded
  (no subnormals, no overflow): the amounts of the program are naira and kobo, far inside the range.

  The laws below (monotone, odd, exact on integers up to two to the power 53) are what the
  components use.
\<close>

definition rne :: "rat \<Rightarrow> int" where
  "rne x = (let f = \<lfloor>x\<rfloor>; d = x - of_int f in
     if d < 1/2 then f else if 1/2 < d then f + 1 else if even f then f else f + 1)"

definition pow2 :: "int \<Rightarrow> rat" where
  "pow2 e = 2 powi e"

definition binade :: "rat \<Rightarrow> int" where
  "binade x = (let (p, q) = quotient_of x; e = bitlen p - bitlen q in
     if pow2 e \<le> x then e else e - 1)"

definition fl :: "rat \<Rightarrow> rat" where
  "fl x = (if x = 0 then 0 else let e = binade \<bar>x\<bar> - 52 in
     sgn x * (of_int (rne (\<bar>x\<bar> / pow2 e)) * pow2 e))"

definition lit :: "int \<Rightarrow> int \<Rightarrow> rat" where
  "lit p q = fl (of_int p / of_int q)"

definition fadd :: "rat \<Rightarrow> rat \<Rightarrow> rat" where "fadd a b = fl (a + b)"

definition fsub :: "rat \<Rightarrow> rat \<Rightarrow> rat" where "fsub a b = fl (a - b)"

definition fmul :: "rat \<Rightarrow> rat \<Rightarrow> rat" where "fmul a b = fl (a * b)"

definition fdiv :: "rat \<Rightarrow> rat \<Rightarrow> rat" where "fdiv a b = fl (a / b)"

lemmas fops = fadd_def fsub_def fmul_def fdiv_def

subsection \<open>Powers of two and binades\<close>

lemma pow2_pos [simp]: "0 < pow2 e"
  by (simp add: pow2_def)

lemma pow2_nonzero [simp]: "pow2 e \<noteq> 0"
  by (simp add: pow2_def)

lemma pow2_abs [simp]: "\<bar>pow2 e\<bar> = pow2 e"
  by (simp add: less_imp_le)

lemma pow2_nonneg [simp]: "0 \<le> pow2 e"
  by (simp add: less_imp_le)

lemma pow2_add: "pow2 (a + b) = pow2 a * pow2 b"
  by (simp add: pow2_def power_int_add)

lemma pow2_Suc: "pow2 (e + 1) = 2 * pow2 e" "pow2 (1 + e) = 2 * pow2 e"
  by (simp_all add: pow2_def power_int_add)

lemma pow2_mono: "a \<le> b \<Longrightarrow> pow2 a \<le> pow2 b"
  by (simp add: pow2_def power_int_increasing)

lemma pow2_diff: "pow2 (a - b) = pow2 a / pow2 b"
  by (simp add: pow2_def power_int_diff)

lemma pow2_nat: "0 \<le> e \<Longrightarrow> pow2 e = 2 ^ nat e"
  by (simp add: pow2_def power_int_def)

lemma pow2_52: "pow2 52 = 2 ^ 52" and pow2_53: "pow2 53 = 2 ^ 53"
  by (simp_all add: pow2_nat)

lemma pow2_strict: "pow2 a < pow2 b \<Longrightarrow> a < b"
  using pow2_mono [of b a] by linarith

lemma bitlen_pow2:
  assumes "0 < (x::int)"
  shows "pow2 (bitlen x - 1) \<le> of_int x" and "of_int x < pow2 (bitlen x)"
proof -
  have nn: "0 < bitlen x" using assms bitlen_nonneg [of x] bitlen_eq_zero_iff [of x] by linarith
  have "2 ^ nat (bitlen x - 1) \<le> x" and lt: "x < 2 ^ nat (bitlen x)"
    using bitlen_bounds [OF assms] by auto
  then have "(of_int (2 ^ nat (bitlen x - 1)) :: rat) \<le> of_int x"
    by (simp only: of_int_le_iff)
  then show "pow2 (bitlen x - 1) \<le> of_int x" using nn by (simp add: pow2_nat)
  from lt have "(of_int x :: rat) < of_int (2 ^ nat (bitlen x))" by (simp only: of_int_less_iff)
  then show "of_int x < pow2 (bitlen x)" using nn by (simp add: pow2_nat)
qed

lemma binade_bounds:
  assumes "0 < x"
  shows "pow2 (binade x) \<le> x" and "x < pow2 (binade x + 1)"
proof -
  obtain p q where pq: "quotient_of x = (p, q)" by (cases "quotient_of x")
  have q: "0 < q" using quotient_of_denom_pos [OF pq] .
  have x: "x = of_int p / of_int q" using quotient_of_div [OF pq] .
  have p: "0 < p" using assms q by (simp add: x zero_less_divide_iff)
  let ?e = "bitlen p - bitlen q"
  have up: "x < pow2 (?e + 1)"
  proof -
    have "x * of_int q = of_int p" using q by (simp add: x)
    also have "\<dots> < pow2 (bitlen p)" using bitlen_pow2 [OF p] by simp
    also have "\<dots> = pow2 (?e + 1) * pow2 (bitlen q - 1)"
      by (simp add: pow2_add [symmetric])
    also have "\<dots> \<le> pow2 (?e + 1) * of_int q"
      using bitlen_pow2 (1) [OF q] by simp
    finally show ?thesis using q by (simp add: mult_less_cancel_right)
  qed
  have lo: "pow2 (?e - 1) \<le> x"
  proof -
    have "pow2 (?e - 1) * of_int q \<le> pow2 (?e - 1) * pow2 (bitlen q)"
      using bitlen_pow2 (2) [OF q] by simp
    also have "\<dots> = pow2 (bitlen p - 1)" by (simp add: pow2_add [symmetric])
    also have "\<dots> \<le> of_int p" using bitlen_pow2 [OF p] by simp
    also have "\<dots> = x * of_int q" using q by (simp add: x)
    finally show ?thesis using q by (simp add: mult_le_cancel_right)
  qed
  show "pow2 (binade x) \<le> x" using lo by (simp add: binade_def pq Let_def)
  show "x < pow2 (binade x + 1)" using up by (simp add: binade_def pq Let_def)
qed

lemma binade_eqI:
  assumes "0 < x" "pow2 e \<le> x" "x < pow2 (e + 1)"
  shows "binade x = e"
proof -
  note b = binade_bounds [OF assms(1)]
  have "binade x < e + 1" using b(1) assms(3) by (intro pow2_strict) linarith
  moreover have "e < binade x + 1" using b(2) assms(2) by (intro pow2_strict) linarith
  ultimately show ?thesis by linarith
qed

lemma binade_mono: "0 < x \<Longrightarrow> x \<le> y \<Longrightarrow> binade x \<le> binade y"
proof -
  assume a: "0 < x" "x \<le> y"
  have "pow2 (binade x) < pow2 (binade y + 1)"
    using binade_bounds(1) [OF a(1)] binade_bounds(2) [of y] a by linarith
  then have "binade x < binade y + 1" by (rule pow2_strict)
  then show ?thesis by simp
qed

subsection \<open>Rounding\<close>

lemma rne_of_int [simp]: "rne (of_int i) = i"
  by (simp add: rne_def)

lemma rne_ge_floor: "\<lfloor>x\<rfloor> \<le> rne x" and rne_le_floor1: "rne x \<le> \<lfloor>x\<rfloor> + 1"
  by (simp_all add: rne_def Let_def)

lemma rne_dist: "\<bar>of_int (rne x) - x\<bar> \<le> 1/2"
proof -
  have "of_int \<lfloor>x\<rfloor> \<le> x" "x < of_int \<lfloor>x\<rfloor> + 1" by linarith+
  then show ?thesis by (simp add: rne_def Let_def)
qed

lemma rne_mono:
  assumes "x \<le> y"
  shows "rne x \<le> rne y"
proof (cases "\<lfloor>x\<rfloor> = \<lfloor>y\<rfloor>")
  case True
  then show ?thesis using assms by (simp add: rne_def Let_def)
next
  case False
  have "\<lfloor>x\<rfloor> \<le> \<lfloor>y\<rfloor>" using assms by (rule floor_mono)
  then have "\<lfloor>x\<rfloor> + 1 \<le> \<lfloor>y\<rfloor>" using False by linarith
  then show ?thesis using rne_le_floor1 [of x] rne_ge_floor [of y] by linarith
qed

lemma fl_0 [simp]: "fl 0 = 0"
  by (simp add: fl_def)

lemma fl_minus: "fl (- x) = - fl x"
  by (simp add: fl_def Let_def)

lemma fl_pos: "0 < x \<Longrightarrow> fl x = of_int (rne (x / pow2 (binade x - 52))) * pow2 (binade x - 52)"
  by (simp add: fl_def Let_def)

lemma scaled_bounds:
  assumes "0 < x"
  shows "2 ^ 52 \<le> x / pow2 (binade x - 52)" and "x / pow2 (binade x - 52) < 2 ^ 53"
proof -
  have "pow2 52 * pow2 (binade x - 52) \<le> x" and "x < pow2 53 * pow2 (binade x - 52)"
    using binade_bounds [OF assms] by (simp_all add: pow2_add [symmetric] add.commute)
  then show "2 ^ 52 \<le> x / pow2 (binade x - 52)" and "x / pow2 (binade x - 52) < 2 ^ 53"
    by (simp_all add: pow2_52 pow2_53 pos_le_divide_eq pos_divide_less_eq)
qed

lemma fl_binade:
  assumes "0 < x"
  shows "pow2 (binade x) \<le> fl x" and "fl x \<le> pow2 (binade x + 1)"
proof -
  let ?s = "pow2 (binade x - 52)"
  have "rne (of_int (2 ^ 52)) \<le> rne (x / ?s)"
    by (rule rne_mono) (use scaled_bounds(1) [OF assms] in simp)
  then have "(2 ^ 52 :: int) \<le> rne (x / ?s)" by (simp only: rne_of_int)
  then have "(of_int (2 ^ 52) :: rat) \<le> of_int (rne (x / ?s))" by (simp only: of_int_le_iff)
  then have "2 ^ 52 * ?s \<le> of_int (rne (x / ?s)) * ?s" by simp
  moreover have "2 ^ 52 * ?s = pow2 (binade x)"
    by (simp only: pow2_52 [symmetric] pow2_add [symmetric]) simp
  ultimately show "pow2 (binade x) \<le> fl x" by (simp only: fl_pos [OF assms])
  have "rne (x / ?s) \<le> rne (of_int (2 ^ 53))"
    by (rule rne_mono) (use scaled_bounds(2) [OF assms] in simp)
  then have "rne (x / ?s) \<le> (2 ^ 53 :: int)" by (simp only: rne_of_int)
  then have "(of_int (rne (x / ?s)) :: rat) \<le> of_int (2 ^ 53)" by (simp only: of_int_le_iff)
  then have "of_int (rne (x / ?s)) * ?s \<le> 2 ^ 53 * ?s" by simp
  moreover have "2 ^ 53 * ?s = pow2 (binade x + 1)"
    by (simp only: pow2_53 [symmetric] pow2_add [symmetric]) (simp add: add.commute)
  ultimately show "fl x \<le> pow2 (binade x + 1)" by (simp only: fl_pos [OF assms])
qed

lemma fl_pos_mono:
  assumes "0 < x" "x \<le> y"
  shows "fl x \<le> fl y"
proof (cases "binade x = binade y")
  case True
  have "rne (x / pow2 (binade y - 52)) \<le> rne (y / pow2 (binade y - 52))"
    by (intro rne_mono divide_right_mono assms pow2_nonneg)
  then show ?thesis using assms True by (simp add: fl_pos)
next
  case False
  then have "binade x + 1 \<le> binade y" using binade_mono [OF assms] by linarith
  then have "pow2 (binade x + 1) \<le> pow2 (binade y)" by (rule pow2_mono)
  then show ?thesis using fl_binade(2) [of x] fl_binade(1) [of y] assms by linarith
qed

lemma fl_nonneg: "0 \<le> x \<Longrightarrow> 0 \<le> fl x"
  by (metis fl_0 fl_binade(1) order.order_iff_strict order.trans pow2_nonneg)

lemma fl_nonpos: "x \<le> 0 \<Longrightarrow> fl x \<le> 0"
  using fl_nonneg [of "- x"] by (simp add: fl_minus)

lemma fl_mono:
  assumes "x \<le> y"
  shows "fl x \<le> fl y"
proof -
  consider "0 < x" | "y < 0" | "x \<le> 0" "0 \<le> y" by linarith
  then show ?thesis
  proof cases
    case 1
    then show ?thesis using assms by (rule fl_pos_mono)
  next
    case 2
    then have "fl (- y) \<le> fl (- x)" using assms by (intro fl_pos_mono) auto
    then show ?thesis by (simp add: fl_minus)
  next
    case 3
    then show ?thesis using fl_nonpos [of x] fl_nonneg [of y] by linarith
  qed
qed

lemma fl_exact:
  assumes "\<bar>m\<bar> \<le> (2::int) ^ 53"
  shows "fl (of_int m * pow2 e) = of_int m * pow2 e"
proof -
  have pos: "fl (of_int k * pow2 e) = of_int k * pow2 e" if k: "0 < k" "k \<le> (2::int) ^ 53" for k
  proof -
    let ?x = "of_int k * pow2 e"
    have x0: "0 < ?x" using k by simp
    show ?thesis
    proof (cases "k = 2 ^ 53")
      case True
      have x: "?x = pow2 (e + 53)" by (simp add: True pow2_add pow2_53)
      have bin: "binade ?x = e + 53"
      proof (rule binade_eqI [OF x0])
        show "?x < pow2 (e + 53 + 1)" unfolding pow2_Suc x by simp
      qed (simp add: x)
      have sh: "pow2 (e + 53) = 2 * (2 ^ 51 * pow2 (e + 53 - 52))"
        by (simp add: pow2_add pow2_53 pow2_nat [of 1])
      have sc: "?x / pow2 (binade ?x - 52) = of_int (2 ^ 52)"
        unfolding bin unfolding x by (simp add: sh pow2_52)
      have "fl ?x = of_int (2 ^ 52) * pow2 (binade ?x - 52)"
        using fl_pos [OF x0] by (simp only: sc rne_of_int)
      then show ?thesis unfolding bin unfolding x by (simp add: sh pow2_52)
    next
      case False
      let ?b = "bitlen k"
      have kb: "pow2 (?b - 1) \<le> of_int k" "of_int k < pow2 ?b" using bitlen_pow2 [OF k(1)] by auto
      have "k < 2 ^ 53" using k(2) False by linarith
      then have "(of_int k :: rat) < of_int (2 ^ 53)" by (simp only: of_int_less_iff)
      then have "(of_int k :: rat) < pow2 53" by (simp add: pow2_53)
      then have "pow2 (?b - 1) < pow2 53" using kb(1) by linarith
      then have b53: "?b \<le> 53" using pow2_strict by fastforce
      have bin: "binade ?x = ?b - 1 + e"
      proof (rule binade_eqI [OF x0])
        show "pow2 (?b - 1 + e) \<le> ?x" using kb(1) by (simp add: pow2_add)
        have "?x < pow2 ?b * pow2 e" using kb(2) by simp
        then show "?x < pow2 (?b - 1 + e + 1)" by (simp add: pow2_add [symmetric] algebra_simps)
      qed
      let ?n = "nat (53 - ?b)"
      have "?x / pow2 (binade ?x - 52) = of_int k * pow2 (53 - ?b)"
        by (simp add: bin pow2_diff pow2_add pow2_52 pow2_53 pow2_nat [of 1])
      also have "\<dots> = of_int (k * 2 ^ ?n)" using b53 by (simp add: pow2_nat)
      finally have "rne (?x / pow2 (binade ?x - 52)) = k * 2 ^ ?n" by (simp only: rne_of_int)
      then have "fl ?x = of_int (k * 2 ^ ?n) * pow2 (binade ?x - 52)" using fl_pos [OF x0] by simp
      also have "of_int (k * 2 ^ ?n) = of_int k * pow2 (53 - ?b)" using b53 by (simp add: pow2_nat)
      also have "of_int k * pow2 (53 - ?b) * pow2 (binade ?x - 52) = ?x"
        by (simp add: bin mult.assoc pow2_add [symmetric])
      finally show ?thesis .
    qed
  qed
  consider "m = 0" | "0 < m" | "0 < - m" by linarith
  then show ?thesis
  proof cases
    case 1
    then show ?thesis by simp
  next
    case 2
    then show ?thesis using pos [of m] assms by simp
  next
    case 3
    then show ?thesis using pos [of "- m"] assms by (simp add: fl_minus)
  qed
qed

lemma fl_of_int: "\<bar>m\<bar> \<le> (2::int) ^ 53 \<Longrightarrow> fl (of_int m) = of_int m"
  using fl_exact [of m 0] by (simp add: pow2_nat)

lemma fl_1 [simp]: "fl 1 = 1"
  using fl_of_int [of 1] by simp

lemma fl_le_1: "x \<le> 1 \<Longrightarrow> fl x \<le> 1"
  using fl_mono [of x 1] by simp

lemma fl_fl [simp]: "fl (fl x) = fl x"
proof -
  have pos: "fl (fl y) = fl y" if y: "0 < y" for y
  proof -
    let ?m = "rne (y / pow2 (binade y - 52))"
    have "rne (of_int (2 ^ 52)) \<le> ?m" by (rule rne_mono) (use scaled_bounds(1) [OF y] in simp)
    moreover have "?m \<le> rne (of_int (2 ^ 53))" by (rule rne_mono) (use scaled_bounds(2) [OF y] in simp)
    ultimately have "\<bar>?m\<bar> \<le> 2 ^ 53" by (simp only: rne_of_int) simp
    then show ?thesis using fl_exact [of ?m] by (simp add: fl_pos [OF y])
  qed
  consider "x = 0" | "0 < x" | "0 < - x" by linarith
  then show ?thesis
  proof cases
    case 3
    then show ?thesis using pos [of "- x"] by (simp add: fl_minus)
  qed (simp_all add: pos)
qed

lemma fl_error:
  assumes "0 < x"
  shows "\<bar>fl x - x\<bar> \<le> x / 2 ^ 53"
proof -
  let ?s = "pow2 (binade x - 52)"
  have "fl x - x = (of_int (rne (x / ?s)) - x / ?s) * ?s"
    by (simp add: fl_pos [OF assms] left_diff_distrib)
  then have "\<bar>fl x - x\<bar> = \<bar>of_int (rne (x / ?s)) - x / ?s\<bar> * ?s"
    by (simp only: abs_mult pow2_abs)
  also have "\<dots> \<le> 1 / 2 * ?s" by (rule mult_right_mono [OF rne_dist]) simp
  also have "\<dots> \<le> x / 2 ^ 53"
    using binade_bounds(1) [OF assms] by (simp add: pow2_diff pow2_52)
  finally show ?thesis .
qed

lemma lit_nonneg: "0 \<le> p \<Longrightarrow> 0 < q \<Longrightarrow> 0 \<le> lit p q"
  unfolding lit_def by (intro fl_nonneg) simp

lemma fl_lit [simp]: "fl (lit p q) = lit p q"
  by (simp add: lit_def)

subsection \<open>The interface the components use\<close>

text \<open>
  What a component needs of rounding is that it is monotone, keeps zero and one, and is idempotent:
  then clamps, sums of non-negative terms and comparisons keep their sense.
\<close>

locale rounding =
  fixes rnd :: "rat \<Rightarrow> rat"
  assumes mono: "x \<le> y \<Longrightarrow> rnd x \<le> rnd y"
    and zero: "rnd 0 = 0"
    and one: "rnd 1 = 1"
    and idem: "rnd (rnd x) = rnd x"
begin

lemma nonneg: "0 \<le> x \<Longrightarrow> 0 \<le> rnd x"
  using mono [of 0 x] by (simp add: zero)

lemma nonpos: "x \<le> 0 \<Longrightarrow> rnd x \<le> 0"
  using mono [of x 0] by (simp add: zero)

lemma le_one: "x \<le> 1 \<Longrightarrow> rnd x \<le> 1"
  using mono [of x 1] by (simp add: one)

lemma add_mono_rnd: "a \<le> a' \<Longrightarrow> b \<le> b' \<Longrightarrow> rnd (a + b) \<le> rnd (a' + b')"
  by (rule mono) simp

lemma le_add_nonneg: "rnd a = a \<Longrightarrow> 0 \<le> b \<Longrightarrow> a \<le> rnd (a + b)"
  using mono [of a "a + b"] by simp

lemma add_le_nonpos: "rnd a = a \<Longrightarrow> b \<le> 0 \<Longrightarrow> rnd (a + b) \<le> a"
  using mono [of "a + b" a] by simp

lemma scale_mono: "a \<le> b \<Longrightarrow> 0 \<le> c \<Longrightarrow> rnd (a * c) \<le> rnd (b * c)"
  by (intro mono mult_right_mono)

lemma mult_le: "rnd a = a \<Longrightarrow> 0 \<le> a \<Longrightarrow> c \<le> 1 \<Longrightarrow> rnd (a * c) \<le> a"
  using mono [of "a * c" a] by (simp add: mult_left_le)

end

interpretation dbl: rounding fl
  by unfold_locales (auto simp: fl_mono)

end
