(* ===== verification/Prelude.thy ===== *)
theory Prelude
  imports JsNumber
begin

text \<open>
  Shared material of the development.

  Strings. A JavaScript string is modelled as a \<open>string\<close> whose characters are its code units,
  restricted to Latin-1 (the 256 values of \<open>char\<close>). The functions of this theory are the String
  methods the program calls, on that alphabet: \<open>trim\<close> strips the seven Latin-1 white-space code
  units, \<open>lower\<close> and \<open>upper\<close> map the ASCII and Latin-1 letters.

  Tables. A database table is a list of rows in insertion order; \<open>find_by\<close> is a lookup by key and
  \<open>update_by\<close> rewrites the rows with a key.

  Operations. A handler is a function of the state that returns an error or a value together with
  the new state, since a handler that throws after a write leaves the write in place. The locales
  \<open>lifecycle\<close>, \<open>service\<close> and \<open>tracked_service\<close> state the contracts the components share: a status
  relation that only moves forward, operations that keep an invariant, operations that move the
  status of each entity along the relation or leave it.
\<close>

named_theorems str_simps \<open>evaluation of the string functions on explicit characters\<close>
named_theorems op_simps \<open>unfolding of the handlers of a component\<close>

subsection \<open>Characters and strings\<close>

definition ws_chars :: string where
  "ws_chars = [CHR 0x09, CHR 0x0A, CHR 0x0B, CHR 0x0C, CHR 0x0D, CHR 0x20, CHR 0xA0]"

definition is_ws :: "char \<Rightarrow> bool" where "is_ws c \<longleftrightarrow> c \<in> set ws_chars"

definition is_digit :: "char \<Rightarrow> bool" where
  "is_digit c \<longleftrightarrow> (let n = (of_char c :: nat) in 48 \<le> n \<and> n \<le> 57)"

definition digit_val :: "char \<Rightarrow> nat" where "digit_val c = of_char c - 48"

definition digit_char :: "nat \<Rightarrow> char" where "digit_char n = char_of (48 + n)"

definition is_alpha :: "char \<Rightarrow> bool" where
  "is_alpha c \<longleftrightarrow> (let n = (of_char c :: nat) in (65 \<le> n \<and> n \<le> 90) \<or> (97 \<le> n \<and> n \<le> 122))"

definition lower_char :: "char \<Rightarrow> char" where
  "lower_char c = (let n = (of_char c :: nat) in
     if (65 \<le> n \<and> n \<le> 90) \<or> (192 \<le> n \<and> n \<le> 222 \<and> n \<noteq> 215) then char_of (n + 32) else c)"

definition upper_char :: "char \<Rightarrow> char" where
  "upper_char c = (let n = (of_char c :: nat) in
     if (97 \<le> n \<and> n \<le> 122) \<or> (224 \<le> n \<and> n \<le> 254 \<and> n \<noteq> 247) then char_of (n - 32) else c)"

definition lower :: "string \<Rightarrow> string" where "lower s = map lower_char s"

text \<open>
  The sharp s is written SS in upper case; the upper case of the micro sign and of y with diaeresis
  lies outside Latin-1, and these two are left as they are.
\<close>

definition upper :: "string \<Rightarrow> string" where
  "upper s = concat (map (\<lambda>c. if c = CHR 0xDF then ''SS'' else [upper_char c]) s)"

definition trim :: "string \<Rightarrow> string" where
  "trim s = rev (dropWhile is_ws (rev (dropWhile is_ws s)))"

definition digits_only :: "string \<Rightarrow> string" where "digits_only s = filter is_digit s"

definition all_digits :: "string \<Rightarrow> bool" where "all_digits s \<longleftrightarrow> list_all is_digit s"

definition starts_with :: "string \<Rightarrow> string \<Rightarrow> bool" where
  "starts_with p s \<longleftrightarrow> take (length p) s = p"

fun contains :: "string \<Rightarrow> string \<Rightarrow> bool" where
  "contains p [] = (p = [])"
| "contains p (c # s) = (starts_with p (c # s) \<or> contains p s)"

fun split_on :: "char \<Rightarrow> string \<Rightarrow> string list" where
  "split_on c [] = [ [] ]"
| "split_on c (x # xs) =
     (if x = c then [] # split_on c xs
      else (case split_on c xs of [] \<Rightarrow> [ [x] ] | y # ys \<Rightarrow> (x # y) # ys))"

fun join :: "string \<Rightarrow> string list \<Rightarrow> string" where
  "join sep [] = []"
| "join sep [x] = x"
| "join sep (x # xs) = x @ sep @ join sep xs"

text \<open>\<open>String(n)\<close> of a non-negative integer, and \<open>parseInt\<close> of a string of digits.\<close>

fun dec_str :: "nat \<Rightarrow> string" where
  "dec_str n = (if n < 10 then [digit_char n] else dec_str (n div 10) @ [digit_char (n mod 10)])"

declare dec_str.simps [simp del]

definition parse_dec :: "string \<Rightarrow> nat" where
  "parse_dec s = foldl (\<lambda>a c. 10 * a + digit_val c) 0 s"

definition pad2 :: "nat \<Rightarrow> string" where
  "pad2 n = (let s = dec_str n in replicate (2 - length s) (CHR ''0'') @ s)"

lemma digit_char_digit [simp]: "n < 10 \<Longrightarrow> is_digit (digit_char n)"
  by (simp add: is_digit_def digit_char_def)

lemma digit_val_char [simp]: "n < 10 \<Longrightarrow> digit_val (digit_char n) = n"
  by (simp add: digit_val_def digit_char_def)

lemma digit_val_lt: "is_digit c \<Longrightarrow> digit_val c < 10"
  unfolding is_digit_def digit_val_def Let_def by linarith

lemma digit_char_val: "is_digit c \<Longrightarrow> digit_char (digit_val c) = c"
  by (simp add: is_digit_def digit_val_def digit_char_def Let_def)

lemma digit_zero: "is_digit (CHR ''0'')" "digit_val (CHR ''0'') = 0"
  by (simp_all add: is_digit_def digit_val_def)

lemma dec_str_nonempty [simp]: "dec_str n \<noteq> []"
  by (subst dec_str.simps) simp

lemma all_digits_append [simp]: "all_digits (s @ t) \<longleftrightarrow> all_digits s \<and> all_digits t"
  by (simp add: all_digits_def)

lemma all_digits_Cons [simp]: "all_digits (c # s) \<longleftrightarrow> is_digit c \<and> all_digits s"
  by (simp add: all_digits_def)

lemma all_digits_Nil [simp]: "all_digits []"
  by (simp add: all_digits_def)

lemma all_digits_dec_str [simp]: "all_digits (dec_str n)"
proof (induction n rule: dec_str.induct)
  case (1 n)
  then show ?case by (subst dec_str.simps) simp
qed

lemma parse_dec_snoc [simp]: "parse_dec (s @ [c]) = 10 * parse_dec s + digit_val c"
  by (simp add: parse_dec_def)

lemma parse_dec_Nil [simp]: "parse_dec [] = 0"
  by (simp add: parse_dec_def)

lemma parse_dec_single [simp]: "parse_dec [c] = digit_val c"
  by (simp add: parse_dec_def)

lemma parse_dec_str [simp]: "parse_dec (dec_str n) = n"
proof (induction n rule: dec_str.induct)
  case (1 n)
  show ?case
  proof (cases "n < 10")
    case False
    then show ?thesis using 1 by (subst dec_str.simps) simp
  qed (subst dec_str.simps, simp)
qed

lemma dec_str_inject [simp]: "dec_str m = dec_str n \<longleftrightarrow> m = n"
  by (metis parse_dec_str)

lemma length_dec_str: "length (dec_str n) = (if n < 10 then 1 else 1 + length (dec_str (n div 10)))"
  by (subst dec_str.simps) simp

lemma length_dec_str_4: "1000 \<le> n \<Longrightarrow> n \<le> 9999 \<Longrightarrow> length (dec_str n) = 4"
  by (subst length_dec_str, subst length_dec_str, subst length_dec_str, subst length_dec_str) auto

lemma pad2_length: "n < 100 \<Longrightarrow> length (pad2 n) = 2"
proof -
  assume "n < 100"
  then have "length (dec_str n) \<le> 2"
    by (subst length_dec_str, subst length_dec_str) auto
  then show ?thesis by (simp add: pad2_def Let_def)
qed

lemma parse_dec_zeros: "parse_dec (replicate k (CHR ''0'') @ s) = parse_dec s"
  by (induction k) (simp_all add: parse_dec_def digit_zero)

lemma parse_pad2 [simp]: "parse_dec (pad2 n) = n"
  by (simp add: pad2_def Let_def parse_dec_zeros)

lemma all_digits_replicate: "is_digit c \<Longrightarrow> all_digits (replicate k c)"
  by (induction k) simp_all

lemma all_digits_pad2 [simp]: "all_digits (pad2 n)"
  by (simp add: pad2_def Let_def all_digits_replicate digit_zero)

lemma digits_only_id: "all_digits s \<Longrightarrow> digits_only s = s"
  by (simp add: all_digits_def digits_only_def list_all_iff)

lemma all_digits_digits_only [simp]: "all_digits (digits_only s)"
  by (simp add: all_digits_def digits_only_def list_all_iff)

lemma length_digits_only_le: "length (digits_only s) \<le> length s"
  by (simp add: digits_only_def)

lemma digits_only_full: "length (digits_only s) = length s \<longleftrightarrow> all_digits s"
proof
  assume "length (digits_only s) = length s"
  then show "all_digits s"
    by (metis all_digits_def digits_only_def filter_id_conv length_filter_less less_irrefl
        list_all_iff)
qed (simp add: digits_only_id)

lemma digit_not_ws: "is_digit c \<Longrightarrow> \<not> is_ws c"
  by (auto simp: is_digit_def is_ws_def ws_chars_def)

lemma dropWhile_none: "(\<forall>x\<in>set xs. \<not> P x) \<Longrightarrow> dropWhile P xs = xs"
  by (cases xs) auto

lemma trim_no_ws: "(\<forall>c\<in>set s. \<not> is_ws c) \<Longrightarrow> trim s = s"
  by (simp add: trim_def dropWhile_none)

lemma trim_digits: "all_digits s \<Longrightarrow> trim s = s"
  by (rule trim_no_ws) (auto simp: all_digits_def list_all_iff digit_not_ws)

lemma dropWhile_id: "s = [] \<or> \<not> P (hd s) \<Longrightarrow> dropWhile P s = s"
  by (cases s) auto

lemma last_dropWhile: "dropWhile P s \<noteq> [] \<Longrightarrow> last (dropWhile P s) = last s"
  by (induction s) (auto split: if_splits)

lemma hd_rev_dropWhile:
  assumes "t \<noteq> []" "\<not> P (hd t)"
  shows "hd (rev (dropWhile P (rev t))) = hd t"
proof -
  have "dropWhile P (rev t) \<noteq> []" using assms by (auto simp: dropWhile_eq_Nil_conv)
  then have "last (dropWhile P (rev t)) = last (rev t)" by (rule last_dropWhile)
  then show ?thesis using assms(1) by (simp add: hd_rev last_rev)
qed

lemma dropWhile_rev_dropWhile:
  "dropWhile P (rev (dropWhile P (rev (dropWhile P s)))) = rev (dropWhile P (rev (dropWhile P s)))"
proof (cases "dropWhile P s = []")
  case True
  show ?thesis unfolding True by simp
next
  case False
  then have "\<not> P (hd (dropWhile P s))" by (rule hd_dropWhile)
  then show ?thesis using hd_rev_dropWhile [OF False, of P] by (intro dropWhile_id) simp
qed

lemma trim_trim [simp]: "trim (trim s) = trim s"
  by (simp add: trim_def dropWhile_rev_dropWhile dropWhile_idem)

lemma lower_lower_char [simp]: "lower_char (lower_char c) = lower_char c"
proof -
  have "of_char c < (256::nat)" by simp
  then show ?thesis by (auto simp: lower_char_def Let_def)
qed

lemma lower_lower [simp]: "lower (lower s) = lower s"
  by (simp add: lower_def)

lemma split_on_nonempty [simp]: "split_on c s \<noteq> []"
  by (induction s) (auto split: list.splits)

lemma join_Cons: "xs \<noteq> [] \<Longrightarrow> join sep (x # xs) = x @ sep @ join sep xs"
  by (cases xs) auto

lemma split_on_no_sep: "c \<notin> set s \<Longrightarrow> split_on c s = [s]"
  by (induction s) auto

lemma split_on_append: "c \<notin> set s \<Longrightarrow> split_on c (s @ c # t) = s # split_on c t"
  by (induction s) (auto split: list.splits)

lemma split_join:
  "xs \<noteq> [] \<Longrightarrow> (\<forall>x\<in>set xs. c \<notin> set x) \<Longrightarrow> split_on c (join [c] xs) = xs"
proof (induction xs)
  case (Cons x xs)
  then show ?case
    by (cases xs) (auto simp: split_on_no_sep split_on_append)
qed simp

lemma join_split: "join [c] (split_on c s) = s"
proof (induction s)
  case (Cons x s)
  show ?case
  proof (cases "x = c")
    case True
    then show ?thesis using Cons by (simp add: join_Cons)
  next
    case False
    obtain y ys where s: "split_on c s = y # ys" by (cases "split_on c s") auto
    then show ?thesis using Cons False by (cases ys) auto
  qed
qed simp

subsection \<open>Tables\<close>

definition find_by :: "('r \<Rightarrow> 'k) \<Rightarrow> 'k \<Rightarrow> 'r list \<Rightarrow> 'r option" where
  "find_by key k rows = find (\<lambda>r. key r = k) rows"

definition update_by :: "('r \<Rightarrow> 'k) \<Rightarrow> 'k \<Rightarrow> ('r \<Rightarrow> 'r) \<Rightarrow> 'r list \<Rightarrow> 'r list" where
  "update_by key k f rows = map (\<lambda>r. if key r = k then f r else r) rows"

lemma find_by_Nil [simp]: "find_by key k [] = None"
  by (simp add: find_by_def)

lemma find_by_Cons [simp]:
  "find_by key k (r # rows) = (if key r = k then Some r else find_by key k rows)"
  by (simp add: find_by_def)

lemma find_by_Some: "find_by key k rows = Some r \<Longrightarrow> key r = k \<and> r \<in> set rows"
  by (induction rows) (auto split: if_splits)

lemma find_by_None: "find_by key k rows = None \<longleftrightarrow> k \<notin> key ` set rows"
  by (induction rows) auto

lemma find_by_append:
  "find_by key k (xs @ ys) = (case find_by key k xs of None \<Rightarrow> find_by key k ys | Some r \<Rightarrow> Some r)"
  by (induction xs) auto

lemma find_by_update:
  assumes "\<And>r. key (f r) = key r"
  shows "find_by key k' (update_by key k f rows) =
    (if k' = k then map_option f (find_by key k rows) else find_by key k' rows)"
  by (induction rows) (auto simp: update_by_def assms)

lemma find_by_update_any:
  assumes "\<And>r. key' r = k \<Longrightarrow> key (f r) = key r"
  shows "find_by key k' (update_by key' k f rows) =
    map_option (\<lambda>r. if key' r = k then f r else r) (find_by key k' rows)"
  by (induction rows) (auto simp: update_by_def assms)

lemma find_distinct: "distinct (map k rs) \<Longrightarrow> r \<in> set rs \<Longrightarrow> find_by k (k r) rs = Some r"
  by (induction rs) (auto simp: image_iff)

lemma length_update_by [simp]: "length (update_by key k f rows) = length rows"
  by (simp add: update_by_def)

lemma keys_update_by: "(\<And>r. key' (f r) = key' r) \<Longrightarrow> map key' (update_by key k f rows) = map key' rows"
  by (induction rows) (auto simp: update_by_def)

lemma set_update_by:
  "r \<in> set (update_by key k f rows) \<Longrightarrow>
   (\<exists>r0\<in>set rows. key r0 = k \<and> r = f r0) \<or> (r \<in> set rows \<and> key r \<noteq> k)"
  by (auto simp: update_by_def split: if_splits)

lemma find_Some_pred: "find P xs = Some x \<Longrightarrow> P x \<and> x \<in> set xs"
  by (induction xs) (auto split: if_splits)

text \<open>An update by primary key touches one row.\<close>

fun update_first :: "('r \<Rightarrow> 'k) \<Rightarrow> 'k \<Rightarrow> ('r \<Rightarrow> 'r) \<Rightarrow> 'r list \<Rightarrow> 'r list" where
  "update_first key k f [] = []"
| "update_first key k f (r # rows) = (if key r = k then f r # rows else r # update_first key k f rows)"

lemma find_update_first:
  "(\<And>r. key (f r) = key r) \<Longrightarrow> find_by key k' (update_first key k f rows) =
    (if k' = k then map_option f (find_by key k rows) else find_by key k' rows)"
  by (induction rows) auto

lemma update_first_all: "find_by key k rows = Some r \<Longrightarrow> list_all P rows \<Longrightarrow> P (f r) \<Longrightarrow> list_all P (update_first key k f rows)"
  by (induction rows) (auto split: if_splits)

lemma map_update_first: "(\<And>r. g (f r) = g r) \<Longrightarrow> map g (update_first key k f rows) = map g rows"
  by (induction rows) auto

subsection \<open>Results and runs\<close>

type_synonym ('e, 'r, 's) outcome = "('e + 'r) \<times> 's"

text \<open>The outcome of a call without its value: handlers of one service share this type.\<close>

definition forget :: "('e, 'r, 's) outcome \<Rightarrow> ('e, unit, 's) outcome" where
  "forget out = (map_sum id (\<lambda>_. ()) (fst out), snd out)"

lemma snd_forget [simp]: "snd (forget out) = snd out"
  by (simp add: forget_def)

fun run_ops :: "('op \<Rightarrow> 's \<Rightarrow> ('e, 'r, 's) outcome) \<Rightarrow> 'op list \<Rightarrow> 's \<Rightarrow> 's" where
  "run_ops exec [] st = st"
| "run_ops exec (c # cs) st = run_ops exec cs (snd (exec c st))"

lemma run_ops_append [simp]: "run_ops exec (cs @ ds) st = run_ops exec ds (run_ops exec cs st)"
  by (induction cs arbitrary: st) auto

lemma rtranclp_rank_le:
  assumes "\<And>x y. R x y \<Longrightarrow> f x \<le> (f y :: nat)" and "R\<^sup>*\<^sup>* a b"
  shows "f a \<le> f b"
  using assms(2) by (induction rule: rtranclp_induct) (auto dest: assms(1))

subsection \<open>The contracts components share\<close>

text \<open>A life cycle: every allowed step strictly raises a rank, so no status is ever revisited.\<close>

locale lifecycle =
  fixes nxt :: "'a \<Rightarrow> 'a \<Rightarrow> bool" and rank :: "'a \<Rightarrow> nat"
  assumes nxt_rank: "nxt s t \<Longrightarrow> rank s < rank t"
begin

lemma reach_rank: "nxt\<^sup>+\<^sup>+ s t \<Longrightarrow> rank s < rank t"
  by (induction rule: tranclp_induct) (auto dest: nxt_rank)

lemma star_rank: "nxt\<^sup>*\<^sup>* s t \<Longrightarrow> rank s \<le> rank t"
  by (rule rtranclp_rank_le) (auto dest: nxt_rank)

lemma never_back: "nxt\<^sup>+\<^sup>+ s t \<Longrightarrow> \<not> nxt\<^sup>*\<^sup>* t s"
  using reach_rank star_rank by fastforce

lemma star_antisym: "nxt\<^sup>*\<^sup>* s t \<Longrightarrow> nxt\<^sup>*\<^sup>* t s \<Longrightarrow> s = t"
  using never_back by (metis rtranclpD)

lemma path_length: "successively nxt (s # ss) \<Longrightarrow> rank s + length ss \<le> rank (last (s # ss))"
proof (induction ss arbitrary: s)
  case (Cons t ts)
  then have "rank s < rank t" "rank t + length ts \<le> rank (last (t # ts))"
    by (auto intro: nxt_rank)
  then show ?case by auto
qed simp

end

text \<open>A service: every operation, failing or not, keeps the invariant; so does every run.\<close>

locale service =
  fixes exec :: "'op \<Rightarrow> 'st \<Rightarrow> ('e, 'r, 'st) outcome" and inv :: "'st \<Rightarrow> bool"
  assumes exec_inv: "inv st \<Longrightarrow> inv (snd (exec c st))"
begin

lemma run_inv: "inv st \<Longrightarrow> inv (run_ops exec cs st)"
  by (induction cs arbitrary: st) (auto intro: exec_inv)

end

text \<open>
  A service whose operations move the status of an entity along a life cycle, or leave it. The
  status of an entity in the state is \<open>status st k\<close>, None while it does not exist.
\<close>

locale tracked_service = lifecycle nxt rank for nxt :: "'a \<Rightarrow> 'a \<Rightarrow> bool" and rank +
  fixes exec :: "'op \<Rightarrow> 'st \<Rightarrow> ('e, 'r, 'st) outcome"
    and status :: "'st \<Rightarrow> 'k \<Rightarrow> 'a option"
  assumes exec_status: "status st k = Some s \<Longrightarrow>
    \<exists>t. status (snd (exec c st)) k = Some t \<and> nxt\<^sup>*\<^sup>* s t"
begin

lemma run_status:
  "status st k = Some s \<Longrightarrow> \<exists>t. status (run_ops exec cs st) k = Some t \<and> nxt\<^sup>*\<^sup>* s t"
proof (induction cs arbitrary: st s)
  case (Cons c cs)
  obtain u where u: "status (snd (exec c st)) k = Some u" "nxt\<^sup>*\<^sup>* s u"
    using exec_status [OF Cons.prems] by blast
  obtain t where "status (run_ops exec cs (snd (exec c st))) k = Some t" "nxt\<^sup>*\<^sup>* u t"
    using Cons.IH [OF u(1)] by blast
  then show ?case using u(2) by (auto intro: rtranclp_trans)
qed auto

lemma run_terminal:
  assumes "status st k = Some s" and "\<And>t. \<not> nxt s t"
  shows "status (run_ops exec cs st) k = Some s"
proof -
  obtain t where t: "status (run_ops exec cs st) k = Some t" "nxt\<^sup>*\<^sup>* s t"
    using run_status [OF assms(1)] by blast
  from t(2) have "t = s" by (metis assms(2) converse_rtranclpE)
  then show ?thesis using t(1) by simp
qed

lemma run_no_return:
  assumes "status st k = Some s" "status (run_ops exec cs st) k = Some t" "t \<noteq> s"
  shows "status (run_ops exec ds (run_ops exec cs st)) k \<noteq> Some s"
proof
  assume a: "status (run_ops exec ds (run_ops exec cs st)) k = Some s"
  have "nxt\<^sup>*\<^sup>* s t" using run_status [OF assms(1), of cs] assms(2) by auto
  moreover have "nxt\<^sup>*\<^sup>* t s" using run_status [OF assms(2), of ds] a by auto
  ultimately show False using star_antisym assms(3) by blast
qed

end

end
