(* ===== verification/JsParse.thy ===== *)
theory JsParse
  imports Prelude
begin

text \<open>
  The conversions from strings to numbers that the program calls: \<open>Number(s)\<close> (the ECMAScript
  StringToNumber conversion, decimal, hexadecimal, octal and binary literals and Infinity) and
  \<open>parseInt(s, 10)\<close>. Their result is a double: not a number, an infinity, or a finite value. The
  operations on such values are the ones the program applies to them.
\<close>

text \<open>
  A parsed row is a map from column names to values: an absent column is None, which the code reads
  as undefined. A string is truthy when it is present and not empty.
\<close>

type_synonym row = "string \<rightharpoonup> string"

fun truthy :: "string option \<Rightarrow> bool" where
  "truthy None = False"
| "truthy (Some s) = (s \<noteq> [])"

datatype jsnum = NaN | PosInf | NegInf | Fin rat

definition radix_digit :: "char \<Rightarrow> nat" where
  "radix_digit c = (let n = (of_char c :: nat) in
     if 48 \<le> n \<and> n \<le> 57 then n - 48
     else if 97 \<le> n \<and> n \<le> 102 then n - 87
     else if 65 \<le> n \<and> n \<le> 70 then n - 55 else 16)"

definition radix_value :: "nat \<Rightarrow> string \<Rightarrow> jsnum" where
  "radix_value b s = (if s \<noteq> [] \<and> list_all (\<lambda>c. radix_digit c < b) s
     then Fin (fl (of_nat (foldl (\<lambda>a c. b * a + radix_digit c) 0 s))) else NaN)"

definition exponent_part :: "string \<Rightarrow> int option" where
  "exponent_part s = (case s of [] \<Rightarrow> Some 0
     | c # r \<Rightarrow> if c \<noteq> CHR ''e'' \<and> c \<noteq> CHR ''E'' then None
         else (let (neg, d) = (case r of [] \<Rightarrow> (False, [])
                 | x # q \<Rightarrow> if x = CHR ''-'' then (True, q) else if x = CHR ''+'' then (False, q)
                           else (False, r))
               in if d \<noteq> [] \<and> all_digits d
                  then Some (if neg then - int (parse_dec d) else int (parse_dec d)) else None))"

definition to_double :: "rat \<Rightarrow> jsnum" where
  "to_double v = (let x = fl v in if 2 ^ 1024 \<le> x then PosInf else Fin x)"

definition unsigned_decimal :: "string \<Rightarrow> jsnum" where
  "unsigned_decimal s = (if s = ''Infinity'' then PosInf else
     let ip = takeWhile is_digit s; r1 = dropWhile is_digit s;
         (fp, r2) = (case r1 of [] \<Rightarrow> ([], r1)
            | c # q \<Rightarrow> if c = CHR ''.'' then (takeWhile is_digit q, dropWhile is_digit q) else ([], r1))
     in if ip = [] \<and> fp = [] then NaN
        else (case exponent_part r2 of None \<Rightarrow> NaN
          | Some e \<Rightarrow> to_double (of_nat (parse_dec (ip @ fp)) * 10 powi (e - int (length fp)))))"

fun n_neg :: "jsnum \<Rightarrow> jsnum" where
  "n_neg NaN = NaN" | "n_neg PosInf = NegInf" | "n_neg NegInf = PosInf" | "n_neg (Fin x) = Fin (- x)"

definition js_number :: "string \<Rightarrow> jsnum" where
  "js_number s = (let t = trim s in
     case t of [] \<Rightarrow> Fin 0
     | c # r \<Rightarrow>
        if c = CHR ''0'' \<and> r \<noteq> [] \<and> lower_char (hd r) = CHR ''x'' then radix_value 16 (tl r)
        else if c = CHR ''0'' \<and> r \<noteq> [] \<and> lower_char (hd r) = CHR ''o'' then radix_value 8 (tl r)
        else if c = CHR ''0'' \<and> r \<noteq> [] \<and> lower_char (hd r) = CHR ''b'' then radix_value 2 (tl r)
        else if c = CHR ''-'' then n_neg (unsigned_decimal r)
        else if c = CHR ''+'' then unsigned_decimal r
        else unsigned_decimal t)"

definition js_parse_int :: "string \<Rightarrow> int option" where
  "js_parse_int s = (let t = dropWhile is_ws s;
     (neg, r) = (case t of [] \<Rightarrow> (False, [])
        | c # q \<Rightarrow> if c = CHR ''-'' then (True, q) else if c = CHR ''+'' then (False, q) else (False, t));
     d = takeWhile is_digit r
     in if d = [] then None else Some (if neg then - int (parse_dec d) else int (parse_dec d)))"

fun n_add :: "jsnum \<Rightarrow> jsnum \<Rightarrow> jsnum" where
  "n_add (Fin a) (Fin b) = Fin (fadd a b)"
| "n_add NaN _ = NaN"
| "n_add _ NaN = NaN"
| "n_add PosInf NegInf = NaN"
| "n_add NegInf PosInf = NaN"
| "n_add PosInf _ = PosInf"
| "n_add NegInf _ = NegInf"
| "n_add _ PosInf = PosInf"
| "n_add _ NegInf = NegInf"

definition n_sub :: "jsnum \<Rightarrow> jsnum \<Rightarrow> jsnum" where "n_sub a b = n_add a (n_neg b)"

fun n_abs :: "jsnum \<Rightarrow> jsnum" where
  "n_abs NaN = NaN" | "n_abs PosInf = PosInf" | "n_abs NegInf = PosInf" | "n_abs (Fin x) = Fin \<bar>x\<bar>"

text \<open>The comparison \<open>a < b\<close>: every comparison with not-a-number is false.\<close>

fun n_lt :: "jsnum \<Rightarrow> jsnum \<Rightarrow> bool" where
  "n_lt (Fin a) (Fin b) = (a < b)"
| "n_lt NaN _ = False"
| "n_lt _ NaN = False"
| "n_lt PosInf _ = False"
| "n_lt _ NegInf = False"
| "n_lt NegInf _ = True"
| "n_lt _ PosInf = True"

fun n_le :: "jsnum \<Rightarrow> jsnum \<Rightarrow> bool" where
  "n_le (Fin a) (Fin b) = (a \<le> b)"
| "n_le NaN _ = False"
| "n_le _ NaN = False"
| "n_le PosInf b = (b = PosInf)"
| "n_le a NegInf = (a = NegInf)"
| "n_le NegInf _ = True"
| "n_le _ PosInf = True"

lemma n_sub_Fin [simp]: "n_sub (Fin a) (Fin b) = Fin (fsub a b)"
  by (simp add: n_sub_def fops)

lemma takeWhile_digits [simp]: "all_digits s \<Longrightarrow> takeWhile is_digit s = s"
  and dropWhile_digits [simp]: "all_digits s \<Longrightarrow> dropWhile is_digit s = []"
  by (auto simp: all_digits_def list_all_iff takeWhile_eq_all_conv)

lemma not_digit_letters: "\<not> is_digit (CHR ''x'')" "\<not> is_digit (CHR ''o'')" "\<not> is_digit (CHR ''b'')"
  "\<not> is_digit (CHR ''-'')" "\<not> is_digit (CHR ''+'')" "\<not> is_digit (CHR ''I'')"
  by (simp_all add: is_digit_def)

lemma lower_char_digit: "is_digit c \<Longrightarrow> lower_char c = c"
  by (auto simp: is_digit_def lower_char_def Let_def)

lemma unsigned_decimal_digits:
  assumes "all_digits s" "s \<noteq> []"
  shows "unsigned_decimal s = to_double (of_nat (parse_dec s))"
proof -
  have "s \<noteq> ''Infinity''" using assms(1) by (auto simp: not_digit_letters)
  then show ?thesis using assms by (simp add: unsigned_decimal_def exponent_part_def)
qed

text \<open>A non-empty string of decimal digits denotes the double nearest to the integer it spells.\<close>

lemma js_number_digits:
  assumes "all_digits s" "s \<noteq> []"
  shows "js_number s = to_double (of_nat (parse_dec s))"
proof -
  obtain c r where s: "s = c # r" using assms(2) by (cases s) auto
  have tr: "trim s = s" using assms(1) by (rule trim_digits)
  have c: "c \<noteq> CHR ''-''" "c \<noteq> CHR ''+''" using assms(1) s not_digit_letters by auto
  have h: "lower_char (hd r) \<notin> {CHR ''x'', CHR ''o'', CHR ''b''}" if "r \<noteq> []"
  proof -
    have "is_digit (hd r)" using assms(1) s that by (cases r) auto
    then show ?thesis using not_digit_letters by (auto simp: lower_char_digit)
  qed
  show ?thesis using unsigned_decimal_digits [OF assms] c h
    by (auto simp: js_number_def tr [unfolded s] Let_def s)
qed

lemma js_parse_int_digits:
  assumes "all_digits s" "s \<noteq> []"
  shows "js_parse_int s = Some (int (parse_dec s))"
proof -
  obtain c r where s: "s = c # r" using assms(2) by (cases s) auto
  have c: "is_digit c" using assms(1) s by simp
  have "dropWhile is_ws s = s" using digit_not_ws [OF c] by (simp add: s)
  moreover have "c \<noteq> CHR ''-''" "c \<noteq> CHR ''+''" using c not_digit_letters by auto
  ultimately show ?thesis using assms takeWhile_digits [OF assms(1)]
    by (simp add: js_parse_int_def s Let_def del: takeWhile.simps)
qed

text \<open>Whole numbers below two to the power 53 are read without loss.\<close>

lemma to_double_small:
  assumes "n < 2 ^ 53"
  shows "to_double (of_nat n) = Fin (of_nat n)"
proof -
  have "int n < int (2 ^ 53)" using assms by (simp only: of_nat_less_iff)
  then have "\<bar>int n\<bar> \<le> 2 ^ 53" by simp
  then have "fl (of_nat n) = of_nat n" using fl_of_int [of "int n"] by simp
  moreover have "(of_nat n :: rat) < of_nat (2 ^ 53)" using assms by (simp only: of_nat_less_iff)
  moreover have "(2 :: rat) ^ 53 \<le> 2 ^ 1024" by (rule power_increasing) simp_all
  ultimately show ?thesis by (simp add: to_double_def Let_def)
qed

lemma js_number_whole:
  assumes "all_digits s" "s \<noteq> []" "parse_dec s < 2 ^ 53"
  shows "js_number s = Fin (of_nat (parse_dec s))"
  using js_number_digits [OF assms(1,2)] to_double_small [OF assms(3)] by simp

end
