(* ===== verification/IngestionValidators.thy ===== *)
theory IngestionValidators
  imports JsParse
begin

text \<open>
  The ingestion gate of \<open>backend/src/modules/submissions/ingestion-validators.ts\<close> and the scope check
  of \<open>backend/src/common/section29.ts\<close>: identifier formats, check digits, arithmetic consistency of
  balances, and the provider types that may file. A row is a map from column names to values; an
  absent column is None, which the code reads as undefined.
\<close>

datatype integrity_msg = NoIdentifier | BvnNot11Digits | NubanCheckFails | BalancesInconsistent
  | BvnModulo11Fails

definition digits_of :: "string option \<Rightarrow> string" where
  "digits_of s = digits_only (case s of None \<Rightarrow> [] | Some t \<Rightarrow> t)"

definition is_valid_bvn_format :: "string option \<Rightarrow> bool" where
  "is_valid_bvn_format bvn \<longleftrightarrow> length (digits_of bvn) = 11"

definition bvn_modulo11_check_digit :: "string \<Rightarrow> nat option" where
  "bvn_modulo11_check_digit first10 = (let d = digits_only first10 in
     if length d \<noteq> 10 then None
     else (let sum = sum_list (map (\<lambda>i. digit_val (d ! i) * (i + 2)) [0..<10]); rem = sum mod 11
           in Some (if rem = 10 then 0 else rem)))"

definition is_valid_bvn_modulo11 :: "string option \<Rightarrow> bool" where
  "is_valid_bvn_modulo11 bvn = (let d = digits_of bvn in
     if length d \<noteq> 11 then False
     else (case bvn_modulo11_check_digit (take 10 d) of
             None \<Rightarrow> False | Some e \<Rightarrow> e = digit_val (d ! 10)))"

definition nuban_weights :: "nat list" where
  "nuban_weights = [3, 7, 3, 3, 7, 3, 3, 7, 3, 3, 7, 3]"

definition nuban_check_digit :: "string \<Rightarrow> string \<Rightarrow> nat option" where
  "nuban_check_digit bank_code serial9 = (let bc = digits_only bank_code; sr = digits_only serial9 in
     if length bc \<noteq> 3 \<or> length sr \<noteq> 9 then None
     else (let seed = bc @ sr;
               sum = sum_list (map (\<lambda>i. digit_val (seed ! i) * nuban_weights ! i) [0..<12]);
               check = 10 - sum mod 10
           in Some (if check = 10 then 0 else check)))"

definition is_valid_nuban :: "string option \<Rightarrow> string option \<Rightarrow> bool" where
  "is_valid_nuban account bank_code = (let acct = digits_of account; bc = digits_of bank_code in
     if length acct \<noteq> 10 then False
     else if length bc \<noteq> 3 then True
     else (case nuban_check_digit bc (take 9 acct) of
             None \<Rightarrow> True | Some e \<Rightarrow> e = digit_val (acct ! 9)))"

definition is_arithmetically_consistent :: "row \<Rightarrow> rat \<Rightarrow> bool" where
  "is_arithmetically_consistent r tolerance =
     (let vs = map r [''openingBalance'', ''totalInflow'', ''totalOutflow'', ''closingBalance''] in
      if list_ex (\<lambda>v. \<not> truthy v) vs then True
      else (let ns = map (\<lambda>v. js_number (the v)) vs;
                opening = ns ! 0; inflow = ns ! 1; outflow = ns ! 2; closing = ns ! 3
            in if list_ex (\<lambda>n. n = NaN) ns then True
               else n_le (n_abs (n_sub (n_sub (n_add opening inflow) outflow) closing)) (Fin tolerance)))"

definition validate_ingestion_row :: "row \<Rightarrow> string \<Rightarrow> string option \<Rightarrow> integrity_msg list" where
  "validate_ingestion_row r provider_type bank_code =
     (if \<not> truthy (r ''bvn'') \<and> \<not> truthy (r ''nin'') \<and> \<not> truthy (r ''accountName'')
      then [NoIdentifier] else []) @
     (if truthy (r ''bvn'') \<and> \<not> is_valid_bvn_format (r ''bvn'') then [BvnNot11Digits] else []) @
     (let expects_nuban = (provider_type = ''BANK'' \<or> provider_type = ''FINTECH'') in
      if expects_nuban \<and> truthy (r ''accountNumber'') \<and> \<not> is_valid_nuban (r ''accountNumber'') bank_code
      then [NubanCheckFails] else []) @
     (if \<not> is_arithmetically_consistent r 1 then [BalancesInconsistent] else [])"

definition section29_provider_types :: "string list" where
  "section29_provider_types =
     [''BANK'', ''FINTECH'', ''PAYMENT_PROCESSOR'', ''FX_BUREAU'', ''POS_AGGREGATOR'', ''INSURANCE'']"

definition is_section29_provider_type :: "string option \<Rightarrow> bool" where
  "is_section29_provider_type t = (case t of None \<Rightarrow> False | Some s \<Rightarrow> s \<in> set section29_provider_types)"

text \<open>The assertion throws when the provider type is out of scope: the thrown type is the error.\<close>

definition assert_section29_provider_type :: "string option \<Rightarrow> string option + unit" where
  "assert_section29_provider_type t = (if is_section29_provider_type t then Inr () else Inl t)"

subsection \<open>Weighted digit sums\<close>

definition wsum :: "string \<Rightarrow> (nat \<Rightarrow> nat) \<Rightarrow> nat" where
  "wsum s w = (\<Sum>i<length s. digit_val (s ! i) * w i)"

lemma sum_list_upt: "sum_list (map f [0..<n]) = (\<Sum>i<n. f i)"
  by (simp add: interv_sum_list_conv_sum_set_nat lessThan_atLeast0)

lemma wsum_update:
  assumes "i < length s"
  shows "wsum (s[i := c]) w + digit_val (s ! i) * w i = wsum s w + digit_val c * w i"
proof -
  have split: "wsum t w = digit_val (t ! i) * w i + (\<Sum>j\<in>{..<length s} - {i}. digit_val (t ! j) * w j)"
    if "length t = length s" for t
    unfolding wsum_def using that assms by (simp add: sum.remove)
  have "(\<Sum>j\<in>{..<length s} - {i}. digit_val (s[i := c] ! j) * w j) =
        (\<Sum>j\<in>{..<length s} - {i}. digit_val (s ! j) * w j)"
    by (rule sum.cong) auto
  then show ?thesis using split [of "s[i := c]"] split [of s] assms by simp
qed

lemma sum_list_wsum:
  "length s = n \<Longrightarrow> sum_list (map (\<lambda>i. digit_val (s ! i) * w i) [0..<n]) = wsum s w"
  by (simp only: wsum_def sum_list_upt)

lemma nuban_check_digit_eq:
  assumes "all_digits bc" "length bc = 3" "all_digits sr" "length sr = 9"
  shows "nuban_check_digit bc sr = Some ((10 - wsum (bc @ sr) ((!) nuban_weights) mod 10) mod 10)"
proof -
  have len: "length (bc @ sr) = 12" using assms by simp
  have mod: "(if 10 - m = 10 then 0 else 10 - m) = (10 - m) mod 10" if "m < 10" for m :: nat
    using that by auto
  show ?thesis
    unfolding nuban_check_digit_def digits_only_id [OF assms(1)] digits_only_id [OF assms(3)]
      Let_def sum_list_wsum [OF len]
    by (simp add: assms(2,4) mod)
qed

lemma bvn_check_digit_eq:
  assumes "all_digits s" "length s = 10"
  shows "bvn_modulo11_check_digit s =
    Some (let r = wsum s (\<lambda>i. i + 2) mod 11 in if r = 10 then 0 else r)"
  unfolding bvn_modulo11_check_digit_def digits_only_id [OF assms(1)] Let_def
    sum_list_wsum [OF assms(2)]
  by (simp add: assms(2))

lemma weight_3_7: "i < 12 \<Longrightarrow> nuban_weights ! i = 3 \<or> nuban_weights ! i = 7"
proof -
  assume "i < 12"
  then have "nuban_weights ! i \<in> set nuban_weights" by (intro nth_mem) (simp add: nuban_weights_def)
  then show ?thesis by (auto simp: nuban_weights_def)
qed

lemma mod10_shift:
  fixes a b x y w :: nat
  assumes eq: "a + x * w = b + y * w" and lt: "x < 10" "y < 10" and w: "w = 3 \<or> w = 7"
    and ab: "a mod 10 = b mod 10"
  shows "x = y"
proof -
  have "(10::int) dvd int b - int a"
    using ab by (metis mod_eq_dvd_iff of_nat_mod of_nat_numeral)
  moreover have "int a + int x * int w = int b + int y * int w"
    using eq by (simp flip: of_nat_mult of_nat_add)
  then have "int b - int a = (int x - int y) * int w" by (simp add: left_diff_distrib)
  moreover have "coprime (10::int) (int w)"
  proof -
    have "coprime (10::int) 3" "coprime (10::int) 7" by code_simp+
    then show ?thesis using w by auto
  qed
  ultimately have "(10::int) dvd int x - int y" by (simp add: coprime_dvd_mult_left_iff)
  then show ?thesis using lt by presburger
qed

lemma check_mod_inj:
  fixes a b :: nat
  assumes "(10 - a mod 10) mod 10 = (10 - b mod 10) mod 10"
  shows "a mod 10 = b mod 10"
proof -
  have inj: "p = q" if "(10 - p) mod 10 = (10 - q) mod 10" "p < 10" "q < 10" for p q :: nat
    using that by (cases "p = 0"; cases "q = 0") auto
  show ?thesis by (rule inj [OF assms]) simp_all
qed

subsection \<open>Acceptance on well-formed identifiers\<close>

lemma digits_of_Some: "all_digits s \<Longrightarrow> digits_of (Some s) = s"
  by (simp add: digits_of_def digits_only_id)

lemma is_valid_nuban_eq:
  assumes "all_digits acct" "length acct = 10" "all_digits bank" "length bank = 3"
  shows "is_valid_nuban (Some acct) (Some bank) \<longleftrightarrow>
    (10 - wsum (bank @ take 9 acct) ((!) nuban_weights) mod 10) mod 10 = digit_val (acct ! 9)"
proof -
  have "all_digits (take 9 acct)" "length (take 9 acct) = 9"
    using assms(1,2) by (auto simp: all_digits_def list_all_iff dest: in_set_takeD)
  then show ?thesis using assms nuban_check_digit_eq [of bank "take 9 acct"]
    by (simp add: is_valid_nuban_def digits_of_Some Let_def)
qed

lemma all_digits_nth: "all_digits s \<Longrightarrow> i < length s \<Longrightarrow> is_digit (s ! i)"
  by (simp add: all_digits_def list_all_length)

lemma all_digits_update: "all_digits s \<Longrightarrow> is_digit c \<Longrightarrow> all_digits (s[i := c])"
  by (auto simp: all_digits_def list_all_iff dest: subsetD [OF set_update_subset_insert])

lemma digit_val_inj: "is_digit c \<Longrightarrow> is_digit d \<Longrightarrow> digit_val c = digit_val d \<Longrightarrow> c = d"
  by (metis digit_char_val)

text \<open>
  The NUBAN check digit detects every single-digit mistake: when a ten-digit account number
  passes the check against a three-digit bank code, the number with any one of its ten digits
  replaced by another digit fails it.
\<close>

theorem nuban_detects_digit_error:
  assumes bank: "all_digits bank" "length bank = 3"
    and acct: "all_digits acct" "length acct = 10"
    and ok: "is_valid_nuban (Some acct) (Some bank)"
    and i: "i < 10" and c: "is_digit c" "c \<noteq> acct ! i"
  shows "\<not> is_valid_nuban (Some (acct[i := c])) (Some bank)"
proof
  assume ok': "is_valid_nuban (Some (acct[i := c])) (Some bank)"
  let ?s = "bank @ take 9 acct" and ?w = "(!) nuban_weights"
  have acct': "all_digits (acct[i := c])" "length (acct[i := c]) = 10"
    using acct c by (auto simp: all_digits_update)
  have e: "(10 - wsum ?s ?w mod 10) mod 10 = digit_val (acct ! 9)"
    and e': "(10 - wsum (bank @ take 9 (acct[i := c])) ?w mod 10) mod 10 = digit_val (acct[i := c] ! 9)"
    using ok ok' is_valid_nuban_eq [OF acct bank] is_valid_nuban_eq [OF acct' bank] by auto
  show False
  proof (cases "i = 9")
    case True
    then have "digit_val c = digit_val (acct ! 9)" using e e' acct by simp
    then show False using c True acct by (metis all_digits_nth digit_val_inj i)
  next
    case False
    then have i9: "i < 9" using i by simp
    let ?j = "i + 3"
    have j: "?j < length ?s" "?s ! ?j = acct ! i" using i9 bank acct by (simp_all add: nth_append)
    have upd: "bank @ take 9 (acct[i := c]) = ?s[?j := c]"
      using bank i9 by (simp add: list_update_append take_update_swap)
    have last: "acct[i := c] ! 9 = acct ! 9" using False by simp
    have "wsum (?s[?j := c]) ?w mod 10 = wsum ?s ?w mod 10"
      by (rule check_mod_inj) (simp only: e e' upd [symmetric] last)
    then have m: "wsum ?s ?w mod 10 = wsum (?s[?j := c]) ?w mod 10" ..
    have u: "wsum ?s ?w + digit_val c * ?w ?j = wsum (?s[?j := c]) ?w + digit_val (acct ! i) * ?w ?j"
      using wsum_update [OF j(1), of c ?w] j(2) by simp
    have "digit_val (acct ! i) < 10" "digit_val c < 10"
      using c acct i all_digits_nth [of acct i] digit_val_lt by auto
    then have "digit_val c = digit_val (acct ! i)"
      using mod10_shift [OF u _ _ _ m] weight_3_7 [of ?j] i9 by auto
    then show False using c acct i by (metis all_digits_nth digit_val_inj)
  qed
qed

theorem nuban_detects_digit_error_witness:
  "\<not> is_valid_nuban (Some (''0123456785''[4 := CHR ''9''])) (Some ''058'')"
  by (rule nuban_detects_digit_error) code_simp+

text \<open>
  The modulo-11 scheme for the BVN gives the tenth digit the weight eleven, so that digit does
  not take part in the check: replacing it by any digit never changes the verdict.
\<close>

theorem bvn_tenth_digit_unchecked:
  assumes "all_digits bvn" "length bvn = 11" "is_digit c"
  shows "is_valid_bvn_modulo11 (Some (bvn[9 := c])) = is_valid_bvn_modulo11 (Some bvn)"
proof -
  let ?w = "\<lambda>i::nat. i + 2"
  have d: "all_digits (take 10 bvn)" "length (take 10 bvn) = 10" "take 10 bvn ! 9 = bvn ! 9"
    using assms by (auto simp: all_digits_def list_all_iff dest: in_set_takeD)
  have d': "all_digits ((take 10 bvn)[9 := c])" "length ((take 10 bvn)[9 := c]) = 10"
    using d assms by (auto simp: all_digits_update)
  have "wsum ((take 10 bvn)[9 := c]) ?w + digit_val (bvn ! 9) * 11 = wsum (take 10 bvn) ?w + digit_val c * 11"
    using wsum_update [of 9 "take 10 bvn" c ?w] d by simp
  then have m: "wsum ((take 10 bvn)[9 := c]) ?w mod 11 = wsum (take 10 bvn) ?w mod 11"
    by (metis mod_mult_self1)
  have t: "take 10 (bvn[9 := c]) = (take 10 bvn)[9 := c]" by (simp add: take_update_swap)
  show ?thesis
    using assms d d' bvn_check_digit_eq [OF d(1,2)] bvn_check_digit_eq [OF d'] m
    by (simp add: is_valid_bvn_modulo11_def digits_of_Some all_digits_update Let_def t)
qed

theorem bvn_tenth_digit_unchecked_witness:
  "is_valid_bvn_modulo11 (Some (''22345678901''[9 := CHR ''7''])) = is_valid_bvn_modulo11 (Some ''22345678901'')"
  by (rule bvn_tenth_digit_unchecked) code_simp+

subsection \<open>Balances\<close>

definition whole_amount :: "string option \<Rightarrow> nat \<Rightarrow> bool" where
  "whole_amount v n \<longleftrightarrow> (\<exists>s. v = Some s \<and> s \<noteq> [] \<and> all_digits s \<and> parse_dec s = n \<and> n < 2 ^ 50)"

lemma whole_amount_facts:
  assumes "whole_amount v n"
  shows "truthy v" and "js_number (the v) = Fin (of_nat n)"
proof -
  obtain s where s: "v = Some s" "s \<noteq> []" "all_digits s" "parse_dec s = n" "n < 2 ^ 50"
    using assms by (auto simp: whole_amount_def)
  then show "truthy v" by simp
  have "n < 2 ^ 53" using s(5) by simp
  then show "js_number (the v) = Fin (of_nat n)"
    using s to_double_small js_number_digits by simp
qed

lemma fl_small_int: "\<bar>i\<bar> \<le> (2::int) ^ 53 \<Longrightarrow> x = of_int i \<Longrightarrow> fl x = x"
  using fl_of_int by simp

text \<open>
  The balance gate is exact on whole amounts: when the four balances are written as digits and
  are below two to the power 50, the double arithmetic of the check loses nothing, and the row
  passes exactly when opening plus inflow minus outflow is within one naira of closing.
\<close>

theorem balance_gate_exact:
  assumes "whole_amount (r ''openingBalance'') opening" "whole_amount (r ''totalInflow'') inflow"
    "whole_amount (r ''totalOutflow'') outflow" "whole_amount (r ''closingBalance'') closing"
  shows "is_arithmetically_consistent r 1 \<longleftrightarrow>
    \<bar>int opening + int inflow - int outflow - int closing\<bar> \<le> 1"
proof -
  note f = whole_amount_facts [OF assms(1)] whole_amount_facts [OF assms(2)]
    whole_amount_facts [OF assms(3)] whole_amount_facts [OF assms(4)]
  have b: "int opening < 2 ^ 50" "int inflow < 2 ^ 50" "int outflow < 2 ^ 50" "int closing < 2 ^ 50"
    using assms by (auto simp: whole_amount_def)
  let ?s1 = "int opening + int inflow" and ?s2 = "int opening + int inflow - int outflow"
  let ?s3 = "int opening + int inflow - int outflow - int closing"
  have e1: "fadd (of_nat opening) (of_nat inflow) = of_int ?s1"
    unfolding fops using b by (subst fl_small_int [of ?s1]) simp_all
  have e2: "fsub (of_int ?s1) (of_nat outflow) = of_int ?s2"
    unfolding fops using b by (subst fl_small_int [of ?s2]) simp_all
  have e3: "fsub (of_int ?s2) (of_nat closing) = of_int ?s3"
    unfolding fops using b by (subst fl_small_int [of ?s3]) simp_all
  have "n_sub (n_sub (n_add (Fin (of_nat opening)) (Fin (of_nat inflow))) (Fin (of_nat outflow)))
      (Fin (of_nat closing)) = Fin (of_int ?s3)"
    by (simp only: n_add.simps n_sub_Fin e1 e2 e3)
  then have "is_arithmetically_consistent r 1 \<longleftrightarrow> \<bar>of_int ?s3 :: rat\<bar> \<le> 1"
    using f by (simp add: is_arithmetically_consistent_def Let_def numeral_2_eq_2 numeral_3_eq_3)
  also have "\<dots> \<longleftrightarrow> \<bar>?s3\<bar> \<le> 1" by (simp only: of_int_abs [symmetric] of_int_le_1_iff)
  finally show ?thesis .
qed

theorem balance_gate_exact_witness:
  "is_arithmetically_consistent [''openingBalance'' \<mapsto> ''100'', ''totalInflow'' \<mapsto> ''50'',
     ''totalOutflow'' \<mapsto> ''30'', ''closingBalance'' \<mapsto> ''120''] 1 \<longleftrightarrow>
   \<bar>int 100 + int 50 - int 30 - int 120\<bar> \<le> 1"
  by (rule balance_gate_exact)
     (simp_all add: whole_amount_def parse_dec_def digit_val_def is_digit_def)

end
