(* ===== verification/CsvText.thy ===== *)
theory CsvText
  imports JsParse
begin

text \<open>
  CSV text. The reader is \<open>splitCsvLine\<close> and \<open>parseCsvText\<close> of
  \<open>backend/src/modules/submissions/submission-parser.ts\<close>, the writer is \<open>toCsv\<close> of
  \<open>backend/src/modules/iris-upload/import-plan.ts\<close>, and \<open>csvField\<close>, \<open>plainNumber\<close> and \<open>cellText\<close> of
  \<open>spreadsheet-to-csv.ts\<close> turn the cells of a workbook into fields. A parsed row is a map from headers to values.
  The byte order mark that the reader drops is not a Latin-1 code unit, so it does not occur here.
\<close>

abbreviation dq :: char where "dq \<equiv> CHR 0x22"
abbreviation comma :: char where "comma \<equiv> CHR 0x2C"
abbreviation nl :: char where "nl \<equiv> CHR 0x0A"
abbreviation cr :: char where "cr \<equiv> CHR 0x0D"

subsection \<open>The reader\<close>

text \<open>The loop of \<open>splitCsvLine\<close>: the flag is \<open>inQuotes\<close>, the second argument the field read so far.\<close>

fun csv_scan :: "bool \<Rightarrow> string \<Rightarrow> string \<Rightarrow> string list" where
  "csv_scan q field [] = [trim field]"
| "csv_scan True field (c # cs) =
     (if c = dq then
        (case cs of d # ds \<Rightarrow> if d = dq then csv_scan True (field @ [dq]) ds else csv_scan False field cs
         | [] \<Rightarrow> csv_scan False field [])
      else csv_scan True (field @ [c]) cs)"
| "csv_scan False field (c # cs) =
     (if c = dq then csv_scan True field cs
      else if c = comma then trim field # csv_scan False [] cs
      else csv_scan False (field @ [c]) cs)"

definition split_csv_line :: "string \<Rightarrow> string list" where
  "split_csv_line line = csv_scan False [] line"

definition split_lines :: "string \<Rightarrow> string list" where
  "split_lines t = (let ps = split_on nl t in
     map (\<lambda>p. if p \<noteq> [] \<and> last p = cr then butlast p else p) (butlast ps) @ [last ps])"

definition numbered_lines :: "string \<Rightarrow> (string \<times> nat) list" where
  "numbered_lines t = filter (\<lambda>l. fst l \<noteq> [] \<and> hd (fst l) \<noteq> CHR ''#'')
     (map (\<lambda>(n, l). (trim l, n)) (enumerate 1 (split_lines t)))"

definition row_of :: "string list \<Rightarrow> string list \<Rightarrow> row" where
  "row_of headers values = foldl (\<lambda>r (i, h). r(h \<mapsto> (if i < length values then values ! i else [])))
     Map.empty (enumerate 0 headers)"

record parsed_csv =
  csv_headers :: "string list"
  csv_rows :: "row list"
  csv_line_numbers :: "nat list"

definition parse_csv_text :: "string \<Rightarrow> parsed_csv" where
  "parse_csv_text t = (case numbered_lines t of
     [] \<Rightarrow> \<lparr>csv_headers = [], csv_rows = [], csv_line_numbers = []\<rparr>
   | h # body \<Rightarrow>
       (let headers = map trim (split_csv_line (fst h));
            kept = filter (\<lambda>(vs, n). \<not> list_all (\<lambda>v. trim v = []) vs)
                     (map (\<lambda>(l, n). (split_csv_line l, n)) body)
        in \<lparr>csv_headers = headers, csv_rows = map (\<lambda>(vs, n). row_of headers vs) kept,
            csv_line_numbers = map snd kept\<rparr>))"

subsection \<open>The writer\<close>

definition csv_escape :: "string \<Rightarrow> string" where
  "csv_escape v = (if list_ex (\<lambda>c. c = dq \<or> c = comma \<or> c = nl) v
     then [dq] @ concat (map (\<lambda>c. if c = dq then [dq, dq] else [c]) v) @ [dq] else v)"

definition cell_of :: "row \<Rightarrow> string \<Rightarrow> string" where
  "cell_of r h = (case r h of None \<Rightarrow> [] | Some v \<Rightarrow> v)"

definition to_csv :: "string list \<Rightarrow> row list \<Rightarrow> string" where
  "to_csv headers rows = join [nl] (join [comma] headers #
     map (\<lambda>r. join [comma] (map (\<lambda>h. csv_escape (cell_of r h)) headers)) rows)"

subsection \<open>Workbook cells\<close>

text \<open>
  The values a cell can hold. Numbers in cells are doubles; \<open>String(n)\<close> of a number that is not an
  integer below ten to the 21 is the parameter \<open>num_str\<close>. Dates are given by year, month and day.
\<close>

datatype formula_result = FDate nat nat nat | FNumber rat | FNone | FError | FText string

datatype cell_value = VNull | VDate nat nat nat | VNumber rat | VBool bool | VString string
  | VRichText "string list" | VFormula formula_result | VText string | VError

definition iso_date_text :: "nat \<Rightarrow> nat \<Rightarrow> nat \<Rightarrow> string" where
  "iso_date_text y m d = dec_str y @ ''-'' @ pad2 m @ ''-'' @ pad2 d"

definition pad_start :: "nat \<Rightarrow> string \<Rightarrow> string" where
  "pad_start n s = replicate (n - length s) (CHR ''0'') @ s"

definition plain_number :: "(rat \<Rightarrow> string) \<Rightarrow> rat \<Rightarrow> string" where
  "plain_number num_str x = (if x = of_int \<lfloor>x\<rfloor> \<and> \<bar>x\<bar> < 10 ^ 21
     then (if x < 0 then ''-'' @ dec_str (nat \<lfloor>- x\<rfloor>) else dec_str (nat \<lfloor>x\<rfloor>)) else num_str x)"

definition cell_text :: "(rat \<Rightarrow> string) \<Rightarrow> string option \<Rightarrow> cell_value \<Rightarrow> string" where
  "cell_text num_str num_fmt v = (case v of
     VNull \<Rightarrow> []
   | VDate y m d \<Rightarrow> iso_date_text y m d
   | VNumber x \<Rightarrow>
       (let fmt = (case num_fmt of None \<Rightarrow> [] | Some f \<Rightarrow> trim f) in
        if 2 \<le> length fmt \<and> list_all (\<lambda>c. c = CHR ''0'') fmt \<and> x = of_int \<lfloor>x\<rfloor> \<and> 0 \<le> x
        then pad_start (length fmt) (plain_number num_str x) else plain_number num_str x)
   | VBool b \<Rightarrow> (if b then ''TRUE'' else ''FALSE'')
   | VString s \<Rightarrow> s
   | VRichText parts \<Rightarrow> concat parts
   | VFormula r \<Rightarrow> (case r of FDate y m d \<Rightarrow> iso_date_text y m d | FNumber x \<Rightarrow> plain_number num_str x
        | FNone \<Rightarrow> [] | FError \<Rightarrow> [] | FText s \<Rightarrow> s)
   | VText s \<Rightarrow> s
   | VError \<Rightarrow> [])"

definition csv_field :: "string \<Rightarrow> string" where
  "csv_field s = (let clean = filter (\<lambda>c. c \<noteq> CHR 0x00) s in
     if list_ex (\<lambda>c. c = dq \<or> c = comma \<or> c = cr \<or> c = nl) clean
     then [dq] @ concat (map (\<lambda>c. if c = dq then [dq, dq] else [c]) clean) @ [dq] else clean)"

text \<open>
  \<open>xlsxToCsvText\<close> after the workbook is loaded: the sheets with rows in order, each a width and the
  rows that are not empty, each row its cells with their number formats.
\<close>

datatype xlsx_error = XlsxTooLarge | XlsxNotReadable | XlsxNoData

definition sheet_csv ::
  "(rat \<Rightarrow> string) \<Rightarrow> nat \<Rightarrow> (cell_value \<times> string option) list list \<Rightarrow> string" where
  "sheet_csv num_str width rows = join [nl] (map (join [comma]) (filter (list_ex (\<lambda>x. x \<noteq> []))
     (map (\<lambda>r. map (\<lambda>c. if c < length r
          then csv_field (trim (cell_text num_str (snd (r ! c)) (fst (r ! c)))) else csv_field (trim []))
        [0..<width]) rows)))"

definition max_xlsx_bytes :: nat where "max_xlsx_bytes = 15 * 1024 * 1024"

definition xlsx_to_csv_text :: "(rat \<Rightarrow> string) \<Rightarrow> nat \<Rightarrow>
    (string \<times> nat \<times> (cell_value \<times> string option) list list) list option \<Rightarrow>
    xlsx_error + (string \<times> string \<times> string list)" where
  "xlsx_to_csv_text num_str bytes workbook =
     (if max_xlsx_bytes < bytes then Inl XlsxTooLarge
      else (case workbook of None \<Rightarrow> Inl XlsxNotReadable
        | Some sheets \<Rightarrow>
            (case filter (\<lambda>(name, width, rows). rows \<noteq> []) sheets of
               [] \<Rightarrow> Inl XlsxNoData
             | (name, width, rows) # others \<Rightarrow> Inr (sheet_csv num_str width rows, name, map fst others))))"

subsection \<open>Reading one written line\<close>

lemma scan_plain:
  "(\<forall>c\<in>set v. c \<noteq> dq \<and> c \<noteq> comma) \<Longrightarrow> csv_scan False acc (v @ rest) = csv_scan False (acc @ v) rest"
  by (induction v arbitrary: acc) auto

lemma scan_quoted:
  assumes "rest = [] \<or> hd rest \<noteq> dq"
  shows "csv_scan True acc (concat (map (\<lambda>c. if c = dq then [dq, dq] else [c]) v) @ dq # rest) =
    csv_scan False (acc @ v) rest"
proof (induction v arbitrary: acc)
  case Nil
  then show ?case using assms by (cases rest) auto
qed auto

lemma scan_escape:
  assumes "rest = [] \<or> hd rest = comma"
  shows "csv_scan False [] (csv_escape v @ rest) = csv_scan False v rest"
proof (cases "list_ex (\<lambda>c. c = dq \<or> c = comma \<or> c = nl) v")
  case True
  have "rest = [] \<or> hd rest \<noteq> dq" using assms by auto
  from scan_quoted [OF this, of "[]" v] True show ?thesis by (simp add: csv_escape_def)
next
  case False
  then have "\<forall>c\<in>set v. c \<noteq> dq \<and> c \<noteq> comma" by (auto simp: list_ex_iff)
  from scan_plain [OF this, of "[]" rest] False show ?thesis by (simp add: csv_escape_def)
qed

lemma csv_line_roundtrip_lemma:
  assumes "fs \<noteq> []" and "\<forall>f\<in>set fs. trim f = f"
  shows "split_csv_line (join [comma] (map csv_escape fs)) = fs"
  unfolding split_csv_line_def using assms
proof (induction fs)
  case (Cons f fs)
  show ?case
  proof (cases fs)
    case Nil
    then show ?thesis using Cons.prems scan_escape [of "[]" f] by simp
  next
    case (Cons g gs)
    then have "csv_scan False [] (join [comma] (map csv_escape fs)) = fs" using Cons.IH Cons.prems by simp
    then show ?thesis
      using Cons Cons.prems scan_escape [of "comma # join [comma] (map csv_escape fs)" f]
      by (simp add: join_Cons)
  qed
qed simp

subsection \<open>Reading a written file\<close>

definition clean_edges :: "string \<Rightarrow> bool" where
  "clean_edges s \<longleftrightarrow> s = [] \<or> (\<not> is_ws (hd s) \<and> \<not> is_ws (last s))"

lemma clean_edges_trim: "clean_edges s \<Longrightarrow> trim s = s"
  by (cases s rule: rev_cases) (auto simp: clean_edges_def trim_def dropWhile_id)

lemma trim_clean_edges: "clean_edges (trim s)"
proof (cases "trim s = []")
  case False
  let ?d = "dropWhile is_ws s"
  have d: "?d \<noteq> []"
  proof
    assume "?d = []"
    then have "trim s = []" unfolding trim_def by (simp only: rev.simps dropWhile.simps)
    then show False using False by simp
  qed
  then have h: "\<not> is_ws (hd ?d)" by (rule hd_dropWhile)
  have "hd (trim s) = hd ?d" unfolding trim_def using hd_rev_dropWhile [of ?d is_ws] d h by blast
  moreover have "dropWhile is_ws (rev ?d) \<noteq> []" using False by (simp add: trim_def)
  then have "\<not> is_ws (hd (dropWhile is_ws (rev ?d)))" by (rule hd_dropWhile)
  then have "\<not> is_ws (last (trim s))" using False by (simp add: trim_def last_rev)
  ultimately show ?thesis using h by (simp add: clean_edges_def)
qed (simp add: clean_edges_def)

lemma trim_eq_iff: "trim s = s \<longleftrightarrow> clean_edges s"
  by (metis clean_edges_trim trim_clean_edges)

lemma not_ws_marks: "\<not> is_ws dq" "\<not> is_ws comma" "is_ws cr" "is_ws nl"
  by (simp_all add: is_ws_def ws_chars_def)

lemma clean_edges_escape: "clean_edges v \<Longrightarrow> clean_edges (csv_escape v)"
  by (auto simp: csv_escape_def clean_edges_def not_ws_marks)

lemma clean_edges_join: "(\<forall>x\<in>set xs. clean_edges x) \<Longrightarrow> clean_edges (join [comma] xs)"
proof (induction xs)
  case (Cons x xs)
  then show ?case
    by (cases "xs = []") (auto simp: clean_edges_def join_Cons not_ws_marks hd_append)
qed (simp add: clean_edges_def)

lemma set_join: "set (join sep xs) \<subseteq> set sep \<union> (\<Union>x\<in>set xs. set x)"
  by (induction sep xs rule: join.induct) auto

lemma nl_escape: "nl \<notin> set v \<Longrightarrow> nl \<notin> set (csv_escape v)"
  by (auto simp: csv_escape_def)

lemma nl_join: "(\<forall>x\<in>set xs. nl \<notin> set x) \<Longrightarrow> nl \<notin> set (join [comma] xs)"
  using set_join [of "[comma]" xs] by auto

definition plain_line :: "string \<Rightarrow> bool" where
  "plain_line l \<longleftrightarrow> l \<noteq> [] \<and> clean_edges l \<and> nl \<notin> set l \<and> hd l \<noteq> CHR ''#''"

lemma numbered_lines_join:
  assumes "ls \<noteq> []" and "\<forall>l\<in>set ls. plain_line l"
  shows "numbered_lines (join [nl] ls) = zip ls [1..<Suc (length ls)]"
proof -
  have split: "split_on nl (join [nl] ls) = ls"
    using assms by (intro split_join) (auto simp: plain_line_def)
  have "last p \<noteq> cr" if "p \<in> set ls" for p
    using assms(2) that not_ws_marks(3) by (auto simp: plain_line_def clean_edges_def)
  then have "map (\<lambda>p. if p \<noteq> [] \<and> last p = cr then butlast p else p) (butlast ls) = butlast ls"
    by (intro map_idI) (auto dest: in_set_butlastD)
  then have lines: "split_lines (join [nl] ls) = ls"
    using assms(1) by (simp add: split_lines_def split Let_def)
  have trimmed: "map (\<lambda>(n, l). (trim l, n)) (enumerate 1 ls) = zip ls [1..<Suc (length ls)]"
  proof (rule nth_equalityI)
    fix i assume "i < length (map (\<lambda>(n, l). (trim l, n)) (enumerate 1 ls))"
    then have "i < length ls" by simp
    moreover have "trim (ls ! i) = ls ! i"
      using assms(2) calculation by (auto simp: plain_line_def clean_edges_trim)
    ultimately show "map (\<lambda>(n, l). (trim l, n)) (enumerate 1 ls) ! i = zip ls [1..<Suc (length ls)] ! i"
      by (simp add: nth_enumerate_eq del: upt_Suc)
  qed (auto simp del: upt_Suc)
  show ?thesis unfolding numbered_lines_def lines trimmed
    using assms(2) by (intro filter_True) (auto simp: plain_line_def dest: set_zip_leftD)
qed

lemma foldl_columns:
  assumes "\<And>i. i < length hs \<Longrightarrow> g (n + i) = f (hs ! i)"
  shows "foldl (\<lambda>r (i, h). r(h \<mapsto> g i)) m (enumerate n hs) =
    (\<lambda>h. if h \<in> set hs then Some (f h) else m h)"
  using assms
proof (induction hs arbitrary: n m)
  case (Cons x hs)
  have "g (Suc n + i) = f (hs ! i)" if "i < length hs" for i
    using Cons.prems [of "Suc i"] that by simp
  from Cons.IH [OF this, of "m(x \<mapsto> g n)"] Cons.prems [of 0] show ?case by (auto simp: fun_eq_iff)
qed auto

lemma row_of_map: "row_of hs (map f hs) = (\<lambda>h. if h \<in> set hs then Some (f h) else None)"
  unfolding row_of_def by (subst foldl_columns [where f = f]) auto

text \<open>A table the writer can express: header names without marks, trimmed values without newlines,
  no line that would read as a comment, no row without any value.\<close>

definition plain_header :: "string \<Rightarrow> bool" where
  "plain_header h \<longleftrightarrow> clean_edges h \<and> dq \<notin> set h \<and> comma \<notin> set h \<and> nl \<notin> set h"

definition writable_row :: "string list \<Rightarrow> row \<Rightarrow> bool" where
  "writable_row hs r \<longleftrightarrow> list_all (\<lambda>h. clean_edges (cell_of r h) \<and> nl \<notin> set (cell_of r h)) hs
     \<and> list_ex (\<lambda>h. cell_of r h \<noteq> []) hs
     \<and> \<not> starts_with ''#'' (cell_of r (hd hs))"

lemma escape_plain_header: "plain_header h \<Longrightarrow> csv_escape h = h"
  by (auto simp: plain_header_def csv_escape_def list_ex_iff)

lemma hash_escape: "\<not> starts_with ''#'' v \<Longrightarrow> csv_escape v = [] \<or> hd (csv_escape v) \<noteq> CHR ''#''"
  by (cases v) (auto simp: starts_with_def csv_escape_def)

lemma plain_line_join:
  assumes "fs \<noteq> []" and "\<forall>f\<in>set fs. clean_edges f \<and> nl \<notin> set f" and "\<exists>f\<in>set fs. f \<noteq> []"
    and "\<not> starts_with ''#'' (hd fs)"
  shows "plain_line (join [comma] (map csv_escape fs))"
proof -
  obtain g gs where fs: "fs = g # gs" using assms(1) by (cases fs) auto
  have g: "csv_escape g = [] \<or> hd (csv_escape g) \<noteq> CHR ''#''" using hash_escape assms(4) fs by simp
  have ne: "csv_escape g \<noteq> []" if "gs = []"
    using assms(3) fs that by (auto simp: csv_escape_def)
  have "join [comma] (map csv_escape fs) \<noteq> [] \<and> hd (join [comma] (map csv_escape fs)) \<noteq> CHR ''#''"
    using g ne fs by (cases "gs = []") (auto simp: join_Cons hd_append)
  moreover have "clean_edges (join [comma] (map csv_escape fs))"
    using assms(2) by (intro clean_edges_join) (auto intro: clean_edges_escape)
  moreover have "nl \<notin> set (join [comma] (map csv_escape fs))"
    using assms(2) nl_escape by (intro nl_join) auto
  ultimately show ?thesis by (simp add: plain_line_def)
qed

lemma writable_cells:
  assumes "hs \<noteq> []" "writable_row hs r"
  defines "cs \<equiv> map (cell_of r) hs"
  shows "plain_line (join [comma] (map (\<lambda>h. csv_escape (cell_of r h)) hs))"
    and "split_csv_line (join [comma] (map (\<lambda>h. csv_escape (cell_of r h)) hs)) = cs"
    and "\<not> list_all (\<lambda>v. trim v = []) cs"
proof -
  have w: "\<forall>c\<in>set cs. clean_edges c \<and> nl \<notin> set c" "\<exists>c\<in>set cs. c \<noteq> []" "\<not> starts_with ''#'' (hd cs)"
      "cs \<noteq> []"
    using assms by (auto simp: writable_row_def list_all_iff list_ex_iff hd_map)
  have m: "map (\<lambda>h. csv_escape (cell_of r h)) hs = map csv_escape cs" by (simp add: cs_def)
  show "plain_line (join [comma] (map (\<lambda>h. csv_escape (cell_of r h)) hs))"
    unfolding m by (rule plain_line_join) (use w in auto)
  show "split_csv_line (join [comma] (map (\<lambda>h. csv_escape (cell_of r h)) hs)) = cs"
    unfolding m by (rule csv_line_roundtrip_lemma) (use w in \<open>auto simp: clean_edges_trim\<close>)
  show "\<not> list_all (\<lambda>v. trim v = []) cs" using w by (auto simp: list_all_iff clean_edges_trim)
qed

text \<open>
  C39. Writing a table and reading it back gives the table: the same headers, every row restricted to
  those headers with absent values as empty strings, and row i found on line i + 2 of the file.
\<close>

theorem csv_file_roundtrip:
  assumes "hs \<noteq> []" and "\<forall>h\<in>set hs. plain_header h" and "hs \<noteq> [ [] ]"
    and "\<not> starts_with ''#'' (hd hs)" and "\<forall>r\<in>set rs. writable_row hs r"
  shows "parse_csv_text (to_csv hs rs) =
    \<lparr>csv_headers = hs, csv_rows = map (\<lambda>r h. if h \<in> set hs then Some (cell_of r h) else None) rs,
     csv_line_numbers = [2..<2 + length rs]\<rparr>"
proof -
  let ?line = "\<lambda>r. join [comma] (map (\<lambda>h. csv_escape (cell_of r h)) hs)"
  let ?h = "join [comma] hs"
  have esc: "map csv_escape hs = hs" using assms(2) by (intro map_idI) (simp add: escape_plain_header)
  have hclean: "\<forall>h\<in>set hs. clean_edges h \<and> nl \<notin> set h" using assms(2) by (simp add: plain_header_def)
  have hl: "split_csv_line ?h = hs"
    using csv_line_roundtrip_lemma [of hs] assms(1) hclean esc by (simp add: clean_edges_trim)
  have hline: "plain_line ?h"
  proof (cases "\<exists>h\<in>set hs. h \<noteq> []")
    case True
    then show ?thesis using plain_line_join [of hs] assms(1,4) hclean esc by simp
  next
    case False
    obtain g gs where hs: "hs = g # gs" using assms(1) by (cases hs) auto
    then have "gs \<noteq> []" "g = []" using assms(3) False by auto
    then have "?h \<noteq> []" "hd ?h = comma" using hs by (auto simp: join_Cons)
    moreover have "clean_edges ?h" using hclean by (intro clean_edges_join) auto
    moreover have "nl \<notin> set ?h" using hclean by (intro nl_join) auto
    ultimately show ?thesis by (simp add: plain_line_def)
  qed
  have trims: "map trim hs = hs" using hclean by (intro map_idI) (simp add: clean_edges_trim)
  have "numbered_lines (to_csv hs rs) = zip (?h # map ?line rs) [1..<Suc (length (?h # map ?line rs))]"
    unfolding to_csv_def using hline writable_cells(1) [OF assms(1)] assms(5)
    by (intro numbered_lines_join) auto
  then have num: "numbered_lines (to_csv hs rs) = (?h, 1) # zip (map ?line rs) [2..<2 + length rs]"
    by (simp add: upt_conv_Cons numeral_2_eq_2 del: upt_Suc)
  let ?n = "[2..<2 + length rs]"
  have "map (\<lambda>(l, n). (split_csv_line l, n)) (zip (map ?line rs) ?n) =
      zip (map (\<lambda>r. map (cell_of r) hs) rs) ?n"
    using writable_cells(2) [OF assms(1)] assms(5)
    by (intro nth_equalityI) (auto simp del: upt_Suc)
  moreover have "filter (\<lambda>(vs, n). \<not> list_all (\<lambda>v. trim v = []) vs) (zip (map (\<lambda>r. map (cell_of r) hs) rs) ?n) =
      zip (map (\<lambda>r. map (cell_of r) hs) rs) ?n"
    using writable_cells(3) [OF assms(1)] assms(5)
    by (intro filter_True) (auto dest!: set_zip_leftD)
  moreover have "map (\<lambda>(vs, n). row_of hs vs) (zip (map (\<lambda>r. map (cell_of r) hs) rs) ?n) =
      map (\<lambda>r h. if h \<in> set hs then Some (cell_of r h) else None) rs"
    by (intro nth_equalityI) (auto simp: row_of_map simp del: upt_Suc)
  ultimately show ?thesis by (simp add: parse_csv_text_def num hl trims Let_def del: upt_Suc)
qed

theorem csv_file_roundtrip_witness:
  "parse_csv_text (to_csv [''nin'', ''accountName''] [ [''nin'' \<mapsto> ''1'', ''accountName'' \<mapsto> ''A, B''] ]) =
    \<lparr>csv_headers = [''nin'', ''accountName''], csv_rows = [\<lambda>h. if h \<in> set [''nin'', ''accountName'']
       then Some (cell_of [''nin'' \<mapsto> ''1'', ''accountName'' \<mapsto> ''A, B''] h) else None],
     csv_line_numbers = [2..<3]\<rparr>"
  using csv_file_roundtrip [of "[''nin'', ''accountName'']"
      "[ [''nin'' \<mapsto> ''1'', ''accountName'' \<mapsto> ''A, B''] ]"]
  by (simp add: plain_header_def writable_row_def cell_of_def clean_edges_def is_ws_def ws_chars_def
      starts_with_def)

subsection \<open>Line numbers\<close>

text \<open>The reported line numbers are 1-based positions in the uploaded text, comments and blank lines counted.\<close>

lemma numbered_lines_source:
  assumes "(l, n) \<in> set (numbered_lines t)"
  shows "1 \<le> n \<and> n \<le> length (split_lines t) \<and> l = trim (split_lines t ! (n - 1))"
  using assms by (fastforce simp: numbered_lines_def in_set_enumerate_eq)

lemma sorted_snd_filter: "sorted_wrt (<) (map snd xs) \<Longrightarrow> sorted_wrt (<) (map snd (filter P xs))"
  by (simp only: sorted_wrt_map sorted_wrt_filter)

lemma sorted_numbered_lines: "sorted_wrt (<) (map snd (numbered_lines t))"
proof -
  let ?xs = "map (\<lambda>(n, l). (trim l, n)) (enumerate 1 (split_lines t))"
  have "map snd ?xs = [1..<Suc (length (split_lines t))]"
    by (intro nth_equalityI) (simp_all add: nth_enumerate_eq split_beta del: upt_Suc)
  then have "sorted_wrt (<) (map snd ?xs)" by (simp del: upt_Suc)
  then show ?thesis unfolding numbered_lines_def by (rule sorted_snd_filter)
qed

text \<open>
  Whatever the file, each row comes with its own line number: the numbers are as many as the
  rows, strictly increasing, and the row with number n is exactly what line n of the uploaded text
  holds under the headers, so an error message sends the provider to the right line.
\<close>

theorem parse_csv_line_numbers:
  fixes t :: string
  defines "p \<equiv> parse_csv_text t"
  shows "length (csv_rows p) = length (csv_line_numbers p) \<and>
    sorted_wrt (<) (csv_line_numbers p) \<and>
    list_all (\<lambda>i. let n = csv_line_numbers p ! i in
       1 \<le> n \<and> n \<le> length (split_lines t) \<and>
       csv_rows p ! i = row_of (csv_headers p) (split_csv_line (trim (split_lines t ! (n - 1)))))
      [0..<length (csv_rows p)]"
proof (cases "numbered_lines t")
  case Nil
  then show ?thesis by (simp add: p_def parse_csv_text_def)
next
  case (Cons h body)
  let ?hs = "map trim (split_csv_line (fst h))"
  define kept where "kept = filter (\<lambda>(vs, n). \<not> list_all (\<lambda>v. trim v = []) vs)
      (map (\<lambda>(l, n). (split_csv_line l, n)) body)"
  have p: "csv_headers p = ?hs" "csv_rows p = map (\<lambda>(vs, n). row_of ?hs vs) kept"
      "csv_line_numbers p = map snd kept"
    by (simp_all add: p_def parse_csv_text_def Cons kept_def Let_def)
  have "sorted_wrt (<) (map snd (map (\<lambda>(l, n). (split_csv_line l, n)) body))"
    using sorted_numbered_lines [of t] Cons by (simp add: comp_def split_beta)
  then have s: "sorted_wrt (<) (map snd kept)"
    unfolding kept_def by (rule sorted_snd_filter)
  have src: "1 \<le> n \<and> n \<le> length (split_lines t) \<and> vs = split_csv_line (trim (split_lines t ! (n - 1)))"
    if vn: "(vs, n) \<in> set kept" for vs n
  proof -
    obtain l where "(l, n) \<in> set body" "vs = split_csv_line l" using vn by (auto simp: kept_def)
    then show ?thesis using numbered_lines_source [of l n t] Cons by auto
  qed
  have "let n = csv_line_numbers p ! i in 1 \<le> n \<and> n \<le> length (split_lines t) \<and>
       csv_rows p ! i = row_of (csv_headers p) (split_csv_line (trim (split_lines t ! (n - 1))))"
    if i: "i < length (csv_rows p)" for i
    using src [of "fst (kept ! i)" "snd (kept ! i)"] i nth_mem [of i kept]
    by (simp add: p split_beta Let_def)
  then show ?thesis using s by (simp add: p list_all_iff)
qed

end
