(* ===== verification/JsDate.thy ===== *)
theory JsDate
  imports Prelude
begin

text \<open>
  The part of the JavaScript Date object the program uses, on UTC: a time is the integer number of
  milliseconds since 1970-01-01, days are counted with the proleptic Gregorian calendar, and
  \<open>date_utc\<close> is \<open>Date.UTC\<close> with its month overflow, its day zero and its rule that the years 0 to 99
  mean 1900 to 1999. The main facts are that the calendar functions are inverse to each other on
  valid dates and that \<open>date_utc\<close> is monotone across months.
\<close>

type_synonym time = int

definition ms_per_day :: int where "ms_per_day = 86400000"

definition is_leap :: "int \<Rightarrow> bool" where
  "is_leap y \<longleftrightarrow> (y mod 4 = 0 \<and> y mod 100 \<noteq> 0) \<or> y mod 400 = 0"

definition day_from_year :: "int \<Rightarrow> int" where
  "day_from_year y = 365 * (y - 1970) + (y - 1969) div 4 - (y - 1901) div 100 + (y - 1601) div 400"

definition cum_days :: "bool \<Rightarrow> nat \<Rightarrow> int" where
  "cum_days leap m = [0, 31, 59, 90, 120, 151, 181, 212, 243, 273, 304, 334, 365] ! m +
     (if leap \<and> 2 \<le> m then 1 else 0)"

definition make_day :: "int \<Rightarrow> int \<Rightarrow> int \<Rightarrow> int" where
  "make_day y m d = (let ym = y + m div 12; mn = nat (m mod 12) in
     day_from_year ym + cum_days (is_leap ym) mn + d - 1)"

definition date_utc :: "int \<Rightarrow> int \<Rightarrow> int \<Rightarrow> int \<Rightarrow> time" where
  "date_utc y m d ms_in_day = (let yr = (if 0 \<le> y \<and> y \<le> 99 then 1900 + y else y) in
     make_day yr m d * ms_per_day + ms_in_day)"

definition year_of_day :: "int \<Rightarrow> int" where
  "year_of_day n = (let y = 1970 + (n * 400) div 146097 in
     if n < day_from_year y then y - 1 else if day_from_year (y + 1) \<le> n then y + 1 else y)"

definition month_of_yday :: "bool \<Rightarrow> int \<Rightarrow> nat" where
  "month_of_yday leap k = length (takeWhile (\<lambda>m. cum_days leap m \<le> k) [1..<12])"

definition utc_full_year :: "time \<Rightarrow> int" where
  "utc_full_year t = year_of_day (t div ms_per_day)"

definition utc_month :: "time \<Rightarrow> nat" where
  "utc_month t = (let n = t div ms_per_day; y = year_of_day n in
     month_of_yday (is_leap y) (n - day_from_year y))"

definition utc_date :: "time \<Rightarrow> int" where
  "utc_date t = (let n = t div ms_per_day; y = year_of_day n; k = n - day_from_year y in
     k - cum_days (is_leap y) (month_of_yday (is_leap y) k) + 1)"

definition days_in_month :: "int \<Rightarrow> nat \<Rightarrow> int" where
  "days_in_month y mo = cum_days (is_leap y) mo - cum_days (is_leap y) (mo - 1)"

text \<open>\<open>toISOString\<close>, in the years 0 to 9999.\<close>

definition pad_zeros :: "nat \<Rightarrow> nat \<Rightarrow> string" where
  "pad_zeros w n = (let s = dec_str n in replicate (w - length s) (CHR ''0'') @ s)"

definition iso_string :: "time \<Rightarrow> string" where
  "iso_string t = (let ms = nat (t mod ms_per_day) in
     pad_zeros 4 (nat (utc_full_year t)) @ ''-'' @ pad2 (utc_month t + 1) @ ''-'' @ pad2 (nat (utc_date t)) @ ''T'' @
     pad2 (ms div 3600000) @ '':'' @ pad2 (ms div 60000 mod 60) @ '':'' @ pad2 (ms div 1000 mod 60) @ ''.'' @
     pad_zeros 3 (ms mod 1000) @ ''Z'')"

subsection \<open>Years\<close>

lemma div_step:
  fixes z c :: int
  assumes "0 < c"
  shows "(z + 1) div c = z div c + (if (z + 1) mod c = 0 then 1 else 0)"
proof -
  let ?k = "(z + 1) div c" and ?r = "(z + 1) mod c"
  have z: "z + 1 = c * ?k + ?r" by simp
  have r: "0 \<le> ?r" "?r < c" using assms by simp_all
  show ?thesis
  proof (cases "?r = 0")
    case True
    have "z div c = ?k - 1"
      by (rule int_div_pos_eq [of _ _ _ "c - 1"]) (use z [unfolded True] assms in \<open>simp_all add: right_diff_distrib\<close>)
    then show ?thesis using True by simp
  next
    case False
    have "z div c = ?k"
      by (rule int_div_pos_eq [of _ _ _ "?r - 1"]) (use z r False in linarith)+
    then show ?thesis using False by simp
  qed
qed

lemma mod_step:
  fixes z c :: int
  assumes "0 < c"
  shows "(z + 1) mod c = (if z mod c = c - 1 then 0 else z mod c + 1)"
proof (cases "z mod c = c - 1")
  case True
  have "z + 1 = c * (z div c + 1)" using div_mult_mod_eq [of z c] unfolding True by (simp add: algebra_simps)
  then show ?thesis using True by (metis mod_mult_self1_is_0)
next
  case False
  have z: "z + 1 = c * (z div c) + (z mod c + 1)" by simp
  have "0 \<le> z mod c" "z mod c < c" using assms by simp_all
  then have "(z + 1) mod c = z mod c + 1"
    by (intro int_mod_pos_eq [OF z]) (use False in linarith)+
  then show ?thesis using False by simp
qed

lemma mod_shift: "(y - c * k) mod c = y mod (c :: int)"
  by (metis mod_mult_self2 diff_conv_add_uminus mult_minus_right)

lemma day_from_year_Suc: "day_from_year (y + 1) = day_from_year y + (if is_leap y then 366 else 365)"
proof -
  have d4: "(y - 1968) div 4 = (y - 1969) div 4 + (if y mod 4 = 0 then 1 else 0)"
    using div_step [of 4 "y - 1969"] mod_shift [of y 4 492] by simp
  have d100: "(y - 1900) div 100 = (y - 1901) div 100 + (if y mod 100 = 0 then 1 else 0)"
    using div_step [of 100 "y - 1901"] mod_shift [of y 100 19] by simp
  have d400: "(y - 1600) div 400 = (y - 1601) div 400 + (if y mod 400 = 0 then 1 else 0)"
    using div_step [of 400 "y - 1601"] mod_shift [of y 400 4] by simp
  have imp: "y mod 400 = 0 \<Longrightarrow> y mod 100 = 0" "y mod 100 = 0 \<Longrightarrow> y mod 4 = 0"
    by (auto simp flip: dvd_eq_mod_eq_0 intro: dvd_trans)
  have "day_from_year (y + 1) = 365 * (y - 1970) + 365 + (y - 1968) div 4 - (y - 1900) div 100 + (y - 1600) div 400"
    by (simp add: day_from_year_def)
  also have "\<dots> = day_from_year y + 365 + (if y mod 4 = 0 then 1 else 0)
      - (if y mod 100 = 0 then 1 else 0) + (if y mod 400 = 0 then 1 else 0)"
    unfolding d4 d100 d400 by (simp add: day_from_year_def)
  also have "\<dots> = day_from_year y + (if is_leap y then 366 else 365)"
    unfolding is_leap_def using imp
    by (cases "y mod 4 = 0"; cases "y mod 100 = 0"; cases "y mod 400 = 0") (simp_all only:, simp_all)
  finally show ?thesis .
qed

lemma day_from_year_mono: "y \<le> z \<Longrightarrow> day_from_year y \<le> day_from_year z"
proof (induction z rule: int_ge_induct)
  case (step z)
  then show ?case by (simp add: day_from_year_Suc)
qed simp

lemma day_from_year_strict: "y < z \<Longrightarrow> day_from_year y + 365 \<le> day_from_year z"
  using day_from_year_mono [of "y + 1" z] day_from_year_Suc [of y] by (auto split: if_splits)

lemma div_bound:
  fixes a c :: int
  assumes "0 < c"
  shows "c * (a div c) \<le> a" and "a \<le> c * (a div c) + (c - 1)"
proof -
  have "a = c * (a div c) + a mod c" by simp
  moreover have "0 \<le> a mod c" "a mod c < c" using assms by simp_all
  ultimately show "c * (a div c) \<le> a" and "a \<le> c * (a div c) + (c - 1)" by linarith+
qed

lemma div_bounds: "4 * (a div 4) \<le> a" "a \<le> 4 * (a div 4) + 3" "100 * (b div 100) \<le> b"
    "b \<le> 100 * (b div 100) + 99" "400 * (c div 400) \<le> c" "c \<le> 400 * (c div 400) + 399" for a b c :: int
  using div_bound [of 4 a] div_bound [of 100 b] div_bound [of 400 c] by simp_all

lemma year_estimate:
  assumes "y = 1970 + (n * 400) div 146097"
  shows "day_from_year (y - 1) \<le> n" and "n < day_from_year (y + 2)"
proof -
  let ?k = "y - 1970"
  have k: "146097 * ?k \<le> n * 400" "n * 400 < 146097 * (?k + 1)"
    using div_mult_mod_eq [of "n * 400" 146097] pos_mod_sign [of 146097 "n * 400"]
      pos_mod_bound [of 146097 "n * 400"] assms by simp_all
  have lo: "365 * (u - 1) + p - q + r \<le> n"
    if "146097 * u \<le> n * 400" "4 * p \<le> u" "u - 31 \<le> 100 * q"
      "400 * r \<le> u + 368" for u p q r :: int
    using that by (smt (verit))
  show "day_from_year (y - 1) \<le> n" unfolding day_from_year_def
    using lo [of "y - 1970" "(y - 1 - 1969) div 4" "(y - 1 - 1901) div 100" "(y - 1 - 1601) div 400"] k
      div_bounds(1,2) [of "y - 1 - 1969"] div_bounds(3,4) [of "y - 1 - 1901"] div_bounds(5,6) [of "y - 1 - 1601"]
    by (simp add: algebra_simps)
  have hi: "n < 365 * (u + 2) + p - q + r"
    if "n * 400 < 146097 * (u + 1)" "u \<le> 4 * p" "100 * q \<le> u + 71" "u - 28 \<le> 400 * r" for u p q r :: int
    using that by (smt (verit))
  show "n < day_from_year (y + 2)" unfolding day_from_year_def
    using hi [of "y - 1970" "(y + 2 - 1969) div 4" "(y + 2 - 1901) div 100" "(y + 2 - 1601) div 400"] k
      div_bounds(1,2) [of "y + 2 - 1969"] div_bounds(3,4) [of "y + 2 - 1901"] div_bounds(5,6) [of "y + 2 - 1601"]
    by (simp add: algebra_simps)
qed

lemma year_of_day_bounds:
  "day_from_year (year_of_day n) \<le> n \<and> n < day_from_year (year_of_day n + 1)"
proof -
  let ?y = "1970 + (n * 400) div 146097"
  note e = year_estimate [OF refl, of n]
  show ?thesis using e by (auto simp: year_of_day_def Let_def add.commute)
qed

lemma year_of_day_eqI:
  assumes "day_from_year y \<le> n" "n < day_from_year (y + 1)"
  shows "year_of_day n = y"
proof -
  note b = year_of_day_bounds [of n]
  have "\<not> year_of_day n + 1 \<le> y"
    using day_from_year_mono [of "year_of_day n + 1" y] b assms by linarith
  moreover have "\<not> y + 1 \<le> year_of_day n"
    using day_from_year_mono [of "y + 1" "year_of_day n"] b assms by linarith
  ultimately show ?thesis by linarith
qed

subsection \<open>Months\<close>

lemma cum_days_list: "m < 13 \<Longrightarrow> cum_days leap m \<in> {0..366}"
  by (auto simp: cum_days_def less_Suc_eq numeral_eq_Suc)

lemma upto12: "m < 12 \<longleftrightarrow> m = 0 \<or> m = 1 \<or> m = 2 \<or> m = 3 \<or> m = 4 \<or> m = 5 \<or> m = 6 \<or> m = 7 \<or> m = 8
    \<or> m = 9 \<or> m = 10 \<or> m = (11::nat)"
  by arith

lemma cum_days_Suc:
  "m < 12 \<Longrightarrow> cum_days leap m + 28 \<le> cum_days leap (Suc m) \<and> cum_days leap (Suc m) \<le> cum_days leap m + 31"
  by (auto simp: cum_days_def upto12)

lemma cum_days_mono: "m \<le> n \<Longrightarrow> n \<le> 12 \<Longrightarrow> cum_days leap m \<le> cum_days leap n"
proof (induction n)
  case (Suc n)
  show ?case
  proof (cases "m = Suc n")
    case False
    then show ?thesis using Suc cum_days_Suc [of n leap] by auto
  qed simp
qed simp

lemma cum_days_0 [simp]: "cum_days leap 0 = 0"
  by (simp add: cum_days_def)

lemma cum_days_12: "cum_days leap 12 = (if leap then 366 else 365)"
  by (simp add: cum_days_def)

lemma takeWhile_upt_length:
  assumes "a \<le> m" "m \<le> b" "\<And>i. a \<le> i \<Longrightarrow> i < m \<Longrightarrow> P i" "m < b \<Longrightarrow> \<not> P m"
  shows "length (takeWhile P [a..<b]) = m - a"
proof -
  have "[a..<b] = [a..<m] @ [m..<b]" using assms upt_add_eq_append [of a m "b - m"] by simp
  moreover have "takeWhile P [m..<b] = []" using assms(2,4) by (cases "m < b") (simp_all add: upt_conv_Cons)
  ultimately show ?thesis using assms(3) by (simp add: takeWhile_append)
qed

lemma month_of_yday_eq:
  assumes "m < 12" "cum_days leap m \<le> k" "k < cum_days leap (Suc m)"
  shows "month_of_yday leap k = m"
proof -
  have tail: "1 \<le> Suc m" "Suc m \<le> 12" using assms by auto
  have "length (takeWhile (\<lambda>i. cum_days leap i \<le> k) [1..<12]) = Suc m - 1"
  proof (rule takeWhile_upt_length [OF tail])
    fix i assume "1 \<le> i" "i < Suc m"
    then show "cum_days leap i \<le> k" using cum_days_mono [of i m leap] assms by auto
  next
    show "\<not> cum_days leap (Suc m) \<le> k" using assms(3) by simp
  qed
  then show ?thesis by (simp add: month_of_yday_def)
qed

lemma make_day_simple: "mo < 12 \<Longrightarrow> make_day y (int mo) d = day_from_year y + cum_days (is_leap y) mo + d - 1"
  by (simp add: make_day_def Let_def nat_mod_as_int)

text \<open>The calendar round trip: the fields of a valid date are recovered from its day number.\<close>

lemma civil_roundtrip:
  assumes mo: "mo < 12" and d: "1 \<le> d" "d \<le> days_in_month y (Suc mo)"
    and t: "0 \<le> s" "s < ms_per_day"
  defines "t \<equiv> make_day y (int mo) d * ms_per_day + s"
  shows "utc_full_year t = y" and "utc_month t = mo" and "utc_date t = d"
proof -
  have n: "t div ms_per_day = day_from_year y + cum_days (is_leap y) mo + d - 1"
    using t make_day_simple [OF mo] by (simp add: t_def ms_per_day_def)
  have lt: "cum_days (is_leap y) mo + d - 1 < cum_days (is_leap y) (Suc mo)"
    using d by (simp add: days_in_month_def)
  have ge: "0 \<le> cum_days (is_leap y) mo" using cum_days_mono [of 0 mo] mo by simp
  have "cum_days (is_leap y) (Suc mo) \<le> (if is_leap y then 366 else 365)"
    using cum_days_mono [of "Suc mo" 12 "is_leap y"] mo cum_days_12 [of "is_leap y"] by simp
  then have yr: "year_of_day (t div ms_per_day) = y"
    unfolding n using lt ge d by (intro year_of_day_eqI) (simp_all add: day_from_year_Suc)
  then show "utc_full_year t = y" by (simp add: utc_full_year_def)
  have m: "month_of_yday (is_leap y) (t div ms_per_day - day_from_year y) = mo"
    unfolding n using mo d lt by (intro month_of_yday_eq) simp_all
  then show "utc_month t = mo" by (simp add: utc_month_def Let_def yr)
  show "utc_date t = d" unfolding utc_date_def Let_def yr m by (simp add: n)
qed

text \<open>Conversely the fields of any time are a valid date, and denote its day.\<close>

lemma civil_fields:
  fixes t :: time
  defines "y \<equiv> utc_full_year t" and "mo \<equiv> utc_month t" and "d \<equiv> utc_date t"
  shows "mo < 12" and "1 \<le> d" and "d \<le> days_in_month y (Suc mo)"
    and "make_day y (int mo) d = t div ms_per_day"
proof -
  let ?n = "t div ms_per_day"
  let ?k = "?n - day_from_year y"
  have y: "y = year_of_day ?n" by (simp add: y_def utc_full_year_def)
  have k: "0 \<le> ?k" "?k < cum_days (is_leap y) 12"
    using year_of_day_bounds [of ?n] day_from_year_Suc [of y] by (auto simp: y cum_days_12)
  obtain m where m: "m < 12" "cum_days (is_leap y) m \<le> ?k" "?k < cum_days (is_leap y) (Suc m)"
  proof -
    have "\<exists>m<12. cum_days (is_leap y) m \<le> ?k \<and> ?k < cum_days (is_leap y) (Suc m)"
    proof (rule ccontr)
      assume neg: "\<not> ?thesis"
      have "m \<le> 12 \<Longrightarrow> cum_days (is_leap y) m \<le> ?k" for m
      proof (induction m)
        case (Suc m)
        then show ?case using neg by auto
      qed (use k in simp)
      from this [of 12] show False using k by simp
    qed
    then show ?thesis using that by blast
  qed
  have mo: "mo = m" using month_of_yday_eq [OF m] by (simp add: mo_def utc_month_def Let_def y)
  have d: "d = ?k - cum_days (is_leap y) m + 1"
    using month_of_yday_eq [OF m] by (simp add: d_def utc_date_def Let_def y)
  show "mo < 12" using m by (simp add: mo)
  show "1 \<le> d" using m by (simp add: d)
  show "d \<le> days_in_month y (Suc mo)" using m by (simp add: d mo days_in_month_def)
  show "make_day y (int mo) d = ?n" using m by (simp add: mo d make_day_simple)
qed

lemma days_in_month_bounds: "mo < 12 \<Longrightarrow> 28 \<le> days_in_month y (Suc mo) \<and> days_in_month y (Suc mo) \<le> 31"
  using cum_days_Suc [of mo "is_leap y"] by (simp add: days_in_month_def)

subsection \<open>Month boundaries\<close>

text \<open>Months and days past the end of a month run on: the day numbers are a single time line.\<close>

lemma make_day_carry: "make_day y 12 d = make_day (y + 1) 0 d"
  by (simp add: make_day_def Let_def)

lemma make_day_shift: "make_day y m (d + k) = make_day y m d + k"
  by (simp add: make_day_def Let_def)

lemma make_day_mono_month:
  assumes "m \<le> m'" "m' \<le> 12"
  shows "make_day y (int m) d \<le> make_day y (int m') d"
proof (cases "m' = 12")
  case True
  show ?thesis
  proof (cases "m = 12")
    case False
    then have "m < 12" using assms by simp
    moreover have "cum_days (is_leap y) m \<le> cum_days (is_leap y) 12"
      using cum_days_mono [of m 12] calculation by simp
    ultimately show ?thesis using True day_from_year_Suc [of y] cum_days_12 [of "is_leap y"]
      make_day_carry [of y d] make_day_simple [of 0 "y + 1" d] make_day_simple [of m y d]
      by simp
  qed (simp add: True)
next
  case False
  then show ?thesis using assms cum_days_mono [of m m' "is_leap y"]
    make_day_simple [of m y d] make_day_simple [of m' y d] by simp
qed

text \<open>In the years the program sees, \<open>date_utc\<close> is the plain product of its parts.\<close>

lemma date_utc_modern: "100 \<le> y \<Longrightarrow> date_utc y m d s = make_day y m d * ms_per_day + s"
  by (simp add: date_utc_def Let_def)

end
