(* ===== verification/Periods.thy ===== *)
theory Periods
  imports JsDate JsParse
begin

text \<open>
  Dates and reporting periods of \<open>backend/src/modules/submissions/submission-parser.ts\<close>: the lenient
  date reader \<open>parseFlexibleDate\<close>, the period reader \<open>parsePeriod\<close> with its label forms, the canonical
  label, the first and last instant of a period, and the tests built on them. The regular
  expressions are written as tests on the digit runs of the string.
\<close>

abbreviation dash :: char where "dash \<equiv> CHR 0x2D"
abbreviation slash :: char where "slash \<equiv> CHR 0x2F"

definition num_field :: "nat \<Rightarrow> nat \<Rightarrow> string \<Rightarrow> bool" where
  "num_field lo hi s \<longleftrightarrow> all_digits s \<and> lo \<le> length s \<and> length s \<le> hi"

definition no_digit :: "string \<Rightarrow> bool" where "no_digit s \<longleftrightarrow> list_all (\<lambda>c. \<not> is_digit c) s"

subsection \<open>Dates\<close>

definition is_valid_ymd :: "int \<Rightarrow> int \<Rightarrow> int \<Rightarrow> bool" where
  "is_valid_ymd y mo d = (if mo < 1 \<or> 12 < mo \<or> d < 1 \<or> 31 < d then False
     else (let dt = date_utc y (mo - 1) d 0 in
           utc_full_year dt = y \<and> int (utc_month dt) = mo - 1 \<and> utc_date dt = d))"

definition ymd :: "nat \<Rightarrow> nat \<Rightarrow> nat \<Rightarrow> string option" where
  "ymd y mo d = (if \<not> is_valid_ymd (int y) (int mo) (int d) then None
     else Some (dec_str y @ ''-'' @ pad2 mo @ ''-'' @ pad2 d))"

text \<open>Year, month and day separated by a given mark, the last two of at least \<open>lo\<close> digits.\<close>

definition match_ymd :: "char \<Rightarrow> nat \<Rightarrow> string \<Rightarrow> (nat \<times> nat \<times> nat) option" where
  "match_ymd sep lo s = (case split_on sep s of
     [y, m, d] \<Rightarrow> if num_field 4 4 y \<and> num_field lo 2 m \<and> num_field lo 2 d
                  then Some (parse_dec y, parse_dec m, parse_dec d) else None
   | _ \<Rightarrow> None)"

text \<open>The three groups of the day-first pattern: the separators are any of slash, dot and dash.\<close>

definition split_dmy :: "string \<Rightarrow> (string \<times> string \<times> string) option" where
  "split_dmy s = (let a = takeWhile is_digit s; r1 = dropWhile is_digit s;
     b = takeWhile is_digit (tl r1); r2 = dropWhile is_digit (tl r1); c = tl r2;
     sep = (\<lambda>r. r \<noteq> [] \<and> hd r \<in> {slash, CHR ''.'', dash})
     in if num_field 1 2 a \<and> sep r1 \<and> num_field 1 2 b \<and> sep r2 \<and>
          (num_field 2 2 c \<or> num_field 4 4 c) then Some (a, b, c) else None)"

definition excel_serial :: "string \<Rightarrow> string option" where
  "excel_serial s = (if num_field 4 6 s then
     (let serial = int (parse_dec s) in
      if 20000 \<le> serial \<and> serial \<le> 60000
      then (let t = (serial - 25569) * 86400000
            in ymd (nat (utc_full_year t)) (utc_month t + 1) (nat (utc_date t)))
      else None) else None)"

definition parse_flexible_date :: "string \<Rightarrow> string option" where
  "parse_flexible_date input = (let s = trim input in
     if s = [] then None
     else (case match_ymd dash 2 s of
       Some (y, m, d) \<Rightarrow> (if is_valid_ymd (int y) (int m) (int d) then Some s else None)
     | None \<Rightarrow> (case match_ymd slash 1 s of
         Some (y, m, d) \<Rightarrow> ymd y m d
       | None \<Rightarrow> (case split_dmy s of
           Some (p, q, yy) \<Rightarrow>
             (let a = parse_dec p; b = parse_dec q;
                  year = (if length yy = 2 then 2000 + parse_dec yy else parse_dec yy);
                  (day, month) = (if 12 < a \<and> b \<le> 12 then (a, b)
                                  else if 12 < b \<and> a \<le> 12 then (b, a) else (a, b))
              in ymd year month day)
         | None \<Rightarrow> excel_serial s))))"

subsection \<open>Reporting periods\<close>

record period =
  p_year :: nat
  p_quarter :: "nat option"
  p_month :: "nat option"

definition month_names :: "(string \<times> nat) list" where
  "month_names = [(''jan'', 1), (''feb'', 2), (''mar'', 3), (''apr'', 4), (''may'', 5), (''jun'', 6),
     (''jul'', 7), (''aug'', 8), (''sep'', 9), (''oct'', 10), (''nov'', 11), (''dec'', 12)]"

definition quarter_digit :: "char \<Rightarrow> bool" where
  "quarter_digit c \<longleftrightarrow> c \<in> set ''1234''"

definition last_n :: "nat \<Rightarrow> 'a list \<Rightarrow> 'a list" where "last_n n s = drop (length s - n) s"
definition but_n :: "nat \<Rightarrow> 'a list \<Rightarrow> 'a list" where "but_n n s = take (length s - n) s"

text \<open>Quarter first, as in Q1 2026, then year first, as in 2026-Q1.\<close>

definition match_q_year :: "string \<Rightarrow> (nat \<times> nat) option" where
  "match_q_year s = (if 6 \<le> length s \<and> lower_char (hd s) = CHR ''q'' \<and> quarter_digit (s ! 1)
     \<and> no_digit (but_n 4 (drop 2 s)) \<and> all_digits (last_n 4 s)
     then Some (parse_dec (last_n 4 s), digit_val (s ! 1)) else None)"

definition match_year_q :: "string \<Rightarrow> (nat \<times> nat) option" where
  "match_year_q s = (if 6 \<le> length s \<and> all_digits (take 4 s)
     \<and> no_digit (but_n 2 (drop 4 s)) \<and> lower_char (hd (last_n 2 s)) = CHR ''q''
     \<and> quarter_digit (last s)
     then Some (parse_dec (take 4 s), digit_val (last s)) else None)"

definition match_year_month :: "string \<Rightarrow> (nat \<times> nat) option" where
  "match_year_month s = (let y = take 4 s; m = drop 5 s in
     if 6 \<le> length s \<and> num_field 4 4 y \<and> s ! 4 \<in> {dash, slash} \<and> num_field 1 2 m
     then Some (parse_dec y, parse_dec m) else None)"

text \<open>Month name first; and year first, where the greedy separator leaves the last three letters.\<close>

definition match_name_year :: "string \<Rightarrow> (nat \<times> string) option" where
  "match_name_year s = (let pre = but_n 4 s; y = last_n 4 s in
     if 8 \<le> length s \<and> all_digits y \<and> no_digit pre \<and> list_all is_alpha (take 3 pre)
     then Some (parse_dec y, take 3 pre) else None)"

definition match_year_name :: "string \<Rightarrow> (nat \<times> string) option" where
  "match_year_name s = (let y = take 4 s; r = drop 4 s in
     if 8 \<le> length s \<and> all_digits y \<and> no_digit r \<and> list_all is_alpha (last_n 3 r)
     then Some (parse_dec y, last_n 3 r) else None)"

definition or_else :: "'a option \<Rightarrow> 'a option \<Rightarrow> 'a option" where
  "or_else a b = (case a of None \<Rightarrow> b | Some x \<Rightarrow> Some x)"

definition month_of_name :: "(nat \<times> string) option \<Rightarrow> (nat \<times> nat) option" where
  "month_of_name m = (case m of None \<Rightarrow> None
     | Some (y, name) \<Rightarrow> map_option (Pair y) (map_of month_names (lower name)))"

definition parse_period :: "string \<Rightarrow> period option" where
  "parse_period label = (let s = trim label in
     if s = [] then None
     else (case or_else (match_q_year s) (match_year_q s) of
       Some (y, q) \<Rightarrow> Some \<lparr>p_year = y, p_quarter = Some q, p_month = None\<rparr>
     | None \<Rightarrow> (case match_year_month s of
         Some (y, m) \<Rightarrow> (if 1 \<le> m \<and> m \<le> 12
            then Some \<lparr>p_year = y, p_quarter = None, p_month = Some m\<rparr> else None)
       | None \<Rightarrow> (case month_of_name (or_else (match_name_year s) (match_year_name s)) of
           Some (y, m) \<Rightarrow> Some \<lparr>p_year = y, p_quarter = None, p_month = Some m\<rparr>
         | None \<Rightarrow>
             (if num_field 4 4 s then Some \<lparr>p_year = parse_dec s, p_quarter = None, p_month = None\<rparr>
              else (case parse_flexible_date s of
                Some canon \<Rightarrow> (let parts = split_on dash canon in
                   Some \<lparr>p_year = parse_dec (parts ! 0), p_quarter = None,
                         p_month = Some (parse_dec (parts ! 1))\<rparr>)
              | None \<Rightarrow> None))))))"

definition period_label :: "period \<Rightarrow> string" where
  "period_label p = (case p_quarter p of Some q \<Rightarrow> dec_str (p_year p) @ ''-Q'' @ dec_str q
     | None \<Rightarrow> (case p_month p of Some m \<Rightarrow> dec_str (p_year p) @ ''-'' @ pad2 m
        | None \<Rightarrow> dec_str (p_year p)))"

definition normalize_period_label :: "string \<Rightarrow> string option" where
  "normalize_period_label label = map_option period_label (parse_period label)"

definition end_of_day :: int where "end_of_day = 86399999"

definition period_end_date :: "period \<Rightarrow> time" where
  "period_end_date p = (case p_quarter p of Some q \<Rightarrow> date_utc (int (p_year p)) (int q * 3) 0 end_of_day
     | None \<Rightarrow> (case p_month p of Some m \<Rightarrow> date_utc (int (p_year p)) (int m) 0 end_of_day
        | None \<Rightarrow> date_utc (int (p_year p)) 12 0 end_of_day))"

definition period_start_date :: "period \<Rightarrow> time" where
  "period_start_date p = (case p_quarter p of Some q \<Rightarrow> date_utc (int (p_year p)) ((int q - 1) * 3) 1 0
     | None \<Rightarrow> (case p_month p of Some m \<Rightarrow> date_utc (int (p_year p)) (int m - 1) 1 0
        | None \<Rightarrow> date_utc (int (p_year p)) 0 1 0))"

text \<open>
  \<open>new Date(s)\<close> of a string in the ISO form YYYY-MM-DD, alone or followed by the midnight the code
  appends; what the engine makes of other strings is the parameter \<open>other\<close>.
\<close>

definition midnight_suffix :: string where "midnight_suffix = ''T00:00:00.000Z''"

definition js_date :: "(string \<Rightarrow> time option) \<Rightarrow> string \<Rightarrow> time option" where
  "js_date other s = (let d = (if drop 10 s = [] \<or> drop 10 s = midnight_suffix then take 10 s else []) in
     case match_ymd dash 2 d of
       Some (y, m, dd) \<Rightarrow> (if 1 \<le> m \<and> m \<le> 12 \<and> 1 \<le> dd \<and> int dd \<le> days_in_month (int y) m
          then Some (make_day (int y) (int m - 1) (int dd) * ms_per_day) else other s)
     | None \<Rightarrow> other s)"

definition date_in_period :: "(string \<Rightarrow> time option) \<Rightarrow> string \<Rightarrow> string \<Rightarrow> bool option" where
  "date_in_period other date_str label =
     (case parse_flexible_date date_str of None \<Rightarrow> None
      | Some canon \<Rightarrow> (case parse_period label of None \<Rightarrow> None
         | Some p \<Rightarrow> (case js_date other (canon @ midnight_suffix) of None \<Rightarrow> None
             | Some t \<Rightarrow> Some (period_start_date p \<le> t \<and> t \<le> period_end_date p))))"

definition period_has_ended :: "period \<Rightarrow> time \<Rightarrow> bool" where
  "period_has_ended p now \<longleftrightarrow> period_end_date p \<le> now"

subsection \<open>Valid dates\<close>

lemma year_of_day_ge: "day_from_year z \<le> n \<Longrightarrow> z \<le> year_of_day n"
  using year_of_day_bounds [of n] day_from_year_mono [of "year_of_day n + 1" z] by linarith

lemma year_of_day_less: "n < day_from_year z \<Longrightarrow> year_of_day n < z"
  using year_of_day_bounds [of n] day_from_year_mono [of z "year_of_day n"] by linarith

lemma cum_days_nonneg: "m \<le> 12 \<Longrightarrow> 0 \<le> cum_days leap m"
  using cum_days_mono [of 0 m leap] by simp

lemma utc_full_year_make_day_ge:
  assumes "m < 12" "1 \<le> d"
  shows "y \<le> utc_full_year (make_day y (int m) d * ms_per_day)"
  unfolding utc_full_year_def
  using assms cum_days_nonneg [of m "is_leap y"] make_day_simple [OF assms(1), of y d]
  by (intro year_of_day_ge) (simp add: ms_per_day_def)

lemma valid_ymd_iff:
  "is_valid_ymd (int y) (int m) (int d) \<longleftrightarrow>
     100 \<le> y \<and> 1 \<le> m \<and> m \<le> 12 \<and> 1 \<le> d \<and> int d \<le> days_in_month (int y) m" (is "?l \<longleftrightarrow> ?r")
proof
  assume l: ?l
  then have m: "1 \<le> m" "m \<le> 12" "1 \<le> d" by (auto simp: is_valid_ymd_def split: if_splits)
  let ?t = "date_utc (int y) (int m - 1) (int d) 0"
  have f: "utc_full_year ?t = int y" "int (utc_month ?t) = int m - 1" "utc_date ?t = int d"
    using l by (auto simp: is_valid_ymd_def Let_def split: if_splits)
  have m1: "int m - 1 = int (m - 1)" "m - 1 < 12" using m by auto
  have "Suc (utc_month ?t) = m" using f(2) m by linarith
  then have "int d \<le> days_in_month (int y) m" using civil_fields(3) [of ?t] unfolding f(1,3) by simp
  moreover have "100 \<le> y"
  proof (rule ccontr)
    assume "\<not> 100 \<le> y"
    then have "?t = make_day (1900 + int y) (int (m - 1)) (int d) * ms_per_day"
      unfolding m1(1) by (simp add: date_utc_def Let_def)
    then show False
      using utc_full_year_make_day_ge [OF m1(2), of "int d" "1900 + int y"] m f(1) by simp
  qed
  ultimately show ?r using m by simp
next
  assume r: ?r
  then have m1: "int m - 1 = int (m - 1)" "m - 1 < 12" "Suc (m - 1) = m" by auto
  have t: "date_utc (int y) (int m - 1) (int d) 0 = make_day (int y) (int (m - 1)) (int d) * ms_per_day + 0"
    unfolding m1(1) using r by (intro date_utc_modern) simp
  have d: "1 \<le> int d" "int d \<le> days_in_month (int y) (Suc (m - 1))" "0 \<le> (0::int)" "0 < ms_per_day"
    using r by (auto simp: m1(3) ms_per_day_def)
  have "int d \<le> 31" using days_in_month_bounds [OF m1(2), of "int y"] d by linarith
  have f1: "utc_full_year (date_utc (int y) (int m - 1) (int d) 0) = int y"
    unfolding t by (rule civil_roundtrip(1) [OF m1(2) d])
  have f2: "int (utc_month (date_utc (int y) (int m - 1) (int d) 0)) = int m - 1"
    unfolding t by (simp only: civil_roundtrip(2) [OF m1(2) d] m1(1))
  have f3: "utc_date (date_utc (int y) (int m - 1) (int d) 0) = int d"
    unfolding t by (rule civil_roundtrip(3) [OF m1(2) d])
  have "\<not> (int m < 1 \<or> 12 < int m \<or> int d < 1 \<or> 31 < int d)" using r \<open>int d \<le> 31\<close> by auto
  then show ?l unfolding is_valid_ymd_def Let_def by (simp only: f1 f2 f3 if_False simp_thms)
qed

lemma parse_dec_lt: "all_digits s \<Longrightarrow> parse_dec s < 10 ^ length s"
proof (induction s rule: rev_induct)
  case (snoc c s)
  then have "parse_dec s < 10 ^ length s" "digit_val c < 10" by (auto dest: digit_val_lt)
  then show ?case by simp
qed simp

lemma length_dec_str_le: "n < 10000 \<Longrightarrow> length (dec_str n) \<le> 4"
  by (subst length_dec_str, subst length_dec_str, subst length_dec_str, subst length_dec_str) auto

lemma digits_no_mark: "all_digits s \<Longrightarrow> \<not> is_digit c \<Longrightarrow> c \<notin> set s"
  by (auto simp: all_digits_def list_all_iff)

lemma marks_not_digit: "\<not> is_digit dash" "\<not> is_digit slash" "\<not> is_digit (CHR ''.'')" "\<not> is_digit (CHR ''Q'')"
  by (simp_all add: is_digit_def)

subsection \<open>Canonical dates\<close>

text \<open>The shape of every date the reader returns: year, two-digit month and day, on the calendar.\<close>

definition canonical_date :: "string \<Rightarrow> nat \<Rightarrow> nat \<Rightarrow> nat \<Rightarrow> bool" where
  "canonical_date r y m d \<longleftrightarrow> is_valid_ymd (int y) (int m) (int d) \<and> y < 10000 \<and>
     (\<exists>ys ms ds. split_on dash r = [ys, ms, ds] \<and> all_digits ys \<and> all_digits ms \<and> all_digits ds \<and>
        length ys \<le> 4 \<and> (1000 \<le> y \<longrightarrow> length ys = 4) \<and> length ms = 2 \<and> length ds = 2 \<and>
        parse_dec ys = y \<and> parse_dec ms = m \<and> parse_dec ds = d)"

lemma ymd_canonical:
  assumes "ymd y m d = Some r" "y < 10000"
  shows "canonical_date r y m d"
proof -
  have v: "is_valid_ymd (int y) (int m) (int d)" and r: "r = dec_str y @ ''-'' @ pad2 m @ ''-'' @ pad2 d"
    using assms(1) by (auto simp: ymd_def split: if_splits)
  then have w: "1 \<le> m" "m \<le> 12" "int d \<le> days_in_month (int y) m" by (auto simp: valid_ymd_iff)
  moreover have "days_in_month (int y) (Suc (m - 1)) \<le> 31"
    using w days_in_month_bounds [of "m - 1" "int y"] by auto
  ultimately have md: "m < 100" "d < 100" by auto
  have "r = join [dash] [dec_str y, pad2 m, pad2 d]" by (simp add: r)
  moreover have "dash \<notin> set (dec_str y)" "dash \<notin> set (pad2 m)" "dash \<notin> set (pad2 d)"
    by (simp_all only: digits_no_mark marks_not_digit all_digits_dec_str all_digits_pad2 not_False_eq_True)
  ultimately have "split_on dash r = [dec_str y, pad2 m, pad2 d]"
    by (simp only:) (rule split_join, simp_all)
  then show ?thesis unfolding canonical_date_def
    using v assms(2) md length_dec_str_le [OF assms(2)] length_dec_str_4 [of y]
    by (auto simp: pad2_length)
qed

lemma match_ymd_fields:
  assumes "match_ymd c lo s = Some (y, m, d)"
  shows "y < 10000" and "\<exists>ys ms ds. split_on c s = [ys, ms, ds] \<and> num_field 4 4 ys \<and> num_field lo 2 ms \<and>
    num_field lo 2 ds \<and> parse_dec ys = y \<and> parse_dec ms = m \<and> parse_dec ds = d"
proof -
  show ex: "\<exists>ys ms ds. split_on c s = [ys, ms, ds] \<and> num_field 4 4 ys \<and> num_field lo 2 ms \<and>
    num_field lo 2 ds \<and> parse_dec ys = y \<and> parse_dec ms = m \<and> parse_dec ds = d"
    using assms by (auto simp: match_ymd_def split: list.splits if_splits)
  show "y < 10000" using ex parse_dec_lt by (fastforce simp: num_field_def)
qed

lemma excel_serial_canonical:
  assumes "excel_serial s = Some r"
  shows "\<exists>y m d. canonical_date r y m d"
proof -
  let ?n = "int (parse_dec s)"
  let ?t = "(?n - 25569) * 86400000"
  have b: "20000 \<le> ?n" "?n \<le> 60000"
    and r: "ymd (nat (utc_full_year ?t)) (utc_month ?t + 1) (nat (utc_date ?t)) = Some r"
    using assms by (auto simp: excel_serial_def Let_def split: if_splits)
  have "day_from_year 2100 = 47482" by (simp add: day_from_year_def)
  then have "utc_full_year ?t < 2100"
    using b unfolding utc_full_year_def by (intro year_of_day_less) (simp add: ms_per_day_def)
  then have "nat (utc_full_year ?t) < 10000" by simp
  then show ?thesis using ymd_canonical [OF r] by blast
qed

lemma split_dmy_fields:
  assumes "split_dmy s = Some (a, b, c)"
  shows "all_digits c \<and> (length c = 2 \<or> length c = 4)"
  using assms by (auto simp: split_dmy_def num_field_def Let_def split: if_splits)

lemma parse_flexible_date_canonical:
  assumes "parse_flexible_date s = Some r"
  shows "\<exists>y m d. canonical_date r y m d"
proof (cases "match_ymd dash 2 (trim s)")
  case (Some ymd)
  obtain y m d where ymd: "ymd = (y, m, d)" by (cases ymd)
  then have "r = trim s" "is_valid_ymd (int y) (int m) (int d)"
    using assms Some by (auto simp: parse_flexible_date_def Let_def split: if_splits)
  then have "canonical_date r y m d"
    using match_ymd_fields [of dash 2 "trim s" y m d] Some
    by (auto simp: canonical_date_def ymd num_field_def)
  then show ?thesis by blast
next
  case n1: None
  show ?thesis
  proof (cases "match_ymd slash 1 (trim s)")
    case (Some t)
    obtain y m d where t: "t = (y, m, d)" by (cases t)
    then have "ymd y m d = Some r"
      using assms n1 Some by (auto simp: parse_flexible_date_def Let_def split: if_splits)
    then show ?thesis using ymd_canonical match_ymd_fields(1) Some t by blast
  next
    case n2: None
    show ?thesis
    proof (cases "split_dmy (trim s)")
      case (Some t)
      obtain a b c where t: "t = (a, b, c)" by (cases t)
      have "parse_dec c < 10 ^ length c" "length c = 2 \<or> length c = 4"
        using split_dmy_fields Some t parse_dec_lt by blast+
      then have "(if length c = 2 then 2000 + parse_dec c else parse_dec c) < 10000" by auto
      moreover obtain m d where "ymd (if length c = 2 then 2000 + parse_dec c else parse_dec c) m d = Some r"
        using assms n1 n2 Some by (auto simp: parse_flexible_date_def t Let_def split: if_splits)
      ultimately show ?thesis using ymd_canonical by blast
    next
      case None
      then show ?thesis using assms n1 n2
        by (auto simp: parse_flexible_date_def Let_def intro: excel_serial_canonical split: if_splits)
    qed
  qed
qed

lemma canonical_date_text:
  assumes "canonical_date r y m d"
  shows "trim r = r" and "1000 \<le> y \<Longrightarrow> match_ymd dash 2 r = Some (y, m, d)" and "r \<noteq> []"
proof -
  obtain ys ms ds where f: "split_on dash r = [ys, ms, ds]" "all_digits ys" "all_digits ms" "all_digits ds"
      "1000 \<le> y \<longrightarrow> length ys = 4" "length ms = 2" "length ds = 2" "parse_dec ys = y" "parse_dec ms = m"
      "parse_dec ds = d"
    using assms by (auto simp: canonical_date_def)
  have r: "r = ys @ dash # ms @ dash # ds" using join_split [of dash r] f(1) by simp
  have "\<not> is_ws dash" by (simp add: is_ws_def ws_chars_def)
  then have "\<forall>c\<in>set r. \<not> is_ws c"
    using f(2-4) by (auto simp: r all_digits_def list_all_iff digit_not_ws)
  then show "trim r = r" by (rule trim_no_ws)
  show "r \<noteq> []" by (simp add: r)
  show "1000 \<le> y \<Longrightarrow> match_ymd dash 2 r = Some (y, m, d)"
    using f by (simp add: match_ymd_def num_field_def)
qed

text \<open>
  Whatever the input, a date the reader accepts comes out as year, two-digit month and two-digit
  day of a date that exists on the calendar; and for the years from 1000 on that text is canonical,
  the reader maps it to itself.
\<close>

theorem parse_flexible_date_normal:
  assumes "parse_flexible_date s = Some r"
  shows "\<exists>y m d. canonical_date r y m d \<and> 1 \<le> m \<and> m \<le> 12 \<and> 1 \<le> d \<and> int d \<le> days_in_month (int y) m \<and>
    (if 1000 \<le> y then parse_flexible_date r = Some r else True)"
proof -
  obtain y m d where c: "canonical_date r y m d" using parse_flexible_date_canonical [OF assms] by blast
  then have v: "is_valid_ymd (int y) (int m) (int d)" by (simp add: canonical_date_def)
  have "parse_flexible_date r = Some r" if "1000 \<le> y"
    using canonical_date_text [OF c] that v by (simp add: parse_flexible_date_def Let_def)
  then show ?thesis using c v by (auto simp: valid_ymd_iff)
qed

theorem parse_flexible_date_normal_witness:
  "\<exists>y m d. canonical_date ''2026-03-28'' y m d \<and> 1 \<le> m \<and> m \<le> 12 \<and> 1 \<le> d \<and>
    int d \<le> days_in_month (int y) m \<and>
    (if 1000 \<le> y then parse_flexible_date ''2026-03-28'' = Some ''2026-03-28'' else True)"
  by (rule parse_flexible_date_normal [of "''2026-03-28''"]) code_simp

subsection \<open>Canonical labels\<close>

definition well_kinded :: "period \<Rightarrow> bool" where
  "well_kinded p \<longleftrightarrow> (case (p_quarter p, p_month p) of
     (Some q, None) \<Rightarrow> 1 \<le> q \<and> q \<le> 4
   | (None, Some m) \<Rightarrow> 1 \<le> m \<and> m \<le> 12
   | (None, None) \<Rightarrow> True
   | (Some q, Some m) \<Rightarrow> False)"

lemma quarter_digit_val: "quarter_digit c \<Longrightarrow> 1 \<le> digit_val c \<and> digit_val c \<le> 4"
  by (auto simp: quarter_digit_def digit_val_def)

lemma parse_dec_4: "all_digits s \<Longrightarrow> length s = 4 \<Longrightarrow> parse_dec s < 10000"
  using parse_dec_lt [of s] by simp

lemma month_names_range: "map_of month_names s = Some m \<Longrightarrow> 1 \<le> m \<and> m \<le> 12"
  by (drule map_of_SomeD) (auto simp: month_names_def)

lemma all_digits_take: "all_digits (s @ t) \<Longrightarrow> all_digits s"
  by simp

lemma match_quarter_range:
  assumes "or_else (match_q_year s) (match_year_q s) = Some (y, q)"
  shows "y < 10000 \<and> 1 \<le> q \<and> q \<le> 4"
  using assms by (auto simp: or_else_def match_q_year_def match_year_q_def last_n_def
      split: option.splits if_splits intro!: parse_dec_4 dest: quarter_digit_val)

lemma match_name_range:
  assumes "month_of_name (or_else (match_name_year s) (match_year_name s)) = Some (y, m)"
  shows "y < 10000 \<and> 1 \<le> m \<and> m \<le> 12"
  using assms by (auto simp: or_else_def match_name_year_def match_year_name_def month_of_name_def
      last_n_def Let_def split: option.splits if_splits intro!: parse_dec_4 dest: month_names_range)

lemma parse_period_shape:
  assumes "parse_period s = Some p"
  shows "p_year p < 10000 \<and> well_kinded p"
proof -
  let ?s = "trim s"
  consider (q) y q where "or_else (match_q_year ?s) (match_year_q ?s) = Some (y, q)"
        "p = \<lparr>p_year = y, p_quarter = Some q, p_month = None\<rparr>"
    | (m) y m where "match_year_month ?s = Some (y, m)" "1 \<le> m" "m \<le> 12"
        "p = \<lparr>p_year = y, p_quarter = None, p_month = Some m\<rparr>"
    | (n) y m where "month_of_name (or_else (match_name_year ?s) (match_year_name ?s)) = Some (y, m)"
        "p = \<lparr>p_year = y, p_quarter = None, p_month = Some m\<rparr>"
    | (y) "num_field 4 4 ?s" "p = \<lparr>p_year = parse_dec ?s, p_quarter = None, p_month = None\<rparr>"
    | (d) r where "parse_flexible_date ?s = Some r"
        "p = \<lparr>p_year = parse_dec (split_on dash r ! 0), p_quarter = None,
              p_month = Some (parse_dec (split_on dash r ! 1))\<rparr>"
    using assms
    by (auto simp: parse_period_def Let_def split: if_splits option.splits)
  then show ?thesis
  proof cases
    case q
    then show ?thesis using match_quarter_range by (auto simp: well_kinded_def)
  next
    case m
    then have "y < 10000"
      by (auto simp: match_year_month_def num_field_def Let_def split: if_splits intro: parse_dec_4)
    then show ?thesis using m by (simp add: well_kinded_def)
  next
    case n
    then show ?thesis using match_name_range by (auto simp: well_kinded_def)
  next
    case y
    then show ?thesis by (auto simp: well_kinded_def num_field_def intro: parse_dec_4)
  next
    case d
    obtain y mo dd where "canonical_date r y mo dd" using parse_flexible_date_canonical [OF d(1)] by blast
    then show ?thesis using d(2) by (auto simp: canonical_date_def well_kinded_def valid_ymd_iff)
  qed
qed

lemma dec_str_4:
  assumes "1000 \<le> y" "y < 10000"
  obtains a b c d where "dec_str y = [a, b, c, d]" "is_digit a" "is_digit b" "is_digit c" "is_digit d"
proof -
  have "length (dec_str y) = 4" using assms by (intro length_dec_str_4) auto
  then obtain a b c d where "dec_str y = [a, b, c, d]" by (auto simp: length_Suc_conv numeral_eq_Suc)
  then show ?thesis using that all_digits_dec_str [of y] by simp
qed

lemma digit_not_q: "is_digit c \<Longrightarrow> lower_char c \<noteq> CHR ''q''"
  by (auto simp: is_digit_def lower_char_def Let_def)

lemma plain_char_not_ws: "c \<in> set ''-Qq'' \<Longrightarrow> \<not> is_ws c"
  by (auto simp: is_ws_def ws_chars_def)

lemma quarter_cases: "1 \<le> q \<Longrightarrow> q \<le> 4 \<Longrightarrow> q = 1 \<or> q = 2 \<or> q = 3 \<or> q = (4::nat)"
  by arith

lemma quarter_digit_char:
  assumes "1 \<le> q" "q \<le> 4"
  shows "quarter_digit (digit_char q)"
proof -
  have "quarter_digit (digit_char 1)" "quarter_digit (digit_char 2)" "quarter_digit (digit_char 3)"
      "quarter_digit (digit_char 4)" by code_simp+
  then show ?thesis using quarter_cases [OF assms] by auto
qed

lemma parse_quarter_label:
  assumes "1000 \<le> y" "y < 10000" "1 \<le> q" "q \<le> 4"
  shows "parse_period (dec_str y @ ''-Q'' @ dec_str q) = Some \<lparr>p_year = y, p_quarter = Some q, p_month = None\<rparr>"
proof -
  obtain a b c d where y: "dec_str y = [a, b, c, d]" and dg: "is_digit a" "is_digit b" "is_digit c" "is_digit d"
    using dec_str_4 [OF assms(1,2)] .
  have q: "dec_str q = [digit_char q]" using assms(4) by (subst dec_str.simps) simp
  have qd: "quarter_digit (digit_char q)" "digit_val (digit_char q) = q" "is_digit (digit_char q)"
    using quarter_digit_char [OF assms(3,4)] assms(4) by simp_all
  let ?s = "[a, b, c, d, dash, CHR ''Q'', digit_char q]"
  have "\<forall>c\<in>set ?s. \<not> is_ws c" using dg qd(3) plain_char_not_ws by (auto simp: digit_not_ws)
  then have tr: "trim ?s = ?s" by (rule trim_no_ws)
  have n: "match_q_year ?s = None" using digit_not_q [OF dg(1)] by (simp add: match_q_year_def)
  have p: "parse_dec [a, b, c, d] = y" using parse_dec_str [of y] by (simp only: y)
  have low: "lower_char (CHR ''Q'') = CHR ''q''" by code_simp
  have m: "match_year_q ?s = Some (y, q)"
    using dg qd marks_not_digit(1) p low
    by (simp add: match_year_q_def last_n_def but_n_def no_digit_def)
  show ?thesis by (simp add: parse_period_def y q tr n m or_else_def Let_def)
qed

lemma parse_month_label:
  assumes "1000 \<le> y" "y < 10000" "1 \<le> m" "m \<le> 12"
  shows "parse_period (dec_str y @ ''-'' @ pad2 m) = Some \<lparr>p_year = y, p_quarter = None, p_month = Some m\<rparr>"
proof -
  obtain a b c d where y: "dec_str y = [a, b, c, d]" and dg: "is_digit a" "is_digit b" "is_digit c" "is_digit d"
    using dec_str_4 [OF assms(1,2)] .
  have "length (pad2 m) = 2" using assms(4) by (simp add: pad2_length)
  then obtain e f where ef: "pad2 m = [e, f]" by (auto simp: length_Suc_conv numeral_eq_Suc)
  then have de: "is_digit e" "is_digit f" using all_digits_pad2 [of m] by simp_all
  let ?s = "[a, b, c, d, dash, e, f]"
  have "\<forall>c\<in>set ?s. \<not> is_ws c" using dg de plain_char_not_ws by (auto simp: digit_not_ws)
  then have tr: "trim ?s = ?s" by (rule trim_no_ws)
  have n: "match_q_year ?s = None" "match_year_q ?s = None"
    using digit_not_q dg(1) de(1) by (simp_all add: match_q_year_def match_year_q_def last_n_def)
  have p: "parse_dec [a, b, c, d] = y" "parse_dec [e, f] = m"
    using parse_dec_str [of y] parse_pad2 [of m] by (simp_all only: y ef)
  have mm: "match_year_month ?s = Some (y, m)"
    using dg de p by (simp add: match_year_month_def num_field_def numeral_eq_Suc)
  show ?thesis using assms(3,4) by (simp add: parse_period_def y ef tr n mm or_else_def Let_def)
qed

lemma parse_year_label:
  assumes "1000 \<le> y" "y < 10000"
  shows "parse_period (dec_str y) = Some \<lparr>p_year = y, p_quarter = None, p_month = None\<rparr>"
proof -
  have l: "length (dec_str y) = 4" using assms by (intro length_dec_str_4) auto
  have tr: "trim (dec_str y) = dec_str y" by (rule trim_digits) simp
  have "match_q_year (dec_str y) = None" "match_year_q (dec_str y) = None"
      "match_year_month (dec_str y) = None" "match_name_year (dec_str y) = None" "match_year_name (dec_str y) = None"
    by (simp_all add: match_q_year_def match_year_q_def match_year_month_def match_name_year_def
        match_year_name_def Let_def l)
  then show ?thesis
    by (simp add: parse_period_def tr or_else_def month_of_name_def num_field_def l Let_def)
qed

text \<open>
  Period labels have a normal form: whatever way a provider writes a period (quarter, month
  name, number, bare year or a full date) that the parser understands, the stored label parses back
  to the same period, so normalising a label twice is normalising it once.
\<close>

theorem period_label_roundtrip:
  assumes "parse_period s = Some p" and "1000 \<le> p_year p"
  shows "parse_period (period_label p) = Some p \<and>
    normalize_period_label s = Some (period_label p) \<and>
    normalize_period_label (period_label p) = Some (period_label p)"
proof -
  have y: "p_year p < 10000" and k: "well_kinded p" using parse_period_shape [OF assms(1)] by auto
  have "parse_period (period_label p) = Some p"
    using k parse_quarter_label [OF assms(2) y] parse_month_label [OF assms(2) y] parse_year_label [OF assms(2) y]
    by (cases p; cases "p_quarter p"; cases "p_month p") (auto simp: period_label_def well_kinded_def)
  then show ?thesis using assms(1) by (simp add: normalize_period_label_def)
qed

theorem period_label_roundtrip_witness:
  "parse_period (period_label \<lparr>p_year = 2026, p_quarter = Some 3, p_month = None\<rparr>) =
     Some \<lparr>p_year = 2026, p_quarter = Some 3, p_month = None\<rparr> \<and>
   normalize_period_label ''q3 / 2026'' = Some (period_label \<lparr>p_year = 2026, p_quarter = Some 3, p_month = None\<rparr>) \<and>
   normalize_period_label (period_label \<lparr>p_year = 2026, p_quarter = Some 3, p_month = None\<rparr>) =
     Some (period_label \<lparr>p_year = 2026, p_quarter = Some 3, p_month = None\<rparr>)"
proof -
  have "parse_period ''q3 / 2026'' = Some \<lparr>p_year = 2026, p_quarter = Some 3, p_month = None\<rparr>" by code_simp
  then show ?thesis by (rule period_label_roundtrip) simp
qed

subsection \<open>The extent of a period\<close>

text \<open>Months are numbered on one line, \<open>12 * y + m\<close>; a month starts where the one before it ends.\<close>

definition month_start :: "int \<Rightarrow> int" where "month_start k = make_day (k div 12) (k mod 12) 1"

lemma make_day_month_start: "make_day y m d = month_start (12 * y + m) + d - 1"
  by (simp add: month_start_def make_day_def Let_def add.commute)

lemma month_start_eq:
  "month_start k = day_from_year (k div 12) + cum_days (is_leap (k div 12)) (nat (k mod 12))"
  by (simp add: month_start_def make_day_def Let_def)

lemma month_start_Suc:
  "month_start (k + 1) = month_start k + days_in_month (k div 12) (Suc (nat (k mod 12)))"
proof -
  have m: "0 \<le> k mod 12" "k mod 12 < 12" by simp_all
  show ?thesis
  proof (cases "k mod 12 = 11")
    case True
    have s: "(k + 1) mod 12 = 0" "(k + 1) div 12 = k div 12 + 1"
      using True div_step [of 12 k] mod_step [of 12 k] by simp_all
    show ?thesis unfolding month_start_eq s True
      using day_from_year_Suc [of "k div 12"] cum_days_12 [of "is_leap (k div 12)"]
      by (simp add: days_in_month_def)
  next
    case False
    then have s: "(k + 1) mod 12 = k mod 12 + 1" "(k + 1) div 12 = k div 12"
      using div_step [of 12 k] mod_step [of 12 k] m by simp_all
    have "nat (k mod 12 + 1) = Suc (nat (k mod 12))" using m by simp
    then show ?thesis unfolding month_start_eq s by (simp only: days_in_month_def diff_Suc_1)
  qed
qed

lemma month_start_less_Suc: "month_start k < month_start (k + 1)"
proof -
  have "nat (k mod 12) < 12" by (simp add: nat_less_iff)
  then show ?thesis using month_start_Suc [of k] days_in_month_bounds [of "nat (k mod 12)" "k div 12"] by simp
qed

lemma month_start_strict: "a < b \<Longrightarrow> month_start a < month_start b"
proof (induction b rule: int_gr_induct)
  case base
  then show ?case by (rule month_start_less_Suc)
next
  case (step i)
  then show ?case using month_start_less_Suc [of i] by simp
qed

lemma month_start_le_iff: "month_start a \<le> month_start b \<longleftrightarrow> a \<le> b"
  using month_start_strict [of a b] month_start_strict [of b a] by (cases a b rule: linorder_cases) auto

lemma day_in_months:
  assumes "month_start k \<le> n" "n < month_start (k + 1)"
  shows "month_start a \<le> n \<and> n < month_start b \<longleftrightarrow> a \<le> k \<and> k < b"
proof -
  have "month_start a \<le> n \<longleftrightarrow> a \<le> k"
    using assms month_start_le_iff [of a k] month_start_le_iff [of "k + 1" a] by linarith
  moreover have "n < month_start b \<longleftrightarrow> k < b"
    using assms month_start_le_iff [of b k] month_start_le_iff [of "k + 1" b] by linarith
  ultimately show ?thesis by simp
qed

lemma valid_day_month:
  assumes "1 \<le> m" "m \<le> 12" "1 \<le> d" "int d \<le> days_in_month (int y) m"
  shows "month_start (12 * int y + int m - 1) \<le> make_day (int y) (int m - 1) (int d)"
    and "make_day (int y) (int m - 1) (int d) < month_start (12 * int y + int m - 1 + 1)"
proof -
  let ?k = "12 * int y + int m - 1"
  have e: "?k = (int m - 1) + int y * 12" by simp
  have k: "?k div 12 = int y" "?k mod 12 = int m - 1" unfolding e using assms(1,2) by simp_all
  have "Suc (nat (int m - 1)) = m" using assms(1) by simp
  then have "month_start (?k + 1) = month_start ?k + days_in_month (int y) m"
    using month_start_Suc [of ?k] by (simp only: k)
  moreover have "make_day (int y) (int m - 1) (int d) = month_start ?k + int d - 1"
    using make_day_month_start [of "int y" "int m - 1" "int d"] by (simp add: add_diff_eq)
  ultimately show "month_start ?k \<le> make_day (int y) (int m - 1) (int d)"
    and "make_day (int y) (int m - 1) (int d) < month_start (?k + 1)" using assms by auto
qed

text \<open>The first month of a period and the month after its last, on that line.\<close>

definition first_month :: "period \<Rightarrow> int" where
  "first_month p = 12 * int (p_year p) + (case p_quarter p of Some q \<Rightarrow> (int q - 1) * 3
     | None \<Rightarrow> (case p_month p of Some m \<Rightarrow> int m - 1 | None \<Rightarrow> 0))"

definition month_count :: "period \<Rightarrow> int" where
  "month_count p = (case p_quarter p of Some q \<Rightarrow> 3 | None \<Rightarrow> (case p_month p of Some m \<Rightarrow> 1 | None \<Rightarrow> 12))"

lemma period_bounds:
  assumes "100 \<le> p_year p"
  shows "period_start_date p = month_start (first_month p) * ms_per_day"
    and "period_end_date p + 1 = month_start (first_month p + month_count p) * ms_per_day"
  using assms
  by (auto simp: period_start_date_def period_end_date_def date_utc_modern make_day_month_start
      first_month_def month_count_def end_of_day_def ms_per_day_def algebra_simps split: option.split)

definition next_period :: "period \<Rightarrow> period" where
  "next_period p = (case p_quarter p of
     Some q \<Rightarrow> (if q = 4 then p\<lparr>p_year := Suc (p_year p), p_quarter := Some 1\<rparr> else p\<lparr>p_quarter := Some (Suc q)\<rparr>)
   | None \<Rightarrow> (case p_month p of
       Some m \<Rightarrow> (if m = 12 then p\<lparr>p_year := Suc (p_year p), p_month := Some 1\<rparr> else p\<lparr>p_month := Some (Suc m)\<rparr>)
     | None \<Rightarrow> p\<lparr>p_year := Suc (p_year p)\<rparr>))"

lemma first_month_next:
  "well_kinded p \<Longrightarrow> first_month (next_period p) = first_month p + month_count p"
  by (auto simp: well_kinded_def next_period_def first_month_def month_count_def split: option.splits)

text \<open>
  The periods of a kind tile time: the quarters, the months and the years each start one
  millisecond after the previous one ends, with neither gap nor overlap, and none is empty.
\<close>

theorem periods_tile:
  assumes "parse_period s = Some p" and "100 \<le> p_year p"
  shows "period_start_date (next_period p) = period_end_date p + 1 \<and>
    period_start_date p < period_end_date p \<and>
    (period_has_ended p now \<longleftrightarrow> now + 1 \<ge> period_start_date (next_period p))"
proof -
  have k: "well_kinded p" using parse_period_shape [OF assms(1)] by simp
  have "100 \<le> p_year (next_period p)" using assms(2) by (auto simp: next_period_def split: option.splits)
  then have n: "period_start_date (next_period p) = period_end_date p + 1"
    using period_bounds(1) [of "next_period p"] period_bounds(2) [OF assms(2)] first_month_next [OF k] by simp
  have "0 < month_count p" by (auto simp: month_count_def split: option.splits)
  then have "month_start (first_month p) < month_start (first_month p + month_count p)"
    by (intro month_start_strict) simp
  then have "period_start_date p < period_end_date p"
    using period_bounds [OF assms(2)] by (simp add: ms_per_day_def)
  then show ?thesis using n by (auto simp: period_has_ended_def)
qed

theorem periods_tile_witness:
  "period_start_date (next_period \<lparr>p_year = 2026, p_quarter = Some 4, p_month = None\<rparr>) =
     period_end_date \<lparr>p_year = 2026, p_quarter = Some 4, p_month = None\<rparr> + 1 \<and>
   period_start_date \<lparr>p_year = 2026, p_quarter = Some 4, p_month = None\<rparr> <
     period_end_date \<lparr>p_year = 2026, p_quarter = Some 4, p_month = None\<rparr> \<and>
   (period_has_ended \<lparr>p_year = 2026, p_quarter = Some 4, p_month = None\<rparr> 5 \<longleftrightarrow>
     5 + 1 \<ge> period_start_date (next_period \<lparr>p_year = 2026, p_quarter = Some 4, p_month = None\<rparr>))"
  by (rule periods_tile [of "''Q4 2026''"]) (code_simp, simp)

lemma js_date_canonical:
  assumes "canonical_date r y m d" "1000 \<le> y"
  shows "js_date other (r @ midnight_suffix) = Some (make_day (int y) (int m - 1) (int d) * ms_per_day)"
proof -
  have mt: "match_ymd dash 2 r = Some (y, m, d)" using canonical_date_text(2) [OF assms(1)] assms(2) by simp
  obtain ys ms ds where f: "split_on dash r = [ys, ms, ds]" "length ys = 4" "length ms = 2" "length ds = 2"
    using assms by (auto simp: canonical_date_def)
  then have "r = ys @ dash # ms @ dash # ds" using join_split [of dash r] by simp
  then have l: "length r = 10" using f by simp
  moreover have "1 \<le> m \<and> m \<le> 12 \<and> 1 \<le> d \<and> int d \<le> days_in_month (int y) m"
    using assms(1) by (simp add: canonical_date_def valid_ymd_iff)
  ultimately show ?thesis by (simp add: js_date_def mt Let_def)
qed

lemma month_line_eq:
  fixes y z m a b :: nat
  assumes "1 \<le> m" "m \<le> 12" "a < b" "b \<le> 12"
  shows "12 * int z + int a \<le> 12 * int y + int m - 1 \<and> 12 * int y + int m - 1 < 12 * int z + int b
    \<longleftrightarrow> y = z \<and> a < m \<and> m \<le> b"
  using assms by (cases y z rule: linorder_cases) auto

definition first_index :: "period \<Rightarrow> nat" where
  "first_index p = (case p_quarter p of Some q \<Rightarrow> (q - 1) * 3
     | None \<Rightarrow> (case p_month p of Some m \<Rightarrow> m - 1 | None \<Rightarrow> 0))"

lemma month_range:
  assumes "well_kinded p"
  shows "first_month p = 12 * int (p_year p) + int (first_index p)"
    and "12 * int (p_year p) + int (first_index p) + month_count p =
      12 * int (p_year p) + int (first_index p + nat (month_count p))"
  using assms by (auto simp: first_month_def first_index_def month_count_def well_kinded_def of_nat_diff
      split: option.splits)

lemma month_span:
  "well_kinded p \<Longrightarrow> first_index p < first_index p + nat (month_count p)"
  "well_kinded p \<Longrightarrow> first_index p + nat (month_count p) \<le> 12"
  by (auto simp: first_index_def month_count_def well_kinded_def split: option.splits)

lemma quarter_of_month: "1 \<le> q \<Longrightarrow> (m + 2) div 3 = q \<longleftrightarrow> (q - 1) * 3 < m \<and> m \<le> (q - 1) * 3 + (3::nat)"
  by (cases q) (auto simp: div_nat_eqI)

text \<open>
  The period check decides membership exactly: for a date and a period the parsers accept, from
  the year 1000 on, the check answers true precisely when the date is in the period's year and, for
  a quarter or a month, in that quarter or month, so no row of another quarter can be filed.
\<close>

theorem date_in_period_exact:
  assumes "parse_flexible_date s = Some r" and "canonical_date r y m d" and "1000 \<le> y"
    and "parse_period label = Some p" and "100 \<le> p_year p"
  shows "date_in_period other s label = Some (y = p_year p \<and>
    (case p_quarter p of Some q \<Rightarrow> (m + 2) div 3 = q
     | None \<Rightarrow> (case p_month p of Some mo \<Rightarrow> m = mo | None \<Rightarrow> True)))"
proof -
  let ?n = "make_day (int y) (int m - 1) (int d)" and ?k = "12 * int y + int m - 1"
  have v: "1 \<le> m" "m \<le> 12" "1 \<le> d" "int d \<le> days_in_month (int y) m"
    using assms(2) by (auto simp: canonical_date_def valid_ymd_iff)
  have kind: "well_kinded p" using parse_period_shape [OF assms(4)] by simp
  note b = period_bounds [OF assms(5)]
  have "period_start_date p \<le> ?n * ms_per_day \<longleftrightarrow> month_start (first_month p) \<le> ?n"
    by (simp add: b(1) ms_per_day_def)
  moreover have "?n * ms_per_day \<le> period_end_date p \<longleftrightarrow> ?n < month_start (first_month p + month_count p)"
    using b(2) by (auto simp: ms_per_day_def)
  ultimately have "period_start_date p \<le> ?n * ms_per_day \<and> ?n * ms_per_day \<le> period_end_date p \<longleftrightarrow>
      first_month p \<le> ?k \<and> ?k < first_month p + month_count p"
    using day_in_months [OF valid_day_month [OF v]] by simp
  also have "\<dots> \<longleftrightarrow> y = p_year p \<and> (case p_quarter p of Some q \<Rightarrow> (m + 2) div 3 = q
     | None \<Rightarrow> (case p_month p of Some mo \<Rightarrow> m = mo | None \<Rightarrow> True))"
    unfolding month_range [OF kind] using v(1,2) kind month_span [OF kind]
    by (subst month_line_eq)
      (auto simp: first_index_def month_count_def well_kinded_def quarter_of_month split: option.splits)
  finally show ?thesis
    using js_date_canonical [OF assms(2,3), of other] assms(1,4) by (simp add: date_in_period_def)
qed

theorem date_in_period_exact_witness:
  "date_in_period (\<lambda>_. None) ''2026-03-28'' ''2026-Q1'' = Some ((2026::nat) = 2026 \<and> (3 + 2) div 3 = (1::nat))"
proof -
  have d: "canonical_date ''2026-03-28'' 2026 3 28"
    by (rule ymd_canonical) (code_simp, simp)
  have "parse_flexible_date ''2026-03-28'' = Some ''2026-03-28''" by code_simp
  moreover have "parse_period ''2026-Q1'' = Some \<lparr>p_year = 2026, p_quarter = Some 1, p_month = None\<rparr>" by code_simp
  ultimately show ?thesis using date_in_period_exact [OF _ d, of "''2026-03-28''"] by simp
qed

end
