(* ===== verification/ReturnSchema.thy ===== *)
theory ReturnSchema
  imports CsvText Periods
begin

text \<open>
  The return template and the row validator of
  \<open>backend/src/modules/submissions/submission-parser.ts\<close>: field definitions, the eight columns of the
  return, \<open>validateRow\<close> with its errors, warnings and self-healed dates, the grace period of a phased-in
  column, the file-level header guard and the explanation of a header the parser cannot use, and the
  detection of spreadsheets by content. Messages are constructors that carry the values they print.
\<close>

subsection \<open>Field definitions and the return template\<close>

datatype field_type = StringT | DecimalT | IntegerT
datatype field_format = EmailF | DateF | CurrencyF

record validation =
  v_length :: "nat option"
  v_min :: "rat option"
  v_max :: "rat option"
  v_pattern :: "string option"
  v_enum :: "string list option"
  v_format :: "field_format option"
  v_identifier :: bool
  v_bank_account_digits :: "nat option"
  v_enforce_from :: "string option"

record field_def =
  f_name :: string
  f_required :: bool
  f_type :: field_type
  f_validation :: "validation option"

record schema_template =
  s_provider_type :: string
  s_columns :: "field_def list"

definition no_validation :: validation where
  "no_validation = \<lparr>v_length = None, v_min = None, v_max = None, v_pattern = None, v_enum = None,
     v_format = None, v_identifier = False, v_bank_account_digits = None, v_enforce_from = None\<rparr>"

definition compulsory_field_enforce_from :: string where
  "compulsory_field_enforce_from = ''2027-01-01''"

definition customer_types :: "string list" where
  "customer_types = [''INDIVIDUAL'', ''BUSINESS_NAME'', ''PRIVATE_LIMITED'', ''PUBLIC_LIMITED'',
     ''LIMITED_BY_GUARANTEE'', ''INCORPORATED_TRUSTEES'']"

definition limited_liability_customer_types :: "string list" where
  "limited_liability_customer_types = [''PRIVATE_LIMITED'', ''PUBLIC_LIMITED'', ''LIMITED_BY_GUARANTEE'']"

definition column :: "string \<Rightarrow> bool \<Rightarrow> field_type \<Rightarrow> validation option \<Rightarrow> field_def" where
  "column n req t v = \<lparr>f_name = n, f_required = req, f_type = t, f_validation = v\<rparr>"

definition return_columns :: "field_def list" where
  "return_columns =
     [column ''nin'' True StringT (Some (no_validation\<lparr>v_length := Some 11\<rparr>)),
      column ''accountNumber'' True StringT
        (Some (no_validation\<lparr>v_identifier := True, v_bank_account_digits := Some 10\<rparr>)),
      column ''accountName'' True StringT None,
      column ''bvn'' True StringT (Some (no_validation\<lparr>v_length := Some 11\<rparr>)),
      column ''customerType'' True StringT (Some (no_validation\<lparr>v_enum := Some customer_types\<rparr>)),
      column ''totalInflow'' True DecimalT (Some (no_validation\<lparr>v_min := Some 0\<rparr>)),
      column ''totalOutflow'' True DecimalT (Some (no_validation\<lparr>v_min := Some 0\<rparr>)),
      column ''tin'' False StringT (Some (no_validation\<lparr>v_identifier := True\<rparr>))]"

definition provider_types :: "string list" where
  "provider_types = [''BANK'', ''FINTECH'', ''PAYMENT_PROCESSOR'', ''TELCO'', ''FX_BUREAU'',
     ''POS_AGGREGATOR'', ''ECOMMERCE'', ''INSURANCE'', ''OTHER'']"

definition default_schema :: "string \<Rightarrow> schema_template option" where
  "default_schema t = (if t \<in> set provider_types
     then Some \<lparr>s_provider_type = t, s_columns = return_columns\<rparr> else None)"

subsection \<open>The row validator\<close>

text \<open>Optional sign, then digits with a fraction and any exponent, or digits with a signed exponent.\<close>

definition scientific_notation :: "string \<Rightarrow> bool" where
  "scientific_notation s = (let t = (if s \<noteq> [] \<and> hd s \<in> set ''+-'' then tl s else s);
     i = takeWhile is_digit t; r = dropWhile is_digit t;
     exp_digits = (\<lambda>e. e \<noteq> [] \<and> all_digits e)
     in i \<noteq> [] \<and> r \<noteq> [] \<and>
        (if hd r = CHR ''.'' then
           (let f = takeWhile is_digit (tl r); q = dropWhile is_digit (tl r) in
            f \<noteq> [] \<and> q \<noteq> [] \<and> hd q \<in> set ''eE'' \<and>
            (let e = tl q in exp_digits (if e \<noteq> [] \<and> hd e \<in> set ''+-'' then tl e else e)))
         else hd r \<in> set ''eE'' \<and> tl r \<noteq> [] \<and> hd (tl r) \<in> set ''+-'' \<and> exp_digits (tl (tl r))))"

definition email_re :: "string \<Rightarrow> bool" where
  "email_re s = (list_all (\<lambda>c. \<not> is_ws c) s \<and>
     (case split_on (CHR ''@'') s of
        [l, d] \<Rightarrow> l \<noteq> [] \<and> 3 \<le> length d \<and> list_ex (\<lambda>c. c = CHR ''.'') (tl (butlast d))
      | _ \<Rightarrow> False))"

definition currency_re :: "string \<Rightarrow> bool" where
  "currency_re s \<longleftrightarrow> length s = 3 \<and> list_all is_alpha s"

datatype row_msg =
    EmptyWithGrace string "string option" | EmptyField string "string option"
  | ThousandsSeparators string "string \<times> bool" | CurrencySign string "string \<times> bool"
  | ParenthesisedNegative string "string \<times> bool" | NotANumber string "string \<times> bool"
  | NotWhole string | NegativeAmount string string | BelowMin string string rat
  | AboveMax string string rat | NotOnlyDigits string string nat | WrongLength string string nat nat
  | InScientificNotation string string | NotNubanLength string string nat nat
  | NotRecognised string string "string list" | BadEmail string string | BadDate string string
  | DateLeftAsIs string string | BadCurrency string string | BadPattern string

text \<open>What the validator takes from its surroundings: the clock, the date reader of the engine for
  strings outside ISO form, and the regular expressions a stored schema may carry.\<close>

record row_env =
  e_clock :: time
  e_date :: "string \<Rightarrow> time option"
  e_regex :: "string \<Rightarrow> string \<Rightarrow> bool"

record validation_context =
  cx_now :: "time option"
  cx_enforce_from :: "string option"

definition coalesce :: "'a option \<Rightarrow> 'a option \<Rightarrow> 'a option" where
  "coalesce a b = (case a of Some x \<Rightarrow> Some x | None \<Rightarrow> b)"

definition col_enforce_from :: "field_def \<Rightarrow> string option" where
  "col_enforce_from col = (case f_validation col of None \<Rightarrow> None | Some v \<Rightarrow> v_enforce_from v)"

definition ctx_enforce_from :: "validation_context option \<Rightarrow> string option" where
  "ctx_enforce_from ctx = (case ctx of None \<Rightarrow> None | Some c \<Rightarrow> cx_enforce_from c)"

definition grace_elapsed :: "row_env \<Rightarrow> field_def \<Rightarrow> validation_context option \<Rightarrow> bool" where
  "grace_elapsed env col ctx = (let date_str = coalesce (ctx_enforce_from ctx) (col_enforce_from col) in
     if \<not> truthy date_str then True
     else (case js_date (e_date env) (the date_str) of
       None \<Rightarrow> True
     | Some enforce_at \<Rightarrow>
         (let now = (case ctx of None \<Rightarrow> e_clock env
             | Some c \<Rightarrow> (case cx_now c of None \<Rightarrow> e_clock env | Some n \<Rightarrow> n))
          in enforce_at \<le> now)))"

definition field_labels :: "(string \<times> string) list" where
  "field_labels = [(''nin'', ''NIN''), (''bvn'', ''BVN''), (''tin'', ''TIN''),
     (''accountNumber'', ''Account number''), (''accountName'', ''Account name''),
     (''customerType'', ''Customer type''), (''totalInflow'', ''Total inflow''),
     (''totalOutflow'', ''Total outflow''), (''periodLabel'', ''Period'')]"

text \<open>The columns with a hint of their own; the message carries the column whose hint it prints.\<close>

definition blank_hints :: "string list" where
  "blank_hints = [''totalInflow'', ''totalOutflow'', ''nin'', ''bvn'', ''accountNumber'', ''accountName'',
     ''customerType'']"

definition field_label :: "string \<Rightarrow> string" where
  "field_label name = (case map_of field_labels name of Some l \<Rightarrow> l | None \<Rightarrow> name)"

definition is_nan :: "jsnum \<Rightarrow> bool" where "is_nan n \<longleftrightarrow> n = NaN"

text \<open>Which of the four number messages a value that does not parse gets.\<close>

definition number_fault :: "string \<Rightarrow> string \<Rightarrow> row_msg" where
  "number_fault label raw = (let shown = (take 40 raw, 40 < length raw);
     stripped = filter (\<lambda>c. c \<notin> {comma, CHR 0xA0, CHR 0x20}) raw;
     unsigned = (if stripped \<noteq> [] \<and> hd stripped \<in> set ''$#Nn'' then tl stripped else stripped);
     inner = tl (butlast stripped)
     in if \<not> is_nan (js_number stripped) then ThousandsSeparators label shown
        else if \<not> is_nan (js_number unsigned) then CurrencySign label shown
        else if 3 \<le> length stripped \<and> hd stripped = CHR ''('' \<and> last stripped = CHR '')''
             \<and> list_all (\<lambda>c. c \<noteq> nl \<and> c \<noteq> cr) inner \<and> \<not> is_nan (js_number inner)
        then ParenthesisedNegative label shown
        else NotANumber label shown)"

definition is_integer :: "jsnum \<Rightarrow> bool" where
  "is_integer n = (case n of Fin x \<Rightarrow> x = of_int \<lfloor>x\<rfloor> | _ \<Rightarrow> False)"

definition check_number :: "field_def \<Rightarrow> string \<Rightarrow> row_msg list" where
  "check_number col raw = (let n = js_number raw; label = field_label (f_name col);
     vmin = (case f_validation col of None \<Rightarrow> None | Some v \<Rightarrow> v_min v);
     vmax = (case f_validation col of None \<Rightarrow> None | Some v \<Rightarrow> v_max v)
     in if is_nan n then [number_fault label raw]
        else (if f_type col = IntegerT \<and> \<not> is_integer n then [NotWhole label] else []) @
          (case vmin of None \<Rightarrow> []
           | Some b \<Rightarrow> if n_lt n (Fin b)
               then [if b = 0 then NegativeAmount label raw else BelowMin label raw b] else []) @
          (case vmax of None \<Rightarrow> []
           | Some b \<Rightarrow> if n_lt (Fin b) n then [AboveMax label raw b] else []))"

definition check_length :: "string \<Rightarrow> string \<Rightarrow> nat option \<Rightarrow> row_msg list" where
  "check_length label raw len = (case len of None \<Rightarrow> []
     | Some n \<Rightarrow> (let digits = digits_only raw in
         if length digits \<noteq> n \<or> length digits \<noteq> length raw
         then [if \<not> all_digits raw then NotOnlyDigits label raw n else WrongLength label raw (length raw) n]
         else []))"

definition check_date :: "field_def \<Rightarrow> string \<Rightarrow> row_msg list \<times> row_msg list \<times> string option" where
  "check_date col raw = (case parse_flexible_date raw of
     Some d \<Rightarrow> ([], [], Some d)
   | None \<Rightarrow> (if f_required col then ([BadDate (field_label (f_name col)) raw], [], None)
             else ([], [DateLeftAsIs (f_name col) raw], None)))"

text \<open>The string constraints of a column: errors, warnings and the value written back, if any.\<close>

definition check_string ::
  "row_env \<Rightarrow> string \<Rightarrow> field_def \<Rightarrow> validation \<Rightarrow> string \<Rightarrow> row_msg list \<times> row_msg list \<times> string option" where
  "check_string env provider_type col v raw = (let label = field_label (f_name col);
     (date_errors, date_warnings, healed) = (if v_format v = Some DateF then check_date col raw else ([], [], None))
     in (check_length label raw (v_length v) @
         (if v_identifier v \<and> scientific_notation raw then [InScientificNotation label raw] else []) @
         (case v_enum v of None \<Rightarrow> []
          | Some es \<Rightarrow> if upper raw \<in> set (map upper es) then [] else [NotRecognised label raw es]) @
         (if v_format v = Some EmailF \<and> \<not> email_re raw then [BadEmail label raw] else []) @
         date_errors @
         (if v_format v = Some CurrencyF \<and> \<not> currency_re raw then [BadCurrency label raw] else []) @
         (case v_pattern v of None \<Rightarrow> []
          | Some p \<Rightarrow> if p \<noteq> [] \<and> \<not> e_regex env p raw then [BadPattern (f_name col)] else []),
         (case v_bank_account_digits v of None \<Rightarrow> []
          | Some n \<Rightarrow> if provider_type = ''BANK'' \<and> all_digits raw \<and> length raw \<noteq> n
              then [NotNubanLength label raw (length raw) n] else []) @
         date_warnings, healed))"

definition raw_value :: "row \<Rightarrow> string \<Rightarrow> string" where "raw_value r name = trim (cell_of r name)"

text \<open>One column of the loop of \<open>validateRow\<close>: its errors, its warnings, and the row after it.\<close>

definition check_column ::
  "row_env \<Rightarrow> string \<Rightarrow> validation_context option \<Rightarrow> field_def \<Rightarrow> row \<Rightarrow> row_msg list \<times> row_msg list \<times> row" where
  "check_column env provider_type ctx col r =
     (let raw = raw_value r (f_name col); label = field_label (f_name col) in
      if f_required col \<and> raw = [] then
        (if truthy (col_enforce_from col) \<and> \<not> grace_elapsed env col ctx
         then ([], [EmptyWithGrace label (coalesce (ctx_enforce_from ctx) (col_enforce_from col))], r)
         else ([EmptyField label (if f_name col \<in> set blank_hints then Some (f_name col) else None)], [], r))
      else if raw = [] then ([], [], r)
      else if f_type col = DecimalT \<or> f_type col = IntegerT then (check_number col raw, [], r)
      else (case f_validation col of
          None \<Rightarrow> ([], [], r)
        | Some v \<Rightarrow> (let (errs, warns, healed) = check_string env provider_type col v raw
                    in (errs, warns, (case healed of None \<Rightarrow> r | Some d \<Rightarrow> r(f_name col \<mapsto> d))))))"

fun check_columns ::
  "row_env \<Rightarrow> string \<Rightarrow> validation_context option \<Rightarrow> field_def list \<Rightarrow> row \<Rightarrow> row_msg list \<times> row_msg list \<times> row" where
  "check_columns env pt ctx [] r = ([], [], r)"
| "check_columns env pt ctx (c # cs) r =
     (let (e1, w1, r1) = check_column env pt ctx c r; (e2, w2, r2) = check_columns env pt ctx cs r1
      in (e1 @ e2, w1 @ w2, r2))"

text \<open>The result: the errors, the warnings and the row with its dates healed; ok is having no error.\<close>

definition validate_row ::
  "row_env \<Rightarrow> row \<Rightarrow> schema_template \<Rightarrow> validation_context option \<Rightarrow> row_msg list \<times> row_msg list \<times> row" where
  "validate_row env r schema ctx = check_columns env (s_provider_type schema) ctx (s_columns schema) r"

subsection \<open>The header guard\<close>

definition header_key :: "string \<Rightarrow> string" where
  "header_key h = filter (\<lambda>c. is_digit c \<or> (is_alpha c \<and> lower_char c = c)) (lower (trim h))"

definition missing_required_columns :: "string list \<Rightarrow> schema_template \<Rightarrow> string list" where
  "missing_required_columns headers schema = (let present = set (map (\<lambda>h. lower (trim h)) headers) in
     map f_name (filter (\<lambda>c. f_required c \<and> lower (f_name c) \<notin> present) (s_columns schema)))"

datatype separator_kind = Semicolons | Tabs | Pipes

datatype header_msg =
    WorkbookNotCsv
  | HeaderFurtherDown nat nat
  | WrongSeparator separator_kind string
  | OneColumnOnly string nat string
  | RenameColumns "(string \<times> string) list" "string list"
  | HeaderNotFound string "string list" string
  | MissingColumns "string list" string

definition explain_header_problem ::
  "string list \<Rightarrow> string list \<Rightarrow> schema_template \<Rightarrow> bool \<Rightarrow> nat option \<Rightarrow> string \<Rightarrow> header_msg" where
  "explain_header_problem headers missing schema looks_binary header_line label =
     (let required = map f_name (filter f_required (s_columns schema)) in
      if looks_binary then WorkbookNotCsv
      else if (case header_line of None \<Rightarrow> False | Some n \<Rightarrow> 1 < n)
      then HeaderFurtherDown (the header_line) (the header_line - 1)
      else if length headers = 1 \<and> 1 < length required
      then (let only = hd headers; shown = take 120 only in
            if CHR '';'' \<in> set only then WrongSeparator Semicolons shown
            else if CHR 0x09 \<in> set only then WrongSeparator Tabs shown
            else if CHR ''|'' \<in> set only then WrongSeparator Pipes shown
            else OneColumnOnly shown (length required) label)
      else
        (let by_key = map_of (rev (map (\<lambda>h. (header_key h, trim h)) headers));
             renames = concat (map (\<lambda>want. case by_key (header_key want) of
                 None \<Rightarrow> [] | Some found \<Rightarrow> if found \<noteq> [] \<and> found \<noteq> want then [(found, want)] else []) missing)
         in if renames \<noteq> []
            then RenameColumns renames (filter (\<lambda>m. by_key (header_key m) = None) missing)
            else if length missing = length required
            then HeaderNotFound (join '', '' (take 8 (filter (\<lambda>h. h \<noteq> []) headers))) required label
            else MissingColumns missing label))"

subsection \<open>Spreadsheets by content\<close>

datatype spreadsheet_kind = Xlsx | Ods | Xls | ZipFile

definition byte_at :: "string \<Rightarrow> nat \<Rightarrow> nat" where "byte_at buf i = of_char (buf ! i)"

definition detect_spreadsheet_kind :: "string \<Rightarrow> spreadsheet_kind option" where
  "detect_spreadsheet_kind buf =
     (if length buf < 8 then None
      else if byte_at buf 0 = 0x50 \<and> byte_at buf 1 = 0x4b \<and> byte_at buf 2 \<in> {3, 5, 7}
      then (let head = take 400 buf in
            if contains ''opendocument.spreadsheet'' head then Some Ods
            else if contains ''[Content_Types].xml'' head \<or> contains ''xl/'' head then Some Xlsx
            else Some ZipFile)
      else if byte_at buf 0 = 0xd0 \<and> byte_at buf 1 = 0xcf \<and> byte_at buf 2 = 0x11 \<and> byte_at buf 3 = 0xe0
      then Some Xls else None)"

datatype conversion_advice = AdviseLibreOffice | AdviseExcel | AdviseUnzip

fun spreadsheet_conversion_advice :: "spreadsheet_kind \<Rightarrow> conversion_advice" where
  "spreadsheet_conversion_advice Ods = AdviseLibreOffice"
| "spreadsheet_conversion_advice Xls = AdviseExcel"
| "spreadsheet_conversion_advice Xlsx = AdviseExcel"
| "spreadsheet_conversion_advice ZipFile = AdviseUnzip"

subsection \<open>Stored values\<close>

definition to_decimal :: "string option \<Rightarrow> jsnum option" where
  "to_decimal v = (if \<not> truthy v then None
     else (let n = js_number (the v) in if is_nan n then None else Some n))"

definition to_int :: "string option \<Rightarrow> int option" where
  "to_int v = (if \<not> truthy v then None else js_parse_int (the v))"

definition extract_bvn :: "string option \<Rightarrow> string option" where
  "extract_bvn s = (if \<not> truthy s then None
     else (let digits = digits_only (the s) in if 11 \<le> length digits then Some (take 11 digits) else None))"

subsection \<open>What an accepted row satisfies\<close>

lemma parse_flexible_date_nonblank:
  assumes "parse_flexible_date s = Some d"
  shows "trim d \<noteq> []"
proof -
  obtain y m dd where "canonical_date d y m dd" using parse_flexible_date_canonical [OF assms] by blast
  then show ?thesis using canonical_date_text(1,3) by metis
qed

lemma check_string_healed:
  assumes "check_string env pt col v raw = (e, w, Some d)"
  shows "trim d \<noteq> []"
proof -
  have "snd (snd (check_string env pt col v raw)) =
      (if v_format v = Some DateF then snd (snd (check_date col raw)) else None)"
    by (simp add: check_string_def Let_def split_beta)
  then have "snd (snd (check_date col raw)) = Some d" using assms by (simp split: if_splits)
  then have "parse_flexible_date raw = Some d" by (auto simp: check_date_def split: option.splits if_splits)
  then show ?thesis by (rule parse_flexible_date_nonblank)
qed

text \<open>A pass over the columns never makes a blank value present nor a present one blank.\<close>

lemma check_column_blank:
  assumes "check_column env pt ctx col r = (e, w, r')"
  shows "raw_value r' n = [] \<longleftrightarrow> raw_value r n = []"
  using assms
proof (cases "raw_value r (f_name col) = [] \<or> f_type col = DecimalT \<or> f_type col = IntegerT \<or> f_validation col = None")
  case True
  then have "r' = r" using assms by (auto simp: check_column_def Let_def split: if_splits)
  then show ?thesis by simp
next
  case False
  then obtain v where v: "f_validation col = Some v" by auto
  obtain e' w' h where c: "check_string env pt col v (raw_value r (f_name col)) = (e', w', h)"
    by (cases "check_string env pt col v (raw_value r (f_name col))") auto
  have r': "r' = (case h of None \<Rightarrow> r | Some d \<Rightarrow> r(f_name col \<mapsto> d))"
    using assms False v c by (auto simp: check_column_def Let_def split: if_splits)
  show ?thesis
  proof (cases h)
    case (Some d)
    then have "trim d \<noteq> []" using check_string_healed c by blast
    then show ?thesis using Some r' False by (auto simp: raw_value_def cell_of_def)
  qed (simp add: r')
qed

definition filled :: "row \<Rightarrow> string \<Rightarrow> bool" where "filled r n \<longleftrightarrow> raw_value r n \<noteq> []"

definition in_grace :: "row_env \<Rightarrow> field_def \<Rightarrow> validation_context option \<Rightarrow> bool" where
  "in_grace env col ctx \<longleftrightarrow> truthy (col_enforce_from col) \<and> \<not> grace_elapsed env col ctx"

lemma check_columns_required:
  assumes "fst (check_columns env pt ctx cols r) = []" "col \<in> set cols" "f_required col"
  shows "raw_value r (f_name col) \<noteq> [] \<or> (truthy (col_enforce_from col) \<and> \<not> grace_elapsed env col ctx)"
  using assms
proof (induction cols arbitrary: r)
  case (Cons c cs)
  obtain e1 w1 r1 where c: "check_column env pt ctx c r = (e1, w1, r1)" by (cases "check_column env pt ctx c r") auto
  then have e: "e1 = []" "fst (check_columns env pt ctx cs r1) = []"
    using Cons.prems(1) by (auto simp: split_beta Let_def)
  show ?case
  proof (cases "col = c")
    case True
    then show ?thesis using c e(1) Cons.prems(3) by (auto simp: check_column_def Let_def split: if_splits)
  next
    case False
    then have "raw_value r1 (f_name col) \<noteq> [] \<or> (truthy (col_enforce_from col) \<and> \<not> grace_elapsed env col ctx)"
      using Cons.IH [OF e(2)] Cons.prems by auto
    then show ?thesis using check_column_blank [OF c] by simp
  qed
qed simp

definition sample_env :: row_env where
  "sample_env = \<lparr>e_clock = 1790000000000, e_date = (\<lambda>_. None), e_regex = (\<lambda>_ _. True)\<rparr>"

definition sample_row :: row where
  "sample_row = [''nin'' \<mapsto> ''12345678901'', ''accountNumber'' \<mapsto> ''0123456785'', ''accountName'' \<mapsto> ''Ada'',
     ''bvn'' \<mapsto> ''22345678901'', ''customerType'' \<mapsto> ''individual'', ''totalInflow'' \<mapsto> ''1500'',
     ''totalOutflow'' \<mapsto> ''0'']"

text \<open>The rule of the return, column by column, as the template documents it.\<close>

definition eleven_digits :: "string \<Rightarrow> bool" where "eleven_digits s \<longleftrightarrow> all_digits s \<and> length s = 11"

definition amount_ok :: "string \<Rightarrow> bool" where
  "amount_ok s \<longleftrightarrow> s \<noteq> [] \<and> js_number s \<noteq> NaN \<and> \<not> n_lt (js_number s) (Fin 0)"

definition return_row_ok :: "row \<Rightarrow> bool" where
  "return_row_ok r \<longleftrightarrow>
     eleven_digits (raw_value r ''nin'') \<and> eleven_digits (raw_value r ''bvn'') \<and>
     raw_value r ''accountName'' \<noteq> [] \<and>
     raw_value r ''accountNumber'' \<noteq> [] \<and> \<not> scientific_notation (raw_value r ''accountNumber'') \<and>
     upper (raw_value r ''customerType'') \<in> set customer_types \<and>
     amount_ok (raw_value r ''totalInflow'') \<and> amount_ok (raw_value r ''totalOutflow'') \<and>
     \<not> scientific_notation (raw_value r ''tin'')"

lemma check_length_eleven: "check_length label raw (Some 11) = [] \<longleftrightarrow> eleven_digits raw"
  using digits_only_full [of raw] digits_only_id [of raw]
  by (auto simp: check_length_def eleven_digits_def Let_def)

lemma check_number_amount:
  assumes "f_validation col = Some (no_validation\<lparr>v_min := Some 0\<rparr>)" "f_type col = DecimalT" "raw \<noteq> []"
  shows "check_number col raw = [] \<longleftrightarrow> amount_ok raw"
  using assms by (auto simp: check_number_def amount_ok_def no_validation_def is_nan_def Let_def)

lemma upper_customer_types: "map upper customer_types = customer_types"
  by code_simp

lemma scientific_notation_Nil [simp]: "\<not> scientific_notation []"
  by (simp add: scientific_notation_def)

lemma return_row_iff:
  "(fst (validate_row env r \<lparr>s_provider_type = pt, s_columns = return_columns\<rparr> ctx) = [] \<longleftrightarrow> return_row_ok r) \<and>
   snd (snd (validate_row env r \<lparr>s_provider_type = pt, s_columns = return_columns\<rparr> ctx)) = r"
proof -
  let ?no = "\<lambda>c. fst (check_column env pt ctx c r)"
  have keep: "snd (snd (check_column env pt ctx c r)) = r" if "c \<in> set return_columns" for c
    using that by (auto simp: return_columns_def column_def check_column_def check_string_def no_validation_def
        Let_def split: if_splits)
  have run: "snd (snd (check_columns env pt ctx cs r)) = r \<and>
      (fst (check_columns env pt ctx cs r) = [] \<longleftrightarrow> (\<forall>c\<in>set cs. ?no c = []))"
    if "set cs \<subseteq> set return_columns" for cs
    using that
  proof (induction cs)
    case (Cons c cs)
    have "snd (snd (check_column env pt ctx c r)) = r" using keep Cons.prems by simp
    then show ?case using Cons by (cases "check_column env pt ctx c r") (auto simp: split_beta Let_def)
  qed simp
  have len: "?no (column n True StringT (Some (no_validation\<lparr>v_length := Some 11\<rparr>))) = [] \<longleftrightarrow>
      eleven_digits (raw_value r n)" for n
    using check_length_eleven
    by (auto simp: column_def check_column_def check_string_def no_validation_def col_enforce_from_def
        eleven_digits_def Let_def)
  have amt: "?no (column n True DecimalT (Some (no_validation\<lparr>v_min := Some 0\<rparr>))) = [] \<longleftrightarrow>
      amount_ok (raw_value r n)" for n
    using check_number_amount [of "column n True DecimalT (Some (no_validation\<lparr>v_min := Some 0\<rparr>))"]
    by (auto simp: column_def check_column_def col_enforce_from_def no_validation_def amount_ok_def Let_def)
  have acct: "?no (column n True StringT (Some (no_validation\<lparr>v_identifier := True, v_bank_account_digits := Some 10\<rparr>)))
      = [] \<longleftrightarrow> raw_value r n \<noteq> [] \<and> \<not> scientific_notation (raw_value r n)" for n
    by (auto simp: column_def check_column_def check_string_def no_validation_def col_enforce_from_def
        check_length_def Let_def)
  have name: "?no (column n True StringT None) = [] \<longleftrightarrow> raw_value r n \<noteq> []" for n
    by (auto simp: column_def check_column_def col_enforce_from_def Let_def)
  have enum: "?no (column n True StringT (Some (no_validation\<lparr>v_enum := Some customer_types\<rparr>))) = [] \<longleftrightarrow>
      upper (raw_value r n) \<in> set customer_types" for n
  proof -
    have "upper [] \<notin> set customer_types" by code_simp
    then show ?thesis using upper_customer_types
      by (auto simp: column_def check_column_def check_string_def no_validation_def col_enforce_from_def
          check_length_def Let_def simp del: set_map)
  qed
  have tin: "?no (column n False StringT (Some (no_validation\<lparr>v_identifier := True\<rparr>))) = [] \<longleftrightarrow>
      \<not> scientific_notation (raw_value r n)" for n
    by (auto simp: column_def check_column_def check_string_def no_validation_def check_length_def Let_def)
  have "(\<forall>c\<in>set return_columns. ?no c = []) \<longleftrightarrow> return_row_ok r"
    unfolding return_columns_def return_row_ok_def
    by (simp only: list.set ball_simps len amt acct name enum tin simp_thms insert_iff) blast
  then show ?thesis using run [of return_columns] by (simp add: validate_row_def)
qed

text \<open>
  The seven-column return means what its template says: against the default schema of any
  provider type, a row has no error exactly when NIN and BVN are eleven digits, the account name and
  number are present, the customer type is one of the six classes in any letter case, both totals
  are non-negative numbers, and neither the account number nor the TIN shows digits lost to
  scientific notation; and validation leaves the row as it was.
\<close>

theorem return_row_accepted_iff:
  "(fst (validate_row env r \<lparr>s_provider_type = pt, s_columns = return_columns\<rparr> ctx) = [] \<longleftrightarrow> return_row_ok r) \<and>
   snd (snd (validate_row env r \<lparr>s_provider_type = pt, s_columns = return_columns\<rparr> ctx)) = r"
  by (rule return_row_iff)

lemma amount_ok_digits: "all_digits s \<Longrightarrow> s \<noteq> [] \<Longrightarrow> parse_dec s < 2 ^ 53 \<Longrightarrow> amount_ok s"
  by (simp add: amount_ok_def js_number_whole)

lemma sample_row_ok:
  "fst (validate_row sample_env sample_row \<lparr>s_provider_type = ''BANK'', s_columns = return_columns\<rparr> None) = []"
proof -
  have "eleven_digits (raw_value sample_row ''nin'')" "eleven_digits (raw_value sample_row ''bvn'')"
    "raw_value sample_row ''accountName'' \<noteq> []" "raw_value sample_row ''accountNumber'' \<noteq> []"
    "\<not> scientific_notation (raw_value sample_row ''accountNumber'')"
    "upper (raw_value sample_row ''customerType'') \<in> set customer_types"
    "\<not> scientific_notation (raw_value sample_row ''tin'')"
    by code_simp+
  moreover have "amount_ok (raw_value sample_row ''totalInflow'')" "amount_ok (raw_value sample_row ''totalOutflow'')"
  proof -
    have v: "raw_value sample_row ''totalInflow'' = ''1500''" "raw_value sample_row ''totalOutflow'' = ''0''"
      "all_digits ''1500''" "all_digits ''0''" "parse_dec ''1500'' = 1500" "parse_dec ''0'' = 0" by code_simp+
    show "amount_ok (raw_value sample_row ''totalInflow'')" "amount_ok (raw_value sample_row ''totalOutflow'')"
      unfolding v(1,2) using amount_ok_digits [OF v(3)] amount_ok_digits [OF v(4)] v(5,6) by simp_all
  qed
  ultimately have "return_row_ok sample_row" by (simp add: return_row_ok_def)
  then show ?thesis using return_row_iff by blast
qed

text \<open>
  A row that passes has a value in every compulsory column: whatever schema is in force, an
  accepted row leaves a required column blank only if that column carries an enforcement date and
  its grace period has not run out.
\<close>

theorem accepted_row_complete:
  assumes "fst (validate_row env r schema ctx) = []" and "col \<in> set (s_columns schema)" and "f_required col"
  shows "filled r (f_name col) \<or> in_grace env col ctx"
  using assms unfolding validate_row_def filled_def in_grace_def by (rule check_columns_required)

theorem accepted_row_complete_witness:
  "filled sample_row ''nin'' \<or> in_grace sample_env (hd return_columns) None"
  using accepted_row_complete [OF sample_row_ok, of "hd return_columns"]
  by (simp add: return_columns_def column_def)

subsection \<open>The header guard and the validator\<close>

lemma foldl_columns_other:
  "n \<notin> set hs \<Longrightarrow> foldl (\<lambda>r (i, h). r(h \<mapsto> g i)) m (enumerate k hs) n = m n"
  by (induction hs arbitrary: k m) auto

lemma row_of_other: "n \<notin> set hs \<Longrightarrow> row_of hs vs n = None"
  unfolding row_of_def by (subst foldl_columns_other) auto

text \<open>
  The header guard is more lenient than the validator: it ignores letter case, while the rows
  are read under the names as written. So a file whose header spells a compulsory column in another
  case passes the guard, and then every one of its rows is rejected as if the column were blank.
\<close>

theorem header_case_gap:
  assumes "missing_required_columns hs schema = []"
    and "col \<in> set (s_columns schema)" and "f_required col" and "col_enforce_from col = None"
    and "f_name col \<notin> set hs"
  shows "lower (f_name col) \<in> set (map (\<lambda>h. lower (trim h)) hs) \<and>
    fst (validate_row env (row_of hs vs) schema ctx) \<noteq> []"
proof -
  have "lower (f_name col) \<in> set (map (\<lambda>h. lower (trim h)) hs)"
    using assms(1-3) by (auto simp: missing_required_columns_def Let_def filter_empty_conv)
  moreover have "raw_value (row_of hs vs) (f_name col) = []"
    using row_of_other [OF assms(5)] by (simp add: raw_value_def cell_of_def trim_def)
  then have "fst (validate_row env (row_of hs vs) schema ctx) \<noteq> []"
    using check_columns_required [OF _ assms(2,3)] assms(4) by (auto simp: validate_row_def)
  ultimately show ?thesis by blast
qed

theorem header_case_gap_witness:
  defines "hs \<equiv> [''NIN'', ''accountNumber'', ''accountName'', ''bvn'', ''customerType'', ''totalInflow'', ''totalOutflow'']"
  shows "lower ''nin'' \<in> set (map (\<lambda>h. lower (trim h)) hs) \<and>
    fst (validate_row sample_env (row_of hs [''12345678901'', ''0123456785'', ''Ada'', ''22345678901'',
      ''INDIVIDUAL'', ''1'', ''0'']) \<lparr>s_provider_type = ''BANK'', s_columns = return_columns\<rparr> None) \<noteq> []"
proof -
  have "missing_required_columns hs \<lparr>s_provider_type = ''BANK'', s_columns = return_columns\<rparr> = []"
    unfolding hs_def by code_simp
  from header_case_gap [OF this, of "hd return_columns"] show ?thesis
    by (simp add: return_columns_def column_def col_enforce_from_def no_validation_def hs_def)
qed

end
