(* ===== verification/Ingestion.thy ===== *)
theory Ingestion
  imports ReturnSchema IngestionValidators
begin

text \<open>
  The shared ingestion pipeline of \<open>backend/src/modules/submissions/submissions.service.ts\<close>:
  \<open>processRows\<close> with its all-or-nothing pre-validation, duplicate gates and bounded batches,
  \<open>resolveTaxpayer\<close>, \<open>enrichTaxpayerTin\<close>, \<open>normalizeName\<close> and \<open>addBusinessDays\<close>. The keyed hash, the
  cipher, the clock and the environment flag are fields of the environment; the database is a record
  of tables in insertion order.
\<close>

subsection \<open>State\<close>

record taxpayer =
  tp_id :: string
  tp_nin_index :: "string option"
  tp_tin_index :: "string option"
  tp_tin_enc :: "string option"
  tp_bvn_index :: "string option"
  tp_business_name :: "string option"
  tp_first_name :: "string option"
  tp_last_name :: "string option"
  tp_sector :: "string option"
  tp_business_type :: "string option"

datatype match_method = ByNin | ByTin | ByBvn | ByName | Unmatched

datatype payload_value = PNumber jsnum | PString string

record data_record =
  d_submission :: string
  d_provider :: string
  d_provider_type :: string
  d_taxpayer :: "string option"
  d_account_number :: "string option"
  d_bvn :: "string option"
  d_nin :: "string option"
  d_phone :: "string option"
  d_wallet :: "string option"
  d_merchant :: "string option"
  d_account_name :: "string option"
  d_match_method :: match_method
  d_match_confidence :: "rat option"
  d_account_index :: "string option"
  d_bvn_index :: "string option"
  d_nin_index :: "string option"
  d_tin :: "string option"
  d_tin_index :: "string option"
  d_period_label :: string
  d_period_year :: nat
  d_total_inflow :: "jsnum option"
  d_total_outflow :: "jsnum option"
  d_opening_balance :: "jsnum option"
  d_closing_balance :: "jsnum option"
  d_transaction_count :: "int option"
  d_payload :: "(string \<times> payload_value) list"

datatype submission_status = Received | Validating | Accepted | PartiallyAccepted | Rejected

datatype pre_msg =
    RowMsg row_msg | BadPeriodLabel string | OutsidePeriod string string | IntegrityMsg integrity_msg
  | DuplicateInFile nat string | AlreadySubmitted string | InvalidPeriodLabel

datatype validation_report = NoReport | RowReport "(nat \<times> pre_msg list) list" | Fatal

record submission =
  sb_id :: string
  sb_provider :: string
  sb_staff :: "string option"
  sb_user :: "string option"
  sb_period_label :: string
  sb_period_year :: nat
  sb_period_quarter :: "nat option"
  sb_period_month :: "nat option"
  sb_file_name :: string
  sb_file_size :: nat
  sb_status :: submission_status
  sb_record_count :: nat
  sb_accepted :: nat
  sb_rejected :: nat
  sb_warning_count :: nat
  sb_report :: validation_report
  sb_warnings :: "(nat \<times> row_msg list) list"
  sb_receipt_hash :: "string option"
  sb_received_at :: time
  sb_processed_at :: "time option"
  sb_resubmit_due :: "time option"

text \<open>A stored schema override: its columns, None when the stored value is null.\<close>

record db =
  db_submissions :: "submission list"
  db_records :: "data_record list"
  db_taxpayers :: "taxpayer list"
  db_schemas :: "(string \<times> field_def list option) list"
  db_enforcement :: "time option"

record ingest_env =
  i_row :: row_env
  i_hmac :: "string \<Rightarrow> string"
  i_seal :: "string \<Rightarrow> string"
  i_open :: "string \<Rightarrow> string option"
  i_bvn_check :: bool
  i_tz :: int

definition i_now :: "ingest_env \<Rightarrow> time" where "i_now env = e_clock (i_row env)"

subsection \<open>Identifiers\<close>

definition blind_index :: "ingest_env \<Rightarrow> string option \<Rightarrow> string option" where
  "blind_index env v = (if \<not> truthy v then None else Some (i_hmac env (trim (the v))))"

definition encrypt_field :: "ingest_env \<Rightarrow> string option \<Rightarrow> string option" where
  "encrypt_field env v = (if \<not> truthy v then None else Some (i_seal env (the v)))"

definition decrypt_field :: "ingest_env \<Rightarrow> string option \<Rightarrow> string option" where
  "decrypt_field env v = (if \<not> truthy v then None else i_open env (the v))"

definition or_null :: "string option \<Rightarrow> string option" where
  "or_null v = (if truthy v then v else None)"

definition trimmed_or_null :: "string option \<Rightarrow> string option" where
  "trimmed_or_null v = (case v of None \<Rightarrow> None | Some s \<Rightarrow> if trim s = [] then None else Some (trim s))"

definition is_word :: "char \<Rightarrow> bool" where
  "is_word c \<longleftrightarrow> is_alpha c \<or> is_digit c \<or> c = CHR ''_''"

text \<open>Replace every whole word of the list by a space: a maximal run of word characters is a word.\<close>

function drop_words :: "string list \<Rightarrow> string \<Rightarrow> string" where
  "drop_words ws s = (case s of [] \<Rightarrow> []
     | c # cs \<Rightarrow> if is_word c
         then (let w = takeWhile is_word s; r = dropWhile is_word s in
               (if w \<in> set ws then '' '' else w) @ drop_words ws r)
         else c # drop_words ws cs)"
  by pat_completeness auto
termination
  by (relation "measure (\<lambda>(ws, s). length s)")
    (auto simp: less_Suc_eq_le length_dropWhile_le)

declare drop_words.simps [simp del]

text \<open>Collapse every run of white space to one given character.\<close>

function squeeze :: "char \<Rightarrow> string \<Rightarrow> string" where
  "squeeze d s = (case s of [] \<Rightarrow> []
     | c # cs \<Rightarrow> if is_ws c then d # squeeze d (dropWhile is_ws cs) else c # squeeze d cs)"
  by pat_completeness auto
termination
  by (relation "measure (\<lambda>(d, s). length s)")
    (auto simp: less_Suc_eq_le length_dropWhile_le)

declare squeeze.simps [simp del]

definition honorifics :: "string list" where
  "honorifics = [''mr'', ''mrs'', ''miss'', ''ms'', ''dr'', ''engr'', ''alhaji'', ''alhaja'', ''chief'',
     ''prof'', ''barr'', ''sir'', ''madam'']"

definition company_words :: "string list" where
  "company_words = [''ltd'', ''limited'', ''plc'', ''enterprises'', ''enterprise'', ''nig'', ''nigeria'', ''co'']"

definition normalize_name :: "string \<Rightarrow> string" where
  "normalize_name raw = trim (squeeze (CHR '' '') (drop_words company_words (drop_words honorifics
     (map (\<lambda>c. if c = CHR ''.'' \<or> c = comma then CHR '' '' else c) (lower raw)))))"

subsection \<open>Matching a row to a taxpayer\<close>

record match_result =
  mr_taxpayer :: "string option"
  mr_method :: match_method
  mr_confidence :: "rat option"

definition same_text :: "string option \<Rightarrow> string \<Rightarrow> bool" where
  "same_text v s = (case v of None \<Rightarrow> False | Some t \<Rightarrow> lower t = lower s)"

definition name_matches :: "string \<Rightarrow> taxpayer \<Rightarrow> bool" where
  "name_matches name t = (let parts = filter (\<lambda>p. p \<noteq> []) (split_on (CHR '' '') name) in
     same_text (tp_business_name t) name \<or>
     (2 \<le> length parts \<and> same_text (tp_first_name t) (hd parts) \<and> same_text (tp_last_name t) (last parts)))"

definition find_by_index :: "(taxpayer \<Rightarrow> string option) \<Rightarrow> string option \<Rightarrow> taxpayer list \<Rightarrow> taxpayer option" where
  "find_by_index key idx ts = (case idx of None \<Rightarrow> None | Some i \<Rightarrow> find (\<lambda>t. key t = Some i) ts)"

definition lookup_index ::
  "ingest_env \<Rightarrow> (taxpayer \<Rightarrow> string option) \<Rightarrow> taxpayer list \<Rightarrow> string option \<Rightarrow> taxpayer option" where
  "lookup_index env key ts v = (if truthy v then find_by_index key (blind_index env v) ts else None)"

definition resolve_taxpayer ::
  "ingest_env \<Rightarrow> taxpayer list \<Rightarrow> string option \<Rightarrow> string option \<Rightarrow> string option \<Rightarrow> string option \<Rightarrow> match_result" where
  "resolve_taxpayer env ts nin tin bvn account_name =
     (case lookup_index env tp_nin_index ts nin of
        Some t \<Rightarrow> \<lparr>mr_taxpayer = Some (tp_id t), mr_method = ByNin, mr_confidence = Some (98 / 100)\<rparr>
      | None \<Rightarrow> (case lookup_index env tp_tin_index ts tin of
        Some t \<Rightarrow> \<lparr>mr_taxpayer = Some (tp_id t), mr_method = ByTin, mr_confidence = Some (97 / 100)\<rparr>
      | None \<Rightarrow> (case lookup_index env tp_bvn_index ts bvn of
        Some t \<Rightarrow> \<lparr>mr_taxpayer = Some (tp_id t), mr_method = ByBvn, mr_confidence = Some (95 / 100)\<rparr>
      | None \<Rightarrow>
          (let name = (if truthy account_name then normalize_name (the account_name) else []) in
           case (if name = [] then None else find (name_matches name) ts) of
             Some t \<Rightarrow> \<lparr>mr_taxpayer = Some (tp_id t), mr_method = ByName, mr_confidence = Some (55 / 100)\<rparr>
           | None \<Rightarrow> \<lparr>mr_taxpayer = None, mr_method = Unmatched, mr_confidence = None\<rparr>))))"

definition enrich_taxpayer_tin :: "ingest_env \<Rightarrow> string \<Rightarrow> string \<Rightarrow> taxpayer list \<Rightarrow> taxpayer list" where
  "enrich_taxpayer_tin env taxpayer_id tin ts =
     (case blind_index env (Some tin) of None \<Rightarrow> ts
      | Some index \<Rightarrow> (case find_by tp_id taxpayer_id ts of None \<Rightarrow> ts
          | Some tp \<Rightarrow> (if truthy (tp_tin_index tp) then ts
              else (case find_by_index tp_tin_index (Some index) ts of
                  Some clash \<Rightarrow> ts
                | None \<Rightarrow> update_by tp_id taxpayer_id
                    (\<lambda>t. t\<lparr>tp_tin_enc := encrypt_field env (Some tin), tp_tin_index := Some index\<rparr>) ts))))"

subsection \<open>Business days\<close>

text \<open>Days are local calendar days; day 0 is a Thursday, so 0 is Sunday and 6 Saturday.\<close>

definition day_of_week :: "int \<Rightarrow> int" where "day_of_week d = (d + 4) mod 7"

definition is_weekend :: "int \<Rightarrow> bool" where "is_weekend d \<longleftrightarrow> day_of_week d = 0 \<or> day_of_week d = 6"

definition weekend_ahead :: "int \<Rightarrow> nat" where
  "weekend_ahead d = (if day_of_week d = 5 then 2 else if day_of_week d = 6 then 1 else 0)"

lemma weekend_ahead_step:
  "is_weekend (d + 1) \<Longrightarrow> weekend_ahead (d + 1) < weekend_ahead d"
proof -
  assume w: "is_weekend (d + 1)"
  have "day_of_week (d + 1) = (if day_of_week d = 6 then 0 else day_of_week d + 1)"
    using mod_step [of 7 "d + 4"] by (simp add: day_of_week_def add.commute)
  moreover have "0 \<le> day_of_week d" by (simp add: day_of_week_def)
  ultimately show ?thesis using w by (auto simp: is_weekend_def weekend_ahead_def split: if_splits)
qed

function add_days :: "int \<Rightarrow> nat \<Rightarrow> int" where
  "add_days d n = (if n = 0 then d
     else (let d' = d + 1 in if is_weekend d' then add_days d' n else add_days d' (n - 1)))"
  by pat_completeness auto
termination
proof (relation "measure (\<lambda>(d, n). 3 * n + weekend_ahead d)")
  fix d :: int and n :: nat and d'
  assume n: "n \<noteq> 0" and d': "d' = d + 1"
  show "is_weekend d' \<Longrightarrow> ((d', n), d, n) \<in> measure (\<lambda>(d, n). 3 * n + weekend_ahead d)"
    using weekend_ahead_step d' by simp
  have "weekend_ahead d' \<le> 2" by (simp add: weekend_ahead_def)
  then show "((d', n - 1), d, n) \<in> measure (\<lambda>(d, n). 3 * n + weekend_ahead d)"
    using n by simp
qed simp

declare add_days.simps [simp del]

definition add_business_days :: "int \<Rightarrow> time \<Rightarrow> nat \<Rightarrow> time" where
  "add_business_days tz from days = (let local = from + tz; d = local div ms_per_day in
     from + (add_days d days - d) * ms_per_day)"

subsection \<open>Schema and context\<close>

definition resolve_schema :: "db \<Rightarrow> string \<Rightarrow> schema_template" where
  "resolve_schema st t = (let fallback = (case default_schema t of Some s \<Rightarrow> s
       | None \<Rightarrow> \<lparr>s_provider_type = ''OTHER'', s_columns = return_columns\<rparr>) in
     case map_of (db_schemas st) t of
       None \<Rightarrow> fallback
     | Some cols \<Rightarrow> \<lparr>s_provider_type = t, s_columns = (case cols of Some cs \<Rightarrow> cs | None \<Rightarrow> s_columns fallback)\<rparr>)"

definition iso_day :: "time \<Rightarrow> string" where
  "iso_day t = iso_date_text (nat (utc_full_year t)) (utc_month t + 1) (nat (utc_date t))"

definition resolve_validation_context :: "ingest_env \<Rightarrow> db \<Rightarrow> validation_context" where
  "resolve_validation_context env st =
     \<lparr>cx_now = Some (i_now env), cx_enforce_from = map_option iso_day (db_enforcement st)\<rparr>"

subsection \<open>The pre-validation pass\<close>

definition line_of :: "nat list option \<Rightarrow> nat \<Rightarrow> nat \<Rightarrow> nat" where
  "line_of lines offset i = (case lines of None \<Rightarrow> i + offset
     | Some ns \<Rightarrow> if i < length ns then ns ! i else i + offset)"

definition alias_period :: "row \<Rightarrow> row" where
  "alias_period r = (if \<not> truthy (r ''periodLabel'') \<and> truthy (r ''periodQuarter'')
     then r(''periodLabel'' := r ''periodQuarter'') else r)"

definition alias_count :: "row \<Rightarrow> row" where
  "alias_count r = (if \<not> truthy (r ''transactionCount'') \<and> r ''totalCreditTransactions'' \<noteq> None
     then r(''transactionCount'' := r ''totalCreditTransactions'') else r)"

definition prepare_row :: "string option \<Rightarrow> row \<Rightarrow> row" where
  "prepare_row submission_period r = (let r1 = alias_period r;
     r2 = (if \<not> truthy (r1 ''periodLabel'') \<and> truthy submission_period
           then r1(''periodLabel'' := submission_period) else r1);
     r3 = (case normalize_period_label (cell_of r2 ''periodLabel'') of
             None \<Rightarrow> r2 | Some c \<Rightarrow> r2(''periodLabel'' \<mapsto> c))
     in alias_count r3)"

text \<open>An absent value prints as undefined in a template string.\<close>

definition shown_value :: "string option \<Rightarrow> string" where
  "shown_value v = (case v of None \<Rightarrow> ''undefined'' | Some s \<Rightarrow> s)"

definition dup_key :: "row \<Rightarrow> string \<Rightarrow> string" where
  "dup_key r idx = shown_value (r ''periodLabel'') @ ''::'' @ idx"

definition bank_code_of :: "row \<Rightarrow> string option \<Rightarrow> string option" where
  "bank_code_of r provider_code = (if truthy (r ''bankCode'') then r ''bankCode'' else provider_code)"

definition integrity_errors ::
  "ingest_env \<Rightarrow> row \<Rightarrow> string \<Rightarrow> string option \<Rightarrow> pre_msg list" where
  "integrity_errors env r pt code = map IntegrityMsg
     (validate_ingestion_row r pt (bank_code_of r code) @
      (if i_bvn_check env \<and> truthy (r ''bvn'') \<and> \<not> is_valid_bvn_modulo11 (r ''bvn'')
       then [BvnModulo11Fails] else []))"

definition period_errors :: "ingest_env \<Rightarrow> row \<Rightarrow> pre_msg list" where
  "period_errors env r =
     (if parse_period (cell_of r ''periodLabel'') = None
      then [BadPeriodLabel (cell_of r ''periodLabel'')] else []) @
     (if truthy (r ''transactionDate'') \<and>
         date_in_period (e_date (i_row env)) (cell_of r ''transactionDate'') (cell_of r ''periodLabel'') = Some False
      then [OutsidePeriod (cell_of r ''transactionDate'') (shown_value (r ''periodLabel''))] else [])"

record pre_state =
  pp_errors :: "(nat \<times> pre_msg list) list"
  pp_warnings :: "(nat \<times> row_msg list) list"
  pp_seen :: "(string \<times> nat) list"
  pp_rows :: "row list"

text \<open>One row: the messages it gets, its warnings, the row after it and the accounts seen so far.\<close>

definition pre_check ::
  "ingest_env \<Rightarrow> schema_template \<Rightarrow> validation_context \<Rightarrow> string \<Rightarrow> string option \<Rightarrow> string option \<Rightarrow>
   nat \<Rightarrow> (string \<times> nat) list \<Rightarrow> row \<Rightarrow> pre_msg list \<times> row_msg list \<times> row \<times> (string \<times> nat) list" where
  "pre_check env schema ctx pt code period rn seen r0 =
     (let (errs, warns, r) = validate_row (i_row env) (prepare_row period r0) schema (Some ctx);
          msgs = map RowMsg errs @ period_errors env r @ integrity_errors env r pt code
      in case blind_index env (or_null (r ''accountNumber'')) of
           None \<Rightarrow> (msgs, warns, r, seen)
         | Some idx \<Rightarrow> (case map_of seen (dup_key r idx) of
             Some first_seen \<Rightarrow> (msgs @ [DuplicateInFile first_seen (shown_value (r ''periodLabel''))], warns, r, seen)
           | None \<Rightarrow> (msgs, warns, r, (dup_key r idx, rn) # seen)))"

definition pre_step ::
  "ingest_env \<Rightarrow> schema_template \<Rightarrow> validation_context \<Rightarrow> string \<Rightarrow> string option \<Rightarrow> string option \<Rightarrow>
   nat \<Rightarrow> row \<Rightarrow> pre_state \<Rightarrow> pre_state" where
  "pre_step env schema ctx pt code period rn r0 p =
     (let (msgs, warns, r, seen) = pre_check env schema ctx pt code period rn (pp_seen p) r0 in
      p\<lparr>pp_errors := pp_errors p @ (if msgs = [] then []
            else [(rn, if length (pp_errors p) < 100 then msgs else take 1 msgs)]),
        pp_warnings := pp_warnings p @ (if warns \<noteq> [] \<and> length (pp_warnings p) < 100 then [(rn, warns)] else []),
        pp_seen := seen, pp_rows := pp_rows p @ [r]\<rparr>)"

fun pre_pass ::
  "(nat \<Rightarrow> row \<Rightarrow> pre_state \<Rightarrow> pre_state) \<Rightarrow> (nat \<Rightarrow> nat) \<Rightarrow> nat \<Rightarrow> row list \<Rightarrow> pre_state \<Rightarrow> pre_state" where
  "pre_pass step line i [] p = p"
| "pre_pass step line i (r # rs) p = pre_pass step line (Suc i) rs (step (line i) r p)"

definition pre_validate ::
  "ingest_env \<Rightarrow> db \<Rightarrow> row list \<Rightarrow> string \<Rightarrow> string option \<Rightarrow> nat \<Rightarrow> string option \<Rightarrow> nat list option \<Rightarrow> pre_state" where
  "pre_validate env st rows pt code offset period lines =
     pre_pass (pre_step env (resolve_schema st pt) (resolve_validation_context env st) pt code period)
       (line_of lines offset) 0 rows \<lparr>pp_errors = [], pp_warnings = [], pp_seen = [], pp_rows = []\<rparr>"

subsection \<open>The accepting pass\<close>

definition payload_columns :: "string list" where
  "payload_columns = [''accountType'', ''accountOpenedDate'', ''residentialState'', ''reportingBranch'',
     ''totalDebitTransactions'', ''rcNumber'', ''customerAddress'', ''customerEmail'', ''customerType'',
     ''transactionDate'', ''transactionDescription'', ''currency'', ''conversionRate'']"

definition provided_sector :: "row \<Rightarrow> string option" where
  "provided_sector r = (case trimmed_or_null (r ''sector'') of None \<Rightarrow> None
     | Some s \<Rightarrow> Some (squeeze (CHR ''_'') (upper s)))"

definition build_payload :: "string \<Rightarrow> row \<Rightarrow> (string \<times> payload_value) list" where
  "build_payload pt r =
     (let text = (\<lambda>k. if truthy (r k) then [(k, PString (the (r k)))] else []);
          num = (\<lambda>k. if truthy (r k) then [(k, PNumber (js_number (the (r k))))] else []);
          opt = (\<lambda>k v. case v of None \<Rightarrow> [] | Some s \<Rightarrow> [(k, PString s)])
      in (if pt = ''TELCO'' then num ''airtimeSpend'' @ num ''dataSpend'' else []) @
         (if pt = ''BANK'' then text ''bankCode'' @ text ''bankName'' else []) @
         concat (map text payload_columns) @
         opt ''sector'' (provided_sector r) @
         opt ''businessType'' (trimmed_or_null (r ''businessType'')))"

definition apply_sector :: "row \<Rightarrow> string option \<Rightarrow> taxpayer list \<Rightarrow> taxpayer list" where
  "apply_sector r taxpayer_id ts = (case taxpayer_id of None \<Rightarrow> ts
     | Some i \<Rightarrow> update_by tp_id i (\<lambda>t. t\<lparr>
         tp_sector := (case provided_sector r of None \<Rightarrow> tp_sector t | Some s \<Rightarrow> Some s),
         tp_business_type := (case trimmed_or_null (r ''businessType'') of None \<Rightarrow> tp_business_type t | Some s \<Rightarrow> Some s)\<rparr>) ts)"

definition build_record ::
  "ingest_env \<Rightarrow> string \<Rightarrow> string \<Rightarrow> string \<Rightarrow> row \<Rightarrow> match_result \<Rightarrow> period \<Rightarrow> data_record" where
  "build_record env sid pid pt r m p =
     (let bvn = extract_bvn (r ''bvn''); nin = or_null (r ''nin''); tin = trimmed_or_null (r ''tin'') in
      \<lparr>d_submission = sid, d_provider = pid, d_provider_type = pt, d_taxpayer = mr_taxpayer m,
       d_account_number = encrypt_field env (or_null (r ''accountNumber'')),
       d_bvn = encrypt_field env bvn, d_nin = encrypt_field env nin,
       d_phone = encrypt_field env (or_null (r ''phoneNumber'')),
       d_wallet = or_null (r ''walletId''), d_merchant = or_null (r ''merchantId''),
       d_account_name = or_null (r ''accountName''), d_match_method = mr_method m,
       d_match_confidence = mr_confidence m,
       d_account_index = blind_index env (or_null (r ''accountNumber'')),
       d_bvn_index = blind_index env bvn, d_nin_index = blind_index env nin,
       d_tin = encrypt_field env tin, d_tin_index = blind_index env tin,
       d_period_label = cell_of r ''periodLabel'', d_period_year = p_year p,
       d_total_inflow = to_decimal (r ''totalInflow''), d_total_outflow = to_decimal (r ''totalOutflow''),
       d_opening_balance = to_decimal (r ''openingBalance''), d_closing_balance = to_decimal (r ''closingBalance''),
       d_transaction_count = to_int (r ''transactionCount''), d_payload = build_payload pt r\<rparr>)"

record accept_state =
  ac_accepted :: nat
  ac_rejected :: nat
  ac_errors :: "(nat \<times> pre_msg list) list"
  ac_pending :: "data_record list"
  ac_stored :: "data_record list"
  ac_seen :: "string list"
  ac_taxpayers :: "taxpayer list"

definition reject_row :: "nat \<Rightarrow> pre_msg list \<Rightarrow> accept_state \<Rightarrow> accept_state" where
  "reject_row rn msgs a = a\<lparr>ac_rejected := Suc (ac_rejected a),
     ac_errors := ac_errors a @ (if length (ac_errors a) < 100 then [(rn, msgs)] else [])\<rparr>"

definition flush :: "accept_state \<Rightarrow> accept_state" where
  "flush a = a\<lparr>ac_stored := ac_stored a @ ac_pending a, ac_pending := []\<rparr>"

definition batch_size :: nat where "batch_size = 500"

definition push_record :: "data_record \<Rightarrow> accept_state \<Rightarrow> accept_state" where
  "push_record d a = (let a1 = a\<lparr>ac_pending := ac_pending a @ [d], ac_accepted := Suc (ac_accepted a)\<rparr> in
     if batch_size \<le> length (ac_pending a1) then flush a1 else a1)"

text \<open>The part of the loop after the duplicate gate: match, enrich, apply the sector, push the record.\<close>

definition store_row ::
  "ingest_env \<Rightarrow> string \<Rightarrow> string \<Rightarrow> string \<Rightarrow> period \<Rightarrow> row \<Rightarrow> accept_state \<Rightarrow> accept_state" where
  "store_row env sid pid pt p r a =
     (let tin = trimmed_or_null (r ''tin'');
          m = resolve_taxpayer env (ac_taxpayers a) (or_null (r ''nin'')) tin (extract_bvn (r ''bvn''))
                (or_null (r ''accountName''));
          ts1 = (case (mr_taxpayer m, tin) of (Some i, Some t) \<Rightarrow> enrich_taxpayer_tin env i t (ac_taxpayers a)
                 | _ \<Rightarrow> ac_taxpayers a);
          ts2 = apply_sector r (mr_taxpayer m) ts1
      in push_record (build_record env sid pid pt r m p) (a\<lparr>ac_taxpayers := ts2\<rparr>))"

definition accept_step ::
  "ingest_env \<Rightarrow> schema_template \<Rightarrow> string \<Rightarrow> string \<Rightarrow> string \<Rightarrow> string option \<Rightarrow> nat \<Rightarrow> row \<Rightarrow> accept_state \<Rightarrow> accept_state" where
  "accept_step env schema sid pid pt code rn r0 a =
     (let (errs, _, r) = validate_row (i_row env) (alias_count (alias_period r0)) schema None in
      if errs \<noteq> [] then reject_row rn (map RowMsg errs) a
      else (case parse_period (cell_of r ''periodLabel'') of
          None \<Rightarrow> reject_row rn [InvalidPeriodLabel] a
        | Some p \<Rightarrow>
            (let integrity = integrity_errors env r pt code in
             if integrity \<noteq> [] then reject_row rn integrity a
             else (case blind_index env (or_null (r ''accountNumber'')) of
                 None \<Rightarrow> store_row env sid pid pt p r a
               | Some idx \<Rightarrow>
                   (if dup_key r idx \<in> set (ac_seen a)
                    then reject_row rn [AlreadySubmitted (shown_value (r ''periodLabel''))] a
                    else store_row env sid pid pt p r (a\<lparr>ac_seen := dup_key r idx # ac_seen a\<rparr>))))))"

fun accept_pass ::
  "(nat \<Rightarrow> row \<Rightarrow> accept_state \<Rightarrow> accept_state) \<Rightarrow> (nat \<Rightarrow> nat) \<Rightarrow> nat \<Rightarrow> row list \<Rightarrow> accept_state \<Rightarrow> accept_state" where
  "accept_pass step line i [] a = a"
| "accept_pass step line i (r # rs) a = accept_pass step line (Suc i) rs (step (line i) r a)"

definition existing_keys :: "string \<Rightarrow> data_record list \<Rightarrow> string list" where
  "existing_keys pid records = concat (map (\<lambda>d. case d_account_index d of
     None \<Rightarrow> [] | Some idx \<Rightarrow> if d_provider d = pid then [d_period_label d @ ''::'' @ idx] else []) records)"

record ingest_result =
  ir_records :: nat
  ir_accepted :: nat
  ir_rejected :: nat
  ir_warnings :: "nat option"

definition process_rows ::
  "ingest_env \<Rightarrow> string \<Rightarrow> row list \<Rightarrow> string \<Rightarrow> string \<Rightarrow> string option \<Rightarrow> nat \<Rightarrow> string option \<Rightarrow> nat list option \<Rightarrow>
   db \<Rightarrow> ingest_result \<times> db" where
  "process_rows env sid rows pt pid code offset period lines st =
     (let pre = pre_validate env st rows pt code offset period lines in
      if pp_errors pre \<noteq> [] then
        (\<lparr>ir_records = length rows, ir_accepted = 0, ir_rejected = length (pp_errors pre), ir_warnings = None\<rparr>,
         st\<lparr>db_submissions := update_by sb_id sid (\<lambda>s. s\<lparr>sb_status := Rejected, sb_record_count := length rows,
             sb_accepted := 0, sb_rejected := length (pp_errors pre), sb_report := RowReport (pp_errors pre),
             sb_processed_at := Some (i_now env),
             sb_resubmit_due := Some (add_business_days (i_tz env) (i_now env) 5)\<rparr>) (db_submissions st)\<rparr>)
      else
        (let a = flush (accept_pass (accept_step env (resolve_schema st pt) sid pid pt code) (line_of lines offset) 0
               (pp_rows pre) \<lparr>ac_accepted = 0, ac_rejected = 0, ac_errors = [], ac_pending = [], ac_stored = [],
                 ac_seen = existing_keys pid (db_records st), ac_taxpayers = db_taxpayers st\<rparr>);
             status = (if ac_rejected a = 0 \<and> 0 < ac_accepted a then Accepted
                       else if 0 < ac_accepted a then PartiallyAccepted else Rejected);
             w = pp_warnings pre
         in (\<lparr>ir_records = length rows, ir_accepted = ac_accepted a, ir_rejected = ac_rejected a,
              ir_warnings = Some (length w)\<rparr>,
             st\<lparr>db_records := db_records st @ ac_stored a, db_taxpayers := ac_taxpayers a,
                db_submissions := update_by sb_id sid (\<lambda>s. s\<lparr>sb_record_count := length rows,
                  sb_accepted := ac_accepted a, sb_rejected := ac_rejected a, sb_warning_count := length w,
                  sb_report := (if ac_errors a \<noteq> [] then RowReport (ac_errors a) else NoReport),
                  sb_warnings := w, sb_status := status,
                  sb_resubmit_due := (if status = Accepted then None
                    else Some (add_business_days (i_tz env) (i_now env) 5)),
                  sb_processed_at := Some (i_now env)\<rparr>) (db_submissions st)\<rparr>)))"

subsection \<open>Business days land on business days\<close>

definition weekdays_in :: "int \<Rightarrow> int \<Rightarrow> nat" where
  "weekdays_in a b = card {d \<in> {a<..b}. \<not> is_weekend d}"

lemma weekdays_in_self [simp]: "weekdays_in a a = 0"
  by (simp add: weekdays_in_def)

lemma weekdays_in_step:
  assumes "a + 1 \<le> b"
  shows "weekdays_in a b = (if is_weekend (a + 1) then 0 else 1) + weekdays_in (a + 1) b"
proof -
  let ?W = "{d \<in> {a + 1<..b}. \<not> is_weekend d}"
  have mem: "d \<in> {a<..b} \<longleftrightarrow> d = a + 1 \<or> d \<in> {a + 1<..b}" for d
    unfolding greaterThanAtMost_iff using assms by linarith
  have fin: "finite ?W" "a + 1 \<notin> ?W" by (rule finite_subset [of _ "{a + 1<..b}"]) auto
  have "{a<..b} = insert (a + 1) {a + 1<..b}"
    by (rule set_eqI) (simp only: insert_iff mem)
  then have split: "{d \<in> {a<..b}. \<not> is_weekend d} = {d \<in> insert (a + 1) {a + 1<..b}. \<not> is_weekend d}"
    by (simp only:)
  show ?thesis
  proof (cases "is_weekend (a + 1)")
    case True
    then have "{d \<in> insert (a + 1) {a + 1<..b}. \<not> is_weekend d} = ?W" by blast
    then show ?thesis using True unfolding weekdays_in_def split by simp
  next
    case False
    then have "{d \<in> insert (a + 1) {a + 1<..b}. \<not> is_weekend d} = insert (a + 1) ?W" by blast
    then show ?thesis using False fin unfolding weekdays_in_def split by simp
  qed
qed

lemma add_days_spec: "d \<le> add_days d n \<and> weekdays_in d (add_days d n) = n \<and> (0 < n \<longrightarrow> \<not> is_weekend (add_days d n))"
proof (induction d n rule: add_days.induct)
  case (1 d n)
  show ?case
  proof (cases "n = 0")
    case False
    let ?m = "if is_weekend (d + 1) then n else n - 1"
    have e: "add_days d n = add_days (d + 1) ?m" using False by (subst add_days.simps) (simp add: Let_def)
    have ih: "d + 1 \<le> add_days (d + 1) ?m \<and> weekdays_in (d + 1) (add_days (d + 1) ?m) = ?m \<and>
        (0 < ?m \<longrightarrow> \<not> is_weekend (add_days (d + 1) ?m))"
      using 1 False by (simp split: if_splits)
    then have "weekdays_in d (add_days d n) = n" using weekdays_in_step [of d "add_days d n"] False e by auto
    moreover have "\<not> is_weekend (add_days d n)"
    proof (cases "?m = 0")
      case True
      then have "add_days (d + 1) ?m = d + 1" by (simp add: add_days.simps)
      then show ?thesis using e True False by (auto split: if_splits)
    qed (use ih e in auto)
    ultimately show ?thesis using ih e by auto
  qed (simp add: add_days.simps)
qed

lemma div_add_days: "(x + k * ms_per_day) div ms_per_day = x div ms_per_day + k"
  by (simp add: ms_per_day_def)

text \<open>
  C40. The resubmission deadline is on a business day, at the same time of day, and exactly that many
  weekdays after the rejection: weekends are skipped, and the loop that skips them ends.
\<close>

theorem business_days_exact:
  fixes t tz :: int
  assumes "0 < n"
  defines "d \<equiv> (t + tz) div ms_per_day" and "e \<equiv> (add_business_days tz t n + tz) div ms_per_day"
  shows "\<not> is_weekend e \<and> weekdays_in d e = n \<and> (add_business_days tz t n + tz) mod ms_per_day = (t + tz) mod ms_per_day"
proof -
  have r: "add_business_days tz t n + tz = (t + tz) + (add_days d n - d) * ms_per_day"
    by (simp add: add_business_days_def d_def Let_def)
  then have "e = add_days d n" unfolding e_def r div_add_days by (simp add: d_def)
  then show ?thesis using add_days_spec [of d n] assms(1) by (simp add: r)
qed

theorem business_days_exact_witness:
  "\<not> is_weekend ((add_business_days 3600000 1785585600000 5 + 3600000) div ms_per_day) \<and>
   weekdays_in ((1785585600000 + 3600000) div ms_per_day)
     ((add_business_days 3600000 1785585600000 5 + 3600000) div ms_per_day) = 5 \<and>
   (add_business_days 3600000 1785585600000 5 + 3600000) mod ms_per_day = (1785585600000 + 3600000) mod ms_per_day"
  by (rule business_days_exact) simp

subsection \<open>Enrichment keeps the register sound\<close>

text \<open>No two taxpayers hold the same TIN, and every taxpayer has one id.\<close>

definition tin_unique :: "taxpayer list \<Rightarrow> bool" where
  "tin_unique ts \<longleftrightarrow> (\<forall>s\<in>set ts. \<forall>t\<in>set ts. tp_tin_index s = tp_tin_index t \<longrightarrow> tp_tin_index s \<noteq> None \<longrightarrow>
     tp_id s = tp_id t)"

lemma tin_uniqueI:
  "(\<And>s t i. s \<in> set ts \<Longrightarrow> t \<in> set ts \<Longrightarrow> tp_tin_index s = Some i \<Longrightarrow> tp_tin_index t = Some i \<Longrightarrow> tp_id s = tp_id t) \<Longrightarrow>
   tin_unique ts"
  unfolding tin_unique_def by (metis option.exhaust)

lemma tin_uniqueD:
  "tin_unique ts \<Longrightarrow> s \<in> set ts \<Longrightarrow> t \<in> set ts \<Longrightarrow> tp_tin_index s = Some i \<Longrightarrow> tp_tin_index t = Some i \<Longrightarrow> tp_id s = tp_id t"
  unfolding tin_unique_def by (metis option.distinct(1))

lemma tin_unique_map:
  assumes "\<And>t. tp_id (f t) = tp_id t \<and> tp_tin_index (f t) = tp_tin_index t" "tin_unique ts"
  shows "tin_unique (map f ts)"
proof (rule tin_uniqueI)
  fix s t i
  assume "s \<in> set (map f ts)" "t \<in> set (map f ts)" and i: "tp_tin_index s = Some i" "tp_tin_index t = Some i"
  then obtain s0 t0 where st: "s0 \<in> set ts" "s = f s0" "t0 \<in> set ts" "t = f t0" by auto
  then show "tp_id s = tp_id t" using tin_uniqueD [OF assms(2) st(1,3), of i] i assms(1) by simp
qed

definition tin_kept :: "taxpayer list \<Rightarrow> taxpayer list \<Rightarrow> bool" where
  "tin_kept ts us \<longleftrightarrow> (\<forall>k t. find_by tp_id k ts = Some t \<longrightarrow> truthy (tp_tin_index t) \<longrightarrow>
     (\<exists>u. find_by tp_id k us = Some u \<and> tp_tin_index u = tp_tin_index t \<and> tp_tin_enc u = tp_tin_enc t))"

lemma tin_kept_refl: "tin_kept ts ts"
  by (simp add: tin_kept_def)

lemma tin_kept_trans: "tin_kept ts us \<Longrightarrow> tin_kept us vs \<Longrightarrow> tin_kept ts vs"
  unfolding tin_kept_def by metis

lemma find_by_index_None: "find_by_index tp_tin_index (Some i) ts = None \<Longrightarrow> t \<in> set ts \<Longrightarrow> tp_tin_index t \<noteq> Some i"
  by (auto simp: find_by_index_def find_None_iff)

lemma enrich_tin_unique:
  assumes "tin_unique ts"
  shows "tin_unique (enrich_taxpayer_tin env k tin ts)"
proof (cases "enrich_taxpayer_tin env k tin ts = ts")
  case False
  then obtain i where i: "find_by_index tp_tin_index (Some i) ts = None"
      and e: "enrich_taxpayer_tin env k tin ts = update_by tp_id k
        (\<lambda>t. t\<lparr>tp_tin_enc := encrypt_field env (Some tin), tp_tin_index := Some i\<rparr>) ts"
    by (auto simp: enrich_taxpayer_tin_def split: option.splits if_splits)
  note none = find_by_index_None [OF i]
  let ?f = "\<lambda>t. t\<lparr>tp_tin_enc := encrypt_field env (Some tin), tp_tin_index := Some i\<rparr>"
  have src: "(tp_id s = k \<and> tp_tin_index s = Some i) \<or> (s \<in> set ts \<and> tp_tin_index s \<noteq> Some i)"
    if "s \<in> set (update_by tp_id k ?f ts)" for s
    using set_update_by [OF that] none by auto
  show ?thesis unfolding e
  proof (rule tin_uniqueI)
    fix s t j
    assume st: "s \<in> set (update_by tp_id k ?f ts)" "t \<in> set (update_by tp_id k ?f ts)"
      and j: "tp_tin_index s = Some j" "tp_tin_index t = Some j"
    show "tp_id s = tp_id t"
      using src [OF st(1)] src [OF st(2)] j tin_uniqueD [OF assms _ _ j] by auto
  qed
qed (use assms in simp)

lemma enrich_tin_kept: "tin_kept ts (enrich_taxpayer_tin env k tin ts)"
proof (cases "enrich_taxpayer_tin env k tin ts = ts")
  case False
  then obtain i tp where tp: "find_by tp_id k ts = Some tp" "\<not> truthy (tp_tin_index tp)"
      and e: "enrich_taxpayer_tin env k tin ts = update_by tp_id k
        (\<lambda>t. t\<lparr>tp_tin_enc := encrypt_field env (Some tin), tp_tin_index := Some i\<rparr>) ts"
    by (auto simp: enrich_taxpayer_tin_def split: option.splits if_splits)
  show ?thesis unfolding tin_kept_def e using tp by (auto simp: find_by_update)
qed (simp add: tin_kept_refl)

lemma apply_sector_tin:
  assumes "tin_unique ts"
  shows "tin_unique (apply_sector r k ts) \<and> tin_kept ts (apply_sector r k ts)"
proof (cases k)
  case (Some i)
  have "tin_kept ts (apply_sector r k ts)"
    by (auto simp: tin_kept_def apply_sector_def Some find_by_update)
  moreover have "tin_unique (apply_sector r k ts)"
    unfolding apply_sector_def Some option.case update_by_def by (rule tin_unique_map) (use assms in auto)
  ultimately show ?thesis by simp
qed (simp add: apply_sector_def tin_kept_refl assms)

subsection \<open>The accepting pass as a fold\<close>

definition all_records :: "accept_state \<Rightarrow> data_record list" where
  "all_records a = ac_stored a @ ac_pending a"

text \<open>Batching is invisible: pushing a record appends it, whatever was flushed before.\<close>

lemma push_record_facts [simp]:
  "all_records (push_record d a) = all_records a @ [d]"
  "ac_accepted (push_record d a) = Suc (ac_accepted a)"
  "ac_rejected (push_record d a) = ac_rejected a"
  "ac_errors (push_record d a) = ac_errors a"
  "ac_seen (push_record d a) = ac_seen a"
  "ac_taxpayers (push_record d a) = ac_taxpayers a"
  by (auto simp: push_record_def all_records_def flush_def Let_def)

lemma flush_facts [simp]:
  "ac_stored (flush a) = all_records a" "ac_accepted (flush a) = ac_accepted a"
  "ac_rejected (flush a) = ac_rejected a" "ac_errors (flush a) = ac_errors a"
  "ac_taxpayers (flush a) = ac_taxpayers a"
  by (auto simp: all_records_def flush_def)

lemma reject_row_facts [simp]:
  "all_records (reject_row rn msgs a) = all_records a" "ac_accepted (reject_row rn msgs a) = ac_accepted a"
  "ac_rejected (reject_row rn msgs a) = Suc (ac_rejected a)" "ac_seen (reject_row rn msgs a) = ac_seen a"
  "ac_taxpayers (reject_row rn msgs a) = ac_taxpayers a"
  by (auto simp: reject_row_def all_records_def)

text \<open>The two outcomes of a row: it is rejected, or one record is stored under a key not yet seen.\<close>

lemma store_row_cases:
  obtains m ts where "store_row env sid pid pt p r a = push_record (build_record env sid pid pt r m p) (a\<lparr>ac_taxpayers := ts\<rparr>)"
    and "tin_unique (ac_taxpayers a) \<Longrightarrow> tin_unique ts \<and> tin_kept (ac_taxpayers a) ts"
proof -
  let ?tin = "trimmed_or_null (r ''tin'')"
  let ?m = "resolve_taxpayer env (ac_taxpayers a) (or_null (r ''nin'')) ?tin (extract_bvn (r ''bvn'')) (or_null (r ''accountName''))"
  let ?ts1 = "case (mr_taxpayer ?m, ?tin) of (Some i, Some t) \<Rightarrow> enrich_taxpayer_tin env i t (ac_taxpayers a)
                 | _ \<Rightarrow> ac_taxpayers a"
  have 1: "tin_unique ?ts1 \<and> tin_kept (ac_taxpayers a) ?ts1" if "tin_unique (ac_taxpayers a)"
    using that enrich_tin_unique enrich_tin_kept tin_kept_refl by (auto split: option.split)
  have "tin_unique (apply_sector r (mr_taxpayer ?m) ?ts1) \<and> tin_kept (ac_taxpayers a) (apply_sector r (mr_taxpayer ?m) ?ts1)"
    if "tin_unique (ac_taxpayers a)"
    using 1 [OF that] apply_sector_tin tin_kept_trans by blast
  moreover have "store_row env sid pid pt p r a = push_record (build_record env sid pid pt r ?m p)
      (a\<lparr>ac_taxpayers := apply_sector r (mr_taxpayer ?m) ?ts1\<rparr>)"
    by (simp add: store_row_def Let_def)
  ultimately show ?thesis by (rule that [rotated])
qed

lemma accept_step_cases:
  obtains (rejected) msgs where "accept_step env schema sid pid pt code rn raw a = reject_row rn msgs a"
  | (stored) r p a' where "accept_step env schema sid pid pt code rn raw a = store_row env sid pid pt p r a'"
      and "ac_taxpayers a' = ac_taxpayers a" and "all_records a' = all_records a"
      and "ac_accepted a' = ac_accepted a" and "ac_rejected a' = ac_rejected a" and "ac_errors a' = ac_errors a"
      and "case blind_index env (or_null (r ''accountNumber'')) of None \<Rightarrow> ac_seen a' = ac_seen a
         | Some idx \<Rightarrow> dup_key r idx \<notin> set (ac_seen a) \<and> ac_seen a' = dup_key r idx # ac_seen a"
      and "parse_period (cell_of r ''periodLabel'') = Some p"
proof -
  obtain errs w r where v: "validate_row (i_row env) (alias_count (alias_period raw)) schema None = (errs, w, r)"
    by (cases "validate_row (i_row env) (alias_count (alias_period raw)) schema None") auto
  consider (bad) msgs where "accept_step env schema sid pid pt code rn raw a = reject_row rn msgs a"
    | (ok) p where "errs = []" "parse_period (cell_of r ''periodLabel'') = Some p"
        "integrity_errors env r pt code = []"
        "\<And>idx. blind_index env (or_null (r ''accountNumber'')) = Some idx \<Longrightarrow> dup_key r idx \<notin> set (ac_seen a)"
  proof (cases "errs = [] \<and> integrity_errors env r pt code = []")
    case clean: True
    show ?thesis
    proof (cases "parse_period (cell_of r ''periodLabel'')")
      case None
      then show ?thesis using clean by (intro bad [of "[InvalidPeriodLabel]"]) (simp add: accept_step_def v)
    next
      case p: (Some p)
      show ?thesis
      proof (cases "\<exists>idx. blind_index env (or_null (r ''accountNumber'')) = Some idx \<and> dup_key r idx \<in> set (ac_seen a)")
        case True
        then show ?thesis using clean p
          by (intro bad [of "[AlreadySubmitted (shown_value (r ''periodLabel''))]"]) (auto simp: accept_step_def v)
      next
        case False
        then show ?thesis using clean p by (intro ok [of p]) auto
      qed
    qed
  next
    case False
    then show ?thesis
      by (cases "errs = []"; cases "parse_period (cell_of r ''periodLabel'')")
        (auto intro: bad simp: accept_step_def v Let_def)
  qed
  then show ?thesis
  proof cases
    case bad
    then show ?thesis by (rule rejected)
  next
    case ok
    show ?thesis
    proof (cases "blind_index env (or_null (r ''accountNumber''))")
      case None
      then show ?thesis using ok by (intro stored [of p r a]) (simp_all add: accept_step_def v Let_def)
    next
      case (Some idx)
      then show ?thesis using ok
        by (intro stored [of p r "a\<lparr>ac_seen := dup_key r idx # ac_seen a\<rparr>"])
          (simp_all add: accept_step_def v Let_def all_records_def)
    qed
  qed
qed


lemma accept_pass_invariant:
  assumes "\<And>rn r a. P a \<Longrightarrow> P (step rn r a)" and "P a"
  shows "P (accept_pass step line i rs a)"
  using assms(2) by (induction rs arbitrary: i a) (auto intro: assms(1))

subsection \<open>Accounts are reported once per period\<close>

lemma parse_period_nonblank: "parse_period s = Some p \<Longrightarrow> s \<noteq> []"
  by (auto simp: parse_period_def trim_def)

lemma shown_value_cell:
  "parse_period (cell_of r k) = Some p \<Longrightarrow> shown_value (r k) = cell_of r k"
  by (cases "r k") (auto simp: shown_value_def cell_of_def dest: parse_period_nonblank)

lemma existing_keys_append [simp]: "existing_keys pid (xs @ ys) = existing_keys pid xs @ existing_keys pid ys"
  by (simp add: existing_keys_def)

lemma existing_keys_other:
  "(\<forall>d\<in>set ds. d_provider d \<noteq> pid) \<Longrightarrow> existing_keys pid ds = []"
  by (induction ds) (auto simp: existing_keys_def split: option.splits)

lemma existing_keys_single:
  "existing_keys pid [d] = (case d_account_index d of None \<Rightarrow> []
     | Some idx \<Rightarrow> if d_provider d = pid then [d_period_label d @ ''::'' @ idx] else [])"
  by (simp add: existing_keys_def)

definition keys_ok :: "string \<Rightarrow> data_record list \<Rightarrow> accept_state \<Rightarrow> bool" where
  "keys_ok pid old a \<longleftrightarrow> distinct (existing_keys pid (old @ all_records a)) \<and>
     set (existing_keys pid (old @ all_records a)) \<subseteq> set (ac_seen a)"

lemma keys_ok_cong:
  "all_records b = all_records a \<Longrightarrow> ac_seen b = ac_seen a \<Longrightarrow> keys_ok pid old b = keys_ok pid old a"
  by (simp add: keys_ok_def)

lemma accept_step_keys:
  assumes "keys_ok pid old a"
  shows "keys_ok pid old (accept_step env schema sid pid pt code rn r0 a)"
proof (cases rule: accept_step_cases [where env = env and schema = schema and sid = sid and pid = pid and pt = pt
      and code = code and rn = rn and raw = r0 and a = a])
  case (rejected msgs)
  have "keys_ok pid old (reject_row rn msgs a) = keys_ok pid old a" by (rule keys_ok_cong) simp_all
  then show ?thesis using rejected assms by simp
next
  case (stored r p a')
  obtain m ts where s: "store_row env sid pid pt p r a' =
      push_record (build_record env sid pid pt r m p) (a'\<lparr>ac_taxpayers := ts\<rparr>)"
    by (rule store_row_cases)
  let ?d = "build_record env sid pid pt r m p"
  have d: "d_provider ?d = pid" "d_period_label ?d = cell_of r ''periodLabel''"
      "d_account_index ?d = blind_index env (or_null (r ''accountNumber''))"
    by (simp_all add: build_record_def Let_def)
  have "all_records (a'\<lparr>ac_taxpayers := ts\<rparr>) = all_records a" using stored(3) by (simp add: all_records_def)
  then have recs: "all_records (store_row env sid pid pt p r a') = all_records a @ [?d]"
    by (simp only: s push_record_facts(1))
  have seen: "ac_seen (store_row env sid pid pt p r a') = ac_seen a'" using s by simp
  show ?thesis
  proof (cases "blind_index env (or_null (r ''accountNumber''))")
    case None
    then have "existing_keys pid [?d] = []" by (simp only: existing_keys_single d) simp
    then show ?thesis using assms None stored(1,7) recs seen by (simp add: keys_ok_def)
  next
    case (Some idx)
    have k: "existing_keys pid [?d] = [dup_key r idx]"
      using Some shown_value_cell [OF stored(8)]
      by (simp only: existing_keys_single d) (simp add: dup_key_def)
    have "dup_key r idx \<notin> set (ac_seen a)" "ac_seen a' = dup_key r idx # ac_seen a"
      using Some stored(7) by auto
    then show ?thesis using assms k stored(1) recs seen by (auto simp: keys_ok_def)
  qed
qed

text \<open>What the accepting pass starts from and ends with, for one call of the pipeline.\<close>

definition start_accept :: "string \<Rightarrow> db \<Rightarrow> accept_state" where
  "start_accept pid st = \<lparr>ac_accepted = 0, ac_rejected = 0, ac_errors = [], ac_pending = [], ac_stored = [],
     ac_seen = existing_keys pid (db_records st), ac_taxpayers = db_taxpayers st\<rparr>"

definition run_accept ::
  "ingest_env \<Rightarrow> string \<Rightarrow> row list \<Rightarrow> string \<Rightarrow> string \<Rightarrow> string option \<Rightarrow> (nat \<Rightarrow> nat) \<Rightarrow> db \<Rightarrow> accept_state" where
  "run_accept env sid rows pt pid code line st =
     accept_pass (accept_step env (resolve_schema st pt) sid pid pt code) line 0 rows (start_accept pid st)"

lemma process_rows_cases:
  fixes env :: ingest_env and st :: db and rows :: "row list" and pt sid pid :: string
    and code period :: "string option" and offset :: nat and lines :: "nat list option"
  defines "pre \<equiv> pre_validate env st rows pt code offset period lines"
  defines "a \<equiv> run_accept env sid (pp_rows pre) pt pid code (line_of lines offset) st"
  obtains (refused) "pp_errors pre \<noteq> []"
      "db_records (snd (process_rows env sid rows pt pid code offset period lines st)) = db_records st"
      "db_taxpayers (snd (process_rows env sid rows pt pid code offset period lines st)) = db_taxpayers st"
      "ir_accepted (fst (process_rows env sid rows pt pid code offset period lines st)) = 0"
  | (run) "pp_errors pre = []"
      "db_records (snd (process_rows env sid rows pt pid code offset period lines st)) = db_records st @ all_records a"
      "db_taxpayers (snd (process_rows env sid rows pt pid code offset period lines st)) = ac_taxpayers a"
      "ir_accepted (fst (process_rows env sid rows pt pid code offset period lines st)) = ac_accepted a"
      "ir_rejected (fst (process_rows env sid rows pt pid code offset period lines st)) = ac_rejected a"
proof (cases "pp_errors pre = []")
  case True
  then show ?thesis
    by (intro run) (simp_all add: process_rows_def pre_def a_def run_accept_def start_accept_def Let_def)
next
  case False
  then show ?thesis by (intro refused) (simp_all add: process_rows_def pre_def Let_def)
qed

lemma keys_ok_start: "distinct (existing_keys pid (db_records st)) \<Longrightarrow> keys_ok pid (db_records st) (start_accept pid st)"
  by (simp add: keys_ok_def start_accept_def all_records_def existing_keys_def)

lemma run_accept_provider:
  "d \<in> set (all_records (run_accept env sid rows pt pid code line st)) \<Longrightarrow> d_provider d = pid \<and> d_submission d = sid"
proof -
  let ?P = "\<lambda>a. \<forall>d\<in>set (all_records a). d_provider d = pid \<and> d_submission d = sid"
  have step: "?P (accept_step env schema sid pid pt code rn r a)" if P: "?P a" for schema rn r a
  proof (cases rule: accept_step_cases [where env = env and schema = schema and sid = sid and pid = pid and pt = pt
      and code = code and rn = rn and raw = r and a = a])
    case (rejected msgs)
    then show ?thesis using P by simp
  next
    case (stored r' p a')
    obtain m ts where "store_row env sid pid pt p r' a' =
        push_record (build_record env sid pid pt r' m p) (a'\<lparr>ac_taxpayers := ts\<rparr>)"
      by (rule store_row_cases)
    moreover have "all_records (a'\<lparr>ac_taxpayers := ts\<rparr>) = all_records a"
      using stored(3) by (simp add: all_records_def)
    ultimately show ?thesis using stored(1) P by (auto simp: build_record_def Let_def)
  qed
  have "?P (run_accept env sid rows pt pid code line st)"
    unfolding run_accept_def by (rule accept_pass_invariant [of ?P, OF step])
      (auto simp: start_accept_def all_records_def)
  then show "d \<in> set (all_records (run_accept env sid rows pt pid code line st)) \<Longrightarrow>
      d_provider d = pid \<and> d_submission d = sid" by blast
qed

definition accounts_once :: "data_record list \<Rightarrow> bool" where
  "accounts_once ds \<longleftrightarrow> (\<forall>pid. distinct (existing_keys pid ds))"

lemma process_rows_accounts_once:
  assumes "accounts_once (db_records st)"
  shows "accounts_once (db_records (snd (process_rows env sid rows pt pid code offset period lines st)))"
proof (cases rule: process_rows_cases [where env = env and st = st and rows = rows and pt = pt and code = code
      and offset = offset and period = period and lines = lines and sid = sid and pid = pid])
  case refused
  then show ?thesis using assms by simp
next
  case run
  let ?a = "run_accept env sid (pp_rows (pre_validate env st rows pt code offset period lines)) pt pid code
      (line_of lines offset) st"
  have "keys_ok pid (db_records st) ?a"
    unfolding run_accept_def
    by (rule accept_pass_invariant [where P = "keys_ok pid (db_records st)"], rule accept_step_keys)
      (use assms in \<open>auto simp: accounts_once_def keys_ok_start\<close>)
  then have "distinct (existing_keys pid (db_records st @ all_records ?a))" by (simp add: keys_ok_def)
  moreover have "existing_keys q (all_records ?a) = []" if "q \<noteq> pid" for q
    by (rule existing_keys_other) (use run_accept_provider that in blast)
  ultimately show ?thesis using assms run(2) unfolding accounts_once_def
    by (metis append_Nil2 existing_keys_append)
qed

text \<open>
  C37. An account is reported once per period: if no two stored records of a provider share period and
  account, then after any file has been processed, whatever its rows, providers and earlier returns,
  still no two do.
\<close>

theorem ingest_accounts_once:
  assumes "accounts_once (db_records st)"
  shows "accounts_once (db_records (snd (process_rows env sid rows pt pid code offset period lines st)))"
  using assms by (rule process_rows_accounts_once)

subsection \<open>Accounting\<close>

lemma accept_step_counts:
  fixes env :: ingest_env and schema :: schema_template and sid pid pt :: string and code :: "string option"
    and rn :: nat and r0 :: row and a :: accept_state
  defines "b \<equiv> accept_step env schema sid pid pt code rn r0 a"
  shows "ac_accepted b + ac_rejected b = Suc (ac_accepted a + ac_rejected a)"
    and "length (all_records b) + ac_accepted a = length (all_records a) + ac_accepted b"
proof -
  have "ac_accepted b + ac_rejected b = Suc (ac_accepted a + ac_rejected a) \<and>
      length (all_records b) + ac_accepted a = length (all_records a) + ac_accepted b"
  proof (cases rule: accept_step_cases [where env = env and schema = schema and sid = sid and pid = pid and pt = pt
      and code = code and rn = rn and raw = r0 and a = a])
    case (rejected msgs)
    then show ?thesis by (simp add: b_def)
  next
    case (stored r p a')
    obtain m ts where "store_row env sid pid pt p r a' =
        push_record (build_record env sid pid pt r m p) (a'\<lparr>ac_taxpayers := ts\<rparr>)"
      by (rule store_row_cases)
    moreover have "all_records (a'\<lparr>ac_taxpayers := ts\<rparr>) = all_records a"
      using stored(3) by (simp add: all_records_def)
    ultimately show ?thesis using stored(1,4,5) by (simp add: b_def)
  qed
  then show "ac_accepted b + ac_rejected b = Suc (ac_accepted a + ac_rejected a)"
    and "length (all_records b) + ac_accepted a = length (all_records a) + ac_accepted b" by auto
qed

lemma accept_pass_counts:
  fixes env :: ingest_env and schema :: schema_template and sid pid pt :: string and code :: "string option"
  defines "step \<equiv> accept_step env schema sid pid pt code"
  shows "ac_accepted (accept_pass step line i rs a) + ac_rejected (accept_pass step line i rs a) =
      length rs + (ac_accepted a + ac_rejected a)"
    and "length (all_records (accept_pass step line i rs a)) + ac_accepted a =
      length (all_records a) + ac_accepted (accept_pass step line i rs a)"
proof (induction rs arbitrary: i a)
  case (Cons r rs)
  {
    case 1
    then show ?case
      using Cons(1) [of "Suc i" "step (line i) r a"] accept_step_counts(1) [of env schema sid pid pt code "line i" r a]
      by (simp add: step_def)
  next
    case 2
    then show ?case
      using Cons(2) [of "Suc i" "step (line i) r a"] accept_step_counts(2) [of env schema sid pid pt code "line i" r a]
      by (simp add: step_def)
  }
qed simp_all

lemma pre_pass_rows: "length (pp_rows (pre_pass (pre_step env schema ctx pt code period) line i rs p)) =
    length (pp_rows p) + length rs"
  by (induction rs arbitrary: i p) (auto simp: pre_step_def split_beta Let_def)

text \<open>
  The counts of a processed return are exact: the store grows by the accepted count, every new
  record carries the submission and provider it came from, and accepted and rejected rows add up to
  the rows of the file once it passes pre-validation.
\<close>

theorem ingest_accounting:
  fixes env :: ingest_env and st :: db and rows :: "row list" and pt sid pid :: string
    and code period :: "string option" and offset :: nat and lines :: "nat list option"
  defines "out \<equiv> process_rows env sid rows pt pid code offset period lines st"
  shows "\<exists>new. db_records (snd out) = db_records st @ new \<and> length new = ir_accepted (fst out) \<and>
    list_all (\<lambda>d. d_submission d = sid \<and> d_provider d = pid) new \<and>
    (if pp_errors (pre_validate env st rows pt code offset period lines) = []
     then ir_accepted (fst out) + ir_rejected (fst out) = length rows
     else ir_accepted (fst out) = 0)"
proof (cases rule: process_rows_cases [where env = env and st = st and rows = rows and pt = pt and code = code
      and offset = offset and period = period and lines = lines and sid = sid and pid = pid])
  case refused
  then show ?thesis by (simp add: out_def)
next
  case run
  let ?pre = "pre_validate env st rows pt code offset period lines"
  let ?a = "run_accept env sid (pp_rows ?pre) pt pid code (line_of lines offset) st"
  have len: "length (pp_rows ?pre) = length rows" by (simp add: pre_validate_def pre_pass_rows)
  have "length (all_records ?a) = ac_accepted ?a"
    using accept_pass_counts(2) [of env "resolve_schema st pt" sid pid pt code "line_of lines offset" 0 "pp_rows ?pre"
        "start_accept pid st"]
    by (simp add: run_accept_def start_accept_def all_records_def)
  moreover have "ac_accepted ?a + ac_rejected ?a = length rows"
    using accept_pass_counts(1) [of env "resolve_schema st pt" sid pid pt code "line_of lines offset" 0 "pp_rows ?pre"
        "start_accept pid st"] len
    by (simp add: run_accept_def start_accept_def)
  moreover have "list_all (\<lambda>d. d_submission d = sid \<and> d_provider d = pid) (all_records ?a)"
    using run_accept_provider by (auto simp: list_all_iff)
  ultimately show ?thesis using run by (auto simp: out_def)
qed

subsection \<open>All or nothing\<close>

definition row_clean :: "ingest_env \<Rightarrow> db \<Rightarrow> string \<Rightarrow> string option \<Rightarrow> string option \<Rightarrow> row \<Rightarrow> bool" where
  "row_clean env st pt code period r0 =
     (let (errs, w, r) = validate_row (i_row env) (prepare_row period r0) (resolve_schema st pt)
            (Some (resolve_validation_context env st))
      in errs = [] \<and> period_errors env r = [] \<and> integrity_errors env r pt code = [])"

lemma pre_step_errors_grow:
  "pp_errors p \<noteq> [] \<Longrightarrow> pp_errors (pre_step env schema ctx pt code period rn r p) \<noteq> []"
  by (simp add: pre_step_def split_beta Let_def)

lemma pre_pass_errors_grow:
  "pp_errors p \<noteq> [] \<Longrightarrow> pp_errors (pre_pass (pre_step env schema ctx pt code period) line i rs p) \<noteq> []"
  by (induction rs arbitrary: i p) (auto simp: pre_step_errors_grow)

lemma pre_step_dirty:
  assumes "\<not> row_clean env st pt code period r"
  shows "pp_errors (pre_step env (resolve_schema st pt) (resolve_validation_context env st) pt code period rn r p) \<noteq> []"
proof -
  obtain errs w r' where v: "validate_row (i_row env) (prepare_row period r) (resolve_schema st pt)
      (Some (resolve_validation_context env st)) = (errs, w, r')"
    by (cases "validate_row (i_row env) (prepare_row period r) (resolve_schema st pt)
        (Some (resolve_validation_context env st))") auto
  then have "map RowMsg errs @ period_errors env r' @ integrity_errors env r' pt code \<noteq> []"
    using assms by (auto simp: row_clean_def)
  then have "fst (pre_check env (resolve_schema st pt) (resolve_validation_context env st) pt code period rn (pp_seen p) r) \<noteq> []"
    by (auto simp: pre_check_def v Let_def split: option.split)
  then show ?thesis by (auto simp: pre_step_def split_beta Let_def take_Cons' neq_Nil_conv)
qed

lemma pre_validate_dirty:
  assumes "r \<in> set rows" "\<not> row_clean env st pt code period r"
  shows "pp_errors (pre_validate env st rows pt code offset period lines) \<noteq> []"
proof -
  let ?step = "pre_step env (resolve_schema st pt) (resolve_validation_context env st) pt code period"
  have "pp_errors (pre_pass ?step line i rs p) \<noteq> []" if "r \<in> set rs" for line i rs p
    using that
  proof (induction rs arbitrary: i p)
    case (Cons x xs)
    then show ?case
      using pre_step_dirty [OF assms(2)] pre_pass_errors_grow by (cases "r = x") auto
  qed simp
  then show ?thesis using assms(1) by (simp add: pre_validate_def)
qed

text \<open>
  C38. A return is taken as a whole or not at all: if a single row of the file fails the schema, its
  period or the integrity gate, then nothing of the file is stored, no taxpayer is touched, and the
  submission, if it is on file, ends rejected with no accepted row.
\<close>

theorem ingest_all_or_nothing:
  fixes env :: ingest_env and st :: db and rows :: "row list" and pt sid pid :: string
    and code period :: "string option" and offset :: nat and lines :: "nat list option"
  assumes "r \<in> set rows" and "\<not> row_clean env st pt code period r"
    and "find_by sb_id sid (db_submissions st) = Some s"
  defines "out \<equiv> process_rows env sid rows pt pid code offset period lines st"
  shows "db_records (snd out) = db_records st \<and> db_taxpayers (snd out) = db_taxpayers st \<and>
    ir_accepted (fst out) = 0 \<and>
    (\<exists>s'. find_by sb_id sid (db_submissions (snd out)) = Some s' \<and> sb_status s' = Rejected \<and> sb_accepted s' = 0)"
proof -
  have e: "pp_errors (pre_validate env st rows pt code offset period lines) \<noteq> []"
    by (rule pre_validate_dirty [OF assms(1,2)])
  then show ?thesis using assms(3) by (simp add: out_def process_rows_def Let_def find_by_update)
qed

definition demo_env :: ingest_env where
  "demo_env = \<lparr>i_row = sample_env, i_hmac = rev, i_seal = id, i_open = Some, i_bvn_check = False, i_tz = 3600000\<rparr>"

definition demo_submission :: submission where
  "demo_submission = \<lparr>sb_id = ''s1'', sb_provider = ''p1'', sb_staff = None, sb_user = None,
     sb_period_label = ''2026-Q1'', sb_period_year = 2026, sb_period_quarter = Some 1, sb_period_month = None,
     sb_file_name = ''f.csv'', sb_file_size = 10, sb_status = Validating, sb_record_count = 0, sb_accepted = 0,
     sb_rejected = 0, sb_warning_count = 0, sb_report = NoReport, sb_warnings = [], sb_receipt_hash = None,
     sb_received_at = 0, sb_processed_at = None, sb_resubmit_due = None\<rparr>"

definition demo_db :: db where
  "demo_db = \<lparr>db_submissions = [demo_submission], db_records = [], db_taxpayers = [], db_schemas = [],
     db_enforcement = None\<rparr>"

lemma blank_row_dirty: "\<not> row_clean demo_env demo_db ''BANK'' None (Some ''2026-Q1'') Map.empty"
proof -
  let ?r = "prepare_row (Some ''2026-Q1'') Map.empty"
  have s: "resolve_schema demo_db ''BANK'' = \<lparr>s_provider_type = ''BANK'', s_columns = return_columns\<rparr>"
    by (simp add: resolve_schema_def demo_db_def default_schema_def provider_types_def)
  have "?r ''nin'' = None"
    by (auto simp: prepare_row_def alias_period_def alias_count_def Let_def split: option.split)
  then have "\<not> return_row_ok ?r"
    by (simp add: return_row_ok_def eleven_digits_def raw_value_def cell_of_def trim_def)
  then show ?thesis using return_row_iff by (auto simp: row_clean_def s split_beta)
qed

theorem ingest_all_or_nothing_witness:
  defines "out \<equiv> process_rows demo_env ''s1'' [sample_row, Map.empty] ''BANK'' ''p1'' None 2 (Some ''2026-Q1'') None demo_db"
  shows "db_records (snd out) = db_records demo_db \<and> db_taxpayers (snd out) = db_taxpayers demo_db \<and>
    ir_accepted (fst out) = 0 \<and>
    (\<exists>s'. find_by sb_id ''s1'' (db_submissions (snd out)) = Some s' \<and> sb_status s' = Rejected \<and> sb_accepted s' = 0)"
  unfolding out_def
  by (rule ingest_all_or_nothing [OF _ blank_row_dirty]) (simp_all add: demo_db_def demo_submission_def)

theorem ingest_accounts_once_witness:
  "accounts_once (db_records (snd (process_rows demo_env ''s1'' [sample_row] ''BANK'' ''p1'' None 2
     (Some ''2026-Q1'') None demo_db)))"
  by (rule ingest_accounts_once) (simp add: accounts_once_def demo_db_def existing_keys_def)

subsection \<open>The register of taxpayers\<close>

lemma process_rows_tins:
  assumes "tin_unique (db_taxpayers st)"
  shows "tin_unique (db_taxpayers (snd (process_rows env sid rows pt pid code offset period lines st))) \<and>
    tin_kept (db_taxpayers st) (db_taxpayers (snd (process_rows env sid rows pt pid code offset period lines st)))"
proof (cases rule: process_rows_cases [where env = env and st = st and rows = rows and pt = pt and code = code
      and offset = offset and period = period and lines = lines and sid = sid and pid = pid])
  case refused
  then show ?thesis using assms by (simp add: tin_kept_refl)
next
  case run
  let ?P = "\<lambda>a. tin_unique (ac_taxpayers a) \<and> tin_kept (db_taxpayers st) (ac_taxpayers a)"
  have step: "?P (accept_step env schema sid pid pt code rn r a)" if P: "?P a" for schema rn r a
  proof (cases rule: accept_step_cases [where env = env and schema = schema and sid = sid and pid = pid and pt = pt
      and code = code and rn = rn and raw = r and a = a])
    case (rejected msgs)
    then show ?thesis using P by simp
  next
    case (stored r' p a')
    obtain m ts where s: "store_row env sid pid pt p r' a' =
        push_record (build_record env sid pid pt r' m p) (a'\<lparr>ac_taxpayers := ts\<rparr>)"
      and ts: "tin_unique (ac_taxpayers a') \<Longrightarrow> tin_unique ts \<and> tin_kept (ac_taxpayers a') ts"
      by (rule store_row_cases [where env = env and sid = sid and pid = pid and pt = pt and p = p and r = r' and a = a']) blast
    have "tin_unique ts \<and> tin_kept (ac_taxpayers a) ts" using ts stored(2) P by simp
    then show ?thesis using s stored(1) P tin_kept_trans by auto
  qed
  have "?P (run_accept env sid (pp_rows (pre_validate env st rows pt code offset period lines)) pt pid code
      (line_of lines offset) st)"
    unfolding run_accept_def by (rule accept_pass_invariant [of ?P, OF step])
      (use assms in \<open>auto simp: start_accept_def tin_kept_refl\<close>)
  then show ?thesis using run(3) by simp
qed

text \<open>
  Ingestion never overwrites or duplicates a TIN: after any file, a taxpayer that had a TIN still
  has it, value and index, and no TIN is held by two taxpayers if none was before.
\<close>

theorem ingest_keeps_tins:
  fixes env :: ingest_env and st :: db and rows :: "row list" and pt sid pid :: string
    and code period :: "string option" and offset :: nat and lines :: "nat list option"
  assumes "tin_unique (db_taxpayers st)"
  defines "ts \<equiv> db_taxpayers (snd (process_rows env sid rows pt pid code offset period lines st))"
  shows "tin_unique ts \<and> tin_kept (db_taxpayers st) ts"
  unfolding ts_def using assms(1) by (rule process_rows_tins)

theorem ingest_keeps_tins_witness:
  defines "ts \<equiv> db_taxpayers (snd (process_rows demo_env ''s1'' [sample_row] ''BANK'' ''p1'' None 2
     (Some ''2026-Q1'') None demo_db))"
  shows "tin_unique ts \<and> tin_kept (db_taxpayers demo_db) ts"
  unfolding ts_def by (rule ingest_keeps_tins) (simp add: tin_unique_def demo_db_def)

end
