(* ===== verification/Submissions.thy ===== *)
theory Submissions
  imports Ingestion
begin

text \<open>
  The operations of \<open>backend/src/modules/submissions/submissions.service.ts\<close> around the ingestion
  pipeline: \<open>upload\<close> with its checks and the one-time resubmit grant, \<open>ingestJson\<close>, the multipart
  session (\<open>initMultipart\<close>, \<open>uploadPart\<close>, \<open>completeMultipart\<close>, \<open>abortMultipart\<close>), \<open>processFile\<close>,
  \<open>findHeaderLine\<close>, \<open>issueReceipt\<close>, \<open>report\<close> and \<open>reprocess\<close>. A buffer is a string of bytes; the hash, the
  text decoding and the workbook reader are fields of the environment, new ids are arguments.
\<close>

subsection \<open>State\<close>

record provider =
  pv_id :: string
  pv_type :: string
  pv_code :: "string option"

record resubmit_grant =
  rg_id :: string
  rg_provider :: string
  rg_period_label :: string
  rg_created :: time
  rg_consumed_at :: "time option"

datatype upload_status = UOpen | UCompleted | UAborted

record upload_session =
  us_id :: string
  us_provider :: string
  us_file_name :: string
  us_period_label :: string
  us_period_year :: nat
  us_period_quarter :: "nat option"
  us_period_month :: "nat option"
  us_total_parts :: nat
  us_expected :: "string option"
  us_staff :: "string option"
  us_user :: "string option"
  us_status :: upload_status
  us_total_bytes :: nat
  us_submission :: "string option"

record upload_part =
  up_upload :: string
  up_number :: nat
  up_size :: nat
  up_checksum :: "string option"
  up_data :: string

datatype audit_action = UploadSubmission | IngestJson | MultipartInit | MultipartComplete

record portal =
  po_db :: db
  po_providers :: "provider list"
  po_grants :: "resubmit_grant list"
  po_uploads :: "upload_session list"
  po_parts :: "upload_part list"
  po_audit :: "(audit_action \<times> string) list"

type_synonym workbook = "(string \<times> nat \<times> (cell_value \<times> string option) list list) list"

record portal_env =
  pe_ingest :: ingest_env
  pe_sha256 :: "string \<Rightarrow> string"
  pe_utf8 :: "string \<Rightarrow> string"
  pe_workbook :: "string \<Rightarrow> workbook option"
  pe_number_text :: "rat \<Rightarrow> string"

datatype submit_error =
    ProviderNotFound | OutOfScope "string option" | ChecksumMismatch string string | InvalidPeriodError
  | PeriodNotEnded string | AlreadyFiled string | NoRecords
  | SpreadsheetUnreadable conversion_advice | XlsxFailed xlsx_error | WrongExtension string
  | HeaderWithoutData | NoReadableRows | BadHeader header_msg
  | BadTotalParts | UploadNotFound | UploadIs upload_status | BadPartNumber nat | EmptyPart
  | PartChecksumMismatch nat | MissingParts "nat list" bool | FileChecksumMismatch string string
  | SubmissionNotFound

definition now_of :: "portal_env \<Rightarrow> time" where "now_of env = i_now (pe_ingest env)"

text \<open>\<open>checksum.replace(/^sha256[-:]/i, '').toLowerCase()\<close>\<close>

definition given_checksum :: "string \<Rightarrow> string" where
  "given_checksum s = lower (if lower (take 6 s) = ''sha256'' \<and> length s \<ge> 7 \<and> s ! 6 \<in> set ''-:'' then drop 7 s else s)"

definition checksum_error :: "portal_env \<Rightarrow> string \<Rightarrow> string option \<Rightarrow> (string \<times> string) option" where
  "checksum_error env body checksum = (if \<not> truthy checksum then None
     else (let actual = pe_sha256 env body; given = given_checksum (the checksum) in
           if actual \<noteq> given then Some (given, actual) else None))"

subsection \<open>Reading a file\<close>

definition strip_quotes :: "string \<Rightarrow> string" where
  "strip_quotes s = (let t = (if s \<noteq> [] \<and> hd s = dq then tl s else s) in
     if t \<noteq> [] \<and> last t = dq then butlast t else t)"

text \<open>Enough of the required names on one line: the product with 0.6 is a double, rounded up.\<close>

definition enough_hits :: "string list \<Rightarrow> string \<Rightarrow> bool" where
  "enough_hits required text = (let cells = set (map (\<lambda>c. lower (strip_quotes (trim c))) (split_on comma text));
     hits = length (filter (\<lambda>r. r \<in> cells) required)
     in \<lceil>fmul (of_nat (length required)) (lit 6 10)\<rceil> \<le> int hits)"

fun scan_header :: "string list \<Rightarrow> string list \<Rightarrow> nat \<Rightarrow> nat option \<Rightarrow> nat option" where
  "scan_header required [] i first = None"
| "scan_header required (l # ls) i first =
     (let text = trim l in
      if text = [] \<or> hd text = CHR ''#'' then scan_header required ls (Suc i) first
      else (let first' = (case first of None \<Rightarrow> i | Some f \<Rightarrow> f) in
            if enough_hits required text then (if i = first' then None else Some (i + 1))
            else scan_header required ls (Suc i) (Some first')))"

definition find_header_line :: "string \<Rightarrow> schema_template \<Rightarrow> nat option" where
  "find_header_line csv_text schema = (let required = map (\<lambda>c. lower (f_name c)) (filter f_required (s_columns schema)) in
     if required = [] then None else scan_header required (take 200 (split_lines csv_text)) 0 None)"

definition file_ext :: "string \<Rightarrow> string option" where
  "file_ext name = (let parts = split_on (CHR ''.'') (lower name) in
     if 2 \<le> length parts \<and> last parts \<noteq> [] \<and>
        list_all (\<lambda>c. is_digit c \<or> (is_alpha c \<and> lower_char c = c)) (last parts)
     then Some (last parts) else None)"

text \<open>The text of the file, or why it is not one that can be read.\<close>

definition file_text :: "portal_env \<Rightarrow> string \<Rightarrow> string \<Rightarrow> submit_error + string" where
  "file_text env buffer file_name = (let ext = file_ext file_name in
     case detect_spreadsheet_kind buffer of
       Some Xlsx \<Rightarrow> (case xlsx_to_csv_text (pe_number_text env) (length buffer) (pe_workbook env buffer) of
           Inl e \<Rightarrow> Inl (XlsxFailed e) | Inr (csv, _) \<Rightarrow> Inr csv)
     | Some kind \<Rightarrow> Inl (SpreadsheetUnreadable (spreadsheet_conversion_advice kind))
     | None \<Rightarrow> (if truthy ext \<and> the ext \<noteq> ''csv'' \<and> the ext \<noteq> ''txt'' \<and> the ext \<noteq> ''xlsx''
               then Inl (WrongExtension (the ext)) else Inr (pe_utf8 env buffer)))"

definition type_label :: "string \<Rightarrow> string" where
  "type_label t = map (\<lambda>c. if c = CHR ''_'' then CHR '' '' else c) t"

definition process_file ::
  "portal_env \<Rightarrow> string \<Rightarrow> string \<Rightarrow> string \<Rightarrow> string \<Rightarrow> string option \<Rightarrow> string option \<Rightarrow> string \<Rightarrow> db \<Rightarrow>
   (submit_error + ingest_result) \<times> db" where
  "process_file env sid buffer pt pid code period file_name st =
     (case file_text env buffer file_name of Inl e \<Rightarrow> (Inl e, st)
      | Inr text \<Rightarrow>
          (let p = parse_csv_text text in
           if csv_rows p = [] then (Inl (if csv_headers p \<noteq> [] then HeaderWithoutData else NoReadableRows), st)
           else (let schema = resolve_schema st pt; missing = missing_required_columns (csv_headers p) schema in
             if missing \<noteq> [] then (Inl (BadHeader (explain_header_problem (csv_headers p) missing schema False
                 (find_header_line text schema) (type_label pt))), st)
             else (let (res, st') = process_rows (pe_ingest env) sid (csv_rows p) pt pid code 2 period
                       (Some (csv_line_numbers p)) st
                   in (Inr res, st')))))"

subsection \<open>Uploading a file\<close>

record upload_opts =
  uo_provider :: string
  uo_file_name :: string
  uo_buffer :: string
  uo_period_label :: string
  uo_period_year :: "nat option"
  uo_period_quarter :: "nat option"
  uo_period_month :: "nat option"
  uo_staff :: "string option"
  uo_user :: "string option"
  uo_checksum :: "string option"

definition receipt_hash :: "portal_env \<Rightarrow> submission \<Rightarrow> string" where
  "receipt_hash env s = pe_sha256 env (sb_id s @ ''|'' @ sb_provider s @ ''|'' @ iso_string (sb_received_at s) @
     ''|'' @ dec_str (sb_file_size s))"

definition new_submission ::
  "portal_env \<Rightarrow> string \<Rightarrow> string \<Rightarrow> string option \<Rightarrow> string option \<Rightarrow> string \<Rightarrow> nat \<Rightarrow> nat option \<Rightarrow> nat option \<Rightarrow>
   string \<Rightarrow> nat \<Rightarrow> submission" where
  "new_submission env sid pid staff user label y q m file_name bytes =
     (let s = \<lparr>sb_id = sid, sb_provider = pid, sb_staff = staff, sb_user = user, sb_period_label = label,
        sb_period_year = y, sb_period_quarter = q, sb_period_month = m, sb_file_name = file_name,
        sb_file_size = bytes, sb_status = Validating, sb_record_count = 0, sb_accepted = 0, sb_rejected = 0,
        sb_warning_count = 0, sb_report = NoReport, sb_warnings = [], sb_receipt_hash = None,
        sb_received_at = now_of env, sb_processed_at = None, sb_resubmit_due = None\<rparr>
      in s\<lparr>sb_receipt_hash := Some (receipt_hash env s)\<rparr>)"

definition mark_failed :: "portal_env \<Rightarrow> string \<Rightarrow> db \<Rightarrow> db" where
  "mark_failed env sid st = st\<lparr>db_submissions := update_by sb_id sid
     (\<lambda>s. s\<lparr>sb_status := Rejected, sb_report := Fatal, sb_processed_at := Some (now_of env)\<rparr>) (db_submissions st)\<rparr>"

definition prior_for_period :: "string \<Rightarrow> string \<Rightarrow> db \<Rightarrow> bool" where
  "prior_for_period pid label st = list_ex (\<lambda>s. sb_provider s = pid \<and> sb_period_label s = label \<and> sb_status s \<noteq> Rejected)
     (db_submissions st)"

text \<open>The most recent grant that is still open, as the descending order on the creation time gives it.\<close>

definition open_grant :: "string \<Rightarrow> string \<Rightarrow> resubmit_grant list \<Rightarrow> resubmit_grant option" where
  "open_grant pid label gs =
     (case filter (\<lambda>g. rg_provider g = pid \<and> rg_period_label g = label \<and> rg_consumed_at g = None) gs of
        [] \<Rightarrow> None
      | h # t \<Rightarrow> Some (foldl (\<lambda>b g. if rg_created b < rg_created g then g else b) h t))"

text \<open>The gate of one submission per period: nothing to do, a grant to consume, or a refusal.\<close>

definition period_gate :: "portal_env \<Rightarrow> upload_opts \<Rightarrow> portal \<Rightarrow> submit_error + resubmit_grant list" where
  "period_gate env req st =
     (if truthy (uo_staff req) \<or> \<not> prior_for_period (uo_provider req) (uo_period_label req) (po_db st)
      then Inr (po_grants st)
      else (case open_grant (uo_provider req) (uo_period_label req) (po_grants st) of
          None \<Rightarrow> Inl (AlreadyFiled (uo_period_label req))
        | Some g \<Rightarrow> Inr (update_by rg_id (rg_id g) (\<lambda>x. x\<lparr>rg_consumed_at := Some (now_of env)\<rparr>) (po_grants st))))"

definition upload_checks :: "portal_env \<Rightarrow> upload_opts \<Rightarrow> portal \<Rightarrow> submit_error + (provider \<times> period)" where
  "upload_checks env req st =
     (case find_by pv_id (uo_provider req) (po_providers st) of None \<Rightarrow> Inl ProviderNotFound
      | Some pv \<Rightarrow> (case assert_section29_provider_type (Some (pv_type pv)) of Inl t \<Rightarrow> Inl (OutOfScope t)
         | Inr _ \<Rightarrow> (case checksum_error env (uo_buffer req) (uo_checksum req) of
             Some (given, actual) \<Rightarrow> Inl (ChecksumMismatch given actual)
           | None \<Rightarrow> (case parse_period (uo_period_label req) of None \<Rightarrow> Inl InvalidPeriodError
               | Some p \<Rightarrow> (if \<not> period_has_ended p (now_of env) then Inl (PeriodNotEnded (uo_period_label req))
                           else Inr (pv, p))))))"

text \<open>The part of \<open>upload\<close> inside its try block, and its handler: a failure is recorded and rethrown.\<close>

definition run_upload ::
  "portal_env \<Rightarrow> string \<Rightarrow> upload_opts \<Rightarrow> provider \<Rightarrow> portal \<Rightarrow> (submit_error + string) \<times> portal" where
  "run_upload env sid req pv st =
     (case process_file env sid (uo_buffer req) (pv_type pv) (pv_id pv) (pv_code pv) (Some (uo_period_label req))
             (uo_file_name req) (po_db st) of
        (Inr res, d) \<Rightarrow> (Inr sid, st\<lparr>po_db := d, po_audit := po_audit st @ [(UploadSubmission, sid)]\<rparr>)
      | (Inl e, d) \<Rightarrow> (Inl e, st\<lparr>po_db := mark_failed env sid d\<rparr>))"

definition coalesce_nat :: "nat option \<Rightarrow> nat option \<Rightarrow> nat option" where "coalesce_nat a b = coalesce a b"

definition upload :: "portal_env \<Rightarrow> string \<Rightarrow> upload_opts \<Rightarrow> portal \<Rightarrow> (submit_error + string) \<times> portal" where
  "upload env sid req st =
     (case upload_checks env req st of Inl e \<Rightarrow> (Inl e, st)
      | Inr (pv, p) \<Rightarrow> (case period_gate env req st of Inl e \<Rightarrow> (Inl e, st)
         | Inr grants \<Rightarrow>
             (let s = new_submission env sid (uo_provider req) (uo_staff req) (uo_user req) (uo_period_label req)
                    (case uo_period_year req of None \<Rightarrow> p_year p | Some y \<Rightarrow> y)
                    (coalesce_nat (uo_period_quarter req) (p_quarter p)) (coalesce_nat (uo_period_month req) (p_month p))
                    (uo_file_name req) (length (uo_buffer req));
                  d = (po_db st)\<lparr>db_submissions := db_submissions (po_db st) @ [s]\<rparr>
              in run_upload env sid req pv (st\<lparr>po_grants := grants, po_db := d\<rparr>))))"

subsection \<open>Records sent as JSON\<close>

text \<open>A value of a JSON record: null, or any other value with the text \<open>String(v)\<close> gives it.\<close>

datatype json_value = JNull | JText string

type_synonym json_record = "(string \<times> json_value) list"

definition coerce_record :: "string \<Rightarrow> json_record \<Rightarrow> row" where
  "coerce_record period rec = (let r = foldl (\<lambda>r (k, v). r(k \<mapsto> (case v of JNull \<Rightarrow> [] | JText s \<Rightarrow> s))) Map.empty rec in
     if \<not> truthy (r ''periodLabel'') \<and> \<not> truthy (r ''periodQuarter'') then r(''periodLabel'' \<mapsto> period) else r)"

record json_opts =
  jo_provider :: string
  jo_period :: string
  jo_records :: "json_record list"
  jo_text :: string
  jo_checksum :: "string option"
  jo_staff :: "string option"
  jo_user :: "string option"

text \<open>The field \<open>jo_text\<close> is \<open>JSON.stringify(records)\<close>, whose hash is checked and whose length is stored.\<close>

definition ingest_json :: "portal_env \<Rightarrow> string \<Rightarrow> json_opts \<Rightarrow> portal \<Rightarrow> (submit_error + string) \<times> portal" where
  "ingest_json env sid req st =
     (case find_by pv_id (jo_provider req) (po_providers st) of None \<Rightarrow> (Inl ProviderNotFound, st)
      | Some pv \<Rightarrow> (case assert_section29_provider_type (Some (pv_type pv)) of Inl t \<Rightarrow> (Inl (OutOfScope t), st)
         | Inr _ \<Rightarrow>
             (if jo_records req = [] then (Inl NoRecords, st)
              else (case parse_period (jo_period req) of None \<Rightarrow> (Inl InvalidPeriodError, st)
               | Some p \<Rightarrow>
                   (if \<not> period_has_ended p (now_of env) then (Inl (PeriodNotEnded (jo_period req)), st)
                    else (case checksum_error env (jo_text req) (jo_checksum req) of
                        Some (given, actual) \<Rightarrow> (Inl (ChecksumMismatch given actual), st)
                      | None \<Rightarrow>
                          (let s = new_submission env sid (jo_provider req) (jo_staff req) (jo_user req) (jo_period req)
                                 (p_year p) (p_quarter p) (p_month p) (''json-'' @ jo_period req @ ''.json'') (length (jo_text req));
                               d = (po_db st)\<lparr>db_submissions := db_submissions (po_db st) @ [s]\<rparr>;
                               (res, d') = process_rows (pe_ingest env) sid (map (coerce_record (jo_period req)) (jo_records req))
                                 (pv_type pv) (pv_id pv) (pv_code pv) 1 (Some (jo_period req)) None d
                           in (Inr sid, st\<lparr>po_db := d', po_audit := po_audit st @ [(IngestJson, sid)]\<rparr>))))))))"

subsection \<open>Multipart uploads\<close>

record init_opts =
  io_provider :: string
  io_file_name :: string
  io_period_label :: string
  io_total_parts :: int
  io_expected :: "string option"
  io_staff :: "string option"
  io_user :: "string option"

definition init_multipart :: "portal_env \<Rightarrow> string \<Rightarrow> init_opts \<Rightarrow> portal \<Rightarrow> (submit_error + string) \<times> portal" where
  "init_multipart env uid req st =
     (case find_by pv_id (io_provider req) (po_providers st) of None \<Rightarrow> (Inl ProviderNotFound, st)
      | Some pv \<Rightarrow> (case assert_section29_provider_type (Some (pv_type pv)) of Inl t \<Rightarrow> (Inl (OutOfScope t), st)
         | Inr _ \<Rightarrow> (case parse_period (io_period_label req) of None \<Rightarrow> (Inl InvalidPeriodError, st)
            | Some p \<Rightarrow>
                (if io_total_parts req < 1 \<or> 10000 < io_total_parts req then (Inl BadTotalParts, st)
                 else (Inr uid, st\<lparr>po_uploads := po_uploads st @
                   [\<lparr>us_id = uid, us_provider = io_provider req, us_file_name = io_file_name req,
                     us_period_label = io_period_label req, us_period_year = p_year p, us_period_quarter = p_quarter p,
                     us_period_month = p_month p, us_total_parts = nat (io_total_parts req),
                     us_expected = map_option given_checksum (io_expected req), us_staff = io_staff req,
                     us_user = io_user req, us_status = UOpen, us_total_bytes = 0, us_submission = None\<rparr>],
                   po_audit := po_audit st @ [(MultipartInit, uid)]\<rparr>)))))"

definition upsert_part :: "upload_part \<Rightarrow> upload_part list \<Rightarrow> upload_part list" where
  "upsert_part p ps = (let key = (\<lambda>q. (up_upload q, up_number q)) in
     if find_by key (key p) ps = None then ps @ [p] else update_by key (key p) (\<lambda>q. p) ps)"

definition upload_part :: "portal_env \<Rightarrow> string \<Rightarrow> jsnum \<Rightarrow> string \<Rightarrow> string option \<Rightarrow> portal \<Rightarrow> (submit_error + nat) \<times> portal" where
  "upload_part env uid number buffer checksum st =
     (case find_by us_id uid (po_uploads st) of None \<Rightarrow> (Inl UploadNotFound, st)
      | Some u \<Rightarrow>
          (if us_status u \<noteq> UOpen then (Inl (UploadIs (us_status u)), st)
           else if \<not> is_integer number \<or> n_lt number (Fin 1) \<or> n_lt (Fin (of_nat (us_total_parts u))) number
           then (Inl (BadPartNumber (us_total_parts u)), st)
           else if buffer = [] then (Inl EmptyPart, st)
           else (let k = (case number of Fin x \<Rightarrow> nat \<lfloor>x\<rfloor> | _ \<Rightarrow> 0) in
             case checksum_error env buffer checksum of Some _ \<Rightarrow> (Inl (PartChecksumMismatch k), st)
             | None \<Rightarrow>
                 (let parts = upsert_part \<lparr>up_upload = uid, up_number = k, up_size = length buffer,
                        up_checksum = checksum, up_data = buffer\<rparr> (po_parts st)
                  in (Inr (length (filter (\<lambda>q. up_upload q = uid) parts)), st\<lparr>po_parts := parts\<rparr>)))))"

definition parts_of :: "string \<Rightarrow> portal \<Rightarrow> upload_part list" where
  "parts_of uid st = sort_key up_number (filter (\<lambda>q. up_upload q = uid) (po_parts st))"

definition reassemble :: "string \<Rightarrow> portal \<Rightarrow> string" where
  "reassemble uid st = concat (map up_data (parts_of uid st))"

definition set_upload_status :: "string \<Rightarrow> upload_status \<Rightarrow> portal \<Rightarrow> portal" where
  "set_upload_status uid s st = st\<lparr>po_uploads := update_by us_id uid (\<lambda>u. u\<lparr>us_status := s\<rparr>) (po_uploads st)\<rparr>"

definition finish_upload :: "string \<Rightarrow> nat \<Rightarrow> string \<Rightarrow> portal \<Rightarrow> portal" where
  "finish_upload uid bytes sid st = st\<lparr>
     po_uploads := update_by us_id uid
       (\<lambda>u. u\<lparr>us_status := UCompleted, us_total_bytes := bytes, us_submission := Some sid\<rparr>) (po_uploads st),
     po_parts := filter (\<lambda>q. up_upload q \<noteq> uid) (po_parts st),
     po_audit := po_audit st @ [(MultipartComplete, uid)]\<rparr>"

definition session_opts :: "upload_session \<Rightarrow> string \<Rightarrow> upload_opts" where
  "session_opts u body = \<lparr>uo_provider = us_provider u, uo_file_name = us_file_name u, uo_buffer = body,
     uo_period_label = us_period_label u, uo_period_year = Some (us_period_year u),
     uo_period_quarter = us_period_quarter u, uo_period_month = us_period_month u,
     uo_staff = us_staff u, uo_user = us_user u, uo_checksum = None\<rparr>"

definition complete_multipart :: "portal_env \<Rightarrow> string \<Rightarrow> string \<Rightarrow> portal \<Rightarrow> (submit_error + string) \<times> portal" where
  "complete_multipart env sid uid st =
     (case find_by us_id uid (po_uploads st) of None \<Rightarrow> (Inl UploadNotFound, st)
      | Some u \<Rightarrow>
          (if us_status u \<noteq> UOpen then (Inl (UploadIs (us_status u)), st)
           else if length (parts_of uid st) \<noteq> us_total_parts u then
             (let have_parts = set (map up_number (parts_of uid st));
                  missing = filter (\<lambda>n. n \<notin> have_parts) [1..<Suc (us_total_parts u)]
              in (Inl (MissingParts (take 20 missing) (20 < length missing)), st))
           else (let full = reassemble uid st in
             if truthy (us_expected u) \<and> pe_sha256 env full \<noteq> the (us_expected u)
             then (Inl (FileChecksumMismatch (the (us_expected u)) (pe_sha256 env full)), set_upload_status uid UAborted st)
             else (case upload env sid (session_opts u full) st of
                 (Inl e, st') \<Rightarrow> (Inl e, st')
               | (Inr s, st') \<Rightarrow> (Inr s, finish_upload uid (length full) s st')))))"

definition abort_multipart :: "string \<Rightarrow> portal \<Rightarrow> (submit_error + string) \<times> portal" where
  "abort_multipart uid st =
     (case find_by us_id uid (po_uploads st) of None \<Rightarrow> (Inl UploadNotFound, st)
      | Some u \<Rightarrow> (Inr uid, set_upload_status uid UAborted
          (st\<lparr>po_parts := filter (\<lambda>q. up_upload q \<noteq> uid) (po_parts st)\<rparr>)))"

subsection \<open>Reports and reprocessing\<close>

definition report :: "string \<Rightarrow> portal \<Rightarrow> submit_error + (string option \<times> submission_status \<times> (nat \<times> nat \<times> nat) \<times>
    validation_report \<times> time option \<times> time option)" where
  "report sid st = (case find_by sb_id sid (db_submissions (po_db st)) of None \<Rightarrow> Inl SubmissionNotFound
     | Some s \<Rightarrow> Inr (sb_receipt_hash s, sb_status s, (sb_record_count s, sb_accepted s, sb_rejected s), sb_report s,
         sb_processed_at s, sb_resubmit_due s))"

definition rematch :: "ingest_env \<Rightarrow> taxpayer list \<Rightarrow> data_record \<Rightarrow> data_record" where
  "rematch env ts d = (let m = resolve_taxpayer env ts (decrypt_field env (d_nin d)) None (decrypt_field env (d_bvn d)) (d_account_name d) in
     if mr_taxpayer m = None then d
     else d\<lparr>d_taxpayer := mr_taxpayer m, d_match_method := mr_method m, d_match_confidence := mr_confidence m\<rparr>)"

definition reprocess :: "portal_env \<Rightarrow> string \<Rightarrow> portal \<Rightarrow> (submit_error + (nat \<times> nat)) \<times> portal" where
  "reprocess env sid st =
     (case find_by sb_id sid (db_submissions (po_db st)) of None \<Rightarrow> (Inl SubmissionNotFound, st)
      | Some s \<Rightarrow>
          (let d = po_db st; open_rec = (\<lambda>r. d_submission r = sid \<and> d_taxpayer r = None);
               new = (\<lambda>r. if open_rec r then rematch (pe_ingest env) (db_taxpayers d) r else r)
           in (Inr (length (filter open_rec (db_records d)),
                    length (filter (\<lambda>r. open_rec r \<and> d_taxpayer (new r) \<noteq> None) (db_records d))),
               st\<lparr>po_db := d\<lparr>db_records := map new (db_records d)\<rparr>\<rparr>)))"

subsection \<open>The operations as a service\<close>

datatype portal_op =
    OpUpload string upload_opts | OpJson string json_opts | OpInit string init_opts
  | OpPart string jsnum string "string option" | OpComplete string string | OpAbort string | OpReprocess string

fun portal_exec :: "portal_env \<Rightarrow> portal_op \<Rightarrow> portal \<Rightarrow> (submit_error, unit, portal) outcome" where
  "portal_exec env (OpUpload sid req) st = forget (upload env sid req st)"
| "portal_exec env (OpJson sid req) st = forget (ingest_json env sid req st)"
| "portal_exec env (OpInit uid req) st = forget (init_multipart env uid req st)"
| "portal_exec env (OpPart uid n b c) st = forget (upload_part env uid n b c st)"
| "portal_exec env (OpComplete sid uid) st = forget (complete_multipart env sid uid st)"
| "portal_exec env (OpAbort uid) st = forget (abort_multipart uid st)"
| "portal_exec env (OpReprocess sid) st = forget (reprocess env sid st)"

definition settled :: "db \<Rightarrow> bool" where
  "settled d \<longleftrightarrow> list_all (\<lambda>s. sb_status s \<noteq> Validating) (db_submissions d)"

definition db_ok :: "db \<Rightarrow> bool" where
  "db_ok d \<longleftrightarrow> accounts_once (db_records d) \<and> tin_unique (db_taxpayers d) \<and> settled d"

text \<open>Every part belongs to a session, has a number in its range, and is the only one with that number.\<close>

definition parts_ok :: "portal \<Rightarrow> bool" where
  "parts_ok st \<longleftrightarrow> distinct (map (\<lambda>p. (up_upload p, up_number p)) (po_parts st)) \<and>
     (\<forall>p\<in>set (po_parts st). \<exists>u. find_by us_id (up_upload p) (po_uploads st) = Some u \<and>
        1 \<le> up_number p \<and> up_number p \<le> us_total_parts u)"

definition portal_ok :: "portal \<Rightarrow> bool" where
  "portal_ok st \<longleftrightarrow> db_ok (po_db st) \<and> parts_ok st"

lemma settled_update:
  assumes "list_all (\<lambda>s. sb_status s \<noteq> Validating \<or> sb_id s = sid) ss" "\<And>s. sb_status (f s) \<noteq> Validating"
  shows "list_all (\<lambda>s. sb_status s \<noteq> Validating) (update_by sb_id sid f ss)"
  using assms by (auto simp: update_by_def list_all_iff)

lemma process_rows_settled:
  assumes "list_all (\<lambda>s. sb_status s \<noteq> Validating \<or> sb_id s = sid) (db_submissions st)"
  shows "settled (snd (process_rows env sid rows pt pid code offset period lines st))"
  using settled_update [OF assms] by (simp add: process_rows_def settled_def Let_def)

lemma process_rows_ok:
  assumes "accounts_once (db_records d)" "tin_unique (db_taxpayers d)"
    and "list_all (\<lambda>s. sb_status s \<noteq> Validating \<or> sb_id s = sid) (db_submissions d)"
  shows "db_ok (snd (process_rows env sid rows pt pid code offset period lines d))"
  using assms process_rows_accounts_once process_rows_tins process_rows_settled by (simp add: db_ok_def)

lemma process_file_cases:
  obtains (rejected) e where "process_file env sid b pt pid code period fn d = (Inl e, d)"
  | (processed) rows lines where "process_file env sid b pt pid code period fn d =
      (Inr (fst (process_rows (pe_ingest env) sid rows pt pid code 2 period lines d)),
       snd (process_rows (pe_ingest env) sid rows pt pid code 2 period lines d))"
proof (cases "file_text env b fn")
  case (Inl e)
  then show ?thesis by (intro rejected [of e]) (simp add: process_file_def)
next
  case (Inr body)
  let ?p = "parse_csv_text body"
  show ?thesis
  proof (cases "csv_rows ?p = [] \<or> missing_required_columns (csv_headers ?p) (resolve_schema d pt) \<noteq> []")
    case True
    then show ?thesis using Inr
      by (cases "csv_rows ?p = []") (simp_all add: process_file_def Let_def rejected)
  next
    case False
    then show ?thesis using Inr
      by (intro processed [of "csv_rows ?p" "Some (csv_line_numbers ?p)"]) (simp add: process_file_def Let_def split_beta)
  qed
qed

lemma run_upload_db_ok:
  assumes "accounts_once (db_records (po_db st))" "tin_unique (db_taxpayers (po_db st))"
    and "list_all (\<lambda>s. sb_status s \<noteq> Validating \<or> sb_id s = sid) (db_submissions (po_db st))"
  shows "db_ok (po_db (snd (run_upload env sid req pv st)))"
proof (cases rule: process_file_cases [where env = env and sid = sid and b = "uo_buffer req" and pt = "pv_type pv"
      and pid = "pv_id pv" and code = "pv_code pv" and period = "Some (uo_period_label req)" and fn = "uo_file_name req"
      and d = "po_db st"])
  case (rejected e)
  have "settled (mark_failed env sid (po_db st))"
    using settled_update [OF assms(3)] by (simp add: mark_failed_def settled_def)
  then show ?thesis using rejected assms by (simp add: run_upload_def db_ok_def mark_failed_def settled_def)
next
  case (processed rows lines)
  then show ?thesis using process_rows_ok [OF assms] by (simp add: run_upload_def)
qed

lemma run_upload_frame:
  "po_uploads (snd (run_upload env sid req pv st)) = po_uploads st \<and> po_parts (snd (run_upload env sid req pv st)) = po_parts st
   \<and> po_grants (snd (run_upload env sid req pv st)) = po_grants st"
  by (auto simp: run_upload_def split: prod.split sum.split)

lemma new_submission_id [simp]: "sb_id (new_submission env sid pid staff user label y q m fn n) = sid"
  by (simp add: new_submission_def Let_def)

lemma upload_frame:
  "po_uploads (snd (upload env sid req st)) = po_uploads st \<and> po_parts (snd (upload env sid req st)) = po_parts st"
  using run_upload_frame by (auto simp: upload_def Let_def split: sum.split prod.split)

lemma upload_db_ok:
  assumes "db_ok (po_db st)"
  shows "db_ok (po_db (snd (upload env sid req st)))"
proof -
  have "list_all (\<lambda>s. sb_status s \<noteq> Validating \<or> sb_id s = sid) (db_submissions (po_db st))"
    using assms by (simp add: db_ok_def settled_def list_all_iff)
  moreover have "accounts_once (db_records (po_db st))" "tin_unique (db_taxpayers (po_db st))"
    using assms by (simp_all add: db_ok_def)
  ultimately show ?thesis using assms
    by (auto simp: upload_def Let_def intro!: run_upload_db_ok split: sum.split prod.split)
qed

lemma ingest_json_ok:
  assumes "db_ok (po_db st)"
  shows "db_ok (po_db (snd (ingest_json env sid req st))) \<and> po_uploads (snd (ingest_json env sid req st)) = po_uploads st
    \<and> po_parts (snd (ingest_json env sid req st)) = po_parts st"
proof -
  have l: "list_all (\<lambda>s. sb_status s \<noteq> Validating \<or> sb_id s = sid) (db_submissions (po_db st))"
    using assms by (simp add: db_ok_def settled_def list_all_iff)
  have r: "accounts_once (db_records (po_db st))" "tin_unique (db_taxpayers (po_db st))"
    using assms by (simp_all add: db_ok_def)
  show ?thesis using assms
    by (auto simp: ingest_json_def Let_def split_beta l [simplified] r intro!: process_rows_ok
        split: option.split sum.split)
qed

lemma rematch_keys:
  "d_account_index (rematch env ts d) = d_account_index d" "d_provider (rematch env ts d) = d_provider d"
  "d_period_label (rematch env ts d) = d_period_label d"
  by (simp_all add: rematch_def Let_def)

lemma existing_keys_map:
  assumes "\<And>d. d_account_index (f d) = d_account_index d \<and> d_provider (f d) = d_provider d \<and> d_period_label (f d) = d_period_label d"
  shows "existing_keys pid (map f ds) = existing_keys pid ds"
proof -
  have "(case d_account_index (f d) of None \<Rightarrow> [] | Some idx \<Rightarrow>
        if d_provider (f d) = pid then [d_period_label (f d) @ ''::'' @ idx] else []) =
      (case d_account_index d of None \<Rightarrow> [] | Some idx \<Rightarrow>
        if d_provider d = pid then [d_period_label d @ ''::'' @ idx] else [])" for d
    using assms [of d] by (auto split: option.split)
  then show ?thesis by (simp add: existing_keys_def comp_def)
qed

lemma reprocess_ok:
  assumes "db_ok (po_db st)"
  shows "db_ok (po_db (snd (reprocess env sid st))) \<and> po_uploads (snd (reprocess env sid st)) = po_uploads st
    \<and> po_parts (snd (reprocess env sid st)) = po_parts st"
proof -
  have "existing_keys pid (map (\<lambda>r. if d_submission r = sid \<and> d_taxpayer r = None then rematch e ts r else r) ds) =
      existing_keys pid ds" for pid e ts ds
    by (rule existing_keys_map) (simp add: rematch_keys)
  then show ?thesis using assms
    by (auto simp: reprocess_def Let_def db_ok_def accounts_once_def settled_def split: option.split)
qed

lemma find_update_total:
  assumes "\<And>u. us_id (f u) = us_id u \<and> us_total_parts (f u) = us_total_parts u" "find_by us_id k us = Some u"
  shows "\<exists>v. find_by us_id k (update_by us_id uid f us) = Some v \<and> us_total_parts v = us_total_parts u"
  using assms by (auto simp: find_by_update)

lemma parts_ok_update:
  assumes "parts_ok st" "\<And>u. us_id (f u) = us_id u \<and> us_total_parts (f u) = us_total_parts u"
    and "po_uploads st' = update_by us_id uid f (po_uploads st)" "po_parts st' = filter P (po_parts st)"
  shows "parts_ok st'"
proof -
  have "distinct (map (\<lambda>p. (up_upload p, up_number p)) (po_parts st'))"
    using assms(1,4) by (simp add: parts_ok_def distinct_map_filter)
  moreover have "\<exists>u. find_by us_id (up_upload p) (po_uploads st') = Some u \<and> 1 \<le> up_number p \<and> up_number p \<le> us_total_parts u"
    if p: "p \<in> set (po_parts st')" for p
  proof -
    have "p \<in> set (po_parts st)" using p assms(4) by simp
    then obtain u where "find_by us_id (up_upload p) (po_uploads st) = Some u" "1 \<le> up_number p" "up_number p \<le> us_total_parts u"
      using assms(1) by (auto simp: parts_ok_def)
    then show ?thesis using find_update_total [OF assms(2)] assms(3) by metis
  qed
  ultimately show ?thesis by (simp add: parts_ok_def)
qed

lemma parts_ok_append:
  assumes "parts_ok st" "po_uploads st' = po_uploads st @ us" "po_parts st' = po_parts st"
  shows "parts_ok st'"
  using assms by (fastforce simp: parts_ok_def find_by_append)

lemma parts_ok_same:
  "po_uploads st' = po_uploads st \<Longrightarrow> po_parts st' = po_parts st \<Longrightarrow> parts_ok st' = parts_ok st"
  by (simp add: parts_ok_def)

definition part_key :: "upload_part \<Rightarrow> string \<times> nat" where "part_key p = (up_upload p, up_number p)"

lemma upsert_part_eq: "upsert_part p ps = (if part_key p \<in> part_key ` set ps
    then update_by part_key (part_key p) (\<lambda>q. p) ps else ps @ [p])"
  using find_by_None [of part_key "part_key p" ps]
  by (auto simp: upsert_part_def Let_def part_key_def [abs_def])

lemma update_by_key_map:
  "map part_key (update_by part_key (part_key p) (\<lambda>q. p) ps) = map part_key ps"
  by (induction ps) (auto simp: update_by_def)

lemma upsert_part_distinct: "distinct (map part_key ps) \<Longrightarrow> distinct (map part_key (upsert_part p ps))"
  by (auto simp: upsert_part_eq update_by_key_map)

lemma set_upsert_part: "q \<in> set (upsert_part p ps) \<Longrightarrow> q = p \<or> (q \<in> set ps \<and> part_key q \<noteq> part_key p)"
  by (fastforce simp: upsert_part_eq update_by_def image_iff split: if_splits)

lemma parts_ok_part:
  assumes "parts_ok st" "find_by us_id (up_upload p) (po_uploads st) = Some u" "1 \<le> up_number p" "up_number p \<le> us_total_parts u"
  shows "parts_ok (st\<lparr>po_parts := upsert_part p (po_parts st)\<rparr>)"
proof -
  have "distinct (map part_key (upsert_part p (po_parts st)))"
    using assms(1) by (intro upsert_part_distinct) (simp add: parts_ok_def part_key_def [abs_def])
  then show ?thesis using assms set_upsert_part [of _ p "po_parts st"]
    by (fastforce simp: parts_ok_def part_key_def [abs_def])
qed

lemma upload_part_cases:
  obtains (refused) e where "upload_part env uid n b c st = (Inl e, st)"
  | (stored) u k p where "find_by us_id uid (po_uploads st) = Some u" "us_status u = UOpen" "n = Fin (of_nat k)"
      "1 \<le> k" "k \<le> us_total_parts u" "b \<noteq> []"
      "p = \<lparr>up_upload = uid, up_number = k, up_size = length b, up_checksum = c, up_data = b\<rparr>"
      "snd (upload_part env uid n b c st) = st\<lparr>po_parts := upsert_part p (po_parts st)\<rparr>"
proof (cases "\<exists>e. upload_part env uid n b c st = (Inl e, st)")
  case False
  then obtain u where u: "find_by us_id uid (po_uploads st) = Some u" "us_status u = UOpen" "is_integer n"
      "\<not> n_lt n (Fin 1)" "\<not> n_lt (Fin (of_nat (us_total_parts u))) n" "b \<noteq> []" "checksum_error env b c = None"
    by (auto simp: upload_part_def Let_def split: option.splits if_splits)
  obtain x where x: "n = Fin x" "x = of_int \<lfloor>x\<rfloor>" using u(3) by (auto simp: is_integer_def split: jsnum.splits)
  have lo: "1 \<le> x" "x \<le> of_nat (us_total_parts u)" using u(4,5) x(1) by auto
  let ?k = "nat \<lfloor>x\<rfloor>"
  have f: "1 \<le> \<lfloor>x\<rfloor>" using lo(1) by simp
  then have k: "x = of_nat ?k" using x(2) by simp
  then have "?k \<le> us_total_parts u" using lo(2) by (metis of_nat_le_iff)
  moreover have "n = Fin (of_nat ?k)" using x(1) k by simp
  ultimately show ?thesis
    using f u by (intro stored [of u ?k, OF _ _ _ _ _ _ refl]) (auto simp: upload_part_def x(1) Let_def)
qed (use refused in blast)

lemma complete_multipart_cases:
  obtains (kept) e where "complete_multipart env sid uid st = (Inl e, st)"
  | (mismatch) e where "complete_multipart env sid uid st = (Inl e, set_upload_status uid UAborted st)"
  | (failed) e u where "complete_multipart env sid uid st = (Inl e, snd (upload env sid (session_opts u (reassemble uid st)) st))"
  | (finished) u s where "find_by us_id uid (po_uploads st) = Some u" "us_status u = UOpen"
      "length (parts_of uid st) = us_total_parts u"
      "fst (upload env sid (session_opts u (reassemble uid st)) st) = Inr s"
      "complete_multipart env sid uid st = (Inr s, finish_upload uid (length (reassemble uid st)) s
         (snd (upload env sid (session_opts u (reassemble uid st)) st)))"
proof (cases "find_by us_id uid (po_uploads st)")
  case None
  then show ?thesis by (intro kept [of UploadNotFound]) (simp add: complete_multipart_def)
next
  case (Some u)
  let ?full = "reassemble uid st"
  obtain r st' where up: "upload env sid (session_opts u ?full) st = (r, st')" by (cases "upload env sid (session_opts u ?full) st")
  show ?thesis
  proof (cases "us_status u = UOpen \<and> length (parts_of uid st) = us_total_parts u")
    case False
    then show ?thesis using Some
      by (cases "us_status u = UOpen") (simp_all add: complete_multipart_def Let_def kept)
  next
    case True
    show ?thesis
    proof (cases "truthy (us_expected u) \<and> pe_sha256 env ?full \<noteq> the (us_expected u)")
      case bad: True
      then show ?thesis using Some True
        by (intro mismatch [of "FileChecksumMismatch (the (us_expected u)) (pe_sha256 env ?full)"])
          (simp add: complete_multipart_def Let_def)
    next
      case False
      show ?thesis
      proof (cases r)
        case (Inl e)
        then show ?thesis using Some True False up
          by (intro failed [of e u]) (auto simp: complete_multipart_def Let_def)
      next
        case (Inr s)
        then show ?thesis using Some True False up
          by (intro finished [of u s]) (auto simp: complete_multipart_def Let_def)
      qed
    qed
  qed
qed

lemma portal_exec_ok:
  assumes ok: "portal_ok st"
  shows "portal_ok (snd (portal_exec env op st))"
proof -
  have db: "db_ok (po_db st)" and parts: "parts_ok st" using ok by (simp_all add: portal_ok_def)
  show ?thesis
  proof (cases op)
    case (OpUpload sid req)
    then show ?thesis using upload_db_ok [OF db] upload_frame parts parts_ok_same [of "snd (upload env sid req st)" st]
      by (simp add: portal_ok_def)
  next
    case (OpJson sid req)
    then show ?thesis using ingest_json_ok [OF db, of env sid req] parts
        parts_ok_same [of "snd (ingest_json env sid req st)" st]
      by (simp add: portal_ok_def)
  next
    case (OpInit uid req)
    show ?thesis using OpInit db parts
      by (auto simp: init_multipart_def portal_ok_def intro: parts_ok_append split: option.split sum.split)
  next
    case (OpPart uid n b c)
    show ?thesis
    proof (cases rule: upload_part_cases [where env = env and uid = uid and n = n and b = b and c = c and st = st])
      case (refused e)
      then show ?thesis using OpPart ok by simp
    next
      case (stored u k p)
      then show ?thesis using OpPart db parts_ok_part [OF parts, of p u] by (simp add: portal_ok_def)
    qed
  next
    case (OpComplete sid uid)
    note up = upload_db_ok [OF db] upload_frame parts_ok_same
    show ?thesis
    proof (cases rule: complete_multipart_cases [where env = env and sid = sid and uid = uid and st = st])
      case (kept e)
      then show ?thesis using OpComplete ok by simp
    next
      case (mismatch e)
      have "parts_ok (set_upload_status uid UAborted st)"
        by (rule parts_ok_update [OF parts, where P = "\<lambda>_. True"]) (auto simp: set_upload_status_def)
      then show ?thesis using OpComplete mismatch db by (simp add: portal_ok_def set_upload_status_def)
    next
      case (failed e u)
      let ?st' = "snd (upload env sid (session_opts u (reassemble uid st)) st)"
      have "parts_ok ?st'" using upload_frame parts parts_ok_same by blast
      then show ?thesis using OpComplete failed upload_db_ok [OF db] by (simp add: portal_ok_def)
    next
      case (finished u s)
      let ?st' = "snd (upload env sid (session_opts u (reassemble uid st)) st)"
      have "parts_ok ?st'" using upload_frame parts parts_ok_same by blast
      then have "parts_ok (finish_upload uid (length (reassemble uid st)) s ?st')"
        by (rule parts_ok_update) (auto simp: finish_upload_def)
      then show ?thesis using OpComplete finished(5) upload_db_ok [OF db] by (simp add: portal_ok_def finish_upload_def)
    qed
  next
    case (OpAbort uid)
    have "parts_ok (set_upload_status uid UAborted (st\<lparr>po_parts := filter (\<lambda>q. up_upload q \<noteq> uid) (po_parts st)\<rparr>))"
      by (rule parts_ok_update [OF parts]) (auto simp: set_upload_status_def)
    then show ?thesis using OpAbort ok db
      by (auto simp: abort_multipart_def portal_ok_def set_upload_status_def split: option.split)
  next
    case (OpReprocess sid)
    then show ?thesis using reprocess_ok [OF db, of env sid] parts parts_ok_same [of "snd (reprocess env sid st)" st]
      by (simp add: portal_ok_def)
  qed
qed

interpretation portal_service: service "portal_exec env" portal_ok for env
  by unfold_locales (rule portal_exec_ok)

text \<open>
  C12. The submission service keeps its data sound under any sequence of calls, failing ones included:
  no provider has an account twice in a period, no two taxpayers share a TIN, no submission is left in
  the state VALIDATING, and every stored part is the only one with its number, within its session's range.
\<close>

theorem portal_stays_ok:
  assumes "portal_ok st"
  shows "portal_ok (run_ops (portal_exec env) ops st)"
  using assms by (rule portal_service.run_inv)

definition demo_portal_env :: portal_env where
  "demo_portal_env = \<lparr>pe_ingest = demo_env, pe_sha256 = rev, pe_utf8 = id, pe_workbook = (\<lambda>_. None),
     pe_number_text = (\<lambda>_. ''0'')\<rparr>"

definition empty_portal :: portal where
  "empty_portal = \<lparr>po_db = \<lparr>db_submissions = [], db_records = [], db_taxpayers = [], db_schemas = [], db_enforcement = None\<rparr>,
     po_providers = [\<lparr>pv_id = ''p1'', pv_type = ''BANK'', pv_code = Some ''058''\<rparr>], po_grants = [], po_uploads = [],
     po_parts = [], po_audit = []\<rparr>"

lemma empty_portal_ok: "portal_ok empty_portal"
  by (simp add: portal_ok_def empty_portal_def db_ok_def accounts_once_def existing_keys_def tin_unique_def settled_def parts_ok_def)

theorem portal_stays_ok_witness:
  "portal_ok (run_ops (portal_exec demo_portal_env) [OpAbort ''u'', OpReprocess ''s''] empty_portal)"
  by (rule portal_stays_ok) (rule empty_portal_ok)

subsection \<open>The life of an upload session\<close>

fun upload_next :: "upload_status \<Rightarrow> upload_status \<Rightarrow> bool" where
  "upload_next UOpen t = (t \<noteq> UOpen)"
| "upload_next UCompleted t = (t = UAborted)"
| "upload_next UAborted t = False"

fun upload_rank :: "upload_status \<Rightarrow> nat" where
  "upload_rank UOpen = 0" | "upload_rank UCompleted = 1" | "upload_rank UAborted = 2"

definition session_status :: "portal \<Rightarrow> string \<Rightarrow> upload_status option" where
  "session_status st uid = map_option us_status (find_by us_id uid (po_uploads st))"

lemma upload_next_rank: "upload_next s t \<Longrightarrow> upload_rank s < upload_rank t"
  by (cases s; cases t) auto

lemma session_status_cong: "po_uploads st' = po_uploads st \<Longrightarrow> session_status st' k = session_status st k"
  by (simp add: session_status_def)

lemma session_status_update:
  assumes "\<And>u. us_id (f u) = us_id u \<and> us_status (f u) = t" "po_uploads st' = update_by us_id uid f (po_uploads st)"
    and "session_status st k = Some s" "s = t \<or> upload_next s t \<or> k \<noteq> uid"
  shows "\<exists>v. session_status st' k = Some v \<and> upload_next\<^sup>*\<^sup>* s v"
proof (cases "k = uid")
  case True
  then have "session_status st' k = Some t" using assms(1-3) by (auto simp: session_status_def find_by_update)
  then show ?thesis using assms(4) True by auto
next
  case False
  then have "session_status st' k = Some s" using assms(1-3) by (simp add: session_status_def find_by_update)
  then show ?thesis by auto
qed

lemma next_aborted: "s = UAborted \<or> upload_next s UAborted"
  by (cases s) auto

lemma session_aborted:
  assumes "session_status st k = Some s" "po_uploads st' = po_uploads st"
  shows "\<exists>t. session_status (set_upload_status uid UAborted st') k = Some t \<and> upload_next\<^sup>*\<^sup>* s t"
proof (rule session_status_update [OF _ _ assms(1)])
  show "po_uploads (set_upload_status uid UAborted st') = update_by us_id uid (us_status_update (\<lambda>_. UAborted)) (po_uploads st)"
    using assms(2) by (simp add: set_upload_status_def)
qed (use next_aborted in auto)

lemma portal_exec_session:
  assumes s: "session_status st k = Some s"
  shows "\<exists>t. session_status (snd (portal_exec env op st)) k = Some t \<and> upload_next\<^sup>*\<^sup>* s t"
proof -
  have same: "\<exists>t. session_status st' k = Some t \<and> upload_next\<^sup>*\<^sup>* s t" if "po_uploads st' = po_uploads st" for st'
    using s session_status_cong [OF that] by auto
  show ?thesis
  proof (cases op)
    case (OpInit uid req)
    have "session_status (snd (init_multipart env uid req st)) k = Some s"
      using s by (auto simp: init_multipart_def session_status_def find_by_append split: option.splits sum.split)
    then show ?thesis using OpInit by auto
  next
    case (OpComplete sid uid)
    show ?thesis
    proof (cases rule: complete_multipart_cases [where env = env and sid = sid and uid = uid and st = st])
      case (mismatch e)
      then show ?thesis using OpComplete session_aborted [OF s, of st] by simp
    next
      case (finished u r)
      let ?st' = "snd (upload env sid (session_opts u (reassemble uid st)) st)"
      have o: "session_status st uid = Some UOpen" using finished by (simp add: session_status_def)
      have "po_uploads (finish_upload uid (length (reassemble uid st)) r ?st') = update_by us_id uid
          (\<lambda>v. v\<lparr>us_status := UCompleted, us_total_bytes := length (reassemble uid st), us_submission := Some r\<rparr>) (po_uploads st)"
        using upload_frame by (simp add: finish_upload_def)
      then have "\<exists>v. session_status (finish_upload uid (length (reassemble uid st)) r ?st') k = Some v \<and> upload_next\<^sup>*\<^sup>* s v"
        by (rule session_status_update [rotated, OF _ s]) (use o s in auto)
      then show ?thesis using OpComplete finished(5) by simp
    qed (use OpComplete same upload_frame in auto)
  next
    case (OpAbort uid)
    show ?thesis
    proof (cases "find_by us_id uid (po_uploads st)")
      case None
      then show ?thesis using OpAbort same by (simp add: abort_multipart_def)
    next
      case (Some u)
      then show ?thesis
        using OpAbort session_aborted [OF s, of "st\<lparr>po_parts := filter (\<lambda>q. up_upload q \<noteq> uid) (po_parts st)\<rparr>"]
        by (simp add: abort_multipart_def)
    qed
  next
    case (OpPart uid n b c)
    then show ?thesis
      using same by (cases rule: upload_part_cases [where env = env and uid = uid and n = n and b = b and c = c and st = st]) simp_all
  next
    case (OpJson sid req)
    have "po_uploads (snd (ingest_json env sid req st)) = po_uploads st"
      by (auto simp: ingest_json_def Let_def split_beta split: option.split sum.split)
    then show ?thesis using OpJson same by simp
  next
    case (OpReprocess sid)
    have "po_uploads (snd (reprocess env sid st)) = po_uploads st"
      by (auto simp: reprocess_def Let_def split: option.split)
    then show ?thesis using OpReprocess same by simp
  qed (use same upload_frame in auto)
qed

interpretation upload_life: tracked_service upload_next upload_rank "portal_exec env" session_status for env
  by unfold_locales (auto intro: upload_next_rank portal_exec_session)

lemma upload_next_closed: "upload_next\<^sup>*\<^sup>* s t \<Longrightarrow> s \<noteq> UOpen \<Longrightarrow> t \<noteq> UOpen"
  by (induction rule: rtranclp_induct) (auto elim: upload_next.elims)

text \<open>
  A session that was completed or aborted is never open again, whatever calls follow, and from
  then on it accepts no part: each later part is refused and changes nothing.
\<close>

theorem closed_session_stays_closed:
  assumes "session_status st uid = Some s" and "s \<noteq> UOpen"
  shows "\<exists>t. session_status (run_ops (portal_exec env) ops st) uid = Some t \<and> t \<noteq> UOpen \<and>
    upload_part env uid n b c (run_ops (portal_exec env) ops st) =
      (Inl (UploadIs t), run_ops (portal_exec env) ops st)"
proof -
  let ?st = "run_ops (portal_exec env) ops st"
  obtain t where t: "session_status ?st uid = Some t" "upload_next\<^sup>*\<^sup>* s t"
    using upload_life.run_status [OF assms(1)] by blast
  then have "t \<noteq> UOpen" using upload_next_closed assms(2) by blast
  moreover have "upload_part env uid n b c ?st = (Inl (UploadIs t), ?st)"
    using t(1) calculation by (auto simp: session_status_def upload_part_def)
  ultimately show ?thesis using t(1) by blast
qed

definition demo_session :: "nat \<Rightarrow> upload_status \<Rightarrow> upload_session" where
  "demo_session n s = \<lparr>us_id = ''u1'', us_provider = ''p1'', us_file_name = ''f.csv'', us_period_label = ''2026-Q1'',
     us_period_year = 2026, us_period_quarter = Some 1, us_period_month = None, us_total_parts = n,
     us_expected = None, us_staff = None, us_user = None, us_status = s, us_total_bytes = 0, us_submission = None\<rparr>"

theorem closed_session_stays_closed_witness:
  defines "st \<equiv> empty_portal\<lparr>po_uploads := [demo_session 2 UAborted]\<rparr>"
  shows "\<exists>t. session_status (run_ops (portal_exec demo_portal_env) [OpAbort ''u1''] st) ''u1'' = Some t \<and> t \<noteq> UOpen \<and>
    upload_part demo_portal_env ''u1'' (Fin 1) ''abc'' None (run_ops (portal_exec demo_portal_env) [OpAbort ''u1''] st) =
      (Inl (UploadIs t), run_ops (portal_exec demo_portal_env) [OpAbort ''u1''] st)"
  by (rule closed_session_stays_closed [of _ _ UAborted])
    (simp_all add: st_def session_status_def demo_session_def)

subsection \<open>Reassembly\<close>

lemma set_upsert_part_eq:
  "set (upsert_part p ps) = insert p {q \<in> set ps. part_key q \<noteq> part_key p}"
proof (rule set_eqI)
  fix q show "q \<in> set (upsert_part p ps) \<longleftrightarrow> q \<in> insert p {q \<in> set ps. part_key q \<noteq> part_key p}"
    by (fastforce simp: upsert_part_eq update_by_def image_iff split: if_splits)
qed

lemma distinct_numbers:
  assumes "distinct (map part_key ps)"
  shows "distinct (map up_number (filter (\<lambda>q. up_upload q = uid) ps))"
proof -
  have "x = y" if "up_number x = up_number y" "x \<in> set ps" "y \<in> set ps" "up_upload x = uid" "up_upload y = uid" for x y
  proof (rule inj_onD)
    show "inj_on part_key (set ps)" using assms by (simp add: distinct_map)
    show "part_key x = part_key y" using that by (simp add: part_key_def)
  qed (use that in simp_all)
  then show ?thesis using assms by (auto simp: distinct_map intro!: inj_onI)
qed

lemma upsert_numbers:
  "up_number ` {q \<in> set (upsert_part p ps). up_upload q = up_upload p} =
   insert (up_number p) (up_number ` {q \<in> set ps. up_upload q = up_upload p})"
proof -
  have "{q \<in> set (upsert_part p ps). up_upload q = up_upload p} =
      insert p {q \<in> set ps. up_upload q = up_upload p \<and> up_number q \<noteq> up_number p}"
    unfolding set_upsert_part_eq by (auto simp: part_key_def)
  then show ?thesis by auto
qed

text \<open>The parts of a session hold exactly the given numbers, each with its chunk.\<close>

definition holds_chunks :: "string \<Rightarrow> (nat \<Rightarrow> string) \<Rightarrow> nat set \<Rightarrow> portal \<Rightarrow> bool" where
  "holds_chunks uid chunk D st \<longleftrightarrow> distinct (map part_key (po_parts st)) \<and>
     up_number ` {q \<in> set (po_parts st). up_upload q = uid} = D \<and>
     (\<forall>q\<in>set (po_parts st). up_upload q = uid \<longrightarrow> up_data q = chunk (up_number q))"

lemma send_part:
  assumes "find_by us_id uid (po_uploads st) = Some u" "us_status u = UOpen"
    and "1 \<le> k" "k \<le> us_total_parts u" "b \<noteq> []"
  shows "snd (portal_exec env (OpPart uid (Fin (of_nat k)) b None) st) = st\<lparr>po_parts := upsert_part
    \<lparr>up_upload = uid, up_number = k, up_size = length b, up_checksum = None, up_data = b\<rparr> (po_parts st)\<rparr>"
proof -
  have "\<not> (of_nat k :: rat) < 1" "\<not> (of_nat (us_total_parts u) :: rat) < of_nat k"
    using assms(3,4) by simp_all
  then show ?thesis using assms by (simp add: upload_part_def is_integer_def checksum_error_def Let_def)
qed

lemma send_parts:
  assumes "find_by us_id uid (po_uploads st) = Some u" "us_status u = UOpen"
    and "set ks \<subseteq> {1..us_total_parts u}" "\<And>k. k \<in> set ks \<Longrightarrow> chunk k \<noteq> []" "holds_chunks uid chunk D st"
  defines "sends \<equiv> map (\<lambda>k. OpPart uid (Fin (of_nat k)) (chunk k) None)"
  shows "holds_chunks uid chunk (D \<union> set ks) (run_ops (portal_exec env) (sends ks) st)"
  using assms(1,3,4,5)
proof (induction ks arbitrary: st D)
  case (Cons k ks)
  let ?p = "\<lparr>up_upload = uid, up_number = k, up_size = length (chunk k), up_checksum = None, up_data = chunk k\<rparr>"
  let ?st = "st\<lparr>po_parts := upsert_part ?p (po_parts st)\<rparr>"
  have e: "snd (portal_exec env (OpPart uid (Fin (of_nat k)) (chunk k) None) st) = ?st"
    by (rule send_part [OF Cons.prems(1) assms(2)]) (use Cons.prems in auto)
  have "distinct (map part_key (upsert_part ?p (po_parts st)))"
    using Cons.prems(4) by (intro upsert_part_distinct) (simp add: holds_chunks_def)
  moreover have "up_number ` {q \<in> set (upsert_part ?p (po_parts st)). up_upload q = uid} = insert k D"
    using upsert_numbers [of ?p "po_parts st"] Cons.prems(4) by (simp add: holds_chunks_def)
  moreover have "\<forall>q\<in>set (upsert_part ?p (po_parts st)). up_upload q = uid \<longrightarrow> up_data q = chunk (up_number q)"
    using Cons.prems(4) unfolding set_upsert_part_eq holds_chunks_def by auto
  ultimately have "holds_chunks uid chunk (insert k D) ?st" by (simp add: holds_chunks_def)
  from Cons.IH [OF _ _ _ this] Cons.prems
  have "holds_chunks uid chunk (insert k D \<union> set ks) (run_ops (portal_exec env) (sends ks) ?st)" by simp
  then show ?case using e by (simp add: sends_def)
qed (simp add: sends_def)

lemma reassemble_chunks:
  assumes "holds_chunks uid chunk {1..n} st"
  shows "reassemble uid st = concat (map chunk [1..<Suc n])" and "length (parts_of uid st) = n"
proof -
  let ?xs = "filter (\<lambda>q. up_upload q = uid) (po_parts st)"
  have nums: "map up_number (parts_of uid st) = [1..<Suc n]"
  proof (rule sorted_distinct_set_unique)
    show "sorted (map up_number (parts_of uid st))" by (simp add: parts_of_def)
    show "distinct (map up_number (parts_of uid st))"
      using assms distinct_numbers [of "po_parts st" uid] by (simp add: parts_of_def distinct_map holds_chunks_def)
    show "set (map up_number (parts_of uid st)) = set [1..<Suc n]"
      using assms by (auto simp: parts_of_def holds_chunks_def)
  qed (simp_all del: upt_Suc)
  have "map up_data (parts_of uid st) = map (\<lambda>q. chunk (up_number q)) (parts_of uid st)"
    using assms by (intro map_cong) (auto simp: parts_of_def holds_chunks_def)
  also have "\<dots> = map chunk (map up_number (parts_of uid st))" by simp
  finally show "reassemble uid st = concat (map chunk [1..<Suc n])" by (simp only: reassemble_def nums)
  show "length (parts_of uid st) = n" using nums by (metis length_map length_upt diff_Suc_1)
qed

text \<open>
  Parts may arrive in any order and be retried any number of times: once every part of an open
  session has been sent at least once, the reassembled file is the parts in their numbered order, and
  the session has exactly as many parts as it announced.
\<close>

theorem multipart_any_order:
  fixes env :: portal_env
  assumes "portal_ok st" and "find_by us_id uid (po_uploads st) = Some u" and "us_status u = UOpen"
    and "filter (\<lambda>q. up_upload q = uid) (po_parts st) = []"
    and "set ks = {1..us_total_parts u}" and "\<forall>k\<in>set ks. chunk k \<noteq> []"
  defines "st' \<equiv> run_ops (portal_exec env) (map (\<lambda>k. OpPart uid (Fin (of_nat k)) (chunk k) None) ks) st"
  shows "reassemble uid st' = concat (map chunk [1..<Suc (us_total_parts u)]) \<and>
    length (parts_of uid st') = us_total_parts u"
proof -
  have "holds_chunks uid chunk {} st"
    using assms(1,4) by (auto simp: holds_chunks_def portal_ok_def parts_ok_def part_key_def [abs_def] filter_empty_conv)
  then have "holds_chunks uid chunk ({} \<union> set ks) st'"
    unfolding st'_def by (intro send_parts [OF assms(2,3)]) (use assms(5,6) in auto)
  then have "holds_chunks uid chunk {1..us_total_parts u} st'" by (simp add: assms(5))
  then show ?thesis using reassemble_chunks by blast
qed

theorem multipart_any_order_witness:
  defines "st \<equiv> empty_portal\<lparr>po_uploads := [demo_session 2 UOpen]\<rparr>"
  defines "st' \<equiv> run_ops (portal_exec demo_portal_env)
    (map (\<lambda>k. OpPart ''u1'' (Fin (of_nat k)) (replicate k (CHR ''x'')) None) [2, 1, 2]) st"
  shows "reassemble ''u1'' st' = concat (map (\<lambda>k. replicate k (CHR ''x'')) [1..<Suc (us_total_parts (demo_session 2 UOpen))]) \<and>
    length (parts_of ''u1'' st') = us_total_parts (demo_session 2 UOpen)"
  unfolding st'_def
proof (rule multipart_any_order)
  show "portal_ok st" using empty_portal_ok by (simp add: st_def portal_ok_def parts_ok_def empty_portal_def)
  show "set [2, 1, 2] = {1..us_total_parts (demo_session 2 UOpen)}" by (auto simp: demo_session_def)
qed (simp_all add: st_def empty_portal_def demo_session_def)

subsection \<open>One submission per period\<close>

definition grant_open :: "string \<Rightarrow> string \<Rightarrow> resubmit_grant \<Rightarrow> bool" where
  "grant_open pid label g \<longleftrightarrow> rg_provider g = pid \<and> rg_period_label g = label \<and> rg_consumed_at g = None"

definition open_grants :: "string \<Rightarrow> string \<Rightarrow> portal \<Rightarrow> nat" where
  "open_grants pid label st = length (filter (grant_open pid label) (po_grants st))"

lemma foldl_choice: "foldl (\<lambda>b g. if P b g then g else b) h t \<in> insert h (set t)"
proof (induction t arbitrary: h)
  case (Cons x xs)
  have "foldl (\<lambda>b g. if P b g then g else b) (if P h x then x else h) xs \<in> insert (if P h x then x else h) (set xs)"
    by (rule Cons)
  then show ?case by (auto split: if_splits)
qed simp

lemma open_grant_Some: "open_grant pid label gs = Some g \<Longrightarrow> g \<in> set gs \<and> grant_open pid label g"
proof -
  assume s: "open_grant pid label gs = Some g"
  let ?fs = "filter (\<lambda>g. rg_provider g = pid \<and> rg_period_label g = label \<and> rg_consumed_at g = None) gs"
  obtain h t where ht: "?fs = h # t" and g: "g = foldl (\<lambda>b g. if rg_created b < rg_created g then g else b) h t"
    using s by (auto simp: open_grant_def split: list.splits)
  have "g \<in> set ?fs" unfolding ht g using foldl_choice [of "\<lambda>b g. rg_created b < rg_created g" h t] by simp
  then show ?thesis by (simp add: grant_open_def)
qed

lemma consume_fewer:
  assumes "g \<in> set gs" "grant_open pid label g" "\<And>x. rg_consumed_at (f x) \<noteq> None"
  shows "length (filter (grant_open pid label) (update_by rg_id (rg_id g) f gs)) < length (filter (grant_open pid label) gs)"
proof -
  have le: "length (filter (grant_open pid label) (update_by rg_id k f xs)) \<le> length (filter (grant_open pid label) xs)" for k xs
    by (induction xs) (auto simp: update_by_def grant_open_def assms(3))
  show ?thesis using assms(1)
  proof (induction gs)
    case (Cons x xs)
    show ?case
    proof (cases "x = g")
      case True
      have "\<not> grant_open pid label (f g)" using assms(3) by (simp add: grant_open_def)
      then show ?thesis using True assms(2) le [of "rg_id g" xs] by (simp add: update_by_def)
    next
      case False
      then have "length (filter (grant_open pid label) (update_by rg_id (rg_id g) f xs)) < length (filter (grant_open pid label) xs)"
        using Cons by auto
      moreover have "\<not> grant_open pid label (f x)" using assms(3) by (simp add: grant_open_def)
      ultimately show ?thesis by (simp add: update_by_def)
    qed
  qed simp
qed

lemma upload_grants:
  assumes "upload_checks env req st = Inr (pv, p)" "period_gate env req st = Inr grants"
  shows "po_grants (snd (upload env sid req st)) = grants"
  using assms run_upload_frame by (simp add: upload_def Let_def)

text \<open>
  C13. A provider files once per period and label: when it already has a submission for the label that
  was not rejected, a further upload that passes the other checks is refused and changes nothing
  unless an open grant exists, and then it uses one up, whether or not the file turns out valid.
\<close>

theorem resubmission_needs_grant:
  assumes "upload_checks env req st = Inr (pv, p)" and "\<not> truthy (uo_staff req)"
    and "prior_for_period (uo_provider req) (uo_period_label req) (po_db st)"
  shows "if open_grants (uo_provider req) (uo_period_label req) st = 0
    then upload env sid req st = (Inl (AlreadyFiled (uo_period_label req)), st)
    else open_grants (uo_provider req) (uo_period_label req) (snd (upload env sid req st)) <
         open_grants (uo_provider req) (uo_period_label req) st"
proof (cases "open_grant (uo_provider req) (uo_period_label req) (po_grants st)")
  case None
  then have "filter (grant_open (uo_provider req) (uo_period_label req)) (po_grants st) = []"
    by (simp add: open_grant_def grant_open_def [abs_def] split: list.splits)
  moreover have "period_gate env req st = Inl (AlreadyFiled (uo_period_label req))"
    using assms(2,3) None by (simp add: period_gate_def)
  ultimately show ?thesis using assms(1) by (simp add: open_grants_def upload_def)
next
  case (Some g)
  let ?f = "\<lambda>x. x\<lparr>rg_consumed_at := Some (now_of env)\<rparr>"
  have g: "g \<in> set (po_grants st)" "grant_open (uo_provider req) (uo_period_label req) g"
    using open_grant_Some [OF Some] by auto
  have "period_gate env req st = Inr (update_by rg_id (rg_id g) ?f (po_grants st))"
    using assms(2,3) Some by (simp add: period_gate_def)
  then have "open_grants (uo_provider req) (uo_period_label req) (snd (upload env sid req st)) <
      open_grants (uo_provider req) (uo_period_label req) st"
    using upload_grants [OF assms(1)] consume_fewer [OF g, of ?f] by (simp add: open_grants_def)
  then show ?thesis by auto
qed

definition filed_portal :: portal where
  "filed_portal = empty_portal\<lparr>po_db := (po_db empty_portal)\<lparr>db_submissions := [demo_submission\<lparr>sb_status := Accepted\<rparr>]\<rparr>\<rparr>"

definition again :: "string \<Rightarrow> upload_opts" where
  "again label = \<lparr>uo_provider = ''p1'', uo_file_name = ''f.csv'', uo_buffer = ''x'', uo_period_label = label,
     uo_period_year = None, uo_period_quarter = None, uo_period_month = None, uo_staff = None, uo_user = None,
     uo_checksum = None\<rparr>"

lemma again_fields: "uo_provider (again l) = ''p1''" "uo_period_label (again l) = l" "uo_staff (again l) = None"
  by (simp_all add: again_def)

lemma filed_prior: "prior_for_period ''p1'' ''2026-Q1'' (po_db filed_portal)"
  by (simp add: prior_for_period_def filed_portal_def demo_submission_def)

lemma upload_checks_demo:
  "upload_checks demo_portal_env (again ''2026-Q1'') filed_portal =
     Inr (\<lparr>pv_id = ''p1'', pv_type = ''BANK'', pv_code = Some ''058''\<rparr>, \<lparr>p_year = 2026, p_quarter = Some 1, p_month = None\<rparr>)"
  by code_simp

theorem resubmission_needs_grant_witness:
  "if open_grants ''p1'' ''2026-Q1'' filed_portal = 0
    then upload demo_portal_env ''s2'' (again ''2026-Q1'') filed_portal = (Inl (AlreadyFiled ''2026-Q1''), filed_portal)
    else open_grants ''p1'' ''2026-Q1'' (snd (upload demo_portal_env ''s2'' (again ''2026-Q1'') filed_portal)) <
         open_grants ''p1'' ''2026-Q1'' filed_portal"
  using resubmission_needs_grant [OF upload_checks_demo, of "''s2''", unfolded again_fields, OF _ filed_prior]
  by simp

text \<open>
  The rule of one submission per period goes by the spelling of the label, not by the period: a
  provider that has an accepted submission for 2026-Q1 passes the gate again, without any grant, when
  it writes the same quarter as Q1 2026.
\<close>

theorem period_gate_by_spelling:
  "parse_period ''Q1 2026'' = parse_period ''2026-Q1'' \<and> prior_for_period ''p1'' ''2026-Q1'' (po_db filed_portal) \<and>
   po_grants filed_portal = [] \<and> period_gate demo_portal_env (again ''Q1 2026'') filed_portal = Inr []"
  by (intro conjI) (code_simp, simp_all add: prior_for_period_def filed_portal_def empty_portal_def demo_submission_def
      period_gate_def again_def)

end
