(* ===== verification/DetectionEngine.thy ===== *)
theory DetectionEngine
  imports Ingestion
begin

text \<open>
  The scoring methodology of \<open>backend/src/modules/scan/detection-engine.ts\<close>: the personal income tax
  bands and the estimate of additional tax, the normalisation of inflow, the confidence score with its
  reason codes, the risk level and the fusion with the agents' scores. A JavaScript number is the
  rational it stands for and every arithmetic operation rounds to a double (\<open>fadd\<close>, \<open>fsub\<close>, \<open>fmul\<close>,
  \<open>fdiv\<close>); all values here are finite, so infinities do not occur except as the open end of a band.
\<close>

subsection \<open>Personal income tax\<close>

record tax_band =
  tb_up_to :: "rat option"
  tb_rate :: rat

definition pit_bands :: "tax_band list" where
  "pit_bands = [\<lparr>tb_up_to = Some 800000, tb_rate = 0\<rparr>, \<lparr>tb_up_to = Some 3000000, tb_rate = lit 15 100\<rparr>,
     \<lparr>tb_up_to = Some 12000000, tb_rate = lit 18 100\<rparr>, \<lparr>tb_up_to = Some 25000000, tb_rate = lit 21 100\<rparr>,
     \<lparr>tb_up_to = Some 50000000, tb_rate = lit 23 100\<rparr>, \<lparr>tb_up_to = None, tb_rate = lit 25 100\<rparr>]"

definition cit_rate :: rat where "cit_rate = lit 3 10"

text \<open>The loop over the bands; after a band without an upper bound the lower end is infinite and the loop ends.\<close>

fun pit_loop :: "rat \<Rightarrow> rat \<Rightarrow> rat \<Rightarrow> tax_band list \<Rightarrow> rat" where
  "pit_loop income low tax [] = tax"
| "pit_loop income low tax (b # bs) =
     (if income \<le> low then tax
      else (case tb_up_to b of
          None \<Rightarrow> fadd tax (fmul (fsub income low) (tb_rate b))
        | Some up \<Rightarrow> pit_loop income up (fadd tax (fmul (fsub (min income up) low) (tb_rate b))) bs))"

definition progressive_pit :: "rat \<Rightarrow> tax_band list \<Rightarrow> rat" where
  "progressive_pit income bands = (if income \<le> 0 then 0 else pit_loop income 0 0 bands)"

datatype tax_basis = PitGraduated | NotAssessedLlc

record tax_estimate =
  te_assessed :: bool
  te_tax :: rat
  te_basis :: tax_basis
  te_flat_rate :: "rat option"
  te_flat_tax :: "rat option"

definition estimate_additional_tax :: "rat \<Rightarrow> rat \<Rightarrow> bool \<Rightarrow> rat option \<Rightarrow> tax_estimate" where
  "estimate_additional_tax declared observed is_limited flat_rate =
     (let rate = (case flat_rate of None \<Rightarrow> cit_rate | Some r \<Rightarrow> r) in
      if is_limited then \<lparr>te_assessed = False, te_tax = 0, te_basis = NotAssessedLlc, te_flat_rate = None, te_flat_tax = None\<rparr>
      else (let gap = max 0 (fsub observed declared) in
        if gap \<le> 0 then \<lparr>te_assessed = True, te_tax = 0, te_basis = PitGraduated, te_flat_rate = Some rate, te_flat_tax = Some 0\<rparr>
        else \<lparr>te_assessed = True,
               te_tax = max 0 (fsub (progressive_pit observed pit_bands) (progressive_pit declared pit_bands)),
               te_basis = PitGraduated, te_flat_rate = Some rate, te_flat_tax = Some (fmul gap rate)\<rparr>))"

text \<open>The pattern \<open>\b(ltd|limited|plc)\b\<close>: one of the three is a maximal run of word characters.\<close>

definition words_of :: "string \<Rightarrow> string list" where
  "words_of s = filter (\<lambda>w. w \<noteq> []) (split_on (CHR '' '') (map (\<lambda>c. if is_word c then c else CHR '' '') s))"

definition is_llc_name :: "string option \<Rightarrow> bool" where
  "is_llc_name name = (truthy name \<and> list_ex (\<lambda>w. lower w \<in> set [''ltd'', ''limited'', ''plc'']) (words_of (the name)))"

subsection \<open>Inflow and confidence\<close>

definition normalize_inflow :: "rat \<Rightarrow> rat \<Rightarrow> rat \<times> rat" where
  "normalize_inflow inflow outflow =
     (if inflow \<le> 0 then (0, 0)
      else (let ratio = fdiv outflow inflow;
                discount = max 0 (min (lit 1 2) (fmul (fdiv (fsub ratio (lit 85 100)) (lit 1 4)) (lit 1 2)))
            in (fmul inflow (fsub 1 discount), discount)))"

record case_signals =
  cs_discrepancy_pct :: rat
  cs_providers :: nat
  cs_match :: rat
  cs_discount :: rat
  cs_declared :: bool

datatype reason_code = LargeGap | ModerateGap | SmallGap | MultiProvider nat | TwoProvider | StrongId | WeakId
  | NoDeclaration | PassThrough

type_synonym reason = "reason_code \<times> rat"

definition gap_reason :: "case_signals \<Rightarrow> reason option" where
  "gap_reason s = (if 2 \<le> cs_discrepancy_pct s then Some (LargeGap, lit 35 100)
     else if 1 \<le> cs_discrepancy_pct s then Some (ModerateGap, lit 25 100)
     else if lit 1 2 \<le> cs_discrepancy_pct s then Some (SmallGap, lit 15 100) else None)"

definition provider_reason :: "case_signals \<Rightarrow> reason option" where
  "provider_reason s = (if 3 \<le> cs_providers s then Some (MultiProvider (cs_providers s), lit 25 100)
     else if cs_providers s = 2 then Some (TwoProvider, lit 15 100) else None)"

definition identity_reason :: "case_signals \<Rightarrow> reason option" where
  "identity_reason s = (if lit 9 10 \<le> cs_match s then Some (StrongId, lit 2 10)
     else if cs_match s < lit 6 10 then Some (WeakId, - lit 15 100) else None)"

definition declaration_reason :: "case_signals \<Rightarrow> reason option" where
  "declaration_reason s = (if cs_declared s then None else Some (NoDeclaration, lit 2 10))"

definition flow_reason :: "case_signals \<Rightarrow> reason option" where
  "flow_reason s = (if lit 3 10 \<le> cs_discount s then Some (PassThrough, - lit 1 10) else None)"

definition reason_slots :: "case_signals \<Rightarrow> reason option list" where
  "reason_slots s = [gap_reason s, provider_reason s, identity_reason s, declaration_reason s, flow_reason s]"

definition score_case :: "case_signals \<Rightarrow> rat \<times> reason list" where
  "score_case s = (let reasons = concat (map (\<lambda>x. case x of None \<Rightarrow> [] | Some r \<Rightarrow> [r]) (reason_slots s));
       score = foldl (\<lambda>a r. fadd a (snd r)) 0 reasons
     in (max 0 (min 1 score), reasons))"

datatype risk_level = Low | Medium | High | Critical

definition confidence_to_risk :: "rat \<Rightarrow> risk_level" where
  "confidence_to_risk c = (if lit 8 10 \<le> c then Critical else if lit 6 10 \<le> c then High
     else if lit 4 10 \<le> c then Medium else Low)"

definition aggregate_agent_score :: "rat list \<Rightarrow> rat" where
  "aggregate_agent_score scores = (if scores = [] then 0
     else (let s = rev (sort scores);
               corroborating = length (filter (\<lambda>x. lit 4 10 \<le> x) s);
               bonus = fmul (lit 8 100) (of_nat (corroborating - 1))
           in max 0 (min 1 (fadd (hd s) bonus))))"

definition composite_confidence :: "rat \<Rightarrow> rat \<Rightarrow> rat" where
  "composite_confidence detection agents =
     max 0 (min 1 (fadd (fmul (lit 6 10) detection) (fmul (lit 4 10) agents)))"

subsection \<open>The tax bands\<close>

lemma lit_0_1: "0 \<le> p \<Longrightarrow> p \<le> q \<Longrightarrow> 0 < q \<Longrightarrow> 0 \<le> lit p q \<and> lit p q \<le> 1"
  by (simp add: lit_nonneg) (simp add: lit_def dbl.le_one)

text \<open>A ladder of bands: rates between zero and one, each upper end at or above the lower one.\<close>

definition band_ok :: "tax_band \<Rightarrow> bool" where
  "band_ok b \<longleftrightarrow> 0 \<le> tb_rate b \<and> tb_rate b \<le> 1"

fun ladder :: "rat \<Rightarrow> tax_band list \<Rightarrow> bool" where
  "ladder low [] = True"
| "ladder low (b # bs) = (band_ok b \<and> (case tb_up_to b of None \<Rightarrow> True | Some u \<Rightarrow> low \<le> u \<and> ladder u bs))"

lemma pit_bands_ladder: "ladder 0 pit_bands"
  using lit_0_1 [of 15 100] lit_0_1 [of 18 100] lit_0_1 [of 21 100] lit_0_1 [of 23 100] lit_0_1 [of 25 100]
  by (simp add: pit_bands_def band_ok_def)

definition band_tax :: "tax_band \<Rightarrow> rat \<Rightarrow> rat \<Rightarrow> rat \<Rightarrow> rat" where
  "band_tax b t low x = fadd t (fmul (fsub x low) (tb_rate b))"

lemma band_tax_rounded [simp]: "fl (band_tax b t low x) = band_tax b t low x"
  by (simp add: band_tax_def fops)

lemma band_tax_grows: "band_ok b \<Longrightarrow> low \<le> x \<Longrightarrow> fl t = t \<Longrightarrow> t \<le> band_tax b t low x"
  by (auto simp: band_tax_def fops band_ok_def intro!: dbl.le_add_nonneg dbl.nonneg mult_nonneg_nonneg)

lemma band_tax_mono: "band_ok b \<Longrightarrow> x \<le> y \<Longrightarrow> t \<le> t' \<Longrightarrow> band_tax b t low x \<le> band_tax b t' low y"
  by (auto simp: band_tax_def fops band_ok_def intro!: dbl.add_mono_rnd dbl.mono add_mono mult_right_mono)

lemma pit_loop_Cons: "pit_loop x low t (b # bs) = (if x \<le> low then t else
    (case tb_up_to b of None \<Rightarrow> band_tax b t low x | Some u \<Rightarrow> pit_loop x u (band_tax b t low (min x u)) bs))"
  by (simp add: band_tax_def split: option.split)

lemma pit_loop_grows: "ladder low bs \<Longrightarrow> fl t = t \<Longrightarrow> t \<le> pit_loop x low t bs"
proof (induction bs arbitrary: t low)
  case (Cons b bs)
  show ?case
  proof (cases "x \<le> low")
    case False
    show ?thesis
    proof (cases "tb_up_to b")
      case None
      then show ?thesis using False Cons.prems band_tax_grows by (simp add: pit_loop_Cons del: pit_loop.simps)
    next
      case (Some u)
      have "t \<le> band_tax b t low (min x u)" using Cons.prems False Some by (intro band_tax_grows) auto
      also have "\<dots> \<le> pit_loop x u (band_tax b t low (min x u)) bs" using Cons Some by simp
      finally show ?thesis using Some False by (simp add: pit_loop_Cons del: pit_loop.simps)
    qed
  qed simp
qed simp

lemma pit_loop_mono:
  "ladder low bs \<Longrightarrow> fl t = t \<Longrightarrow> fl t' = t' \<Longrightarrow> t \<le> t' \<Longrightarrow> x \<le> y \<Longrightarrow> pit_loop x low t bs \<le> pit_loop y low t' bs"
proof (induction bs arbitrary: t t' low)
  case (Cons b bs)
  show ?case
  proof (cases "x \<le> low")
    case True
    have "t \<le> pit_loop y low t' (b # bs)" using pit_loop_grows [OF Cons.prems(1,3), of y] Cons.prems(4) by linarith
    then show ?thesis using True by simp
  next
    case False
    show ?thesis
    proof (cases "tb_up_to b")
      case None
      then show ?thesis using False Cons.prems band_tax_mono by (simp add: pit_loop_Cons del: pit_loop.simps)
    next
      case (Some u)
      have "band_tax b t low (min x u) \<le> band_tax b t' low (min y u)"
        using Cons.prems by (intro band_tax_mono) auto
      then show ?thesis using Some False Cons by (simp add: pit_loop_Cons del: pit_loop.simps)
    qed
  qed
qed simp

lemma progressive_pit_mono: "x \<le> y \<Longrightarrow> progressive_pit x pit_bands \<le> progressive_pit y pit_bands"
  using pit_loop_mono [OF pit_bands_ladder, of 0 0 x y] pit_loop_grows [OF pit_bands_ladder, of 0 y]
  by (simp add: progressive_pit_def)

text \<open>The schedule in exact arithmetic, written by the rise of the rate at each threshold.\<close>

definition exact_pit :: "rat \<Rightarrow> rat" where
  "exact_pit x = 15/100 * max 0 (x - 800000) + 3/100 * max 0 (x - 3000000) + 3/100 * max 0 (x - 12000000) +
     2/100 * max 0 (x - 25000000) + 2/100 * max 0 (x - 50000000)"

fun exact_loop :: "rat \<Rightarrow> rat \<Rightarrow> rat \<Rightarrow> tax_band list \<Rightarrow> rat" where
  "exact_loop x low t [] = t"
| "exact_loop x low t (b # bs) = (if x \<le> low then t
     else (case tb_up_to b of None \<Rightarrow> t + (x - low) * tb_rate b
       | Some u \<Rightarrow> exact_loop x u (t + (min x u - low) * tb_rate b) bs))"

definition nta_schedule :: "tax_band list" where
  "nta_schedule = [\<lparr>tb_up_to = Some 800000, tb_rate = 0\<rparr>, \<lparr>tb_up_to = Some 3000000, tb_rate = 15/100\<rparr>,
     \<lparr>tb_up_to = Some 12000000, tb_rate = 18/100\<rparr>, \<lparr>tb_up_to = Some 25000000, tb_rate = 21/100\<rparr>,
     \<lparr>tb_up_to = Some 50000000, tb_rate = 23/100\<rparr>, \<lparr>tb_up_to = None, tb_rate = 25/100\<rparr>]"

lemma pit_bands_rounded: "pit_bands = map (\<lambda>b. b\<lparr>tb_rate := fl (tb_rate b)\<rparr>) nta_schedule"
  by (simp add: pit_bands_def nta_schedule_def lit_def)

lemma exact_loop_pit: "0 < x \<Longrightarrow> exact_loop x 0 0 nta_schedule = exact_pit x"
  by (auto simp: nta_schedule_def exact_pit_def max_def min_def) (simp_all add: field_simps)

lemma fl_err: "0 \<le> x \<Longrightarrow> x \<le> m \<Longrightarrow> \<bar>fl x - x\<bar> \<le> m / 2 ^ 53"
  using fl_error [of x] by (cases "x = 0") (auto simp: field_simps)

lemma fl_pos_iff: "0 < x \<Longrightarrow> 0 < fl x"
  using fl_binade(1) [of x] pow2_pos [of "binade x"] by linarith

lemma band_tax_error:
  assumes "0 \<le> low" "low \<le> x" "x \<le> m" "fl m = m" "0 \<le> r" "r \<le> 1" "0 \<le> t" "t \<le> 8 * m"
  shows "\<bar>fadd t (fmul (fsub x low) (fl r)) - (u + (x - low) * r)\<bar> \<le> \<bar>t - u\<bar> + 12 * m / 2 ^ 53"
    and "fadd t (fmul (fsub x low) (fl r)) \<le> fl (t + m)"
proof -
  let ?e = "m / 2 ^ 53"
  let ?s = "fsub x low"
  let ?p = "fmul ?s (fl r)"
  have m: "0 \<le> m" "0 \<le> ?e" using assms(1-3) by simp_all
  have s: "0 \<le> ?s" "?s \<le> m" "\<bar>?s - (x - low)\<bar> \<le> ?e"
    using assms dbl.nonneg [of "x - low"] dbl.mono [of "x - low" m] fl_err [of "x - low" m]
    by (simp_all add: fops)
  have r: "0 \<le> fl r" "fl r \<le> 1" "\<bar>fl r - r\<bar> \<le> 1 / 2 ^ 53"
    using assms(5,6) dbl.nonneg dbl.le_one fl_err [of r 1] by simp_all
  have q: "0 \<le> ?s * fl r" "?s * fl r \<le> m" using s(1,2) r m(1) by (auto simp: mult_left_le intro: order_trans [OF mult_left_le])
  have p: "0 \<le> ?p" "?p \<le> m" "\<bar>?p - ?s * fl r\<bar> \<le> ?e"
    using q dbl.nonneg dbl.mono [of "?s * fl r" m] fl_err [of "?s * fl r" m] assms(4) by (simp_all add: fmul_def)
  have "\<bar>?s * fl r - (x - low) * r\<bar> = \<bar>(?s - (x - low)) * fl r + (x - low) * (fl r - r)\<bar>"
    by (simp add: algebra_simps)
  also have "\<dots> \<le> \<bar>?s - (x - low)\<bar> * fl r + (x - low) * \<bar>fl r - r\<bar>"
    using r assms(2) by (simp add: abs_mult abs_triangle_ineq [THEN order_trans])
  also have "\<dots> \<le> ?e * 1 + m * (1 / 2 ^ 53)"
    using s r assms m by (intro add_mono mult_mono) simp_all
  finally have sr: "\<bar>?s * fl r - (x - low) * r\<bar> \<le> 2 * ?e" by simp
  have t: "\<bar>fadd t ?p - (t + ?p)\<bar> \<le> 9 * m / 2 ^ 53"
    unfolding fadd_def using p assms by (intro fl_err) simp_all
  show "\<bar>fadd t ?p - (u + (x - low) * r)\<bar> \<le> \<bar>t - u\<bar> + 12 * m / 2 ^ 53"
    using sr t p(3) by linarith
  show "fadd t ?p \<le> fl (t + m)" unfolding fadd_def using p by (intro dbl.mono) simp
qed


lemma pit_loop_error:
  assumes "ladder low bs" "0 \<le> low" "x \<le> m" "0 \<le> m" "0 \<le> t" "t \<le> of_nat k * m" "k + length bs \<le> 8"
    and "\<And>i. i \<le> 8 \<Longrightarrow> fl (of_nat i * m) = of_nat i * m"
  shows "\<bar>pit_loop x low t (map (\<lambda>b. b\<lparr>tb_rate := fl (tb_rate b)\<rparr>) bs) - exact_loop x low u bs\<bar>
    \<le> \<bar>t - u\<bar> + of_nat (length bs) * (12 * m / 2 ^ 53)"
  using assms(1,2,5,6,7)
proof (induction bs arbitrary: low t u k)
  case (Cons b bs)
  let ?E = "12 * m / 2 ^ 53"
  have E: "0 \<le> of_nat (length bs) * ?E" "0 \<le> ?E" using assms(4) by simp_all
  have b: "0 \<le> tb_rate b" "tb_rate b \<le> 1" using Cons.prems(1) by (simp_all add: band_ok_def)
  have flm: "fl m = m" using assms(8) [of 1] by simp
  have "of_nat k * m \<le> 8 * m" using Cons.prems(5) assms(4) by (intro mult_right_mono) simp_all
  then have t8: "t \<le> 8 * m" using Cons.prems(4) by simp
  have step: "\<bar>fadd t (fmul (fsub v low) (fl (tb_rate b))) - (u + (v - low) * tb_rate b)\<bar> \<le> \<bar>t - u\<bar> + ?E"
      "fadd t (fmul (fsub v low) (fl (tb_rate b))) \<le> of_nat (Suc k) * m"
      "0 \<le> fadd t (fmul (fsub v low) (fl (tb_rate b)))" if "low \<le> v" "v \<le> x" for v
  proof -
    have v: "v \<le> m" using that assms(3) by simp
    show "\<bar>fadd t (fmul (fsub v low) (fl (tb_rate b))) - (u + (v - low) * tb_rate b)\<bar> \<le> \<bar>t - u\<bar> + ?E"
      by (rule band_tax_error(1) [OF Cons.prems(2) that(1) v flm b Cons.prems(3) t8])
    have "fadd t (fmul (fsub v low) (fl (tb_rate b))) \<le> fl (t + m)"
      by (rule band_tax_error(2) [OF Cons.prems(2) that(1) v flm b Cons.prems(3) t8])
    also have "\<dots> \<le> fl (of_nat (Suc k) * m)" using Cons.prems(4) by (intro dbl.mono) (simp add: algebra_simps)
    also have "\<dots> = of_nat (Suc k) * m" using Cons.prems(5) by (intro assms(8)) simp
    finally show "fadd t (fmul (fsub v low) (fl (tb_rate b))) \<le> of_nat (Suc k) * m" .
    show "0 \<le> fadd t (fmul (fsub v low) (fl (tb_rate b)))"
      using Cons.prems(3) that b by (auto simp: fops intro!: dbl.nonneg add_nonneg_nonneg mult_nonneg_nonneg)
  qed
  show ?case
  proof (cases "x \<le> low")
    case True
    then show ?thesis using E by (simp add: algebra_simps)
  next
    case False
    show ?thesis
    proof (cases "tb_up_to b")
      case None
      have "pit_loop x low t (map (\<lambda>b. b\<lparr>tb_rate := fl (tb_rate b)\<rparr>) (b # bs)) = fadd t (fmul (fsub x low) (fl (tb_rate b)))"
        "exact_loop x low u (b # bs) = u + (x - low) * tb_rate b"
        "of_nat (length (b # bs)) * ?E = of_nat (length bs) * ?E + ?E" using None False by (simp_all add: distrib_right)
      then show ?thesis using step(1) [of x] False E by linarith
    next
      case (Some v)
      let ?v = "min x v"
      let ?t = "fadd t (fmul (fsub ?v low) (fl (tb_rate b)))"
      let ?u = "u + (?v - low) * tb_rate b"
      have v: "low \<le> ?v" "?v \<le> x" "ladder v bs" "low \<le> v" using Cons.prems(1) Some False by auto
      have "\<bar>pit_loop x v ?t (map (\<lambda>b. b\<lparr>tb_rate := fl (tb_rate b)\<rparr>) bs) - exact_loop x v ?u bs\<bar>
          \<le> \<bar>?t - ?u\<bar> + of_nat (length bs) * ?E"
        by (rule Cons.IH [OF v(3) _ step(3) [OF v(1,2)] step(2) [OF v(1,2)]]) (use Cons.prems v in auto)
      then have "\<bar>pit_loop x v ?t (map (\<lambda>b. b\<lparr>tb_rate := fl (tb_rate b)\<rparr>) bs) - exact_loop x v ?u bs\<bar>
          \<le> \<bar>t - u\<bar> + (of_nat (length bs) * ?E + ?E)" using step(1) [OF v(1,2)] by linarith
      moreover have "of_nat (length (b # bs)) * ?E = of_nat (length bs) * ?E + ?E" by (simp add: distrib_right)
      moreover have "pit_loop x low t (map (\<lambda>b. b\<lparr>tb_rate := fl (tb_rate b)\<rparr>) (b # bs)) =
          pit_loop x v ?t (map (\<lambda>b. b\<lparr>tb_rate := fl (tb_rate b)\<rparr>) bs)"
        "exact_loop x low u (b # bs) = exact_loop x v ?u bs" using Some False by simp_all
      ultimately show ?thesis by presburger
    qed
  qed
qed simp

lemma trillion_exact: "i \<le> 8 \<Longrightarrow> fl (of_nat i * 1000000000000) = of_nat i * 1000000000000"
  using fl_of_int [of "int i * 1000000000000"] by simp

lemma progressive_pit_error:
  assumes "0 \<le> x" "x \<le> 1000000000000"
  shows "\<bar>progressive_pit x pit_bands - exact_pit x\<bar> \<le> 8 / 1000"
proof (cases "x = 0")
  case True
  then show ?thesis by (simp add: progressive_pit_def exact_pit_def)
next
  case False
  have "ladder 0 nta_schedule" by (simp add: nta_schedule_def band_ok_def)
  then have "\<bar>pit_loop x 0 0 (map (\<lambda>b. b\<lparr>tb_rate := fl (tb_rate b)\<rparr>) nta_schedule) - exact_loop x 0 0 nta_schedule\<bar>
      \<le> \<bar>0 - 0\<bar> + of_nat (length nta_schedule) * (12 * 1000000000000 / 2 ^ 53)"
    by (rule pit_loop_error [where k = 0]) (use assms trillion_exact in \<open>auto simp: nta_schedule_def\<close>)
  moreover have "of_nat (length nta_schedule) * (12 * 1000000000000 / 2 ^ 53) \<le> (8 / 1000 :: rat)"
    by (simp add: nta_schedule_def)
  ultimately have "\<bar>pit_loop x 0 0 pit_bands - exact_loop x 0 0 nta_schedule\<bar> \<le> 8 / 1000"
    unfolding pit_bands_rounded by linarith
  then show ?thesis using assms False by (simp add: progressive_pit_def exact_loop_pit)
qed

lemma exact_pit_mono: "x \<le> y \<Longrightarrow> exact_pit x \<le> exact_pit y"
  unfolding exact_pit_def by (intro add_mono mult_left_mono) simp_all

lemma exact_pit_range: "0 \<le> x \<Longrightarrow> 0 \<le> exact_pit x \<and> exact_pit x \<le> x / 4"
  by (auto simp: exact_pit_def max_def field_simps)

text \<open>
  C29. For incomes up to a trillion naira the estimate of additional tax is never negative and agrees,
  within two kobo, with the difference the statutory schedule gives in exact arithmetic; nothing is
  due when nothing was left undeclared, and a limited company is never assessed.
\<close>

theorem additional_tax_accurate:
  assumes "0 \<le> declared" "declared \<le> 1000000000000" "0 \<le> observed" "observed \<le> 1000000000000"
  shows "\<bar>te_tax (estimate_additional_tax declared observed False rate) - (exact_pit (max declared observed) - exact_pit declared)\<bar> \<le> 2 / 100 \<and>
    0 \<le> te_tax (estimate_additional_tax declared observed False rate) \<and>
    te_tax (estimate_additional_tax declared observed True rate) = 0"
proof -
  have gap: "fsub observed declared \<le> 0 \<longleftrightarrow> observed \<le> declared"
  proof
    assume "fsub observed declared \<le> 0"
    then show "observed \<le> declared" using fl_pos_iff [of "observed - declared"] by (auto simp: fsub_def not_le [symmetric])
  qed (simp add: fsub_def dbl.nonpos)
  show ?thesis
  proof (cases "observed \<le> declared")
    case True
    then show ?thesis using gap by (simp add: estimate_additional_tax_def Let_def max_def)
  next
    case False
    let ?a = "progressive_pit observed pit_bands" and ?b = "progressive_pit declared pit_bands"
    have e: "\<bar>?a - exact_pit observed\<bar> \<le> 8 / 1000" "\<bar>?b - exact_pit declared\<bar> \<le> 8 / 1000"
      using assms progressive_pit_error by simp_all
    have le: "?b \<le> ?a" using False by (intro progressive_pit_mono) simp
    have "?a - ?b \<le> 1000000000000"
      using e exact_pit_range [of observed] exact_pit_range [of declared] assms by linarith
    then have "\<bar>fsub ?a ?b - (?a - ?b)\<bar> \<le> 1000000000000 / 2 ^ 53"
      unfolding fsub_def using le by (intro fl_err) simp_all
    moreover have "(1000000000000 / 2 ^ 53 :: rat) \<le> 4 / 1000" by simp
    ultimately have "\<bar>fsub ?a ?b - (exact_pit observed - exact_pit declared)\<bar> \<le> 2 / 100" using e by linarith
    moreover have "0 \<le> fsub ?a ?b" unfolding fsub_def using le by (intro dbl.nonneg) simp
    ultimately show ?thesis using False gap by (simp add: estimate_additional_tax_def Let_def max_def)
  qed
qed

theorem additional_tax_accurate_witness:
  "\<bar>te_tax (estimate_additional_tax 1000000 20000000 False None) - (exact_pit (max 1000000 20000000) - exact_pit 1000000)\<bar> \<le> 2 / 100 \<and>
    0 \<le> te_tax (estimate_additional_tax 1000000 20000000 False None) \<and>
    te_tax (estimate_additional_tax 1000000 20000000 True None) = 0"
  by (rule additional_tax_accurate) simp_all


subsection \<open>Scores and risk levels\<close>

text \<open>The risk levels are ordered; the order is the one of their rank.\<close>

fun risk_rank :: "risk_level \<Rightarrow> nat" where
  "risk_rank Low = 0" | "risk_rank Medium = 1" | "risk_rank High = 2" | "risk_rank Critical = 3"

lemma risk_rank_inj: "risk_rank a = risk_rank b \<Longrightarrow> a = b"
  by (cases a; cases b) auto

instantiation risk_level :: linorder
begin

definition less_eq_risk_level where "(a::risk_level) \<le> b \<longleftrightarrow> risk_rank a \<le> risk_rank b"
definition less_risk_level where "(a::risk_level) < b \<longleftrightarrow> risk_rank a < risk_rank b"

instance by standard (auto simp: less_eq_risk_level_def less_risk_level_def risk_rank_inj)

end

lemma confidence_to_risk_mono: "c \<le> d \<Longrightarrow> confidence_to_risk c \<le> confidence_to_risk d"
proof -
  have "lit 4 10 \<le> lit 6 10" "lit 6 10 \<le> lit 8 10" unfolding lit_def by (intro dbl.mono; simp)+
  then show "c \<le> d \<Longrightarrow> confidence_to_risk c \<le> confidence_to_risk d"
    by (auto simp: confidence_to_risk_def less_eq_risk_level_def)
qed

definition slot_weight :: "reason option \<Rightarrow> rat" where
  "slot_weight x = (case x of None \<Rightarrow> 0 | Some r \<Rightarrow> snd r)"

lemma score_slots:
  "fl a = a \<Longrightarrow> foldl (\<lambda>a r. fadd a (snd r)) a (concat (map (\<lambda>x. case x of None \<Rightarrow> [] | Some r \<Rightarrow> [r]) xs)) =
    foldl (\<lambda>a x. fadd a (slot_weight x)) a xs"
  by (induction xs arbitrary: a) (auto simp: slot_weight_def fadd_def split: option.split)

lemma score_mono:
  assumes "list_all2 (\<lambda>x y. slot_weight x \<le> slot_weight y) xs ys" "a \<le> b"
  shows "foldl (\<lambda>a x. fadd a (slot_weight x)) a xs \<le> foldl (\<lambda>a x. fadd a (slot_weight x)) b ys"
  using assms by (induction arbitrary: a b rule: list_all2_induct) (auto simp: fadd_def dbl.add_mono_rnd)

text \<open>One set of signals is at least as strong as another: a larger gap, more providers, a better
  match, less pass-through, and no declaration wherever the other has none.\<close>

definition stronger :: "case_signals \<Rightarrow> case_signals \<Rightarrow> bool" where
  "stronger t s \<longleftrightarrow> cs_discrepancy_pct s \<le> cs_discrepancy_pct t \<and> cs_providers s \<le> cs_providers t \<and>
     cs_match s \<le> cs_match t \<and> cs_discount t \<le> cs_discount s \<and> (cs_declared t \<longrightarrow> cs_declared s)"

lemma lit_order: "p * q' \<le> p' * q \<Longrightarrow> 0 < q \<Longrightarrow> 0 < q' \<Longrightarrow> lit p q \<le> lit p' q'"
  unfolding lit_def by (intro dbl.mono) (simp add: field_simps flip: of_int_mult)

lemma slots_mono:
  assumes "stronger t s"
  shows "list_all2 (\<lambda>x y. slot_weight x \<le> slot_weight y) (reason_slots s) (reason_slots t)"
proof -
  have w: "0 \<le> lit 1 10" "0 \<le> lit 15 100" "0 \<le> lit 2 10" "lit 15 100 \<le> lit 25 100" "lit 25 100 \<le> lit 35 100"
      "lit 6 10 \<le> lit 9 10" "lit 1 2 \<le> 1"
    using lit_order [of 6 10 9 10] lit_order [of 15 100 25 100] lit_order [of 25 100 35 100] lit_0_1 [of 1 2]
    by (simp_all add: lit_nonneg)
  have "slot_weight (gap_reason s) \<le> slot_weight (gap_reason t)"
    using assms w unfolding stronger_def gap_reason_def slot_weight_def by auto
  moreover have "slot_weight (provider_reason s) \<le> slot_weight (provider_reason t)"
    using assms w unfolding stronger_def provider_reason_def slot_weight_def by auto
  moreover have "slot_weight (identity_reason s) \<le> slot_weight (identity_reason t)"
    using assms w unfolding stronger_def identity_reason_def slot_weight_def by auto
  moreover have "slot_weight (declaration_reason s) \<le> slot_weight (declaration_reason t)"
    using assms w unfolding stronger_def declaration_reason_def slot_weight_def by auto
  moreover have "slot_weight (flow_reason s) \<le> slot_weight (flow_reason t)"
    using assms w unfolding stronger_def flow_reason_def slot_weight_def by auto
  ultimately show ?thesis by (simp add: reason_slots_def)
qed

lemma score_case_score:
  "fst (score_case s) = max 0 (min 1 (foldl (\<lambda>a x. fadd a (slot_weight x)) 0 (reason_slots s)))"
  by (simp add: score_case_def Let_def score_slots)

text \<open>
  Stronger evidence never lowers a case: with a larger gap, more providers, a better identity
  match, less pass-through flow and no declaration more, neither the confidence nor the risk level
  goes down, and the confidence stays between zero and one, rounding included.
\<close>

theorem score_case_monotone:
  assumes "stronger t s"
  shows "fst (score_case s) \<le> fst (score_case t) \<and>
    confidence_to_risk (fst (score_case s)) \<le> confidence_to_risk (fst (score_case t)) \<and>
    0 \<le> fst (score_case t) \<and> fst (score_case t) \<le> 1"
proof -
  have "foldl (\<lambda>a x. fadd a (slot_weight x)) 0 (reason_slots s) \<le> foldl (\<lambda>a x. fadd a (slot_weight x)) 0 (reason_slots t)"
    by (rule score_mono [OF slots_mono [OF assms]]) simp
  then have "fst (score_case s) \<le> fst (score_case t)" unfolding score_case_score by (auto simp: max_def min_def)
  then show ?thesis using confidence_to_risk_mono by (simp add: score_case_score)
qed

definition demo_signals :: "rat \<Rightarrow> nat \<Rightarrow> case_signals" where
  "demo_signals gap n = \<lparr>cs_discrepancy_pct = gap, cs_providers = n, cs_match = 1, cs_discount = 1/2, cs_declared = False\<rparr>"

theorem score_case_monotone_witness:
  "fst (score_case (demo_signals 1 2)) \<le> fst (score_case (demo_signals 2 3)) \<and>
    confidence_to_risk (fst (score_case (demo_signals 1 2))) \<le> confidence_to_risk (fst (score_case (demo_signals 2 3))) \<and>
    0 \<le> fst (score_case (demo_signals 2 3)) \<and> fst (score_case (demo_signals 2 3)) \<le> 1"
  by (rule score_case_monotone) (simp add: stronger_def demo_signals_def)

lemma half_exact: "lit 1 2 = 1 / 2" "lit 1 4 = 1 / 4"
  by code_simp+

lemma demo_weights:
  "lit 2 10 = 3602879701896397 / 18014398509481984" "lit 1 10 = 3602879701896397 / 36028797018963968" "lit 25 100 = 1 / 4"
  by code_simp+

lemma fadd_0: "fadd 0 (1 / 4) = 1 / 4"
  by code_simp

lemma demo_sums:
  "fadd (1/4) (1/4) = 1 / 2" "fadd (1/2) (3602879701896397 / 18014398509481984) = 3152519739159347 / 4503599627370496" "fadd (3152519739159347 / 4503599627370496) (3602879701896397 / 18014398509481984) = 2026619832316723 / 2251799813685248" "fadd (2026619832316723 / 2251799813685248) (- (3602879701896397 / 36028797018963968)) = 7205759403792793 / 9007199254740992"
  by code_simp+

text \<open>
  The sum of weights is rounded at every step, and that can cost a level: a case whose reason
  weights are 0.25, 0.25, 0.2, 0.2 and -0.1, which add up to 0.8, scores below 0.8 and is classified
  as high, not critical.
\<close>

theorem risk_lost_to_rounding:
  "map snd (snd (score_case (demo_signals 1 3))) = [lit 25 100, lit 25 100, lit 2 10, lit 2 10, - lit 1 10] \<and>
   (25/100 + 25/100 + 2/10 + 2/10 - 1/10 :: rat) = 8/10 \<and>
   fst (score_case (demo_signals 1 3)) < lit 8 10 \<and> confidence_to_risk (fst (score_case (demo_signals 1 3))) = High"
proof -
  have lits: "lit 9 10 \<le> 1" "lit 3 10 \<le> 1 / 2" using lit_0_1 [of 9 10] lit_order [of 3 2 1 10, unfolded half_exact] by simp_all
  have slots: "reason_slots (demo_signals 1 3) = [Some (ModerateGap, lit 25 100), Some (MultiProvider 3, lit 25 100),
      Some (StrongId, lit 2 10), Some (NoDeclaration, lit 2 10), Some (PassThrough, - lit 1 10)]"
    using lits by (simp add: reason_slots_def gap_reason_def provider_reason_def identity_reason_def
        declaration_reason_def flow_reason_def demo_signals_def)
  have "foldl (\<lambda>a x. fadd a (slot_weight x)) 0 (reason_slots (demo_signals 1 3)) = 7205759403792793 / 9007199254740992"
    by (simp only: slots slot_weight_def demo_weights fadd_0 demo_sums foldl.simps option.case snd_conv)
  then have score: "fst (score_case (demo_signals 1 3)) = 7205759403792793 / 9007199254740992" by (simp add: score_case_score)
  have "7205759403792793 / 9007199254740992 < lit 8 10" "lit 6 10 \<le> 7205759403792793 / 9007199254740992" by code_simp+
  then have "fst (score_case (demo_signals 1 3)) < lit 8 10" "confidence_to_risk (fst (score_case (demo_signals 1 3))) = High"
    unfolding score confidence_to_risk_def by simp_all
  then show ?thesis by (simp add: score_case_def [of "demo_signals 1 3"] Let_def slots)
qed

subsection \<open>Normalised inflow\<close>

definition discount_of :: "rat \<Rightarrow> rat" where
  "discount_of ratio = max 0 (min (lit 1 2) (fmul (fdiv (fsub ratio (lit 85 100)) (lit 1 4)) (lit 1 2)))"

lemma discount_range: "0 \<le> discount_of r" "discount_of r \<le> 1 / 2"
  by (simp_all add: discount_of_def half_exact)

lemma discount_mono: "r \<le> r' \<Longrightarrow> discount_of r \<le> discount_of r'"
  unfolding discount_of_def fops half_exact
  by (intro max.mono min.mono order_refl dbl.mono mult_right_mono divide_right_mono diff_right_mono) simp_all

lemma discount_none: "r \<le> lit 85 100 \<Longrightarrow> discount_of r = 0"
  unfolding discount_of_def fops half_exact
proof -
  assume r: "r \<le> lit 85 100"
  have "fl (fl (fl (r - lit 85 100) / (1 / 4)) * (1 / 2)) \<le> 0"
    using r by (intro dbl.nonpos mult_nonpos_nonneg divide_nonpos_nonneg) simp_all
  then show "max 0 (min (1 / 2) (fl (fl (fl (r - lit 85 100) / (1 / 4)) * (1 / 2)))) = 0" by simp
qed

lemma discount_full: "lit 11 10 \<le> r \<Longrightarrow> discount_of r = 1 / 2"
proof -
  assume "lit 11 10 \<le> r"
  then have "discount_of (lit 11 10) \<le> discount_of r" by (rule discount_mono)
  moreover have "discount_of (lit 11 10) = 1 / 2" by code_simp
  ultimately show ?thesis using discount_range(2) [of r] by simp
qed

lemma normalize_inflow_eq: "0 < i \<Longrightarrow> normalize_inflow i x =
    (fmul i (fsub 1 (discount_of (fdiv x i))), discount_of (fdiv x i))"
  by (simp add: normalize_inflow_def discount_of_def Let_def)

text \<open>
  The pass-through discount is conservative: for an inflow that is a double the income proxy lies
  between zero and the gross inflow, falls as the outflow rises, equals the inflow when at most 85% of
  it went out again, and the discount is exactly one half from a ratio of 1.10 on.
\<close>

theorem normalize_inflow_conservative:
  assumes "0 < inflow" "fl inflow = inflow" "outflow \<le> outflow'"
  shows "0 \<le> fst (normalize_inflow inflow outflow') \<and>
    fst (normalize_inflow inflow outflow') \<le> fst (normalize_inflow inflow outflow) \<and>
    fst (normalize_inflow inflow outflow) \<le> inflow \<and>
    (if fdiv outflow inflow \<le> lit 85 100 then normalize_inflow inflow outflow = (inflow, 0) else True) \<and>
    (if lit 11 10 \<le> fdiv outflow inflow then snd (normalize_inflow inflow outflow) = 1 / 2 else True)"
proof -
  let ?d = "discount_of (fdiv outflow inflow)" and ?d' = "discount_of (fdiv outflow' inflow)"
  have d: "?d \<le> ?d'" using assms by (intro discount_mono) (simp add: fdiv_def dbl.mono divide_right_mono)
  have k: "0 \<le> fsub 1 ?d'" "fsub 1 ?d' \<le> fsub 1 ?d" "fsub 1 ?d \<le> 1"
    using d discount_range [of "fdiv outflow' inflow"] discount_range [of "fdiv outflow inflow"]
    by (simp_all add: fsub_def dbl.nonneg dbl.mono dbl.le_one)
  have "0 \<le> fmul inflow (fsub 1 ?d')" using k assms by (simp add: fmul_def dbl.nonneg)
  moreover have "fmul inflow (fsub 1 ?d') \<le> fmul inflow (fsub 1 ?d)"
    using k assms by (simp add: fmul_def dbl.mono mult_left_mono)
  moreover have "fmul inflow (fsub 1 ?d) \<le> inflow"
    using k assms by (simp add: fmul_def dbl.mult_le)
  moreover have "normalize_inflow inflow outflow = (inflow, 0)" if "fdiv outflow inflow \<le> lit 85 100"
    using assms discount_none [OF that] by (simp add: normalize_inflow_eq) (simp add: fops)
  moreover have "snd (normalize_inflow inflow outflow) = 1 / 2" if "lit 11 10 \<le> fdiv outflow inflow"
    using assms discount_full [OF that] by (simp add: normalize_inflow_eq)
  moreover have "fst (normalize_inflow inflow outflow) = fmul inflow (fsub 1 ?d)"
    "fst (normalize_inflow inflow outflow') = fmul inflow (fsub 1 ?d')" using assms by (simp_all add: normalize_inflow_eq)
  ultimately show ?thesis by simp
qed

lemma double_ten: "fl 10 = 10"
  using fl_of_int [of 10] by simp

theorem normalize_inflow_conservative_witness:
  "0 \<le> fst (normalize_inflow 10 11) \<and> fst (normalize_inflow 10 11) \<le> fst (normalize_inflow 10 8) \<and>
    fst (normalize_inflow 10 8) \<le> 10 \<and>
    (if fdiv 8 10 \<le> lit 85 100 then normalize_inflow 10 8 = (10, 0) else True) \<and>
    (if lit 11 10 \<le> fdiv 8 10 then snd (normalize_inflow 10 8) = 1 / 2 else True)"
  by (rule normalize_inflow_conservative) (simp_all add: double_ten)

end
