(* ===== verification/Statutory.thy ===== *)
theory Statutory
  imports Periods
begin

text \<open>
  The versioned statutory configuration of \<open>backend/src/modules/statutory/statutory.service.ts\<close>. The
  thirteen numeric properties of \<open>StatutoryValues\<close> are the constructors of a type and a configuration
  maps them to their values; a patch maps some of them to the number \<open>Number(n)\<close> gives. The two dates
  are kept as instants: a stored date is always a midnight, which the text form used in between keeps.
\<close>

subsection \<open>Configurations\<close>

datatype stat_field =
    ReportingDueDays | ObjectionWindowDays | AuthorityResponseDays | LatePaymentPenaltyRate | CitRate
  | CitSmallCoThreshold | CgtRate | DefaultScanThreshold | ReportingThresholdIndividual
  | ReportingThresholdCorporate | ProviderPenaltyFirstMonth | ProviderPenaltyPerMonth | ProviderPenaltyPaymentDays

datatype field_kind = Day | Rate | Money

fun kind_of :: "stat_field \<Rightarrow> field_kind" where
  "kind_of ReportingDueDays = Day"
| "kind_of ObjectionWindowDays = Day"
| "kind_of AuthorityResponseDays = Day"
| "kind_of LatePaymentPenaltyRate = Rate"
| "kind_of CitRate = Rate"
| "kind_of CitSmallCoThreshold = Money"
| "kind_of CgtRate = Rate"
| "kind_of DefaultScanThreshold = Rate"
| "kind_of ReportingThresholdIndividual = Money"
| "kind_of ReportingThresholdCorporate = Money"
| "kind_of ProviderPenaltyFirstMonth = Money"
| "kind_of ProviderPenaltyPerMonth = Money"
| "kind_of ProviderPenaltyPaymentDays = Day"

record stat_config =
  sc_version :: nat
  sc_active :: bool
  sc_note :: "string option"
  sc_value :: "stat_field \<Rightarrow> rat"
  sc_penalty_from :: "time option"
  sc_enforcement :: "time option"

fun default_value :: "stat_field \<Rightarrow> rat" where
  "default_value ReportingDueDays = 15"
| "default_value ObjectionWindowDays = 30"
| "default_value AuthorityResponseDays = 90"
| "default_value LatePaymentPenaltyRate = lit 1 10"
| "default_value CitRate = lit 3 10"
| "default_value CitSmallCoThreshold = 50000000"
| "default_value CgtRate = lit 1 10"
| "default_value DefaultScanThreshold = lit 2 10"
| "default_value ReportingThresholdIndividual = 50000000"
| "default_value ReportingThresholdCorporate = 250000000"
| "default_value ProviderPenaltyFirstMonth = 100000"
| "default_value ProviderPenaltyPerMonth = 50000"
| "default_value ProviderPenaltyPaymentDays = 30"

definition seed_config :: stat_config where
  "seed_config = \<lparr>sc_version = 1, sc_active = True, sc_note = Some ''Initial defaults (seeded from code constants).'',
     sc_value = default_value, sc_penalty_from = None, sc_enforcement = None\<rparr>"

text \<open>The active configuration; the table is seeded with version 1 when it has none.\<close>

definition active_config :: "stat_config list \<Rightarrow> stat_config \<times> stat_config list" where
  "active_config rows = (case find sc_active rows of Some r \<Rightarrow> (r, rows) | None \<Rightarrow> (seed_config, rows @ [seed_config]))"

subsection \<open>Sanitizing a patch\<close>

text \<open>\<open>Math.max\<close>, \<open>Math.min\<close> and \<open>Math.round\<close>: not-a-number is passed on.\<close>

definition n_max :: "jsnum \<Rightarrow> jsnum \<Rightarrow> jsnum" where
  "n_max a b = (if a = NaN \<or> b = NaN then NaN else if n_lt a b then b else a)"

definition n_min :: "jsnum \<Rightarrow> jsnum \<Rightarrow> jsnum" where
  "n_min a b = (if a = NaN \<or> b = NaN then NaN else if n_lt b a then b else a)"

fun n_round :: "jsnum \<Rightarrow> jsnum" where
  "n_round (Fin x) = Fin (of_int \<lfloor>x + 1/2\<rfloor>)" | "n_round n = n"

fun clamp :: "field_kind \<Rightarrow> jsnum \<Rightarrow> jsnum" where
  "clamp Day n = n_max (Fin 1) (n_min (Fin 3650) (n_round n))"
| "clamp Rate n = n_max (Fin 0) (n_min (Fin 1) n)"
| "clamp Money n = n_max (Fin 0) n"

record stat_patch =
  pa_number :: "stat_field \<Rightarrow> jsnum option"
  pa_penalty_from :: "string option"
  pa_enforcement :: "string option"

text \<open>A date of a patch: absent leaves the value, blank clears it, a date of the form YYYY-MM-DD sets
  it, and any other text is ignored. A null is given as the empty string.\<close>

definition iso_form :: "string \<Rightarrow> bool" where
  "iso_form s \<longleftrightarrow> length s = 10 \<and> s ! 4 = CHR ''-'' \<and> s ! 7 = CHR ''-'' \<and>
     all_digits (take 4 s @ take 2 (drop 5 s) @ drop 8 s)"

definition patch_date :: "(string \<Rightarrow> time option) \<Rightarrow> string option \<Rightarrow> time option \<Rightarrow> time option" where
  "patch_date other p old = (case p of None \<Rightarrow> old
     | Some s \<Rightarrow> (let raw = trim s in
         if raw = [] then None
         else if iso_form raw then (case js_date other raw of None \<Rightarrow> old | Some t \<Rightarrow> Some t) else old))"

definition patch_value :: "stat_patch \<Rightarrow> stat_config \<Rightarrow> stat_field \<Rightarrow> jsnum" where
  "patch_value p c f = (case pa_number p f of None \<Rightarrow> Fin (sc_value c f) | Some n \<Rightarrow> clamp (kind_of f) n)"

datatype stat_error = NotStorable

definition all_fields :: "stat_field list" where
  "all_fields = [ReportingDueDays, ObjectionWindowDays, AuthorityResponseDays, LatePaymentPenaltyRate, CitRate,
     CitSmallCoThreshold, CgtRate, DefaultScanThreshold, ReportingThresholdIndividual, ReportingThresholdCorporate,
     ProviderPenaltyFirstMonth, ProviderPenaltyPerMonth, ProviderPenaltyPaymentDays]"

fun finite_value :: "jsnum \<Rightarrow> rat option" where
  "finite_value (Fin x) = Some x" | "finite_value _ = None"

definition max_version :: "stat_config list \<Rightarrow> nat" where
  "max_version rows = foldl max 0 (map sc_version rows)"

text \<open>
  An update never edits a version: it closes the active one and appends the next. A value that is not
  finite cannot be stored in a numeric column; the transaction fails and nothing is changed.
\<close>

definition update_config ::
  "(string \<Rightarrow> time option) \<Rightarrow> stat_patch \<Rightarrow> string option \<Rightarrow> stat_config list \<Rightarrow> (stat_error, nat, stat_config list) outcome" where
  "update_config other p nt rows0 =
     (let (cur, rows) = active_config rows0 in
      if list_ex (\<lambda>f. finite_value (patch_value p cur f) = None) all_fields then (Inl NotStorable, rows)
      else (let v = max_version rows + 1 in
        (Inr v, map (\<lambda>r. r\<lparr>sc_active := False\<rparr>) rows @
          [\<lparr>sc_version = v, sc_active = True, sc_note = nt,
            sc_value = (\<lambda>f. the (finite_value (patch_value p cur f))),
            sc_penalty_from = patch_date other (pa_penalty_from p) (sc_penalty_from cur),
            sc_enforcement = patch_date other (pa_enforcement p) (sc_enforcement cur)\<rparr>])))"

datatype stat_op = ReadActive | UpdateConfig stat_patch "string option"

fun stat_exec :: "(string \<Rightarrow> time option) \<Rightarrow> stat_op \<Rightarrow> stat_config list \<Rightarrow> (stat_error, nat, stat_config list) outcome" where
  "stat_exec other ReadActive rows = (let (c, rows') = active_config rows in (Inr (sc_version c), rows'))"
| "stat_exec other (UpdateConfig p nt) rows = update_config other p nt rows"

subsection \<open>Sound versions\<close>

fun in_range :: "field_kind \<Rightarrow> rat \<Rightarrow> bool" where
  "in_range Day x = (x \<in> \<int> \<and> 1 \<le> x \<and> x \<le> 3650)"
| "in_range Rate x = (0 \<le> x \<and> x \<le> 1)"
| "in_range Money x = (0 \<le> x)"

definition values_ok :: "stat_config \<Rightarrow> bool" where
  "values_ok c \<longleftrightarrow> (\<forall>f. in_range (kind_of f) (sc_value c f))"

text \<open>Versions are numbered from one, the latest one and no other is active, every value is in range.\<close>

definition stat_ok :: "stat_config list \<Rightarrow> bool" where
  "stat_ok rows \<longleftrightarrow> map sc_version rows = [1..<Suc (length rows)] \<and>
     list_all (\<lambda>r. \<not> sc_active r) (butlast rows) \<and> (rows \<noteq> [] \<longrightarrow> sc_active (last rows)) \<and> list_all values_ok rows"

lemma clamp_range: "finite_value (clamp k n) = Some x \<Longrightarrow> in_range k x"
  by (cases k; cases n) (auto simp: n_max_def n_min_def split: if_splits)

lemma lit_rate: "0 \<le> p \<Longrightarrow> p \<le> q \<Longrightarrow> 0 < q \<Longrightarrow> 0 \<le> lit p q \<and> lit p q \<le> 1"
  by (simp add: lit_nonneg) (simp add: lit_def dbl.le_one)

lemma seed_ok: "values_ok seed_config"
  unfolding values_ok_def
proof
  fix f show "in_range (kind_of f) (sc_value seed_config f)"
    using lit_rate [of 1 10] lit_rate [of 2 10] lit_rate [of 3 10] by (cases f) (simp_all add: seed_config_def)
qed

lemma find_last: "\<forall>y\<in>set xs. \<not> P y \<Longrightarrow> P x \<Longrightarrow> find P (xs @ [x]) = Some x"
  by (induction xs) auto

lemma stat_ok_snoc: "stat_ok (xs @ [x]) \<longleftrightarrow> map sc_version xs = [1..<Suc (length xs)] \<and> sc_version x = Suc (length xs) \<and>
    (\<forall>y\<in>set xs. \<not> sc_active y) \<and> sc_active x \<and> list_all values_ok xs \<and> values_ok x"
  by (auto simp: stat_ok_def list_all_iff)

lemma find_active: "stat_ok rows \<Longrightarrow> find sc_active rows = (if rows = [] then None else Some (last rows))"
  by (cases rows rule: rev_cases) (auto simp: stat_ok_snoc find_last)

lemma active_config_ok:
  assumes "stat_ok rows"
  shows "stat_ok (snd (active_config rows)) \<and> snd (active_config rows) \<noteq> [] \<and>
    fst (active_config rows) = last (snd (active_config rows)) \<and> values_ok (fst (active_config rows))"
proof (cases rows rule: rev_cases)
  case Nil
  then show ?thesis using seed_ok by (simp add: active_config_def stat_ok_snoc [of "[]", simplified] seed_config_def)
next
  case (snoc xs x)
  then show ?thesis using assms by (simp add: active_config_def find_active) (simp add: stat_ok_snoc)
qed

lemma max_version_ok: "stat_ok rows \<Longrightarrow> max_version rows = length rows"
proof -
  have "foldl max 0 [1..<Suc n] = n" for n by (induction n) auto
  then show "stat_ok rows \<Longrightarrow> max_version rows = length rows" by (simp add: max_version_def stat_ok_def)
qed

lemma stat_ok_next:
  assumes "stat_ok rows" "values_ok c" "sc_version c = length rows + 1" "sc_active c"
  shows "stat_ok (map (\<lambda>r. r\<lparr>sc_active := False\<rparr>) rows @ [c])"
  using assms by (auto simp: stat_ok_snoc stat_ok_def comp_def list_all_iff values_ok_def)

lemma all_fields_all: "f \<in> set all_fields"
  by (cases f) (simp_all add: all_fields_def)

lemma patched_in_range:
  assumes "values_ok c" "finite_value (patch_value p c f) \<noteq> None"
  shows "in_range (kind_of f) (the (finite_value (patch_value p c f)))"
  using assms clamp_range by (fastforce simp: patch_value_def values_ok_def split: option.splits)

lemma update_config_cases:
  assumes "stat_ok rows0"
  obtains (failed) "update_config other p nt rows0 = (Inl NotStorable, snd (active_config rows0))"
  | (created) c where "update_config other p nt rows0 = (Inr (sc_version c),
        map (\<lambda>r. r\<lparr>sc_active := False\<rparr>) (snd (active_config rows0)) @ [c])"
      "values_ok c" "sc_version c = length (snd (active_config rows0)) + 1" "sc_active c"
proof -
  obtain cur rows where a: "active_config rows0 = (cur, rows)" by (cases "active_config rows0")
  then have ok: "stat_ok rows" "values_ok cur" using active_config_ok [OF assms] by auto
  show ?thesis
  proof (cases "list_ex (\<lambda>f. finite_value (patch_value p cur f) = None) all_fields")
    case True
    then show ?thesis using a by (intro failed) (simp add: update_config_def)
  next
    case False
    let ?c = "\<lparr>sc_version = max_version rows + 1, sc_active = True, sc_note = nt,
            sc_value = (\<lambda>f. the (finite_value (patch_value p cur f))),
            sc_penalty_from = patch_date other (pa_penalty_from p) (sc_penalty_from cur),
            sc_enforcement = patch_date other (pa_enforcement p) (sc_enforcement cur)\<rparr>"
    have "values_ok ?c" using False ok(2) patched_in_range all_fields_all
      by (auto simp: values_ok_def list_ex_iff)
    then show ?thesis using False a ok by (intro created [of ?c]) (simp_all add: update_config_def max_version_ok Let_def)
  qed
qed

lemma stat_exec_ok: "stat_ok rows \<Longrightarrow> stat_ok (snd (stat_exec other op rows))"
proof (cases op)
  case ReadActive
  assume "stat_ok rows"
  then show ?thesis using ReadActive active_config_ok by (simp add: split_beta)
next
  case (UpdateConfig p nt)
  assume ok: "stat_ok rows"
  from ok show ?thesis
  proof (cases rule: update_config_cases [where other = other and p = p and nt = nt])
    case failed
    then show ?thesis using UpdateConfig active_config_ok [OF ok] by simp
  next
    case (created c)
    then show ?thesis using UpdateConfig active_config_ok [OF ok] stat_ok_next by simp
  qed
qed

interpretation statutory: service "stat_exec other" stat_ok for other
  by unfold_locales (rule stat_exec_ok)

text \<open>
  C30. Starting from an empty table, after any sequence of reads and updates, rejected ones included,
  the versions are numbered from one without gaps, the latest version and no other is active, and
  every value is in range: days are whole numbers from 1 to 3650, rates lie between zero and one,
  amounts of money are not negative.
\<close>

theorem statutory_versions_sound:
  "stat_ok (run_ops (stat_exec other) ops [])"
  by (rule statutory.run_inv) (simp add: stat_ok_def)

definition same_law :: "stat_config \<Rightarrow> stat_config \<Rightarrow> bool" where
  "same_law c d \<longleftrightarrow> c\<lparr>sc_active := False\<rparr> = d\<lparr>sc_active := False\<rparr>"

lemma same_law_refl [simp]: "same_law c c" and same_law_trans: "same_law a b \<Longrightarrow> same_law b c \<Longrightarrow> same_law a c"
  and same_law_close [simp]: "same_law c (c\<lparr>sc_active := v\<rparr>)"
  by (simp_all add: same_law_def)

definition keeps_versions :: "stat_config list \<Rightarrow> stat_config list \<Rightarrow> bool" where
  "keeps_versions old new \<longleftrightarrow> length old \<le> length new \<and> list_all2 same_law old (take (length old) new)"

lemma keeps_versions_trans: "keeps_versions a b \<Longrightarrow> keeps_versions b c \<Longrightarrow> keeps_versions a c"
  unfolding keeps_versions_def
  by (auto simp: list_all2_conv_all_nth intro: same_law_trans)

lemma exec_keeps_versions:
  assumes "stat_ok rows"
  shows "keeps_versions rows (snd (stat_exec other op rows))"
proof -
  have a: "keeps_versions rows (snd (active_config rows))"
    by (auto simp: active_config_def keeps_versions_def list_all2_conv_all_nth nth_append split: option.split)
  have b: "keeps_versions rs (map (\<lambda>r. r\<lparr>sc_active := False\<rparr>) rs @ [c])" for rs c
    by (simp add: keeps_versions_def list_all2_conv_all_nth)
  show ?thesis
  proof (cases op)
    case ReadActive
    then show ?thesis using a by (simp add: split_beta)
  next
    case (UpdateConfig p nt)
    from assms show ?thesis
      by (cases rule: update_config_cases [where other = other and p = p and nt = nt])
        (use UpdateConfig a b keeps_versions_trans in auto)
  qed
qed

text \<open>
  A version, once created, is never edited or removed: whatever updates follow, the row at its
  place has the same number, note, values and dates, so the version stamped on an assessment still
  says which law was used.
\<close>

theorem statutory_history_kept:
  "keeps_versions (run_ops (stat_exec other) ops []) (run_ops (stat_exec other) (ops @ later) [])"
proof -
  have "keeps_versions rows (run_ops (stat_exec other) later rows)" if "stat_ok rows" for rows
    using that
  proof (induction later arbitrary: rows)
    case Nil
    then show ?case by (simp add: keeps_versions_def list_all2_conv_all_nth)
  next
    case (Cons op later)
    have "stat_ok (snd (stat_exec other op rows))" using Cons.prems by (rule stat_exec_ok)
    from Cons.IH [OF this] exec_keeps_versions [OF Cons.prems, of other op] show ?case
      by (auto intro: keeps_versions_trans)
  qed
  moreover have "stat_ok (run_ops (stat_exec other) ops [])" by (rule statutory.run_inv) (simp add: stat_ok_def)
  ultimately show ?thesis by simp
qed

end
