(* ===== verification/TaxDb.thy ===== *)
theory TaxDb
  imports Submissions DetectionEngine Statutory
begin

text \<open>
  The tables the scan, the portfolios and the cases work on (\<open>backend/prisma/schema.prisma\<close>): taxpayers
  and ingested records with the columns a scan adds, the cases with their life cycle fields, and
  what storing a number in a decimal column does. An amount is the value its column holds.
\<close>

subsection \<open>Tables\<close>

datatype taxpayer_type = Individual | Corporate | Government

record person = taxpayer +
  tx_type :: taxpayer_type
  tx_limited :: bool
  tx_risk_score :: int
  tx_risk_level :: risk_level
  tx_risk_at :: "time option"

datatype review_status = PendingReview

record scored_record = data_record +
  sr_flagged :: bool
  sr_declared :: "rat option"
  sr_discrepancy :: "rat option"
  sr_discrepancy_pct :: "rat option"
  sr_flagged_at :: "time option"
  sr_review :: "review_status option"

datatype case_status = Open | UnderReview | NoticeIssued | Objection | Confirmed | Settled | Recovered | Dismissed | Closed

record assessment_basis =
  ab_version :: nat
  ab_observed :: rat
  ab_declared :: rat
  ab_discrepancy :: rat
  ab_assessed :: rat
  ab_basis :: tax_basis
  ab_comparison :: "(rat \<times> rat) option"
  ab_penalty_rate :: rat
  ab_penalty :: rat
  ab_total :: rat
  ab_window_days :: rat
  ab_issued_at :: string

record tax_case =
  tc_id :: string
  tc_taxpayer :: string
  tc_year :: nat
  tc_scan :: "string option"
  tc_observed :: rat
  tc_declared :: rat
  tc_discrepancy :: rat
  tc_discrepancy_pct :: rat
  tc_estimated_tax :: rat
  tc_tax_basis :: "tax_basis option"
  tc_alt_rate :: "rat option"
  tc_alt_due :: "rat option"
  tc_confidence :: rat
  tc_agent_score :: "rat option"
  tc_reasons :: "reason list"
  tc_providers :: nat
  tc_engine :: string
  tc_status :: case_status
  tc_risk :: risk_level
  tc_assigned :: "string option"
  tc_recovered :: "rat option"
  tc_assessed :: "rat option"
  tc_penalty :: "rat option"
  tc_total :: "rat option"
  tc_basis :: "assessment_basis option"
  tc_notice_ref :: "string option"
  tc_token :: "string option"
  tc_notice_at :: "time option"
  tc_objection_due :: "time option"
  tc_response_due :: "time option"
  tc_resolved_at :: "time option"
  tc_law_version :: "nat option"
  tc_grounds :: "string option"
  tc_filed_at :: "time option"
  tc_notes :: "string option"

subsection \<open>Decimal columns\<close>

text \<open>\<open>x.toFixed(n)\<close> read back: the nearest multiple of \<open>10\<^sup>-\<^sup>n\<close>, the larger one in magnitude when two are as near.\<close>

definition to_fixed :: "nat \<Rightarrow> rat \<Rightarrow> rat" where
  "to_fixed n x = (if x < 0 then - (of_int \<lfloor>- x * 10 ^ n + 1/2\<rfloor> / 10 ^ n) else of_int \<lfloor>x * 10 ^ n + 1/2\<rfloor> / 10 ^ n)"

text \<open>A column \<open>Decimal(p, s)\<close> holds values below \<open>10\<^sup>p\<^sup>-\<^sup>s\<close>; the database refuses a larger one.\<close>

definition fits :: "nat \<Rightarrow> nat \<Rightarrow> rat \<Rightarrow> bool" where
  "fits p s x \<longleftrightarrow> \<bar>to_fixed s x\<bar> < 10 ^ (p - s)"

lemma to_fixed_error: "\<bar>to_fixed n x - x\<bar> \<le> 1 / (2 * 10 ^ n)"
proof -
  have p: "(0::rat) < 10 ^ n" by simp
  have e: "\<bar>of_int \<lfloor>y * 10 ^ n + 1/2\<rfloor> / 10 ^ n - y\<bar> \<le> 1 / (2 * 10 ^ n)" for y :: rat
  proof -
    have "\<bar>of_int \<lfloor>y * 10 ^ n + 1/2\<rfloor> - y * 10 ^ n\<bar> \<le> 1 / 2" by linarith
    moreover have "of_int \<lfloor>y * 10 ^ n + 1/2\<rfloor> / 10 ^ n - y = (of_int \<lfloor>y * 10 ^ n + 1/2\<rfloor> - y * 10 ^ n) / 10 ^ n"
      using p by (simp add: field_simps)
    ultimately show ?thesis using p by (simp add: field_simps)
  qed
  have "\<bar>to_fixed n x - x\<bar> = (if x < 0 then \<bar>of_int \<lfloor>- x * 10 ^ n + 1/2\<rfloor> / 10 ^ n - (- x)\<bar>
      else \<bar>of_int \<lfloor>x * 10 ^ n + 1/2\<rfloor> / 10 ^ n - x\<bar>)"
    unfolding to_fixed_def by (simp add: abs_minus_commute) linarith
  then show ?thesis using e [of x] e [of "- x"] by simp
qed

lemma to_fixed_0 [simp]: "to_fixed n 0 = 0"
proof -
  have "\<lfloor>1 / 2 :: rat\<rfloor> = 0" by (simp add: floor_eq_iff)
  then show ?thesis by (simp add: to_fixed_def)
qed

lemma to_fixed_nonneg: "0 \<le> x \<Longrightarrow> 0 \<le> to_fixed n x"
  by (simp add: to_fixed_def)

text \<open>An amount as the sums of the database see it; a stored decimal is always finite.\<close>

definition stored_amount :: "jsnum option \<Rightarrow> rat option" where
  "stored_amount v = (case v of Some (Fin x) \<Rightarrow> Some x | _ \<Rightarrow> None)"

text \<open>\<open>SUM\<close> ignores nulls and is null when nothing is left.\<close>

definition sql_sum :: "rat option list \<Rightarrow> rat option" where
  "sql_sum xs = (let ys = concat (map (\<lambda>x. case x of None \<Rightarrow> [] | Some y \<Rightarrow> [y]) xs) in
     if ys = [] then None else Some (sum_list ys))"

end
