(* ===== verification/Portfolios.thy ===== *)
theory Portfolios
  imports TaxDb
begin

text \<open>
  Analyst portfolios and the routing of cases: \<open>backend/src/modules/portfolios/portfolios.service.ts\<close>.
  A portfolio gives a provider, a provider type or a sector to a member of staff; a case goes to the
  owner of the most specific match.
\<close>

subsection \<open>Portfolios\<close>

datatype scope = ProviderScope | TypeScope | SectorScope

definition scope_of :: "string \<Rightarrow> scope option" where
  "scope_of s = map_of [(''PROVIDER'', ProviderScope), (''PROVIDER_TYPE'', TypeScope), (''SECTOR'', SectorScope)] s"

record portfolio =
  pf_id :: string
  pf_staff :: string
  pf_scope :: scope
  pf_target :: string

datatype portfolio_error = InvalidScope | TargetRequired | StaffNotFound | OwnedProviderNotFound | AlreadyOwned | PortfolioNotFound

definition create_portfolio :: "string list \<Rightarrow> provider list \<Rightarrow> string \<Rightarrow> string \<Rightarrow> string \<Rightarrow> string \<Rightarrow> portfolio list \<Rightarrow>
    (portfolio_error, string, portfolio list) outcome" where
  "create_portfolio staff_ids provs fresh staff scope target rows =
     (case scope_of scope of None \<Rightarrow> (Inl InvalidScope, rows)
      | Some sc \<Rightarrow>
          (if target = [] then (Inl TargetRequired, rows)
           else if staff \<notin> set staff_ids then (Inl StaffNotFound, rows)
           else if sc = ProviderScope \<and> find_by pv_id target provs = None then (Inl OwnedProviderNotFound, rows)
           else if find_by (\<lambda>p. (pf_scope p, pf_target p)) (sc, target) rows \<noteq> None then (Inl AlreadyOwned, rows)
           else (Inr fresh, rows @ [\<lparr>pf_id = fresh, pf_staff = staff, pf_scope = sc, pf_target = target\<rparr>])))"

definition remove_portfolio :: "string \<Rightarrow> portfolio list \<Rightarrow> (portfolio_error, string, portfolio list) outcome" where
  "remove_portfolio pid rows = (case find_by pf_id pid rows of None \<Rightarrow> (Inl PortfolioNotFound, rows)
     | Some p \<Rightarrow> (Inr pid, filter (\<lambda>q. pf_id q \<noteq> pid) rows))"

subsection \<open>Routing\<close>

definition provider_ids_of :: "scored_record list \<Rightarrow> string \<Rightarrow> string list" where
  "provider_ids_of rs tid = remdups (map d_provider (filter (\<lambda>r. d_taxpayer r = Some tid) rs))"

definition provider_types_of :: "provider list \<Rightarrow> string list \<Rightarrow> string list" where
  "provider_types_of provs ids = remdups (concat (map (\<lambda>i. case find_by pv_id i provs of None \<Rightarrow> []
     | Some p \<Rightarrow> if pv_type p = [] then [] else [pv_type p]) ids))"

definition owner_among :: "portfolio list \<Rightarrow> scope \<Rightarrow> string list \<Rightarrow> string option" where
  "owner_among rows sc targets = (if targets = [] then None
     else map_option pf_staff (find (\<lambda>p. pf_scope p = sc \<and> pf_target p \<in> set targets) rows))"

definition sector_of :: "person list \<Rightarrow> string \<Rightarrow> string list" where
  "sector_of people tid = (case find_by tp_id tid people of None \<Rightarrow> []
     | Some p \<Rightarrow> if truthy (tp_sector p) then [the (tp_sector p)] else [])"

definition resolve_owner :: "portfolio list \<Rightarrow> scored_record list \<Rightarrow> provider list \<Rightarrow> person list \<Rightarrow> string \<Rightarrow> string option" where
  "resolve_owner rows rs provs people tid =
     (let ids = provider_ids_of rs tid; types = provider_types_of provs ids in
      case owner_among rows ProviderScope ids of Some s \<Rightarrow> Some s
      | None \<Rightarrow> (case owner_among rows TypeScope types of Some s \<Rightarrow> Some s
         | None \<Rightarrow> owner_among rows SectorScope (sector_of people tid)))"

datatype portfolio_op = AssignPortfolio string string string string | RemovePortfolio string

fun portfolio_exec :: "string list \<Rightarrow> provider list \<Rightarrow> portfolio_op \<Rightarrow> portfolio list \<Rightarrow> (portfolio_error, string, portfolio list) outcome" where
  "portfolio_exec staff provs (AssignPortfolio i s sc t) rows = create_portfolio staff provs i s sc t rows"
| "portfolio_exec staff provs (RemovePortfolio i) rows = remove_portfolio i rows"

subsection \<open>One owner, the most specific one\<close>

definition one_owner :: "portfolio list \<Rightarrow> bool" where
  "one_owner rows \<longleftrightarrow> distinct (map (\<lambda>p. (pf_scope p, pf_target p)) rows)"

lemma portfolio_exec_ok: "one_owner rows \<Longrightarrow> one_owner (snd (portfolio_exec staff provs op rows))"
  by (cases op)
    (auto simp: create_portfolio_def remove_portfolio_def one_owner_def find_by_None distinct_map_filter
      split: option.splits)

interpretation portfolios: service "portfolio_exec staff provs" one_owner for staff provs
  by unfold_locales (rule portfolio_exec_ok)

fun matches :: "scored_record list \<Rightarrow> provider list \<Rightarrow> person list \<Rightarrow> string \<Rightarrow> scope \<Rightarrow> string \<Rightarrow> bool" where
  "matches rs provs people tid ProviderScope t \<longleftrightarrow> (\<exists>r\<in>set rs. d_taxpayer r = Some tid \<and> d_provider r = t)"
| "matches rs provs people tid TypeScope t \<longleftrightarrow> t \<noteq> [] \<and> (\<exists>r\<in>set rs. d_taxpayer r = Some tid \<and>
     map_option pv_type (find_by pv_id (d_provider r) provs) = Some t)"
| "matches rs provs people tid SectorScope t \<longleftrightarrow> t \<noteq> [] \<and> (case find_by tp_id tid people of None \<Rightarrow> False | Some p \<Rightarrow> tp_sector p = Some t)"

fun scope_rank :: "scope \<Rightarrow> nat" where
  "scope_rank ProviderScope = 2" | "scope_rank TypeScope = 1" | "scope_rank SectorScope = 0"

definition targets_of :: "scored_record list \<Rightarrow> provider list \<Rightarrow> person list \<Rightarrow> string \<Rightarrow> scope \<Rightarrow> string list" where
  "targets_of rs provs people tid sc = (case sc of ProviderScope \<Rightarrow> provider_ids_of rs tid
     | TypeScope \<Rightarrow> provider_types_of provs (provider_ids_of rs tid) | SectorScope \<Rightarrow> sector_of people tid)"

lemma targets_matches: "t \<in> set (targets_of rs provs people tid sc) \<longleftrightarrow> matches rs provs people tid sc t"
proof (cases sc)
  case ProviderScope
  then show ?thesis by (auto simp: targets_of_def provider_ids_of_def)
next
  case TypeScope
  have "t \<in> set (provider_types_of provs ids) \<longleftrightarrow> t \<noteq> [] \<and> (\<exists>i\<in>set ids. map_option pv_type (find_by pv_id i provs) = Some t)" for ids
  proof -
    have "t \<in> set (case find_by pv_id i provs of None \<Rightarrow> [] | Some p \<Rightarrow> if pv_type p = [] then [] else [pv_type p]) \<longleftrightarrow>
        t \<noteq> [] \<and> map_option pv_type (find_by pv_id i provs) = Some t" for i
      by (cases "find_by pv_id i provs") auto
    then show ?thesis by (simp add: provider_types_of_def)
  qed
  then show ?thesis using TypeScope by (auto simp: targets_of_def provider_ids_of_def)
next
  case SectorScope
  then show ?thesis by (cases "find_by tp_id tid people"; cases "tp_sector (the (find_by tp_id tid people))")
    (auto simp: targets_of_def sector_of_def)
qed

declare matches.simps [simp del]

lemma owner_among_Some: "owner_among rows sc ts = Some s \<Longrightarrow> \<exists>p\<in>set rows. pf_scope p = sc \<and> pf_target p \<in> set ts \<and> pf_staff p = s"
  by (auto simp: owner_among_def find_Some_iff split: if_splits)

lemma owner_among_None: "owner_among rows sc ts = None \<longleftrightarrow> (\<forall>p\<in>set rows. \<not> (pf_scope p = sc \<and> pf_target p \<in> set ts))"
  by (auto simp: owner_among_def find_None_iff)

definition beaten :: "scored_record list \<Rightarrow> provider list \<Rightarrow> person list \<Rightarrow> string \<Rightarrow> nat \<Rightarrow> portfolio \<Rightarrow> bool" where
  "beaten rs provs people tid k p \<longleftrightarrow> \<not> matches rs provs people tid (pf_scope p) (pf_target p) \<or> scope_rank (pf_scope p) < k"

text \<open>
  A case is routed to the owner of a portfolio that matches the taxpayer, and no matching
  portfolio is more specific, where a provider beats a provider type and a type beats a sector; it is
  left unowned exactly when no portfolio matches at all.
\<close>

theorem owner_is_most_specific:
  "case resolve_owner rows rs provs people tid of
     None \<Rightarrow> list_all (beaten rs provs people tid 0) rows
   | Some s \<Rightarrow> \<exists>p\<in>set rows. pf_staff p = s \<and> matches rs provs people tid (pf_scope p) (pf_target p) \<and>
       list_all (beaten rs provs people tid (Suc (scope_rank (pf_scope p)))) rows"
proof -
  let ?o = "\<lambda>sc. owner_among rows sc (targets_of rs provs people tid sc)"
  have r: "resolve_owner rows rs provs people tid = (case ?o ProviderScope of Some s \<Rightarrow> Some s
      | None \<Rightarrow> (case ?o TypeScope of Some s \<Rightarrow> Some s | None \<Rightarrow> ?o SectorScope))"
    by (simp add: resolve_owner_def targets_of_def Let_def split: option.split)
  have none: "\<not> matches rs provs people tid (pf_scope p) (pf_target p)" if "?o sc = None" "p \<in> set rows" "pf_scope p = sc" for p sc
    using that targets_matches by (auto simp: owner_among_None)
  have some: "\<exists>p\<in>set rows. pf_staff p = s \<and> pf_scope p = sc \<and> matches rs provs people tid sc (pf_target p)" if "?o sc = Some s" for sc s
    using owner_among_Some [OF that] targets_matches by blast
  have rank: "scope_rank sc < 3" "0 < scope_rank sc \<Longrightarrow> sc \<noteq> SectorScope" "scope_rank sc = 2 \<Longrightarrow> sc = ProviderScope"
      "scope_rank sc = 1 \<Longrightarrow> sc = TypeScope" "scope_rank sc = 0 \<Longrightarrow> sc = SectorScope" for sc
    by (cases sc; simp)+
  show ?thesis
  proof (cases "?o ProviderScope")
    case (Some s)
    then obtain p where "p \<in> set rows" "pf_staff p = s" "pf_scope p = ProviderScope"
        "matches rs provs people tid ProviderScope (pf_target p)" using some by blast
    then show ?thesis using Some rank(1) by (auto simp: r beaten_def list_all_iff intro!: bexI [of _ p])
  next
    case no1: None
    show ?thesis
    proof (cases "?o TypeScope")
      case (Some s)
      then obtain p where p: "p \<in> set rows" "pf_staff p = s" "pf_scope p = TypeScope"
          "matches rs provs people tid TypeScope (pf_target p)" using some by blast
      have "beaten rs provs people tid 2 q" if "q \<in> set rows" for q
        using none [OF no1 that] rank(1) [of "pf_scope q"] rank(3) [of "pf_scope q"] by (cases "pf_scope q") (auto simp: beaten_def)
      then show ?thesis using Some no1 p by (auto simp: r list_all_iff numeral_2_eq_2 intro!: bexI [of _ p])
    next
      case no2: None
      show ?thesis
      proof (cases "?o SectorScope")
        case (Some s)
        then obtain p where p: "p \<in> set rows" "pf_staff p = s" "pf_scope p = SectorScope"
            "matches rs provs people tid SectorScope (pf_target p)" using some by blast
        have "beaten rs provs people tid 1 q" if "q \<in> set rows" for q
          using none [OF no1 that] none [OF no2 that] by (cases "pf_scope q") (auto simp: beaten_def)
        then show ?thesis using Some no1 no2 p by (auto simp: r list_all_iff intro!: bexI [of _ p])
      next
        case None
        have "\<not> matches rs provs people tid (pf_scope q) (pf_target q)" if "q \<in> set rows" for q
          using none [OF no1 that] none [OF no2 that] none [OF None that] by (cases "pf_scope q") simp_all
        then have "list_all (beaten rs provs people tid 0) rows" by (simp add: list_all_iff beaten_def)
        then show ?thesis unfolding r no1 no2 None by simp
      qed
    qed
  qed
qed

end
