(* ===== verification/Reportable.thy ===== *)
theory Reportable
  imports TaxDb
begin

text \<open>
  Who may be reported at all: \<open>backend/src/common/services/reportable.service.ts\<close>. The grouped query is
  written over the lists of records and taxpayers; the cache with its time to live and the table of
  computations in flight is a state machine over the calls and the ends of the queries.
\<close>

subsection \<open>The grouped query\<close>

text \<open>A label YYYY-MM counts for its quarter; every other label stands for itself.\<close>

definition quarter_key :: "string \<Rightarrow> string" where
  "quarter_key label =
     (if length label = 7 \<and> all_digits (take 4 label) \<and> take 2 (drop 4 label) = ''-Q'' \<and> quarter_digit (label ! 6) then label
      else if length label = 7 \<and> all_digits (take 4 label) \<and> label ! 4 = CHR ''-'' \<and> all_digits (drop 5 label)
      then take 4 label @ ''-Q'' @ dec_str ((parse_dec (drop 5 label) - 1) div 3 + 1)
      else label)"

definition is_account_opening :: "scored_record \<Rightarrow> bool" where
  "is_account_opening r \<longleftrightarrow> map_of (d_payload r) ''recordKind'' = Some (PString ''ACCOUNT_OPENED'')"

definition counted :: "nat option \<Rightarrow> string \<Rightarrow> scored_record \<Rightarrow> bool" where
  "counted year tid r \<longleftrightarrow> d_taxpayer r = Some tid \<and> (case year of None \<Rightarrow> True | Some y \<Rightarrow> d_period_year r = y) \<and>
     \<not> is_account_opening r"

definition quarter_inflow :: "nat option \<Rightarrow> string \<Rightarrow> string \<Rightarrow> scored_record list \<Rightarrow> rat option" where
  "quarter_inflow year tid key rs =
     sql_sum (map (\<lambda>r. stored_amount (d_total_inflow r)) (filter (\<lambda>r. counted year tid r \<and> quarter_key (d_period_label r) = key) rs))"

definition type_threshold :: "(stat_field \<Rightarrow> rat) \<Rightarrow> taxpayer_type \<Rightarrow> rat option" where
  "type_threshold cfg t = (case t of Individual \<Rightarrow> Some (cfg ReportingThresholdIndividual)
     | Corporate \<Rightarrow> Some (cfg ReportingThresholdCorporate) | Government \<Rightarrow> None)"

definition reaches :: "rat option \<Rightarrow> rat option \<Rightarrow> bool" where
  "reaches inflow threshold = (case (inflow, threshold) of (Some x, Some t) \<Rightarrow> t \<le> x | _ \<Rightarrow> False)"

definition reportable_ids :: "(stat_field \<Rightarrow> rat) \<Rightarrow> nat option \<Rightarrow> scored_record list \<Rightarrow> person list \<Rightarrow> string list" where
  "reportable_ids cfg year rs ts = remdups (map tp_id (filter (\<lambda>t.
     list_ex (\<lambda>r. reaches (quarter_inflow year (tp_id t) (quarter_key (d_period_label r)) rs) (type_threshold cfg (tx_type t))) rs) ts))"

subsection \<open>The quarter is the grain\<close>

lemma quarter_key_q: "take 2 (drop 4 l) = ''-Q'' \<Longrightarrow> quarter_key l = l"
proof -
  assume q: "take 2 (drop 4 l) = ''-Q''"
  then obtain k where k: "drop 4 l = ''-Q'' @ k" using append_take_drop_id [of 2 "drop 4 l"] by metis
  have "drop 5 l = drop 1 (drop 4 l)" by simp
  then have "drop 5 l = CHR ''Q'' # k" by (simp add: k)
  then have "\<not> all_digits (drop 5 l)" by (simp add: is_digit_def)
  then show ?thesis by (simp add: quarter_key_def)
qed

lemma quarter_key_idem: "quarter_key (quarter_key l) = quarter_key l"
proof -
  have "quarter_key (take 4 l @ ''-Q'' @ k) = take 4 l @ ''-Q'' @ k" if "length l = 7" for k
    using that by (intro quarter_key_q) simp
  then show ?thesis unfolding quarter_key_def [of l] by (auto simp: quarter_key_def [of l])
qed

fun sum_opt :: "rat option \<Rightarrow> rat option \<Rightarrow> rat option" where
  "sum_opt None y = y" | "sum_opt (Some x) None = Some x" | "sum_opt (Some x) (Some y) = Some (x + y)"

lemma sql_sum_append: "sql_sum (xs @ ys) = sum_opt (sql_sum xs) (sql_sum ys)"
proof -
  define c :: "rat option list \<Rightarrow> rat list" where "c = (\<lambda>xs. concat (map (\<lambda>x. case x of None \<Rightarrow> [] | Some y \<Rightarrow> [y]) xs))"
  have "sql_sum zs = (if c zs = [] then None else Some (sum_list (c zs)))" for zs by (simp add: sql_sum_def c_def Let_def)
  moreover have "c (xs @ ys) = c xs @ c ys" by (simp add: c_def)
  ultimately show ?thesis by auto
qed

lemma sql_sum_all: "ys \<noteq> [] \<Longrightarrow> sql_sum (map Some ys) = Some (sum_list ys)"
  by (cases ys) (simp_all add: sql_sum_def comp_def)

text \<open>The records that stand for one record: same taxpayer, year and quarter, amounts that add up to its amount.\<close>

definition splits_record :: "scored_record \<Rightarrow> scored_record list \<Rightarrow> bool" where
  "splits_record r parts \<longleftrightarrow> parts \<noteq> [] \<and> list_all (\<lambda>p. d_taxpayer p = d_taxpayer r \<and> d_period_year p = d_period_year r \<and>
     is_account_opening p = is_account_opening r \<and> quarter_key (d_period_label p) = quarter_key (d_period_label r)) parts \<and>
     (\<exists>xs. map (\<lambda>p. stored_amount (d_total_inflow p)) parts = map Some xs \<and> stored_amount (d_total_inflow r) = Some (sum_list xs))"

lemma quarter_inflow_split:
  assumes "splits_record r parts"
  shows "quarter_inflow year tid key (xs @ parts @ ys) = quarter_inflow year tid key (xs @ [r] @ ys)"
proof -
  let ?sum = "\<lambda>rs. sql_sum (map (\<lambda>r. stored_amount (d_total_inflow r))
      (filter (\<lambda>r. counted year tid r \<and> quarter_key (d_period_label r) = key) rs))"
  obtain zs where z: "parts \<noteq> []" "map (\<lambda>p. stored_amount (d_total_inflow p)) parts = map Some zs"
      "stored_amount (d_total_inflow r) = Some (sum_list zs)" using assms by (auto simp: splits_record_def)
  have same: "(counted year tid p \<and> quarter_key (d_period_label p) = key) = (counted year tid r \<and> quarter_key (d_period_label r) = key)"
    if "p \<in> set parts" for p
    using assms that by (auto simp: splits_record_def list_all_iff counted_def split: option.splits)
  have "?sum parts = ?sum [r]"
  proof (cases "counted year tid r \<and> quarter_key (d_period_label r) = key")
    case True
    then have "filter (\<lambda>r. counted year tid r \<and> quarter_key (d_period_label r) = key) parts = parts" using same by (simp add: filter_id_conv)
    moreover have "zs \<noteq> []" using z by auto
    ultimately show ?thesis using True z by (simp add: sql_sum_all sql_sum_def [of "[_]"])
  next
    case False
    then have "filter (\<lambda>r. counted year tid r \<and> quarter_key (d_period_label r) = key) parts = []" using same by (simp add: filter_empty_conv)
    moreover have "filter (\<lambda>r. counted year tid r \<and> quarter_key (d_period_label r) = key) [r] = []" using False by auto
    ultimately show ?thesis by simp
  qed
  then show ?thesis by (simp only: quarter_inflow_def filter_append map_append sql_sum_append)
qed

text \<open>
  The reporting threshold has the quarter as its grain: filing a quarter's inflow as one record or
  as several records of its months, in any split, makes no difference to who is reportable.
\<close>

theorem monthly_filing_same_bar:
  assumes "splits_record r parts"
  shows "reportable_ids cfg year (xs @ parts @ ys) ts = reportable_ids cfg year (xs @ [r] @ ys) ts"
proof -
  have "set (map (\<lambda>r. quarter_key (d_period_label r)) (xs @ parts @ ys)) = set (map (\<lambda>r. quarter_key (d_period_label r)) (xs @ [r] @ ys))" (is "?K")
  proof -
    have "(\<lambda>r. quarter_key (d_period_label r)) ` set parts = {quarter_key (d_period_label r)}"
      using assms by (cases parts) (auto simp: splits_record_def list_all_iff)
    then show ?thesis by (simp add: image_Un)
  qed
  then have "list_ex (\<lambda>r. P (quarter_key (d_period_label r))) (xs @ parts @ ys) = list_ex (\<lambda>r. P (quarter_key (d_period_label r))) (xs @ [r] @ ys)"
    for P
  proof -
    have "list_ex (\<lambda>r. P (quarter_key (d_period_label r))) rs \<longleftrightarrow> list_ex P (map (\<lambda>r. quarter_key (d_period_label r)) rs)" for rs :: "scored_record list"
      by (auto simp: list_ex_iff)
    then show ?thesis using \<open>?K\<close> by (simp only: list_ex_iff)
  qed
  from this [of "\<lambda>k. reaches (quarter_inflow year (tp_id t) k (xs @ [r] @ ys)) (type_threshold cfg (tx_type t))" for t]
  show ?thesis unfolding reportable_ids_def quarter_inflow_split [OF assms]
    by (intro arg_cong [where f = remdups] arg_cong [where f = "map tp_id"] filter_cong refl) fast
qed

definition blank_record :: scored_record where
  "blank_record = \<lparr>d_submission = ''s1'', d_provider = ''p1'', d_provider_type = ''BANK'', d_taxpayer = Some ''t1'',
     d_account_number = None, d_bvn = None, d_nin = None, d_phone = None, d_wallet = None, d_merchant = None,
     d_account_name = None, d_match_method = ByTin, d_match_confidence = Some (lit 97 100), d_account_index = None,
     d_bvn_index = None, d_nin_index = None, d_tin = None, d_tin_index = None, d_period_label = ''2026-Q1'',
     d_period_year = 2026, d_total_inflow = Some (Fin 60000000), d_total_outflow = None, d_opening_balance = None,
     d_closing_balance = None, d_transaction_count = None, d_payload = [],
     sr_flagged = False, sr_declared = None, sr_discrepancy = None, sr_discrepancy_pct = None, sr_flagged_at = None,
     sr_review = None\<rparr>"

definition demo_person :: person where
  "demo_person = \<lparr>tp_id = ''t1'', tp_nin_index = None, tp_tin_index = None, tp_tin_enc = None, tp_bvn_index = None,
     tp_business_name = None, tp_first_name = Some ''Ada'', tp_last_name = Some ''Obi'', tp_sector = None,
     tp_business_type = None, tx_type = Individual, tx_limited = False, tx_risk_score = 100, tx_risk_level = Low,
     tx_risk_at = None\<rparr>"

theorem monthly_filing_same_bar_witness:
  "reportable_ids default_value None ([] @ [blank_record\<lparr>d_period_label := ''2026-01'', d_total_inflow := Some (Fin 20000000)\<rparr>,
      blank_record\<lparr>d_period_label := ''2026-03'', d_total_inflow := Some (Fin 40000000)\<rparr>] @ []) [demo_person] =
   reportable_ids default_value None ([] @ [blank_record] @ []) [demo_person]"
proof (rule monthly_filing_same_bar)
  have k: "quarter_key ''2026-01'' = ''2026-Q1''" "quarter_key ''2026-03'' = ''2026-Q1''" "quarter_key ''2026-Q1'' = ''2026-Q1''"
    by code_simp+
  show "splits_record blank_record [blank_record\<lparr>d_period_label := ''2026-01'', d_total_inflow := Some (Fin 20000000)\<rparr>,
      blank_record\<lparr>d_period_label := ''2026-03'', d_total_inflow := Some (Fin 40000000)\<rparr>]"
    unfolding splits_record_def
    by (intro conjI exI [of _ "[20000000, 40000000]"])
      (simp_all add: blank_record_def k is_account_opening_def stored_amount_def)
qed


subsection \<open>The cache\<close>

text \<open>
  The answers are kept per key for one minute and a computation that is under way is shared. A call
  either answers from the cache, joins the computation of its key, or starts one; the query sees the
  data of the moment it starts, given by \<open>compute s key\<close> for the moment \<open>s\<close>. Its end stores the answer.
\<close>

definition cache_key :: "nat option \<Rightarrow> string" where
  "cache_key year = (case year of None \<Rightarrow> ''all'' | Some y \<Rightarrow> if y = 0 then ''all'' else ''y:'' @ dec_str y)"

definition ttl_ms :: int where "ttl_ms = 60000"

record report_cache =
  rc_cache :: "string \<rightharpoonup> time \<times> string list"
  rc_in_flight :: "string \<rightharpoonup> time \<times> string list"

definition ask :: "(time \<Rightarrow> string \<Rightarrow> string list) \<Rightarrow> time \<Rightarrow> string \<Rightarrow> report_cache \<Rightarrow> string list option \<times> report_cache" where
  "ask compute now k c =
     (case (case rc_cache c k of None \<Rightarrow> None | Some (since, ids) \<Rightarrow> if now - since < ttl_ms then Some ids else None) of
        Some ids \<Rightarrow> (Some ids, c)
      | None \<Rightarrow> (case rc_in_flight c k of Some _ \<Rightarrow> (None, c)
          | None \<Rightarrow> (None, c\<lparr>rc_in_flight := (rc_in_flight c)(k \<mapsto> (now, compute now k))\<rparr>)))"

definition ended :: "time \<Rightarrow> string \<Rightarrow> report_cache \<Rightarrow> string list option \<times> report_cache" where
  "ended now k c = (case rc_in_flight c k of None \<Rightarrow> (None, c)
     | Some (_, ids) \<Rightarrow> (Some ids, c\<lparr>rc_cache := (rc_cache c)(k \<mapsto> (now, ids)), rc_in_flight := (rc_in_flight c)(k := None)\<rparr>))"

definition broke :: "string \<Rightarrow> report_cache \<Rightarrow> report_cache" where
  "broke k c = c\<lparr>rc_in_flight := (rc_in_flight c)(k := None)\<rparr>"

text \<open>One event at its time; the answer is what a caller of the key receives at that moment.\<close>

inductive cache_step :: "(time \<Rightarrow> string \<Rightarrow> string list) \<Rightarrow> int \<Rightarrow> time \<times> report_cache \<Rightarrow> string \<times> string list option \<Rightarrow>
    time \<times> report_cache \<Rightarrow> bool"
  for compute :: "time \<Rightarrow> string \<Rightarrow> string list" and limit :: int where
  step_ask: "now \<le> t \<Longrightarrow> ask compute t k c = (a, c') \<Longrightarrow> cache_step compute limit (now, c) (k, a) (t, c')"
| step_ended: "now \<le> t \<Longrightarrow> rc_in_flight c k = Some (s, ids) \<Longrightarrow> t - s \<le> limit \<Longrightarrow> ended t k c = (a, c') \<Longrightarrow>
    cache_step compute limit (now, c) (k, a) (t, c')"
| step_broke: "now \<le> t \<Longrightarrow> cache_step compute limit (now, c) (k, None) (t, broke k c)"

inductive_cases cache_step_cases: "cache_step compute limit (now, c) (k, a) (t, c')"

inductive cache_reach :: "(time \<Rightarrow> string \<Rightarrow> string list) \<Rightarrow> int \<Rightarrow> time \<Rightarrow> report_cache \<Rightarrow> bool"
  for compute :: "time \<Rightarrow> string \<Rightarrow> string list" and limit :: int where
  reach_start: "cache_reach compute limit t \<lparr>rc_cache = Map.empty, rc_in_flight = Map.empty\<rparr>"
| reach_step: "cache_reach compute limit now c \<Longrightarrow> cache_step compute limit (now, c) (k, a) (t, c') \<Longrightarrow> cache_reach compute limit t c'"

text \<open>Every kept answer was computed from the data at most \<open>limit\<close> before it was stored, and every
  computation in flight holds the data of the moment it started.\<close>

definition cache_ok :: "(time \<Rightarrow> string \<Rightarrow> string list) \<Rightarrow> int \<Rightarrow> time \<Rightarrow> report_cache \<Rightarrow> bool" where
  "cache_ok compute limit now c \<longleftrightarrow>
     (\<forall>k since ids. rc_cache c k = Some (since, ids) \<longrightarrow> since \<le> now \<and> (\<exists>s. s \<le> since \<and> since - s \<le> limit \<and> ids = compute s k)) \<and>
     (\<forall>k s ids. rc_in_flight c k = Some (s, ids) \<longrightarrow> s \<le> now \<and> ids = compute s k)"

lemma ask_cases:
  assumes "ask compute t k c = (a, c')"
  obtains (hit) since ids where "rc_cache c k = Some (since, ids)" "t - since < ttl_ms" "a = Some ids" "c' = c"
  | (joined) "a = None" "c' = c"
  | (started) "a = None" "c' = c\<lparr>rc_in_flight := (rc_in_flight c)(k \<mapsto> (t, compute t k))\<rparr>"
proof -
  define h where "h = (case rc_cache c k of None \<Rightarrow> None | Some (since, ids) \<Rightarrow> if t - since < ttl_ms then Some ids else None)"
  have "ask compute t k c = (case h of Some ids \<Rightarrow> (Some ids, c)
      | None \<Rightarrow> (case rc_in_flight c k of Some _ \<Rightarrow> (None, c)
          | None \<Rightarrow> (None, c\<lparr>rc_in_flight := (rc_in_flight c)(k \<mapsto> (t, compute t k))\<rparr>)))"
    by (simp add: ask_def h_def)
  moreover have "\<exists>since. rc_cache c k = Some (since, ids) \<and> t - since < ttl_ms" if "h = Some ids" for ids
    using that by (auto simp: h_def split: option.splits if_splits)
  ultimately show ?thesis using assms hit joined started by (cases h; cases "rc_in_flight c k") auto
qed

lemma cache_step_elim:
  assumes "cache_step compute limit (now, c) (k, a) (t, c')"
  obtains (asked) "now \<le> t" "ask compute t k c = (a, c')"
  | (finished) s ids where "now \<le> t" "rc_in_flight c k = Some (s, ids)" "t - s \<le> limit" "ended t k c = (a, c')"
  | (failed) "now \<le> t" "a = None" "c' = broke k c"
  using assms by (elim cache_step_cases)

lemma cache_step_ok:
  assumes "cache_ok compute limit now c" "cache_step compute limit (now, c) (k, a) (t, c')"
  shows "cache_ok compute limit t c' \<and> now \<le> t \<and>
    (case a of None \<Rightarrow> True | Some ids \<Rightarrow> \<exists>s. s \<le> t \<and> t - s < ttl_ms + max 0 limit \<and> ids = compute s k)"
  using assms(2)
proof (cases rule: cache_step_elim)
  case asked
  note step_ask = asked
  have later: "cache_ok compute limit t c" using assms(1) step_ask(1) unfolding cache_ok_def by force
  from step_ask(2) show ?thesis
  proof (cases rule: ask_cases)
    case (hit since ids)
    obtain s where "s \<le> since" "since - s \<le> limit" "ids = compute s k" "since \<le> now"
      using assms(1) hit(1) unfolding cache_ok_def by blast
    moreover have "t - s < ttl_ms + max 0 limit" using hit(2) calculation by linarith
    ultimately have "s \<le> t \<and> t - s < ttl_ms + max 0 limit \<and> ids = compute s k" using step_ask(1) by simp
    then have "\<exists>s. s \<le> t \<and> t - s < ttl_ms + max 0 limit \<and> ids = compute s k" by blast
    then show ?thesis using later hit(3,4) step_ask(1) by simp
  next
    case joined
    then show ?thesis using later step_ask(1) by simp
  next
    case started
    have "cache_ok compute limit t c'" using later unfolding started(2) cache_ok_def by auto
    then show ?thesis using started(1) step_ask(1) by simp
  qed
next
  case (finished s ids)
  note step_ended = finished
  have s: "s \<le> now" "ids = compute s k" using assms(1) step_ended(2) unfolding cache_ok_def by auto
  have e: "a = Some ids" "c' = c\<lparr>rc_cache := (rc_cache c)(k \<mapsto> (t, ids)), rc_in_flight := (rc_in_flight c)(k := None)\<rparr>"
    using step_ended(2,4) by (auto simp: ended_def)
  have "s \<le> t \<and> t - s \<le> limit" using s step_ended(1,3) by simp
  moreover have "cache_ok compute limit t c'"
    using assms(1) step_ended(1) calculation s(2) unfolding e(2) cache_ok_def by (auto simp: le_max_iff_disj) force+
  moreover have "t - s < ttl_ms + max 0 limit" using calculation(1) by (simp add: ttl_ms_def)
  ultimately have "s \<le> t \<and> t - s < ttl_ms + max 0 limit \<and> ids = compute s k" "cache_ok compute limit t c'"
    using s(2) by simp_all
  then show ?thesis unfolding e(1) option.case using step_ended(1) by blast
next
  case failed
  then show ?thesis using assms(1) unfolding cache_ok_def by (auto simp: broke_def) force+
qed

lemma cache_reach_ok: "cache_reach compute limit now c \<Longrightarrow> cache_ok compute limit now c"
  by (induction rule: cache_reach.induct) (auto simp: cache_ok_def [of _ _ _ "\<lparr>rc_cache = _, rc_in_flight = _\<rparr>"] dest: cache_step_ok)

text \<open>
  In every reachable state of the cache an answer handed out was right at some moment less than one
  minute plus the longest query time before: no call ever receives an older set, whatever the
  interleaving of calls, shared computations, failures and expiries.
\<close>

theorem reportable_answers_fresh:
  assumes "cache_reach compute limit now c" and "cache_step compute limit (now, c) (k, Some ids) (t, c')"
  shows "\<exists>s. s \<le> t \<and> t - s < ttl_ms + max 0 limit \<and> ids = compute s k"
  using cache_step_ok [OF cache_reach_ok [OF assms(1)] assms(2)] by simp

theorem reportable_answers_fresh_witness:
  "\<exists>s. s \<le> 5 \<and> 5 - s < ttl_ms + max 0 100 \<and> [''t1''] = (\<lambda>s k. [''t1'']) s (cache_key None)"
proof -
  let ?f = "\<lambda>s k. [''t1'']"
  let ?c0 = "\<lparr>rc_cache = Map.empty, rc_in_flight = Map.empty\<rparr>"
  let ?c1 = "?c0\<lparr>rc_in_flight := [cache_key None \<mapsto> (2, [''t1''])]\<rparr>"
  let ?c2 = "\<lparr>rc_cache = [cache_key None \<mapsto> (5, [''t1''])], rc_in_flight = Map.empty\<rparr>"
  have r: "cache_reach ?f 100 2 ?c1"
    by (rule reach_step [OF reach_start [where t = 0]], rule step_ask) (simp_all add: ask_def)
  have s: "cache_step ?f 100 (2, ?c1) (cache_key None, Some [''t1'']) (5, ?c2)"
    by (rule step_ended [of _ _ _ _ 2 "[''t1'']"]) (simp_all add: ended_def)
  show ?thesis by (rule reportable_answers_fresh [OF r s])
qed

end
