(* ===== verification/Scan.thy ===== *)
theory Scan
  imports Portfolios Reportable
begin

text \<open>
  The underdeclaration scan: \<open>backend/src/modules/scan/scan.service.ts\<close>. A scan works through the
  reportable taxpayers one by one, stamps their records, opens or refreshes their case, routes it,
  notifies the analyst and updates the taxpayer's risk. A number that does not fit its decimal column
  is refused by the database and ends the scan as failed, with the taxpayers before it processed.
\<close>

subsection \<open>State\<close>

datatype scan_status = Running | Completed | Failed

record scan_row =
  sn_id :: string
  sn_year :: nat
  sn_threshold :: rat
  sn_types :: "string list"
  sn_status :: scan_status
  sn_scanned :: nat
  sn_flagged :: nat
  sn_total :: "rat option"
  sn_completed_at :: "time option"

datatype severity = Warning | CriticalSeverity

record case_notice =
  no_severity :: severity
  no_case :: string
  no_target :: string

record tax_db =
  td_records :: "scored_record list"
  td_people :: "person list"
  td_cases :: "tax_case list"
  td_declared :: "((string \<times> nat) \<times> rat option) list"
  td_sector_thresholds :: "(string \<times> rat) list"
  td_config :: "stat_config list"
  td_portfolios :: "portfolio list"
  td_providers :: "provider list"
  td_notices :: "case_notice list"
  td_scans :: "scan_row list"

text \<open>The database's average, the clock, and the id of the case created for a taxpayer.\<close>

record scan_env =
  se_avg :: "rat list \<Rightarrow> rat"
  se_now :: time
  se_case_id :: "string \<Rightarrow> string"

datatype scan_error = YearRequired | NumericOverflow

definition engine_version :: string where "engine_version = ''v2.1''"

subsection \<open>Aggregates\<close>

definition selected :: "nat \<Rightarrow> string list \<Rightarrow> string \<Rightarrow> scored_record \<Rightarrow> bool" where
  "selected year types tid r \<longleftrightarrow> d_period_year r = year \<and> d_taxpayer r = Some tid \<and> (types = [] \<or> d_provider_type r \<in> set types)"

record agg =
  ag_inflow :: rat
  ag_outflow :: rat
  ag_providers :: nat
  ag_conf :: "rat option"

definition total_of :: "(scored_record \<Rightarrow> jsnum option) \<Rightarrow> scored_record list \<Rightarrow> rat" where
  "total_of f rs = fl (case sql_sum (map (\<lambda>r. stored_amount (f r)) rs) of None \<Rightarrow> 0 | Some x \<Rightarrow> x)"

definition agg_of :: "scan_env \<Rightarrow> scored_record list \<Rightarrow> agg" where
  "agg_of env rs =
     (let confs = concat (map (\<lambda>r. case d_match_confidence r of None \<Rightarrow> [] | Some c \<Rightarrow> [c]) rs) in
      \<lparr>ag_inflow = total_of d_total_inflow rs, ag_outflow = total_of d_total_outflow rs,
       ag_providers = length (remdups (map d_provider rs)),
       ag_conf = (if confs = [] then None else Some (fl (se_avg env confs)))\<rparr>)"

text \<open>The groups of the query: the reportable taxpayers that have a selected record.\<close>

definition groups :: "string list \<Rightarrow> nat \<Rightarrow> string list \<Rightarrow> tax_db \<Rightarrow> string list" where
  "groups ids year types st = filter (\<lambda>tid. list_ex (selected year types tid) (td_records st)) ids"

subsection \<open>The verdict on one taxpayer\<close>

record verdict =
  vd_observed :: rat
  vd_discount :: rat
  vd_declared :: rat
  vd_has_declaration :: bool
  vd_discrepancy :: rat
  vd_pct :: rat
  vd_flag :: bool
  vd_agg :: agg

definition limited_liability :: "person \<Rightarrow> bool" where
  "limited_liability p \<longleftrightarrow> tx_limited p \<or> is_llc_name (tp_business_name p)"

text \<open>
  \<open>(sector && overrides.get(sector)) ?? threshold\<close>: an empty sector string is kept by the operator and
  compares as zero.
\<close>

definition effective_threshold :: "(string \<times> rat) list \<Rightarrow> rat \<Rightarrow> string option \<Rightarrow> rat" where
  "effective_threshold overrides threshold sector = (case sector of None \<Rightarrow> threshold
     | Some s \<Rightarrow> if s = [] then 0 else (case map_of overrides s of None \<Rightarrow> threshold | Some t \<Rightarrow> t))"

definition verdict_of :: "scan_env \<Rightarrow> nat \<Rightarrow> rat \<Rightarrow> string list \<Rightarrow> tax_db \<Rightarrow> person \<Rightarrow> verdict" where
  "verdict_of env year threshold types st p =
     (let a = agg_of env (filter (selected year types (tp_id p)) (td_records st));
          row = map_of (td_declared st) (tp_id p, year);
          declared = (case row of Some (Some x) \<Rightarrow> fl x | _ \<Rightarrow> 0);
          (observed, discount) = normalize_inflow (ag_inflow a) (ag_outflow a);
          discrepancy = fsub observed declared;
          pct = (if 0 < declared then fdiv discrepancy declared else if 0 < observed then 1 else 0)
      in \<lparr>vd_observed = observed, vd_discount = discount, vd_declared = declared, vd_has_declaration = (row \<noteq> None),
          vd_discrepancy = discrepancy, vd_pct = pct,
          vd_flag = (0 < discrepancy \<and> effective_threshold (td_sector_thresholds st) threshold (tp_sector p) < pct),
          vd_agg = a\<rparr>)"

text \<open>The columns stamped on the taxpayer's records.\<close>

definition stamp_fits :: "verdict \<Rightarrow> bool" where
  "stamp_fits v \<longleftrightarrow> fits 18 2 (vd_declared v) \<and> fits 18 2 (max 0 (vd_discrepancy v)) \<and> fits 8 4 (max 0 (vd_pct v))"

definition stamp :: "scan_env \<Rightarrow> nat \<Rightarrow> string list \<Rightarrow> string \<Rightarrow> verdict \<Rightarrow> scored_record list \<Rightarrow> scored_record list" where
  "stamp env year types tid v rs = map (\<lambda>r. if selected year types tid r then r\<lparr>sr_flagged := vd_flag v,
      sr_declared := Some (vd_declared v), sr_discrepancy := Some (to_fixed 2 (max 0 (vd_discrepancy v))),
      sr_discrepancy_pct := Some (to_fixed 4 (max 0 (vd_pct v))),
      sr_flagged_at := (if vd_flag v then Some (se_now env) else None),
      sr_review := (if vd_flag v then Some PendingReview else None)\<rparr> else r) rs"

definition signals_of :: "verdict \<Rightarrow> case_signals" where
  "signals_of v = \<lparr>cs_discrepancy_pct = vd_pct v, cs_providers = ag_providers (vd_agg v),
     cs_match = (case ag_conf (vd_agg v) of None \<Rightarrow> lit 1 2 | Some c \<Rightarrow> c), cs_discount = vd_discount v,
     cs_declared = vd_has_declaration v\<rparr>"

definition estimate_of :: "rat \<Rightarrow> verdict \<Rightarrow> tax_estimate" where
  "estimate_of rate v = estimate_additional_tax (vd_declared v) (vd_observed v) False (Some rate)"

definition case_fits :: "rat \<Rightarrow> verdict \<Rightarrow> bool" where
  "case_fits rate v \<longleftrightarrow> fits 18 2 (vd_observed v) \<and> fits 18 2 (te_tax (estimate_of rate v)) \<and>
     (case te_flat_rate (estimate_of rate v) of None \<Rightarrow> True | Some r \<Rightarrow> fits 5 4 r) \<and>
     (case te_flat_tax (estimate_of rate v) of None \<Rightarrow> True | Some t \<Rightarrow> fits 18 2 t)"

text \<open>The columns of a case that a scan writes, on a new case or over an existing one.\<close>

definition case_data :: "string \<Rightarrow> rat \<Rightarrow> verdict \<Rightarrow> tax_case \<Rightarrow> tax_case" where
  "case_data scan rate v c = (let e = estimate_of rate v; (confidence, reasons) = score_case (signals_of v) in
     c\<lparr>tc_scan := Some scan, tc_observed := to_fixed 2 (vd_observed v), tc_declared := to_fixed 2 (vd_declared v),
       tc_discrepancy := to_fixed 2 (max 0 (vd_discrepancy v)), tc_discrepancy_pct := to_fixed 4 (max 0 (vd_pct v)),
       tc_estimated_tax := to_fixed 2 (te_tax e), tc_tax_basis := Some (te_basis e),
       tc_alt_rate := map_option (to_fixed 4) (te_flat_rate e), tc_alt_due := map_option (to_fixed 2) (te_flat_tax e),
       tc_confidence := to_fixed 2 confidence, tc_reasons := reasons, tc_providers := ag_providers (vd_agg v),
       tc_engine := engine_version, tc_risk := confidence_to_risk confidence\<rparr>)"

definition new_case :: "string \<Rightarrow> string \<Rightarrow> nat \<Rightarrow> tax_case" where
  "new_case cid tid year = \<lparr>tc_id = cid, tc_taxpayer = tid, tc_year = year, tc_scan = None, tc_observed = 0,
     tc_declared = 0, tc_discrepancy = 0, tc_discrepancy_pct = 0, tc_estimated_tax = 0, tc_tax_basis = None,
     tc_alt_rate = None, tc_alt_due = None, tc_confidence = 0, tc_agent_score = None, tc_reasons = [], tc_providers = 0, tc_engine = [],
     tc_status = Open, tc_risk = Medium, tc_assigned = None, tc_recovered = None, tc_assessed = None, tc_penalty = None,
     tc_total = None, tc_basis = None, tc_notice_ref = None, tc_token = None, tc_notice_at = None,
     tc_objection_due = None, tc_response_due = None, tc_resolved_at = None, tc_law_version = None, tc_grounds = None,
     tc_filed_at = None, tc_notes = None\<rparr>"

definition case_key :: "tax_case \<Rightarrow> string \<times> nat" where "case_key c = (tc_taxpayer c, tc_year c)"

text \<open>The analyst who holds the case already, and the one it is newly routed to when nobody does.\<close>

definition holder :: "tax_case option \<Rightarrow> string option" where
  "holder old = (case old of None \<Rightarrow> None | Some c \<Rightarrow> if truthy (tc_assigned c) then tc_assigned c else None)"

definition newly_assigned :: "tax_db \<Rightarrow> string \<Rightarrow> tax_case option \<Rightarrow> string option" where
  "newly_assigned st tid old = (if holder old \<noteq> None then None
     else (let owner = resolve_owner (td_portfolios st) (td_records st) (td_providers st) (td_people st) tid in
           if truthy owner then owner else None))"

definition write_case :: "string \<Rightarrow> rat \<Rightarrow> verdict \<Rightarrow> string option \<Rightarrow> tax_case \<Rightarrow> tax_case" where
  "write_case scan rate v assigned c =
     (let d = case_data scan rate v c in if truthy assigned then d\<lparr>tc_assigned := assigned\<rparr> else d)"

definition upsert_case :: "scan_env \<Rightarrow> string \<Rightarrow> nat \<Rightarrow> rat \<Rightarrow> verdict \<Rightarrow> person \<Rightarrow> tax_db \<Rightarrow> tax_db" where
  "upsert_case env scan year rate v p st =
     (let tid = tp_id p; old = find_by case_key (tid, year) (td_cases st); newly = newly_assigned st tid old;
          wr = write_case scan rate v (if holder old = None then newly else holder old);
          cases' = (case old of None \<Rightarrow> td_cases st @ [wr (new_case (se_case_id env tid) tid year)]
             | Some c \<Rightarrow> update_by case_key (tid, year) wr (td_cases st));
          cid = (case old of None \<Rightarrow> se_case_id env tid | Some c \<Rightarrow> tc_id c);
          notices = (case newly of None \<Rightarrow> [] | Some target \<Rightarrow>
             [\<lparr>no_severity = (if lit 7 10 \<le> fst (score_case (signals_of v)) then CriticalSeverity else Warning),
               no_case = cid, no_target = target\<rparr>])
      in st\<lparr>td_cases := cases', td_notices := td_notices st @ notices\<rparr>)"

definition update_risk :: "scan_env \<Rightarrow> string \<Rightarrow> rat \<Rightarrow> tax_db \<Rightarrow> tax_db" where
  "update_risk env tid confidence st = st\<lparr>td_people := update_by tp_id tid (\<lambda>p. p\<lparr>
     tx_risk_score := max 0 \<lfloor>fsub 100 (fmul confidence 80) + 1/2\<rfloor>,
     tx_risk_level := confidence_to_risk confidence, tx_risk_at := Some (se_now env)\<rparr>) (td_people st)\<rparr>"

text \<open>One taxpayer: skipped, stamped without a flag, or flagged with the estimated tax.\<close>

definition scan_taxpayer :: "scan_env \<Rightarrow> string \<Rightarrow> nat \<Rightarrow> rat \<Rightarrow> string list \<Rightarrow> rat \<Rightarrow> string \<Rightarrow> tax_db \<Rightarrow>
    (scan_error, rat option, tax_db) outcome" where
  "scan_taxpayer env scan year threshold types rate tid st =
     (case find_by tp_id tid (td_people st) of None \<Rightarrow> (Inr None, st)
      | Some p \<Rightarrow>
          (if limited_liability p then (Inr None, st)
           else (let v = verdict_of env year threshold types st p in
             if \<not> stamp_fits v then (Inl NumericOverflow, st)
             else (let st1 = st\<lparr>td_records := stamp env year types tid v (td_records st)\<rparr> in
               if \<not> vd_flag v then (Inr None, st1)
               else if \<not> case_fits rate v then (Inl NumericOverflow, st1)
               else (Inr (Some (te_tax (estimate_of rate v))),
                 update_risk env tid (fst (score_case (signals_of v))) (upsert_case env scan year rate v p st1))))))"

fun scan_loop :: "(string \<Rightarrow> tax_db \<Rightarrow> (scan_error, rat option, tax_db) outcome) \<Rightarrow> string list \<Rightarrow> nat \<Rightarrow> rat \<Rightarrow> tax_db \<Rightarrow>
    (scan_error, nat \<times> rat, tax_db) outcome" where
  "scan_loop step [] n tot st = (Inr (n, tot), st)"
| "scan_loop step (tid # tids) n tot st = (case step tid st of
     (Inl e, st') \<Rightarrow> (Inl e, st')
   | (Inr None, st') \<Rightarrow> scan_loop step tids n tot st'
   | (Inr (Some tax), st') \<Rightarrow> scan_loop step tids (Suc n) (fadd tot tax) st')"

text \<open>The run itself; \<open>ids\<close> is the answer of \<open>reportableTaxpayerIds\<close> for the year.\<close>

definition run_scan :: "scan_env \<Rightarrow> string list \<Rightarrow> string \<Rightarrow> nat \<Rightarrow> rat \<Rightarrow> string list \<Rightarrow> tax_db \<Rightarrow> (scan_error, unit, tax_db) outcome" where
  "run_scan env ids scan year threshold types st0 =
     (let (cfg, rows) = active_config (td_config st0);
          st = st0\<lparr>td_config := rows\<rparr>; gs = groups ids year types st in
      case scan_loop (scan_taxpayer env scan year threshold types (sc_value cfg CitRate)) gs 0 0 st of
        (Inl e, st') \<Rightarrow> (Inl e, st'\<lparr>td_scans := update_by sn_id scan
            (\<lambda>s. s\<lparr>sn_status := Failed, sn_completed_at := Some (se_now env)\<rparr>) (td_scans st')\<rparr>)
      | (Inr (n, tot), st') \<Rightarrow>
          (if fits 18 2 tot
           then (Inr (), st'\<lparr>td_scans := update_by sn_id scan
              (\<lambda>s. s\<lparr>sn_status := Completed, sn_scanned := length gs, sn_flagged := n,
                 sn_total := Some (to_fixed 2 tot), sn_completed_at := Some (se_now env)\<rparr>) (td_scans st')\<rparr>)
           else (Inl NumericOverflow, st'\<lparr>td_scans := update_by sn_id scan
              (\<lambda>s. s\<lparr>sn_status := Failed, sn_completed_at := Some (se_now env)\<rparr>) (td_scans st')\<rparr>)))"

definition create_scan :: "string \<Rightarrow> nat \<Rightarrow> rat option \<Rightarrow> string list \<Rightarrow> tax_db \<Rightarrow> (scan_error, string \<times> rat, tax_db) outcome" where
  "create_scan scan year threshold types st =
     (if year = 0 then (Inl YearRequired, st)
      else (let (t, st1) = (case threshold of Some t \<Rightarrow> (t, st)
              | None \<Rightarrow> (let (cfg, rows) = active_config (td_config st) in (sc_value cfg DefaultScanThreshold, st\<lparr>td_config := rows\<rparr>)))
        in if \<not> fits 5 4 t then (Inl NumericOverflow, st1)
           else (Inr (scan, t), st1\<lparr>td_scans := td_scans st1 @ [\<lparr>sn_id = scan, sn_year = year, sn_threshold = to_fixed 4 t,
              sn_types = types, sn_status = Running, sn_scanned = 0, sn_flagged = 0, sn_total = None, sn_completed_at = None\<rparr>]\<rparr>)))"


subsection \<open>What a scan leaves alone\<close>

definition same_record :: "scored_record \<Rightarrow> scored_record \<Rightarrow> bool" where
  "same_record r r' \<longleftrightarrow> data_record.truncate r = data_record.truncate r'"

definition same_person :: "person \<Rightarrow> person \<Rightarrow> bool" where
  "same_person p p' \<longleftrightarrow> taxpayer.truncate p = taxpayer.truncate p' \<and> tx_type p = tx_type p' \<and> tx_limited p = tx_limited p'"

text \<open>Two states with the same ground: records up to the stamped columns, taxpayers up to their risk,
  and the same declarations, thresholds, portfolios and providers.\<close>

definition same_ground :: "tax_db \<Rightarrow> tax_db \<Rightarrow> bool" where
  "same_ground st st' \<longleftrightarrow> list_all2 same_record (td_records st) (td_records st') \<and>
     list_all2 same_person (td_people st) (td_people st') \<and> td_declared st' = td_declared st \<and>
     td_sector_thresholds st' = td_sector_thresholds st \<and> td_portfolios st' = td_portfolios st \<and>
     td_providers st' = td_providers st"

lemma same_record_fields:
  assumes "same_record r r'"
  shows "d_taxpayer r = d_taxpayer r'" "d_period_year r = d_period_year r'" "d_provider_type r = d_provider_type r'"
    "d_provider r = d_provider r'" "d_total_inflow r = d_total_inflow r'" "d_total_outflow r = d_total_outflow r'"
    "d_match_confidence r = d_match_confidence r'"
  using assms by (simp_all add: same_record_def data_record.truncate_def)

lemma same_person_fields:
  assumes "same_person p p'"
  shows "tp_id p = tp_id p'" "tp_sector p = tp_sector p'" "limited_liability p = limited_liability p'"
  using assms by (simp_all add: same_person_def taxpayer.truncate_def limited_liability_def)

lemma same_record_trans: "same_record a b \<Longrightarrow> same_record b c \<Longrightarrow> same_record a c"
  and same_person_trans: "same_person p q \<Longrightarrow> same_person q t \<Longrightarrow> same_person p t"
  by (simp_all add: same_record_def same_person_def)

lemma same_ground_refl [simp]: "same_ground st st"
  by (simp add: same_ground_def list.rel_refl same_record_def same_person_def)

lemma same_ground_trans: "same_ground a b \<Longrightarrow> same_ground b c \<Longrightarrow> same_ground a c"
  unfolding same_ground_def
  by (auto intro: list_all2_trans [OF same_record_trans] list_all2_trans [OF same_person_trans])

lemma selected_same: "same_record r r' \<Longrightarrow> selected y ty tid r = selected y ty tid r'"
  by (simp add: selected_def same_record_fields)

lemma map_filter_same:
  assumes "list_all2 same_record rs rs'" "\<And>r r'. same_record r r' \<Longrightarrow> h r = h r'"
  shows "map h (filter (selected y ty tid) rs) = map h (filter (selected y ty tid) rs')"
  using assms(1) by (induction rule: list_all2_induct) (auto simp: selected_same assms(2))

lemma agg_of_maps:
  "agg_of env rs = (let confs = concat (map (\<lambda>c. case c of None \<Rightarrow> [] | Some c \<Rightarrow> [c]) (map d_match_confidence rs)) in
      \<lparr>ag_inflow = fl (case sql_sum (map stored_amount (map d_total_inflow rs)) of None \<Rightarrow> 0 | Some x \<Rightarrow> x),
       ag_outflow = fl (case sql_sum (map stored_amount (map d_total_outflow rs)) of None \<Rightarrow> 0 | Some x \<Rightarrow> x),
       ag_providers = length (remdups (map d_provider rs)),
       ag_conf = (if confs = [] then None else Some (fl (se_avg env confs)))\<rparr>)"
  by (simp add: agg_of_def total_of_def comp_def)

lemma verdict_same:
  assumes "same_ground st st'" "same_person p p'"
  shows "verdict_of env y th ty st' p' = verdict_of env y th ty st p"
proof -
  have r: "list_all2 same_record (td_records st) (td_records st')" using assms(1) by (simp add: same_ground_def)
  let ?f = "filter (selected y ty (tp_id p))"
  have m: "map d_match_confidence (?f (td_records st')) = map d_match_confidence (?f (td_records st))"
      "map d_total_inflow (?f (td_records st')) = map d_total_inflow (?f (td_records st))"
      "map d_total_outflow (?f (td_records st')) = map d_total_outflow (?f (td_records st))"
      "map d_provider (?f (td_records st')) = map d_provider (?f (td_records st))"
    by (rule map_filter_same [OF r, symmetric], erule same_record_fields)+
  have "agg_of env (?f (td_records st')) = agg_of env (?f (td_records st))"
    by (simp only: agg_of_maps m)
  then show ?thesis using assms by (simp add: verdict_of_def same_person_fields [OF assms(2)] same_ground_def)
qed

lemma find_person_same:
  assumes "list_all2 same_person ps ps'"
  shows "rel_option same_person (find_by tp_id tid ps) (find_by tp_id tid ps')"
  using assms by (induction rule: list_all2_induct) (auto simp: same_person_fields)

lemma stamp_same: "list_all2 same_record rs (stamp env y ty tid v rs)"
  by (auto simp: stamp_def list_all2_conv_all_nth same_record_def data_record.truncate_def)

lemma update_risk_same: "list_all2 same_person (td_people st) (td_people (update_risk env tid c st))"
  by (auto simp: update_risk_def update_by_def list_all2_conv_all_nth same_person_def taxpayer.truncate_def)

lemma scan_taxpayer_ground: "same_ground st (snd (scan_taxpayer env scan y th ty rate tid st))"
proof -
  have "same_ground st (st\<lparr>td_records := stamp env y ty tid v (td_records st)\<rparr>)" for v
    by (simp add: same_ground_def stamp_same list.rel_refl same_person_def)
  moreover have "same_ground st (update_risk env tid c (upsert_case env scan y rate v p (st\<lparr>td_records := stamp env y ty tid v (td_records st)\<rparr>)))" for v c p
    using update_risk_same [of "upsert_case env scan y rate v p (st\<lparr>td_records := stamp env y ty tid v (td_records st)\<rparr>)" env tid c]
    by (simp add: same_ground_def stamp_same upsert_case_def Let_def update_risk_def)
  ultimately show ?thesis by (auto simp: scan_taxpayer_def Let_def split: option.split)
qed


subsection \<open>What a scan does to the cases\<close>

definition one_case :: "tax_case list \<Rightarrow> bool" where
  "one_case cs \<longleftrightarrow> distinct (map case_key cs)"

text \<open>Two stages of a case between which its life cycle has not moved and an assignment was kept.\<close>

definition kept_case :: "tax_case \<Rightarrow> tax_case \<Rightarrow> bool" where
  "kept_case c d \<longleftrightarrow> (tc_id d, tc_taxpayer d, tc_year d, tc_status d, tc_recovered d, tc_assessed d, tc_penalty d, tc_total d) =
       (tc_id c, tc_taxpayer c, tc_year c, tc_status c, tc_recovered c, tc_assessed c, tc_penalty c, tc_total c) \<and>
     (tc_basis d, tc_notice_ref d, tc_token d, tc_notice_at d, tc_objection_due d, tc_response_due d, tc_resolved_at d,
      tc_law_version d, tc_agent_score d, tc_grounds d, tc_filed_at d, tc_notes d) =
       (tc_basis c, tc_notice_ref c, tc_token c, tc_notice_at c, tc_objection_due c, tc_response_due c, tc_resolved_at c,
      tc_law_version c, tc_agent_score c, tc_grounds c, tc_filed_at c, tc_notes c) \<and> (truthy (tc_assigned c) \<longrightarrow> tc_assigned d = tc_assigned c)"

definition keeps_cases :: "tax_case list \<Rightarrow> tax_case list \<Rightarrow> bool" where
  "keeps_cases cs ds \<longleftrightarrow> list_all (\<lambda>c. case find_by case_key (case_key c) ds of None \<Rightarrow> False | Some d \<Rightarrow> kept_case c d) cs"

text \<open>The case rests on the facts: the taxpayer is among the ids, no limited company, flagged by the
  verdict on the data the scan started from, and the figures are those of the engine.\<close>

definition justified :: "scan_env \<Rightarrow> string list \<Rightarrow> nat \<Rightarrow> rat \<Rightarrow> string list \<Rightarrow> rat \<Rightarrow> tax_db \<Rightarrow> tax_case \<Rightarrow> bool" where
  "justified env ids y th ty rate st c \<longleftrightarrow> tc_year c = y \<and> tc_taxpayer c \<in> set ids \<and>
     (case find_by tp_id (tc_taxpayer c) (td_people st) of None \<Rightarrow> False
      | Some p \<Rightarrow> \<not> limited_liability p \<and>
         (let v = verdict_of env y th ty st p in vd_flag v \<and>
            tc_observed c = to_fixed 2 (vd_observed v) \<and> tc_estimated_tax c = to_fixed 2 (te_tax (estimate_of rate v)) \<and>
            tc_confidence c = to_fixed 2 (fst (score_case (signals_of v))) \<and>
            tc_risk c = confidence_to_risk (fst (score_case (signals_of v)))))"

lemma kept_case_refl [simp]: "kept_case c c"
  by (simp add: kept_case_def)

lemma kept_case_trans: "kept_case c d \<Longrightarrow> kept_case d e \<Longrightarrow> kept_case c e"
  by (auto simp: kept_case_def)

lemma keeps_cases_trans:
  assumes "keeps_cases cs ds" "keeps_cases ds es"
  shows "keeps_cases cs es"
  unfolding keeps_cases_def list_all_iff
proof
  fix c assume "c \<in> set cs"
  then obtain d where d: "find_by case_key (case_key c) ds = Some d" "kept_case c d"
    using assms(1) by (auto simp: keeps_cases_def list_all_iff split: option.splits)
  then have "d \<in> set ds" "case_key d = case_key c" using find_by_Some by fastforce+
  then obtain e where "find_by case_key (case_key c) es = Some e" "kept_case d e"
    using assms(2) by (fastforce simp: keeps_cases_def list_all_iff split: option.splits)
  then show "case find_by case_key (case_key c) es of None \<Rightarrow> False | Some d \<Rightarrow> kept_case c d"
    using d kept_case_trans by auto
qed

lemma case_data_kept: "kept_case c (case_data scan rate v c)" "case_key (case_data scan rate v c) = case_key c"
  "tc_assigned (case_data scan rate v c) = tc_assigned c"
  by (simp_all add: case_data_def Let_def split_beta kept_case_def case_key_def)

text \<open>The upsert writes one function on the case of the taxpayer and year, or appends a new case.\<close>

lemma upsert_case_writes:
  obtains wr where
    "td_cases (upsert_case env scan y rate v p st) = (case find_by case_key (tp_id p, y) (td_cases st) of
       None \<Rightarrow> td_cases st @ [wr (new_case (se_case_id env (tp_id p)) (tp_id p) y)]
     | Some c \<Rightarrow> update_by case_key (tp_id p, y) wr (td_cases st))"
    "\<And>c. case_key (wr c) = case_key c" "\<And>c. \<exists>a. wr c = case_data scan rate v c\<lparr>tc_assigned := a\<rparr>"
    "\<And>c. find_by case_key (tp_id p, y) (td_cases st) = Some c \<Longrightarrow> kept_case c (wr c)"
proof -
  let ?old = "find_by case_key (tp_id p, y) (td_cases st)"
  let ?assigned = "if holder ?old = None then newly_assigned st (tp_id p) ?old else holder ?old"
  let ?wr = "write_case scan rate v ?assigned"
  have k: "case_key (?wr c) = case_key c" for c
    using case_data_kept(2) [of scan rate v c] by (simp add: write_case_def Let_def case_key_def)
  have a: "\<exists>a. ?wr c = case_data scan rate v c\<lparr>tc_assigned := a\<rparr>" for c
  proof (cases "truthy ?assigned")
    case True
    then show ?thesis by (auto simp: write_case_def Let_def)
  next
    case False
    then show ?thesis
      by (intro exI [of _ "tc_assigned (case_data scan rate v c)"]) (simp add: write_case_def Let_def)
  qed
  have w: "kept_case c (?wr c)" if "?old = Some c" for c
    using case_data_kept(1) [of c scan rate v] that by (auto simp: write_case_def Let_def kept_case_def holder_def)
  show ?thesis
  proof (rule that [OF _ k a w])
    show "td_cases (upsert_case env scan y rate v p st) = (case ?old of
         None \<Rightarrow> td_cases st @ [?wr (new_case (se_case_id env (tp_id p)) (tp_id p) y)]
       | Some c \<Rightarrow> update_by case_key (tp_id p, y) ?wr (td_cases st))"
      by (simp add: upsert_case_def Let_def)
  qed
qed

definition scan_inv :: "scan_env \<Rightarrow> string list \<Rightarrow> string \<Rightarrow> nat \<Rightarrow> rat \<Rightarrow> string list \<Rightarrow> rat \<Rightarrow> tax_db \<Rightarrow> tax_db \<Rightarrow> bool" where
  "scan_inv env ids scan y th ty rate st0 st \<longleftrightarrow> same_ground st0 st \<and> one_case (td_cases st) \<and>
     keeps_cases (td_cases st0) (td_cases st) \<and>
     list_all (\<lambda>c. tc_scan c = Some scan \<longrightarrow> justified env ids y th ty rate st0 c) (td_cases st)"

lemma scan_taxpayer_cases:
  obtains (skipped) "td_cases (snd (scan_taxpayer env scan y th ty rate tid st)) = td_cases st"
  | (flagged) p st1 where "find_by tp_id tid (td_people st) = Some p" "\<not> limited_liability p"
      "vd_flag (verdict_of env y th ty st p)" "td_cases st1 = td_cases st"
      "td_cases (snd (scan_taxpayer env scan y th ty rate tid st)) =
         td_cases (upsert_case env scan y rate (verdict_of env y th ty st p) p st1)"
proof (cases "find_by tp_id tid (td_people st)")
  case None
  then show ?thesis by (intro skipped) (simp add: scan_taxpayer_def)
next
  case (Some p)
  let ?v = "verdict_of env y th ty st p"
  show ?thesis
  proof (cases "\<not> limited_liability p \<and> stamp_fits ?v \<and> vd_flag ?v \<and> case_fits rate ?v")
    case True
    then show ?thesis using Some
      by (intro flagged [of p "st\<lparr>td_records := stamp env y ty tid ?v (td_records st)\<rparr>"])
        (simp_all add: scan_taxpayer_def Let_def update_risk_def)
  next
    case False
    then show ?thesis using Some by (intro skipped) (auto simp: scan_taxpayer_def Let_def)
  qed
qed

lemma scan_taxpayer_inv:
  assumes I: "scan_inv env ids scan y th ty rate st0 st" and tid: "tid \<in> set ids"
  shows "scan_inv env ids scan y th ty rate st0 (snd (scan_taxpayer env scan y th ty rate tid st))"
proof -
  let ?st' = "snd (scan_taxpayer env scan y th ty rate tid st)"
  have g: "same_ground st0 ?st'" "same_ground st0 st"
    using I scan_taxpayer_ground same_ground_trans unfolding scan_inv_def by blast+
  show ?thesis
  proof (cases rule: scan_taxpayer_cases [where env = env and scan = scan and y = y and th = th and ty = ty and rate = rate
        and tid = tid and st = st])
    case skipped
    then show ?thesis using I g by (simp add: scan_inv_def)
  next
    case (flagged p st1)
    let ?v = "verdict_of env y th ty st p"
    have pid: "tp_id p = tid" using flagged(1) find_by_Some by fastforce
    obtain wr where w: "td_cases ?st' = (case find_by case_key (tid, y) (td_cases st) of
           None \<Rightarrow> td_cases st @ [wr (new_case (se_case_id env tid) tid y)]
         | Some c \<Rightarrow> update_by case_key (tid, y) wr (td_cases st))"
        "\<And>c. case_key (wr c) = case_key c" "\<And>c. \<exists>a. wr c = case_data scan rate ?v c\<lparr>tc_assigned := a\<rparr>"
        "\<And>c. find_by case_key (tid, y) (td_cases st) = Some c \<Longrightarrow> kept_case c (wr c)"
      using upsert_case_writes [of env scan y rate ?v p st1] unfolding flagged(4,5) pid by metis
    have just: "justified env ids y th ty rate st0 (wr c)" if "case_key c = (tid, y)" for c
    proof -
      obtain p0 where p0: "find_by tp_id tid (td_people st0) = Some p0" "same_person p0 p"
        using find_person_same [of "td_people st0" "td_people st" tid] g(2) flagged(1)
        by (auto simp: same_ground_def option_rel_Some2)
      have "verdict_of env y th ty st p = verdict_of env y th ty st0 p0" by (rule verdict_same [OF g(2) p0(2)])
      moreover obtain a where "wr c = case_data scan rate ?v c\<lparr>tc_assigned := a\<rparr>" using w(3) by blast
      moreover have "\<not> limited_liability p0" using flagged(2) same_person_fields(3) [OF p0(2)] by simp
      ultimately show ?thesis using that p0(1) tid flagged(3)
        by (simp add: justified_def Let_def case_data_def split_beta case_key_def)
    qed
    have all: "list_all (\<lambda>c. tc_scan c = Some scan \<longrightarrow> justified env ids y th ty rate st0 c) (td_cases st)"
      and one: "distinct (map case_key (td_cases st))"
      using I by (simp_all add: scan_inv_def one_case_def)
    show ?thesis
    proof (cases "find_by case_key (tid, y) (td_cases st)")
      case None
      let ?n = "wr (new_case (se_case_id env tid) tid y)"
      have "case_key ?n = case_key (new_case (se_case_id env tid) tid y)" by (rule w(2))
      then have n: "case_key ?n = (tid, y)" by (simp add: case_key_def new_case_def)
      have "keeps_cases (td_cases st) (td_cases ?st')"
        using w(1) None find_distinct [OF one] by (simp add: keeps_cases_def list_all_iff find_by_append)
      then have "keeps_cases (td_cases st0) (td_cases ?st')" using I keeps_cases_trans unfolding scan_inv_def by blast
      moreover have "one_case (td_cases ?st')"
        using w(1) None one n by (auto simp: one_case_def find_by_None)
      moreover have "justified env ids y th ty rate st0 ?n"
        by (rule just) (simp add: case_key_def new_case_def)
      ultimately show ?thesis using g all w(1) None by (simp add: scan_inv_def)
    next
      case (Some c)
      have same: "d = c" if "d \<in> set (td_cases st)" "case_key d = (tid, y)" for d
        using find_distinct [OF one that(1)] that(2) Some by simp
      have "keeps_cases (td_cases st) (td_cases ?st')"
        using w(1,2) Some find_distinct [OF one] w(4) same
        by (auto simp: keeps_cases_def list_all_iff find_by_update split: option.split)
      then have "keeps_cases (td_cases st0) (td_cases ?st')" using I keeps_cases_trans unfolding scan_inv_def by blast
      moreover have "one_case (td_cases ?st')"
        using w(1,2) Some one by (simp add: one_case_def keys_update_by)
      moreover have "list_all (\<lambda>c. tc_scan c = Some scan \<longrightarrow> justified env ids y th ty rate st0 c) (td_cases ?st')"
        using w(1) Some all just by (auto simp: list_all_iff update_by_def)
      ultimately show ?thesis using g by (simp add: scan_inv_def)
    qed
  qed
qed


lemma scan_loop_inv:
  assumes "scan_inv env ids scan y th ty rate st0 st" "set tids \<subseteq> set ids"
  shows "scan_inv env ids scan y th ty rate st0 (snd (scan_loop (scan_taxpayer env scan y th ty rate) tids n tot st))"
  using assms
proof (induction tids arbitrary: n tot st)
  case (Cons tid tids)
  have I: "scan_inv env ids scan y th ty rate st0 (snd (scan_taxpayer env scan y th ty rate tid st))"
    using Cons.prems by (intro scan_taxpayer_inv) auto
  obtain r st' where r: "scan_taxpayer env scan y th ty rate tid st = (r, st')" by (cases "scan_taxpayer env scan y th ty rate tid st")
  show ?case
  proof (cases r)
    case (Inl e)
    then show ?thesis using I r by simp
  next
    case (Inr m)
    have "scan_inv env ids scan y th ty rate st0 (snd (scan_loop (scan_taxpayer env scan y th ty rate) tids k u st'))" for k u
      using I r Cons by simp
    then show ?thesis using r Inr by (cases m) simp_all
  qed
qed simp

lemma same_ground_config [simp]: "same_ground (st\<lparr>td_config := c\<rparr>) st' = same_ground st st'"
    "same_ground st (st'\<lparr>td_config := c\<rparr>) = same_ground st st'"
  and verdict_config [simp]: "verdict_of env y th ty (st\<lparr>td_config := c\<rparr>) p = verdict_of env y th ty st p"
  by (simp_all add: same_ground_def verdict_of_def)

text \<open>The comparison rate of the run is the one of the active configuration.\<close>

definition active_rate :: "tax_db \<Rightarrow> rat" where
  "active_rate st = sc_value (fst (active_config (td_config st))) CitRate"

lemma run_scan_inv:
  assumes "one_case (td_cases st)" "list_all (\<lambda>c. tc_scan c \<noteq> Some scan) (td_cases st)"
  shows "scan_inv env ids scan y th ty (active_rate st) (st\<lparr>td_config := snd (active_config (td_config st))\<rparr>)
    (snd (run_scan env ids scan y th ty st))"
proof -
  let ?st = "st\<lparr>td_config := snd (active_config (td_config st))\<rparr>"
  have "keeps_cases (td_cases st) (td_cases st)"
    using assms(1) find_distinct by (fastforce simp: keeps_cases_def one_case_def list_all_iff)
  then have "scan_inv env ids scan y th ty (active_rate st) ?st ?st"
    using assms by (auto simp: scan_inv_def list_all_iff)
  then have I: "scan_inv env ids scan y th ty (active_rate st) ?st
      (snd (scan_loop (scan_taxpayer env scan y th ty (active_rate st)) (groups ids y ty ?st) 0 0 ?st))"
    by (rule scan_loop_inv) (auto simp: groups_def)
  have f: "scan_inv env ids scan y th ty r st0 (s\<lparr>td_scans := x\<rparr>) = scan_inv env ids scan y th ty r st0 s" for r st0 s x
    by (simp add: scan_inv_def same_ground_def)
  show ?thesis
    using I by (auto simp: run_scan_def Let_def active_rate_def split_beta f split: sum.split)
qed

text \<open>
  A scan never moves a case along its life cycle: every case there was is still there with the
  same status, assessment, notice, deadlines and notes, and with the analyst it was assigned to; and
  there is still at most one case for each taxpayer and year. This also holds when the scan fails.
\<close>

theorem scan_keeps_lifecycle:
  assumes "one_case (td_cases st)" and "list_all (\<lambda>c. tc_scan c \<noteq> Some scan) (td_cases st)"
  shows "keeps_cases (td_cases st) (td_cases (snd (run_scan env ids scan y th ty st))) \<and>
    one_case (td_cases (snd (run_scan env ids scan y th ty st)))"
  using run_scan_inv [OF assms, of env ids y th ty] by (simp add: scan_inv_def)

text \<open>
  C28. Every case a scan has written rests on the facts: its taxpayer is among the reportable ones, is no
  limited company, was flagged by the verdict on the data the scan started from, and the observed
  income, the tax, the confidence and the risk level are what the engine computes from these data,
  whatever order the taxpayers were processed in.
\<close>

theorem scan_cases_justified:
  assumes "one_case (td_cases st)" and "list_all (\<lambda>c. tc_scan c \<noteq> Some scan) (td_cases st)"
    and "c \<in> set (td_cases (snd (run_scan env ids scan y th ty st)))" and "tc_scan c = Some scan"
  shows "justified env ids y th ty (active_rate st) st c"
  using run_scan_inv [OF assms(1,2), of env ids y th ty] assms(3,4)
  by (auto simp: scan_inv_def list_all_iff justified_def split: option.splits)

subsection \<open>A number that does not fit\<close>

lemma scan_taxpayer_overflow:
  assumes "same_ground st0 st" "find_by tp_id tid (td_people st0) = Some p" "\<not> limited_liability p"
    and "\<not> stamp_fits (verdict_of env y th ty st0 p)"
  shows "scan_taxpayer env scan y th ty rate tid st = (Inl NumericOverflow, st)"
proof -
  obtain q where q: "find_by tp_id tid (td_people st) = Some q" "same_person p q"
    using find_person_same [of "td_people st0" "td_people st" tid] assms(1,2)
    by (auto simp: same_ground_def option_rel_Some1)
  then show ?thesis using assms(3,4) verdict_same [OF assms(1) q(2)] same_person_fields(3) [OF q(2)]
    by (simp add: scan_taxpayer_def)
qed

lemma scan_loop_overflow:
  assumes "same_ground st0 st" "tid \<in> set tids" "find_by tp_id tid (td_people st0) = Some p" "\<not> limited_liability p"
    and "\<not> stamp_fits (verdict_of env y th ty st0 p)"
  shows "\<exists>e. fst (scan_loop (scan_taxpayer env scan y th ty rate) tids n tot st) = Inl e"
  using assms(1,2)
proof (induction tids arbitrary: n tot st)
  case (Cons t tids)
  show ?case
  proof (cases "t = tid")
    case True
    then show ?thesis using scan_taxpayer_overflow [OF Cons.prems(1) assms(3-5)] by simp
  next
    case False
    obtain r st' where r: "scan_taxpayer env scan y th ty rate t st = (r, st')" by (cases "scan_taxpayer env scan y th ty rate t st")
    have "same_ground st0 st'" using same_ground_trans [OF Cons.prems(1) scan_taxpayer_ground] r by (metis snd_conv)
    then have "\<exists>e. fst (scan_loop (scan_taxpayer env scan y th ty rate) tids k u st') = Inl e" for k u
      using Cons False by simp
    then show ?thesis using r by (cases r; cases "projr r") simp_all
  qed
qed simp

definition failed_scan :: "string \<Rightarrow> scan_row \<Rightarrow> bool" where
  "failed_scan scan s \<longleftrightarrow> (sn_id s = scan \<longrightarrow> sn_status s = Failed)"

text \<open>
  One taxpayer can end a whole scan: if any reportable taxpayer that is no limited company has a
  verdict that does not fit the stamped columns, such as an observed income of more than ten thousand
  times a small declared one, then the scan ends as failed, even though nobody else is affected.
\<close>

theorem one_overflow_fails_scan:
  assumes "find_by tp_id tid (td_people st) = Some p" and "\<not> limited_liability p"
    and "\<not> stamp_fits (verdict_of env y th ty st p)" and "tid \<in> set (groups ids y ty st)"
  shows "(\<exists>e. fst (run_scan env ids scan y th ty st) = Inl e) \<and>
    list_all (failed_scan scan) (td_scans (snd (run_scan env ids scan y th ty st)))"
proof -
  let ?st = "st\<lparr>td_config := snd (active_config (td_config st))\<rparr>"
  have g: "groups ids y ty ?st = groups ids y ty st" by (simp add: groups_def)
  have "\<exists>e. fst (scan_loop (scan_taxpayer env scan y th ty (active_rate st)) (groups ids y ty st) 0 0 ?st) = Inl e"
    by (rule scan_loop_overflow [where st0 = ?st and tid = tid and p = p]) (use assms in simp_all)
  then obtain e st' where l: "scan_loop (scan_taxpayer env scan y th ty (active_rate st)) (groups ids y ty st) 0 0 ?st = (Inl e, st')"
    by (metis prod.collapse)
  have "run_scan env ids scan y th ty st = (Inl e, st'\<lparr>td_scans := update_by sn_id scan
      (\<lambda>s. s\<lparr>sn_status := Failed, sn_completed_at := Some (se_now env)\<rparr>) (td_scans st')\<rparr>)"
  proof -
    obtain cfg rows where c: "active_config (td_config st) = (cfg, rows)" by (cases "active_config (td_config st)")
    show ?thesis using l g unfolding run_scan_def active_rate_def c by (simp add: Let_def)
  qed
  moreover have "list_all (failed_scan scan)
      (update_by sn_id scan (\<lambda>s. s\<lparr>sn_status := Failed, sn_completed_at := Some (se_now env)\<rparr>) ss)" for ss
    by (induction ss) (simp_all add: update_by_def failed_scan_def)
  ultimately show ?thesis by simp
qed

subsection \<open>A run on a small database\<close>

definition small_env :: scan_env where
  "small_env = \<lparr>se_avg = (\<lambda>xs. hd xs), se_now = 0, se_case_id = (\<lambda>tid. ''c'' @ tid)\<rparr>"

definition small_db :: "rat \<Rightarrow> ((string \<times> nat) \<times> rat option) list \<Rightarrow> tax_db" where
  "small_db inflow declared = \<lparr>td_records = [blank_record\<lparr>d_total_inflow := Some (Fin inflow)\<rparr>], td_people = [demo_person],
     td_cases = [], td_declared = declared, td_sector_thresholds = [], td_config = [], td_portfolios = [],
     td_providers = [], td_notices = [],
     td_scans = [\<lparr>sn_id = ''n1'', sn_year = 2026, sn_threshold = 1/5, sn_types = [], sn_status = Running, sn_scanned = 0,
       sn_flagged = 0, sn_total = None, sn_completed_at = None\<rparr>]\<rparr>"

lemma fl_numeral: "\<bar>numeral n\<bar> \<le> (2::int) ^ 53 \<Longrightarrow> fl (numeral n) = numeral n"
  using fl_of_int [of "numeral n"] by simp

lemma no_outflow: "0 < i \<Longrightarrow> fl i = i \<Longrightarrow> normalize_inflow i 0 = (i, 0)"
  using discount_none [of 0] lit_nonneg [of 85 100] by (simp add: normalize_inflow_eq fops)

lemma small_selected: "filter (selected 2026 [] ''t1'') (td_records (small_db i d)) = td_records (small_db i d)"
  "demo_person = the (find_by tp_id ''t1'' (td_people (small_db i d)))" "\<not> limited_liability demo_person"
  by (simp_all add: small_db_def selected_def blank_record_def demo_person_def limited_liability_def is_llc_name_def)

lemma small_verdict:
  assumes "0 < i" "fl i = i"
  shows "verdict_of small_env 2026 th [] (small_db i d) demo_person =
    (let declared = (case map_of d (''t1'', 2026) of Some (Some x) \<Rightarrow> fl x | _ \<Rightarrow> 0); gap = fsub i declared;
         pct = (if 0 < declared then fdiv gap declared else 1) in
     \<lparr>vd_observed = i, vd_discount = 0, vd_declared = declared,
      vd_has_declaration = (map_of d (''t1'', 2026) \<noteq> None), vd_discrepancy = gap, vd_pct = pct, vd_flag = (0 < gap \<and> th < pct),
      vd_agg = \<lparr>ag_inflow = i, ag_outflow = 0, ag_providers = 1, ag_conf = Some (fl (lit 97 100))\<rparr>\<rparr>)"
proof -
  have "agg_of small_env (td_records (small_db i d)) =
      \<lparr>ag_inflow = i, ag_outflow = 0, ag_providers = 1, ag_conf = Some (fl (lit 97 100))\<rparr>"
    using assms by (simp add: agg_of_def total_of_def sql_sum_def small_db_def blank_record_def stored_amount_def small_env_def)
  moreover have "tp_id demo_person = ''t1''" "tp_sector demo_person = None" by (simp_all add: demo_person_def)
  moreover have "td_declared (small_db i d) = d" by (simp add: small_db_def)
  ultimately show ?thesis using assms small_selected(1) [of i d]
    by (simp add: verdict_of_def no_outflow effective_threshold_def Let_def)
qed

theorem one_overflow_fails_scan_witness:
  "(\<exists>e. fst (run_scan small_env [''t1''] ''n1'' 2026 (1/5) [] (small_db 60000000 [((''t1'', 2026), Some 1000)])) = Inl e) \<and>
   list_all (failed_scan ''n1'')
     (td_scans (snd (run_scan small_env [''t1''] ''n1'' 2026 (1/5) [] (small_db 60000000 [((''t1'', 2026), Some 1000)]))))"
proof (rule one_overflow_fails_scan)
  let ?db = "small_db 60000000 [((''t1'', 2026), Some 1000)]"
  show "find_by tp_id ''t1'' (td_people ?db) = Some demo_person" by (simp add: small_db_def demo_person_def)
  show "\<not> limited_liability demo_person" by (rule small_selected)
  have "\<not> fits 8 4 59999" by (simp add: fits_def to_fixed_def floor_divide_of_int_eq [symmetric])
  then show "\<not> stamp_fits (verdict_of small_env 2026 (1/5) [] ?db demo_person)"
    by (simp add: small_verdict fl_numeral stamp_fits_def fops Let_def)
  show "''t1'' \<in> set (groups [''t1''] 2026 [] ?db)"
    by (simp add: groups_def small_db_def selected_def blank_record_def)
qed

theorem scan_keeps_lifecycle_witness:
  "keeps_cases [(new_case ''c1'' ''t1'' 2026)\<lparr>tc_status := NoticeIssued\<rparr>] (td_cases (snd (run_scan small_env [''t1''] ''n1'' 2026 (1/5) []
      (small_db 600000 []\<lparr>td_cases := [(new_case ''c1'' ''t1'' 2026)\<lparr>tc_status := NoticeIssued\<rparr>]\<rparr>)))) \<and>
   one_case (td_cases (snd (run_scan small_env [''t1''] ''n1'' 2026 (1/5) []
      (small_db 600000 []\<lparr>td_cases := [(new_case ''c1'' ''t1'' 2026)\<lparr>tc_status := NoticeIssued\<rparr>]\<rparr>))))"
  using scan_keeps_lifecycle [of "small_db 600000 []\<lparr>td_cases := [(new_case ''c1'' ''t1'' 2026)\<lparr>tc_status := NoticeIssued\<rparr>]\<rparr>"
      "''n1''" small_env "[''t1'']" 2026 "1/5" "[]"]
  by (simp add: one_case_def new_case_def)


lemma fits_bound: "\<bar>x\<bar> + 1 \<le> 10 ^ (p - s) \<Longrightarrow> fits p s x"
proof -
  assume a: "\<bar>x\<bar> + 1 \<le> 10 ^ (p - s)"
  have "1 / (2 * 10 ^ s) \<le> (1/2 :: rat)" by (simp add: field_simps)
  then have "\<bar>to_fixed s x\<bar> \<le> \<bar>x\<bar> + 1/2" using to_fixed_error [of s x] by linarith
  then show ?thesis using a unfolding fits_def by linarith
qed

lemma small_tax: "te_tax (estimate_additional_tax 0 600000 False (Some r)) = 0"
  "te_flat_rate (estimate_additional_tax 0 600000 False (Some r)) = Some r"
  "te_flat_tax (estimate_additional_tax 0 600000 False (Some r)) = Some (fmul 600000 r)"
  by (simp_all add: estimate_additional_tax_def Let_def fops fl_numeral progressive_pit_def pit_bands_def)

lemma small_run:
  "\<exists>c. td_cases (snd (run_scan small_env [''t1''] ''n1'' 2026 (1/5) [] (small_db 600000 []))) = [c] \<and> tc_scan c = Some ''n1''"
proof -
  let ?st = "small_db 600000 []\<lparr>td_config := [seed_config]\<rparr>"
  let ?v = "verdict_of small_env 2026 (1/5) [] ?st demo_person"
  let ?rate = "lit 3 10"
  have rate: "0 \<le> ?rate" "?rate \<le> 1" using lit_0_1 [of 3 10] by simp_all
  have v: "?v = verdict_of small_env 2026 (1/5) [] (small_db 600000 []) demo_person" by simp
  have f: "stamp_fits ?v" "vd_flag ?v" "vd_observed ?v = 600000" "vd_declared ?v = 0"
    unfolding v by (simp_all add: small_verdict fl_numeral stamp_fits_def fops Let_def fits_bound)
  have "fmul 600000 ?rate \<le> 600000" "0 \<le> fmul 600000 ?rate"
    using rate dbl.mult_le [of 600000 ?rate] by (simp_all add: fmul_def fl_numeral dbl.nonneg)
  then have c: "case_fits ?rate ?v"
    using rate f(3,4) by (simp add: case_fits_def estimate_of_def small_tax fits_bound)
  have "find_by tp_id ''t1'' (td_people ?st) = Some demo_person" by (simp add: small_db_def demo_person_def)
  then have step: "scan_taxpayer small_env ''n1'' 2026 (1/5) [] ?rate ''t1'' ?st =
      (Inr (Some (te_tax (estimate_of ?rate ?v))), update_risk small_env ''t1'' (fst (score_case (signals_of ?v)))
        (upsert_case small_env ''n1'' 2026 ?rate ?v demo_person
          (?st\<lparr>td_records := stamp small_env 2026 [] ''t1'' ?v (td_records ?st)\<rparr>)))"
    using f c small_selected(3) by (simp add: scan_taxpayer_def Let_def)
  have tax: "te_tax (estimate_of ?rate ?v) = 0" using f(3,4) by (simp add: estimate_of_def small_tax)
  have a: "active_config (td_config (small_db 600000 [])) = (seed_config, [seed_config])"
    by (simp add: small_db_def active_config_def)
  have g: "groups [''t1''] 2026 [] ?st = [''t1'']"
    by (simp add: groups_def small_db_def selected_def blank_record_def)
  have r: "sc_value seed_config CitRate = ?rate" by (simp add: seed_config_def)
  have "td_cases (snd (run_scan small_env [''t1''] ''n1'' 2026 (1/5) [] (small_db 600000 []))) =
      td_cases (upsert_case small_env ''n1'' 2026 ?rate ?v demo_person
          (?st\<lparr>td_records := stamp small_env 2026 [] ''t1'' ?v (td_records ?st)\<rparr>))"
    unfolding run_scan_def a by (simp add: Let_def g r step tax fadd_def fits_bound update_risk_def)
  moreover obtain wr where "td_cases (upsert_case small_env ''n1'' 2026 ?rate ?v demo_person
          (?st\<lparr>td_records := stamp small_env 2026 [] ''t1'' ?v (td_records ?st)\<rparr>)) = [wr (new_case (se_case_id small_env ''t1'') ''t1'' 2026)]"
      "\<And>c. \<exists>a. wr c = case_data ''n1'' ?rate ?v c\<lparr>tc_assigned := a\<rparr>"
    by (rule upsert_case_writes [of small_env "''n1''" 2026 ?rate ?v demo_person
          "?st\<lparr>td_records := stamp small_env 2026 [] ''t1'' ?v (td_records ?st)\<rparr>"])
      (simp_all add: small_db_def demo_person_def)
  moreover have "tc_scan (case_data ''n1'' ?rate ?v c\<lparr>tc_assigned := a\<rparr>) = Some ''n1''" for c a
    by (simp add: case_data_def Let_def split_beta)
  ultimately show ?thesis by metis
qed

theorem scan_cases_justified_witness:
  "justified small_env [''t1''] 2026 (1/5) [] (active_rate (small_db 600000 [])) (small_db 600000 [])
     (hd (td_cases (snd (run_scan small_env [''t1''] ''n1'' 2026 (1/5) [] (small_db 600000 [])))))"
proof (rule scan_cases_justified)
  show "one_case (td_cases (small_db 600000 []))" "list_all (\<lambda>c. tc_scan c \<noteq> Some ''n1'') (td_cases (small_db 600000 []))"
    by (simp_all add: small_db_def one_case_def)
qed (use small_run in auto)

end
