(* ===== verification/Cases.thy ===== *)
theory Cases
  imports Scan
begin

text \<open>
  The life cycle of a case: \<open>backend/src/modules/cases/cases.service.ts\<close> with the fusion of the agents'
  scores of \<open>agents/agents.service.ts\<close>. A transition checks the table of allowed moves, reads the active
  statutory version, computes the demand when a notice is issued and the deadlines that follow. The
  status of a request is a \<open>case_status\<close>: a text that names none is refused like any move that is not allowed.
\<close>

subsection \<open>The table of moves\<close>

definition active_states :: "case_status list" where
  "active_states = [Open, UnderReview, NoticeIssued, Objection, Confirmed, Settled]"

fun transitions :: "case_status \<Rightarrow> case_status list" where
  "transitions Open = [UnderReview, Dismissed]"
| "transitions UnderReview = [NoticeIssued, Dismissed]"
| "transitions NoticeIssued = [Objection, Confirmed]"
| "transitions Objection = [Confirmed, Dismissed]"
| "transitions Confirmed = [Settled, Recovered]"
| "transitions Settled = [Recovered, Closed]"
| "transitions Recovered = [Closed]"
| "transitions Dismissed = [Closed]"
| "transitions Closed = []"

subsection \<open>State and errors\<close>

text \<open>What a request brings from outside: the clock and the database of a scan, the random token, the staff.\<close>

record case_env =
  cv_scan :: scan_env
  cv_token :: string
  cv_staff :: "string list"

definition now_of_case :: "case_env \<Rightarrow> time" where "now_of_case env = se_now (cv_scan env)"

datatype case_error = CaseNotFound | CannotMove case_status case_status | LimitedCompany | ColumnOverflow
  | TokenTaken | StaffUnknown | TokenMissing | TokenInvalid | NoNotice | NoticeNotOpen case_status | WindowClosed
  | GroundsRequired | ScanFailed scan_error

subsection \<open>Moving a case\<close>

definition days_later :: "time \<Rightarrow> rat \<Rightarrow> time" where
  "days_later t days = t + \<lfloor>days * of_int ms_per_day\<rfloor>"

record demand =
  dm_tax :: rat
  dm_penalty :: rat
  dm_total :: rat

definition demand_of :: "stat_config \<Rightarrow> tax_case \<Rightarrow> demand" where
  "demand_of cfg c = (let tax = fl (tc_estimated_tax c); penalty = fmul tax (sc_value cfg LatePaymentPenaltyRate)
     in \<lparr>dm_tax = tax, dm_penalty = penalty, dm_total = fadd tax penalty\<rparr>)"

definition notice_ref :: "tax_case \<Rightarrow> string" where
  "notice_ref c = ''DN-'' @ dec_str (tc_year c) @ ''-'' @ upper (take 6 (tc_id c))"

definition basis_of :: "time \<Rightarrow> stat_config \<Rightarrow> tax_case \<Rightarrow> assessment_basis" where
  "basis_of now cfg c = (let d = demand_of cfg c in
     \<lparr>ab_version = sc_version cfg, ab_observed = fl (tc_observed c), ab_declared = fl (tc_declared c),
      ab_discrepancy = fl (tc_discrepancy c), ab_assessed = dm_tax d,
      ab_basis = (case tc_tax_basis c of None \<Rightarrow> PitGraduated | Some b \<Rightarrow> b),
      ab_comparison = (case tc_alt_due c of None \<Rightarrow> None
        | Some due \<Rightarrow> Some (case tc_alt_rate c of None \<Rightarrow> sc_value cfg CitRate | Some r \<Rightarrow> fl r, fl due)),
      ab_penalty_rate = sc_value cfg LatePaymentPenaltyRate, ab_penalty = dm_penalty d, ab_total = dm_total d,
      ab_window_days = sc_value cfg ObjectionWindowDays, ab_issued_at = iso_string now\<rparr>)"

definition new_token :: "case_env \<Rightarrow> string" where "new_token env = ''cat_'' @ cv_token env"

definition notice_data :: "case_env \<Rightarrow> stat_config \<Rightarrow> tax_case \<Rightarrow> tax_case" where
  "notice_data env cfg c = (let now = now_of_case env; d = demand_of cfg c in
     c\<lparr>tc_notice_at := Some now, tc_objection_due := Some (days_later now (sc_value cfg ObjectionWindowDays)),
       tc_law_version := Some (sc_version cfg), tc_token := (if truthy (tc_token c) then tc_token c else Some (new_token env)),
       tc_assessed := Some (to_fixed 2 (dm_tax d)), tc_penalty := Some (to_fixed 2 (dm_penalty d)),
       tc_total := Some (to_fixed 2 (dm_total d)), tc_notice_ref := Some (notice_ref c), tc_basis := Some (basis_of now cfg c)\<rparr>)"

text \<open>The amount recorded as recovered: the one given, or the estimate on recovery.\<close>

definition recovered_value :: "case_status \<Rightarrow> jsnum option \<Rightarrow> tax_case \<Rightarrow> jsnum option" where
  "recovered_value target amount c = (if target = Recovered then Some (case amount of None \<Rightarrow> Fin (fl (tc_estimated_tax c)) | Some n \<Rightarrow> n)
     else if target = Settled then amount else None)"

definition storable :: "jsnum \<Rightarrow> bool" where
  "storable n = (case finite_value n of None \<Rightarrow> False | Some x \<Rightarrow> fits 18 2 x)"

definition move_data :: "case_env \<Rightarrow> stat_config \<Rightarrow> case_status \<Rightarrow> string option \<Rightarrow> jsnum option \<Rightarrow> tax_case \<Rightarrow> tax_case" where
  "move_data env cfg target nt amount c =
     (let now = now_of_case env;
          c2 = (if target = NoticeIssued then notice_data env cfg c else c);
          c3 = (if target = Objection then c2\<lparr>tc_response_due := Some (days_later now (sc_value cfg AuthorityResponseDays))\<rparr> else c2);
          c4 = (case recovered_value target amount c of None \<Rightarrow> c3
                | Some n \<Rightarrow> c3\<lparr>tc_recovered := map_option (to_fixed 2) (finite_value n)\<rparr>);
          c5 = (if target = Recovered \<or> target = Dismissed \<or> target = Closed then c4\<lparr>tc_resolved_at := Some now\<rparr> else c4)
      in c5\<lparr>tc_status := target, tc_notes := (if truthy nt then nt else tc_notes c)\<rparr>)"

definition move_error :: "case_env \<Rightarrow> stat_config \<Rightarrow> case_status \<Rightarrow> jsnum option \<Rightarrow> tax_case \<Rightarrow> tax_case list \<Rightarrow> case_error option" where
  "move_error env cfg target amount c cs =
     (if target = NoticeIssued \<and> tc_tax_basis c = Some NotAssessedLlc then Some LimitedCompany
      else if target = NoticeIssued \<and> \<not> (fits 18 2 (dm_tax (demand_of cfg c)) \<and> fits 18 2 (dm_penalty (demand_of cfg c)) \<and>
        fits 18 2 (dm_total (demand_of cfg c))) then Some ColumnOverflow
      else if target = NoticeIssued \<and> \<not> truthy (tc_token c) \<and> list_ex (\<lambda>d. tc_token d = Some (new_token env)) cs then Some TokenTaken
      else (case recovered_value target amount c of None \<Rightarrow> None | Some n \<Rightarrow> if storable n then None else Some ColumnOverflow))"

definition transition :: "case_env \<Rightarrow> string \<Rightarrow> case_status \<Rightarrow> string option \<Rightarrow> jsnum option \<Rightarrow> tax_db \<Rightarrow>
    (case_error, case_status, tax_db) outcome" where
  "transition env cid target nt amount st =
     (case find_by tc_id cid (td_cases st) of None \<Rightarrow> (Inl CaseNotFound, st)
      | Some c \<Rightarrow>
          (if target \<notin> set (transitions (tc_status c)) then (Inl (CannotMove (tc_status c) target), st)
           else (let (cfg, rows) = active_config (td_config st); st1 = st\<lparr>td_config := rows\<rparr> in
             case move_error env cfg target amount c (td_cases st) of Some e \<Rightarrow> (Inl e, st1)
             | None \<Rightarrow> (Inr target, st1\<lparr>td_cases := update_first tc_id cid (move_data env cfg target nt amount) (td_cases st)\<rparr>))))"

definition assign :: "case_env \<Rightarrow> string \<Rightarrow> string option \<Rightarrow> tax_db \<Rightarrow> (case_error, string option, tax_db) outcome" where
  "assign env cid who st =
     (case find_by tc_id cid (td_cases st) of None \<Rightarrow> (Inl CaseNotFound, st)
      | Some c \<Rightarrow> if (case who of None \<Rightarrow> False | Some w \<Rightarrow> w \<notin> set (cv_staff env)) then (Inl StaffUnknown, st)
          else (Inr who, st\<lparr>td_cases := update_first tc_id cid (\<lambda>c. c\<lparr>tc_assigned := who\<rparr>) (td_cases st)\<rparr>))"

text \<open>The objections whose response is overdue; the rows of the query are the rows updated.\<close>

definition lapsed :: "time \<Rightarrow> tax_case \<Rightarrow> bool" where
  "lapsed now c \<longleftrightarrow> tc_status c = Objection \<and> (case tc_response_due c of None \<Rightarrow> False | Some t \<Rightarrow> t < now)"

definition deemed_note :: string where "deemed_note = ''Objection deemed upheld''"

definition deem_upheld :: "time \<Rightarrow> tax_case \<Rightarrow> tax_case" where
  "deem_upheld now c = c\<lparr>tc_status := Dismissed, tc_resolved_at := Some now, tc_notes := Some deemed_note\<rparr>"

definition process_deadlines :: "case_env \<Rightarrow> tax_db \<Rightarrow> (case_error, nat, tax_db) outcome" where
  "process_deadlines env st = (let now = now_of_case env in
     (Inr (length (filter (lapsed now) (td_cases st))),
      st\<lparr>td_cases := map (\<lambda>c. if lapsed now c then deem_upheld now c else c) (td_cases st)\<rparr>))"

text \<open>The fusion at the end of an agents' run: \<open>signals\<close> gives the scores raised for a taxpayer.\<close>

definition fuse_case :: "(string \<Rightarrow> rat list) \<Rightarrow> tax_case \<Rightarrow> tax_case" where
  "fuse_case signals c = (let agents = aggregate_agent_score (signals (tc_taxpayer c)) in
     c\<lparr>tc_agent_score := Some (to_fixed 2 agents),
       tc_risk := confidence_to_risk (composite_confidence (fl (tc_confidence c)) agents)\<rparr>)"

definition fuse_signals :: "nat \<Rightarrow> (string \<Rightarrow> rat list) \<Rightarrow> tax_db \<Rightarrow> (case_error, nat, tax_db) outcome" where
  "fuse_signals year signals st = (let hit = (\<lambda>c. tc_year c = year \<and> signals (tc_taxpayer c) \<noteq> []) in
     (Inr (length (filter hit (td_cases st))),
      st\<lparr>td_cases := map (\<lambda>c. if hit c then fuse_case signals c else c) (td_cases st)\<rparr>))"

subsection \<open>Dashboard figures\<close>

text \<open>Counts and sums by status over the cases of the reportable taxpayers; \<open>order\<close> is the order in which
  the database returns the statuses present.\<close>

record status_row =
  sr_status :: case_status
  sr_count :: nat
  sr_estimated :: rat
  sr_recovered :: rat

definition shown :: "string list \<Rightarrow> nat option \<Rightarrow> tax_case \<Rightarrow> bool" where
  "shown ids year c \<longleftrightarrow> tc_taxpayer c \<in> set ids \<and> (case year of None \<Rightarrow> True | Some y \<Rightarrow> y = 0 \<or> tc_year c = y)"

definition status_rows :: "case_status list \<Rightarrow> tax_case list \<Rightarrow> status_row list" where
  "status_rows order cs = map (\<lambda>s. let g = filter (\<lambda>c. tc_status c = s) cs in
      \<lparr>sr_status = s, sr_count = length g, sr_estimated = fl (sum_list (map tc_estimated_tax g)),
       sr_recovered = fl (case sql_sum (map tc_recovered g) of None \<Rightarrow> 0 | Some x \<Rightarrow> x)\<rparr>)
    (filter (\<lambda>s. list_ex (\<lambda>c. tc_status c = s) cs) order)"

record case_stats =
  ct_total :: nat
  ct_open :: nat
  ct_dismissed :: nat
  ct_at_risk :: rat
  ct_recovered :: rat
  ct_estimated :: rat
  ct_funnel :: "nat list"

definition status_count :: "status_row list \<Rightarrow> case_status \<Rightarrow> nat" where
  "status_count rows s = (case find (\<lambda>r. sr_status r = s) rows of None \<Rightarrow> 0 | Some r \<Rightarrow> sr_count r)"

definition case_stats_of :: "status_row list \<Rightarrow> case_stats" where
  "case_stats_of rows = (let n = foldl (\<lambda>a r. a + sr_count r) 0 rows; count = status_count rows in
     \<lparr>ct_total = n, ct_open = count Open, ct_dismissed = count Dismissed,
      ct_at_risk = foldl (\<lambda>a r. fadd a (sr_estimated r)) 0 (filter (\<lambda>r. sr_status r \<in> set active_states) rows),
      ct_recovered = foldl (\<lambda>a r. fadd a (sr_recovered r)) 0 (filter (\<lambda>r. sr_status r = Recovered \<or> sr_status r = Settled) rows),
      ct_estimated = foldl (\<lambda>a r. fadd a (sr_estimated r)) 0 rows,
      ct_funnel = [n, count UnderReview, count NoticeIssued, count Objection, count Confirmed, count Settled, count Recovered]\<rparr>)"

definition stats :: "case_status list \<Rightarrow> string list \<Rightarrow> nat option \<Rightarrow> tax_db \<Rightarrow> case_stats" where
  "stats order ids year st = case_stats_of (status_rows order (filter (shown ids year) (td_cases st)))"

subsection \<open>The order of the states\<close>

definition next_status :: "case_status \<Rightarrow> case_status \<Rightarrow> bool" where
  "next_status s t \<longleftrightarrow> t \<in> set (transitions s)"

fun case_rank :: "case_status \<Rightarrow> nat" where
  "case_rank Open = 0" | "case_rank UnderReview = 1" | "case_rank NoticeIssued = 2" | "case_rank Objection = 3"
| "case_rank Confirmed = 4" | "case_rank Settled = 5" | "case_rank Recovered = 6" | "case_rank Dismissed = 6"
| "case_rank Closed = 7"

lemma next_status_rank: "next_status s t \<Longrightarrow> case_rank s < case_rank t"
  by (cases s) (auto simp: next_status_def)

definition status_of :: "tax_db \<Rightarrow> string \<Rightarrow> case_status option" where
  "status_of st cid = map_option tc_status (find_by tc_id cid (td_cases st))"

lemma transition_cases:
  obtains (refused) e rows where "transition env cid target nt amount st = (Inl e, st\<lparr>td_config := rows\<rparr>)"
      "rows = td_config st \<or> rows = snd (active_config (td_config st))"
  | (moved) c where "find_by tc_id cid (td_cases st) = Some c" "target \<in> set (transitions (tc_status c))"
      "move_error env (fst (active_config (td_config st))) target amount c (td_cases st) = None"
      "transition env cid target nt amount st = (Inr target, st\<lparr>td_config := snd (active_config (td_config st)),
         td_cases := update_first tc_id cid (move_data env (fst (active_config (td_config st))) target nt amount) (td_cases st)\<rparr>)"
proof -
  let ?a = "active_config (td_config st)"
  show ?thesis
  proof (cases "find_by tc_id cid (td_cases st)")
    case None
    then show ?thesis by (intro refused [of CaseNotFound "td_config st"]) (simp_all add: transition_def)
  next
    case (Some c)
    show ?thesis
    proof (cases "target \<in> set (transitions (tc_status c))")
      case False
      then show ?thesis using Some
        by (intro refused [of "CannotMove (tc_status c) target" "td_config st"]) (simp_all add: transition_def)
    next
      case True
      show ?thesis
      proof (cases "move_error env (fst ?a) target amount c (td_cases st)")
        case None
        then show ?thesis using Some True by (intro moved [of c]) (simp_all add: transition_def split_beta Let_def)
      next
        case (Some e)
        then show ?thesis using True \<open>find_by tc_id cid (td_cases st) = _\<close>
          by (intro refused [of e "snd ?a"]) (simp_all add: transition_def split_beta Let_def)
      qed
    qed
  qed
qed

lemma move_data_life:
  "tc_id (move_data env cfg target nt amount c) = tc_id c" "case_key (move_data env cfg target nt amount c) = case_key c"
  "tc_status (move_data env cfg target nt amount c) = target"
  by (simp_all add: move_data_def notice_data_def case_key_def Let_def split: option.split)

lemma find_case_map:
  "(\<And>c. tc_id (f c) = tc_id c) \<Longrightarrow> find_by tc_id cid (map f cs) = map_option f (find_by tc_id cid cs)"
  by (induction cs) auto

subsection \<open>What a run of the scan writes\<close>

text \<open>A property of the case list survives a scan when it survives one write: a new case, or the scan's
  columns on the cases of one taxpayer and year.\<close>

definition scan_writer :: "string \<Rightarrow> (tax_case \<Rightarrow> tax_case) \<Rightarrow> bool" where
  "scan_writer scan wr \<longleftrightarrow> (\<exists>rate v. \<forall>c. \<exists>a. wr c = case_data scan rate v c\<lparr>tc_assigned := a\<rparr>)"

definition scan_write :: "(tax_case \<Rightarrow> tax_case) \<Rightarrow> string \<Rightarrow> string \<Rightarrow> nat \<Rightarrow> tax_case list \<Rightarrow> tax_case list" where
  "scan_write wr cid tid y cs = (case find_by case_key (tid, y) cs of None \<Rightarrow> cs @ [wr (new_case cid tid y)]
     | Some c \<Rightarrow> update_by case_key (tid, y) wr cs)"

lemma scan_taxpayer_writes:
  assumes "Q (td_cases st)" and "\<And>cs wr cid tid. Q cs \<Longrightarrow> scan_writer scan wr \<Longrightarrow> Q (scan_write wr cid tid y cs)"
  shows "Q (td_cases (snd (scan_taxpayer env scan y th ty rate tid st)))"
proof (cases rule: scan_taxpayer_cases [where env = env and scan = scan and y = y and th = th and ty = ty and rate = rate
    and tid = tid and st = st])
  case skipped
  then show ?thesis using assms(1) by simp
next
  case (flagged p st1)
  let ?v = "verdict_of env y th ty st p"
  obtain wr where w: "td_cases (upsert_case env scan y rate ?v p st1) = scan_write wr (se_case_id env (tp_id p)) (tp_id p) y (td_cases st1)"
      "\<And>c. \<exists>a. wr c = case_data scan rate ?v c\<lparr>tc_assigned := a\<rparr>"
    using upsert_case_writes [of env scan y rate ?v p st1] unfolding scan_write_def by metis
  then have "scan_writer scan wr" unfolding scan_writer_def by blast
  then show ?thesis using flagged(4,5) w(1) assms by simp
qed

lemma scan_loop_snd:
  obtains (stopped) "snd (scan_loop step (t # ts) n tot st) = snd (step t st)"
  | (went_on) n' tot' where "snd (scan_loop step (t # ts) n tot st) = snd (scan_loop step ts n' tot' (snd (step t st)))"
proof (cases "step t st")
  case (Pair r st')
  show ?thesis
  proof (cases r)
    case (Inl e)
    then show ?thesis using Pair by (intro stopped) simp
  next
    case (Inr m)
    then show ?thesis using Pair went_on by (cases m) auto
  qed
qed

lemma scan_loop_writes:
  assumes "Q (td_cases st)" and "\<And>cs wr cid tid. Q cs \<Longrightarrow> scan_writer scan wr \<Longrightarrow> Q (scan_write wr cid tid y cs)"
  shows "Q (td_cases (snd (scan_loop (scan_taxpayer env scan y th ty rate) tids n tot st)))"
  using assms(1)
proof (induction tids arbitrary: n tot st)
  case (Cons tid tids)
  have "Q (td_cases (snd (scan_taxpayer env scan y th ty rate tid st)))" using Cons.prems assms(2) by (rule scan_taxpayer_writes)
  then show ?case using Cons.IH
    by (cases rule: scan_loop_snd [where step = "scan_taxpayer env scan y th ty rate" and t = tid and ts = tids and n = n
          and tot = tot and st = st]) simp_all
qed simp

lemma run_scan_writes:
  assumes "Q (td_cases st)" and "\<And>cs wr cid tid. Q cs \<Longrightarrow> scan_writer scan wr \<Longrightarrow> Q (scan_write wr cid tid y cs)"
  shows "Q (td_cases (snd (run_scan env ids scan y th ty st)))"
proof -
  let ?st = "st\<lparr>td_config := snd (active_config (td_config st))\<rparr>"
  have "Q (td_cases (snd (scan_loop (scan_taxpayer env scan y th ty (active_rate st)) (groups ids y ty ?st) 0 0 ?st)))"
    by (rule scan_loop_writes) (use assms in simp_all)
  then show ?thesis by (auto simp: run_scan_def Let_def active_rate_def split_beta split: sum.split)
qed

lemma run_scan_config: "td_config (snd (run_scan env ids scan y th ty st)) = snd (active_config (td_config st))"
proof -
  have t: "td_config (snd (scan_taxpayer env scan y th ty rate tid st)) = td_config st" for tid st rate
    by (simp add: scan_taxpayer_def Let_def update_risk_def upsert_case_def split: option.split)
  have "td_config (snd (scan_loop (scan_taxpayer env scan y th ty rate) tids n tot st)) = td_config st" for tids n tot st rate
  proof (induction tids arbitrary: n tot st)
    case (Cons tid tids)
    then show ?case using t [of rate tid st]
      by (cases rule: scan_loop_snd [where step = "scan_taxpayer env scan y th ty rate" and t = tid and ts = tids and n = n
          and tot = tot and st = st]) simp_all
  qed simp
  then show ?thesis by (simp add: run_scan_def Let_def split_beta split: sum.split)
qed

lemma scan_writer_keeps:
  assumes "scan_writer scan wr"
  shows "tc_id (wr c) = tc_id c" "case_key (wr c) = case_key c" "kept_case (c\<lparr>tc_assigned := None\<rparr>) (wr c)"
proof -
  obtain rate v a where "wr c = case_data scan rate v c\<lparr>tc_assigned := a\<rparr>" using assms unfolding scan_writer_def by blast
  then show "tc_id (wr c) = tc_id c" "case_key (wr c) = case_key c" "kept_case (c\<lparr>tc_assigned := None\<rparr>) (wr c)"
    by (simp_all add: case_data_def Let_def split_beta kept_case_def case_key_def)
qed

text \<open>A case found by its id is still found after a scan, with its life cycle as it was.\<close>

definition same_life :: "tax_case \<Rightarrow> tax_case \<Rightarrow> bool" where
  "same_life c d \<longleftrightarrow> kept_case (c\<lparr>tc_assigned := None\<rparr>) d"

lemma same_life_refl [simp]: "same_life c c" and same_life_trans: "same_life c d \<Longrightarrow> same_life d e \<Longrightarrow> same_life c e"
  and same_life_status: "same_life c d \<Longrightarrow> tc_status d = tc_status c \<and> tc_response_due d = tc_response_due c"
  by (simp_all add: same_life_def kept_case_def)

lemma run_scan_find:
  assumes "find_by tc_id cid (td_cases st) = Some c"
  shows "\<exists>d. find_by tc_id cid (td_cases (snd (run_scan env ids scan y th ty st))) = Some d \<and> same_life c d"
proof (rule run_scan_writes [where Q = "\<lambda>cs. \<exists>d. find_by tc_id cid cs = Some d \<and> same_life c d"])
  show "\<exists>d. find_by tc_id cid (td_cases st) = Some d \<and> same_life c d" using assms by simp
next
  fix cs wr cid' tid
  assume "\<exists>d. find_by tc_id cid cs = Some d \<and> same_life c d" and w: "scan_writer scan wr"
  then obtain d where d: "find_by tc_id cid cs = Some d" "same_life c d" by blast
  have "same_life c (wr d)" using same_life_trans [OF d(2)] scan_writer_keeps(3) [OF w] by (simp add: same_life_def)
  then show "\<exists>d. find_by tc_id cid (scan_write wr cid' tid y cs) = Some d \<and> same_life c d"
    using d scan_writer_keeps(1) [OF w]
    by (simp add: scan_write_def find_by_append find_by_update_any split: option.split)
qed

lemma run_scan_one_case: "one_case (td_cases st) \<Longrightarrow> one_case (td_cases (snd (run_scan env ids scan y th ty st)))"
proof (rule run_scan_writes [where Q = one_case])
  fix cs wr cid tid
  assume "one_case cs" and w: "scan_writer scan wr"
  then show "one_case (scan_write wr cid tid y cs)"
    using scan_writer_keeps(2) [OF w]
    by (auto simp: scan_write_def one_case_def keys_update_by find_by_None new_case_def case_key_def split: option.split)
qed

subsection \<open>Sound cases\<close>

definition cents :: "rat \<Rightarrow> bool" where "cents x \<longleftrightarrow> to_fixed 2 x = x"

lemma to_fixed_idem [simp]: "to_fixed n (to_fixed n x) = to_fixed n x"
proof -
  have half: "\<lfloor>1/2 :: rat\<rfloor> = 0" by (simp add: floor_eq_iff)
  have f: "to_fixed n (of_int i / 10 ^ n) = of_int i / 10 ^ n" if "0 \<le> i" for i
  proof -
    have "\<not> (of_int i / 10 ^ n :: rat) < 0" using that by (simp add: not_less)
    then have "to_fixed n (of_int i / 10 ^ n) = of_int \<lfloor>of_int i / 10 ^ n * 10 ^ n + 1/2 :: rat\<rfloor> / 10 ^ n"
      by (simp add: to_fixed_def)
    then show ?thesis using half by simp
  qed
  have g: "to_fixed n (- (of_int i / 10 ^ n)) = - (of_int i / 10 ^ n)" if "0 \<le> i" for i
  proof (cases "i = 0")
    case False
    then have "(of_int i :: rat) / 10 ^ n > 0" using that by simp
    then have "to_fixed n (- (of_int i / 10 ^ n)) = - (of_int \<lfloor>of_int i / 10 ^ n * 10 ^ n + 1/2 :: rat\<rfloor> / 10 ^ n)"
      by (simp add: to_fixed_def)
    then show ?thesis using half by simp
  qed simp
  show ?thesis
  proof (cases "x < 0")
    case True
    have "(0::rat) < - x * 10 ^ n" using True by (simp add: mult_neg_pos)
    then have "0 \<le> \<lfloor>- x * 10 ^ n + 1/2\<rfloor>" by linarith
    from g [OF this] show ?thesis using True by (simp add: to_fixed_def [of n x])
  next
    case False
    then have "(0::rat) \<le> x * 10 ^ n" by simp
    then have "0 \<le> \<lfloor>x * 10 ^ n + 1/2\<rfloor>" by linarith
    from f [OF this] show ?thesis using False by (simp add: to_fixed_def [of n x])
  qed
qed

lemma to_fixed_mono: "0 \<le> x \<Longrightarrow> x \<le> y \<Longrightarrow> to_fixed n x \<le> to_fixed n y"
proof -
  assume a: "0 \<le> x" "x \<le> y"
  then have "x * 10 ^ n \<le> y * 10 ^ n" by (simp add: mult_right_mono)
  then have "\<lfloor>x * 10 ^ n + 1/2\<rfloor> \<le> \<lfloor>y * 10 ^ n + 1/2\<rfloor>" by (intro floor_mono) simp
  then show ?thesis using a by (simp add: to_fixed_def divide_right_mono)
qed

definition unissued :: "tax_case \<Rightarrow> bool" where
  "unissued c \<longleftrightarrow> tc_notice_ref c = None \<and> tc_token c = None \<and> tc_assessed c = None \<and> tc_notice_at c = None"

text \<open>The notice of a case: dates in order, a recorded version of the law, a basis on which the state may
  assess, a reference, an access token and a demand that is not less than the tax.\<close>

definition notice_dates_ok :: "nat \<Rightarrow> tax_case \<Rightarrow> bool" where
  "notice_dates_ok n c \<longleftrightarrow> (case (tc_notice_at c, tc_objection_due c, tc_law_version c, tc_basis c) of
     (Some t, Some due, Some v, Some b) \<Rightarrow> t < due \<and> 1 \<le> v \<and> v \<le> n \<and> ab_version b = v \<and> ab_basis b \<noteq> NotAssessedLlc
   | _ \<Rightarrow> False)"

definition demand_ok :: "tax_case \<Rightarrow> bool" where
  "demand_ok c \<longleftrightarrow> (case (tc_assessed c, tc_penalty c, tc_total c) of
     (Some a, Some p, Some t) \<Rightarrow> 0 \<le> a \<and> 0 \<le> p \<and> a \<le> t | _ \<Rightarrow> False)"

definition notice_ok :: "nat \<Rightarrow> tax_case \<Rightarrow> bool" where
  "notice_ok n c \<longleftrightarrow> notice_dates_ok n c \<and> demand_ok c \<and> tc_notice_ref c \<noteq> None \<and> truthy (tc_token c)"

definition stage_ok :: "nat \<Rightarrow> tax_case \<Rightarrow> bool" where
  "stage_ok n c = (case tc_status c of Open \<Rightarrow> unissued c | UnderReview \<Rightarrow> unissued c | Dismissed \<Rightarrow> True | Closed \<Rightarrow> True
     | Objection \<Rightarrow> notice_ok n c \<and> tc_response_due c \<noteq> None | Recovered \<Rightarrow> notice_ok n c \<and> tc_recovered c \<noteq> None
     | _ \<Rightarrow> notice_ok n c)"

definition case_sound :: "nat \<Rightarrow> tax_case \<Rightarrow> bool" where
  "case_sound n c \<longleftrightarrow> stage_ok n c \<and> cents (tc_estimated_tax c) \<and> 0 \<le> tc_estimated_tax c \<and>
     (tc_resolved_at c \<noteq> None) = (tc_status c \<in> {Recovered, Dismissed, Closed})"

lemma case_sound_later: "case_sound m c \<Longrightarrow> m \<le> n \<Longrightarrow> case_sound n c"
  by (auto simp: case_sound_def stage_ok_def notice_ok_def notice_dates_ok_def split: case_status.splits option.splits)

lemma notice_data_ok:
  assumes "values_ok cfg" "1 \<le> sc_version cfg" "sc_version cfg \<le> n" "0 \<le> tc_estimated_tax c" "tc_tax_basis c \<noteq> Some NotAssessedLlc"
  shows "notice_ok n (notice_data env cfg c)"
proof -
  have r: "0 \<le> sc_value cfg LatePaymentPenaltyRate" "1 \<le> sc_value cfg ObjectionWindowDays"
    using assms(1) unfolding values_ok_def by (metis in_range.simps kind_of.simps)+
  have "1 \<le> \<lfloor>sc_value cfg ObjectionWindowDays * of_int ms_per_day\<rfloor>"
    using r(2) by (simp add: ms_per_day_def le_floor_iff)
  then have d: "t < days_later t (sc_value cfg ObjectionWindowDays)" for t by (simp add: days_later_def)
  let ?t = "fl (tc_estimated_tax c)" and ?p = "fmul (fl (tc_estimated_tax c)) (sc_value cfg LatePaymentPenaltyRate)"
  have t: "0 \<le> ?t" "0 \<le> ?p" using assms(4) r(1) by (simp_all add: fmul_def dbl.nonneg)
  then have "?t \<le> fadd ?t ?p" unfolding fadd_def by (intro dbl.le_add_nonneg) simp_all
  then have m: "0 \<le> to_fixed 2 ?t" "0 \<le> to_fixed 2 ?p" "to_fixed 2 ?t \<le> to_fixed 2 (fadd ?t ?p)"
    using t by (simp_all add: to_fixed_nonneg to_fixed_mono)
  show ?thesis using assms d m
    by (auto simp: notice_ok_def notice_dates_ok_def demand_ok_def notice_data_def demand_of_def basis_of_def Let_def new_token_def
        split: option.split)
qed

lemma move_data_sound:
  assumes c: "case_sound n c" and t: "target \<in> set (transitions (tc_status c))"
    and e: "move_error env cfg target amount c cs = None"
    and cfg: "values_ok cfg" "1 \<le> sc_version cfg" "sc_version cfg \<le> n"
  shows "case_sound n (move_data env cfg target nt amount c)"
proof -
  have est: "tc_estimated_tax (move_data env cfg target nt amount c) = tc_estimated_tax c"
    by (simp add: move_data_def notice_data_def Let_def split: option.split)
  have keep: "notice_ok n (move_data env cfg target nt amount c) = notice_ok n c" if "target \<noteq> NoticeIssued"
    using that by (simp add: move_data_def notice_ok_def notice_dates_ok_def demand_ok_def Let_def split: option.split)
  have notice: "notice_ok n (move_data env cfg target nt amount c)" if "target = NoticeIssued"
  proof -
    have "notice_ok n (notice_data env cfg c)"
      using c e that by (intro notice_data_ok cfg) (auto simp: case_sound_def move_error_def split: if_splits)
    then show ?thesis using that
      by (simp add: move_data_def notice_ok_def notice_dates_ok_def demand_ok_def Let_def recovered_value_def)
  qed
  have unissued: "unissued (move_data env cfg target nt amount c) = unissued c" if "target \<noteq> NoticeIssued"
    using that by (simp add: move_data_def unissued_def Let_def split: option.split)
  have rec: "tc_recovered (move_data env cfg target nt amount c) \<noteq> None" if "target = Recovered"
    using that e by (auto simp: move_data_def Let_def recovered_value_def move_error_def storable_def split: option.splits if_splits)
  have res: "(tc_resolved_at (move_data env cfg target nt amount c) \<noteq> None) =
      (target \<in> {Recovered, Dismissed, Closed} \<or> tc_resolved_at c \<noteq> None)"
    by (simp add: move_data_def notice_data_def Let_def split: option.split)
  have resp: "tc_response_due (move_data env cfg target nt amount c) \<noteq> None" if "target = Objection"
    using that by (simp add: move_data_def Let_def recovered_value_def)
  from c t keep notice unissued rec resp show ?thesis
    unfolding case_sound_def stage_ok_def move_data_life est res
    by (cases target; cases "tc_status c"; simp)
qed

lemmas sound_defs = case_sound_def stage_ok_def unissued_def notice_ok_def notice_dates_ok_def demand_ok_def

lemma deem_upheld_sound: "case_sound n c \<Longrightarrow> case_sound n (deem_upheld now c)"
  by (simp add: case_sound_def stage_ok_def deem_upheld_def)

lemma fuse_case_sound: "case_sound n (fuse_case signals c) = case_sound n c"
  by (cases "tc_status c") (simp_all add: sound_defs fuse_case_def Let_def)

lemma assigned_sound: "case_sound n (c\<lparr>tc_assigned := a\<rparr>) = case_sound n c"
  by (cases "tc_status c") (simp_all add: sound_defs)

lemma estimate_nonneg: "0 \<le> te_tax (estimate_of rate v)"
  by (simp add: estimate_of_def estimate_additional_tax_def Let_def)

lemma case_data_sound: "case_sound n c \<Longrightarrow> case_sound n (case_data scan rate v c)"
  by (cases "tc_status c") (simp_all add: sound_defs case_data_def Let_def split_beta cents_def estimate_nonneg to_fixed_nonneg)

lemma new_case_sound: "case_sound n (new_case cid tid y)"
  by (simp add: case_sound_def stage_ok_def unissued_def new_case_def cents_def)

definition cases_ok :: "tax_db \<Rightarrow> bool" where
  "cases_ok st \<longleftrightarrow> stat_ok (td_config st) \<and> list_all (case_sound (length (td_config st))) (td_cases st) \<and> one_case (td_cases st)"

lemma cases_ok_later:
  assumes "cases_ok st"
  shows "list_all (case_sound (length (snd (active_config (td_config st))))) (td_cases st)"
    and "stat_ok (snd (active_config (td_config st)))" and "values_ok (fst (active_config (td_config st)))"
    and "1 \<le> sc_version (fst (active_config (td_config st)))"
    and "sc_version (fst (active_config (td_config st))) \<le> length (snd (active_config (td_config st)))"
proof -
  let ?a = "active_config (td_config st)"
  have ok: "stat_ok (td_config st)" using assms by (simp add: cases_ok_def)
  have "length (td_config st) \<le> length (snd ?a)" by (simp add: active_config_def split: option.split)
  then show "list_all (case_sound (length (snd ?a))) (td_cases st)"
    using assms case_sound_later by (auto simp: cases_ok_def list_all_iff)
  show "stat_ok (snd ?a)" "values_ok (fst ?a)" using active_config_ok [OF ok] by blast+
  have l: "snd ?a \<noteq> []" "fst ?a = last (snd ?a)" "stat_ok (snd ?a)" using active_config_ok [OF ok] by simp_all
  then show "1 \<le> sc_version (fst ?a)" "sc_version (fst ?a) \<le> length (snd ?a)"
    by (cases "snd ?a" rule: rev_cases; simp add: stat_ok_snoc)+
qed

lemma transition_ok:
  assumes "cases_ok st"
  shows "cases_ok (snd (transition env cid target nt amount st))"
proof (cases rule: transition_cases [where env = env and cid = cid and target = target and nt = nt and amount = amount and st = st])
  case (refused e rows)
  then show ?thesis using assms cases_ok_later [OF assms] by (auto simp: cases_ok_def)
next
  case (moved c)
  note later = cases_ok_later [OF assms]
  have "case_sound (length (snd (active_config (td_config st)))) c"
    using later(1) find_by_Some [OF moved(1)] by (simp add: list_all_iff)
  from move_data_sound [OF this moved(2,3) later(3-5)] show ?thesis
    using assms later update_first_all [OF moved(1) later(1)]
    by (simp add: moved(4) cases_ok_def one_case_def map_update_first move_data_life)
qed

lemma cases_ok_map:
  assumes "cases_ok st" "\<And>c. case_key (f c) = case_key c" "\<And>n c. case_sound n c \<Longrightarrow> case_sound n (f c)"
  shows "cases_ok (st\<lparr>td_cases := map f (td_cases st)\<rparr>)"
  using assms by (simp add: cases_ok_def one_case_def list_all_iff comp_def)

lemma assign_ok:
  assumes "cases_ok st"
  shows "cases_ok (snd (assign env cid who st))"
proof (cases "find_by tc_id cid (td_cases st)")
  case (Some c)
  let ?n = "length (td_config st)"
  have s: "list_all (case_sound ?n) (td_cases st)" using assms by (simp add: cases_ok_def)
  then have "case_sound ?n (c\<lparr>tc_assigned := who\<rparr>)"
    using find_by_Some [OF Some] assigned_sound by (simp add: list_all_iff)
  from update_first_all [where f = "\<lambda>c. c\<lparr>tc_assigned := who\<rparr>", OF Some s this] show ?thesis using assms Some
    by (simp add: assign_def cases_ok_def one_case_def map_update_first case_key_def split: option.split)
qed (use assms in \<open>simp add: assign_def\<close>)

lemma process_deadlines_ok: "cases_ok st \<Longrightarrow> cases_ok (snd (process_deadlines env st))"
  unfolding process_deadlines_def Let_def snd_conv
  by (rule cases_ok_map) (auto simp: deem_upheld_sound, auto simp: deem_upheld_def case_key_def)

lemma fuse_signals_ok: "cases_ok st \<Longrightarrow> cases_ok (snd (fuse_signals y signals st))"
  unfolding fuse_signals_def Let_def snd_conv
  by (rule cases_ok_map) (auto simp: fuse_case_sound, auto simp: fuse_case_def case_key_def Let_def)

lemma run_scan_ok:
  assumes "cases_ok st"
  shows "cases_ok (snd (run_scan env ids scan y th ty st))"
proof -
  let ?n = "length (snd (active_config (td_config st)))"
  have "list_all (case_sound ?n) (td_cases (snd (run_scan env ids scan y th ty st)))"
  proof (rule run_scan_writes [where Q = "list_all (case_sound ?n)"])
    fix cs wr cid tid
    assume "list_all (case_sound ?n) cs" "scan_writer scan wr"
    moreover have "case_sound ?n (wr c)" if "case_sound ?n c" for c
      using \<open>scan_writer scan wr\<close> that case_data_sound assigned_sound unfolding scan_writer_def by metis
    ultimately show "list_all (case_sound ?n) (scan_write wr cid tid y cs)"
      using new_case_sound by (auto simp: scan_write_def list_all_iff update_by_def split: option.split)
  qed (rule cases_ok_later [OF assms])
  then show ?thesis using assms cases_ok_later [OF assms] run_scan_one_case by (simp add: cases_ok_def run_scan_config)
qed

end
