(* ===== verification/Integration.thy ===== *)
theory Integration
  imports Cases
begin

text \<open>
  The taxpayer-integration API, \<open>backend/src/modules/integration/integration.service.ts\<close>: the keys of the
  partner platforms, and the operations a partner calls with the access token of one case. The last
  part joins it with the scan, the officers' moves, the deadlines and the agents' fusion: every
  operation that writes a case, as the operations of one service.
\<close>

subsection \<open>Partner keys\<close>

record api_key =
  ak_id :: string
  ak_name :: string
  ak_hash :: string
  ak_prefix :: string
  ak_active :: bool
  ak_used :: "time option"

datatype key_error = NameRequired | KeyNotFound | KeyMissing | KeyInvalid | HashTaken

text \<open>SHA-256 is a parameter \<open>h\<close>; \<open>hex\<close> is the random part of a new key.\<close>

definition create_api_key :: "(string \<Rightarrow> string) \<Rightarrow> string \<Rightarrow> string \<Rightarrow> string \<Rightarrow> api_key list \<Rightarrow> (key_error, string, api_key list) outcome" where
  "create_api_key h kid hex name keys =
     (if trim name = [] then (Inl NameRequired, keys)
      else (let raw = ''biz_'' @ hex in
        if find_by ak_hash (h raw) keys \<noteq> None then (Inl HashTaken, keys)
        else (Inr raw, keys @ [\<lparr>ak_id = kid, ak_name = trim name, ak_hash = h raw, ak_prefix = take 12 raw,
          ak_active = True, ak_used = None\<rparr>])))"

definition revoke_api_key :: "string \<Rightarrow> api_key list \<Rightarrow> (key_error, unit, api_key list) outcome" where
  "revoke_api_key kid keys = (if find_by ak_id kid keys = None then (Inl KeyNotFound, keys)
     else (Inr (), update_first ak_id kid (\<lambda>k. k\<lparr>ak_active := False\<rparr>) keys))"

definition authenticate_partner :: "(string \<Rightarrow> string) \<Rightarrow> time \<Rightarrow> string option \<Rightarrow> api_key list \<Rightarrow> (key_error, api_key, api_key list) outcome" where
  "authenticate_partner h now raw keys =
     (if \<not> truthy raw then (Inl KeyMissing, keys)
      else (case find_by ak_hash (h (the raw)) keys of None \<Rightarrow> (Inl KeyInvalid, keys)
        | Some k \<Rightarrow> if ak_active k then (Inr k, update_first ak_id (ak_id k) (\<lambda>k. k\<lparr>ak_used := Some now\<rparr>) keys)
            else (Inl KeyInvalid, keys)))"

subsection \<open>The operations of a partner\<close>

definition case_by_token :: "string option \<Rightarrow> tax_db \<Rightarrow> case_error + tax_case" where
  "case_by_token token st = (if \<not> truthy token then Inl TokenMissing
     else (case find_by tc_token token (td_cases st) of None \<Rightarrow> Inl TokenInvalid | Some c \<Rightarrow> Inr c))"

record notice_view =
  nv_ref :: string
  nv_status :: case_status
  nv_assessed :: "rat option"
  nv_penalty :: "rat option"
  nv_total :: "rat option"
  nv_due :: "time option"
  nv_can_object :: bool

definition can_object :: "time \<Rightarrow> tax_case \<Rightarrow> bool" where
  "can_object now c \<longleftrightarrow> tc_status c = NoticeIssued \<and> (case tc_objection_due c of None \<Rightarrow> True | Some due \<Rightarrow> now < due)"

definition get_notice :: "time \<Rightarrow> string option \<Rightarrow> tax_db \<Rightarrow> case_error + notice_view" where
  "get_notice now token st = (case case_by_token token st of Inl e \<Rightarrow> Inl e
     | Inr c \<Rightarrow> if truthy (tc_notice_ref c)
         then Inr \<lparr>nv_ref = the (tc_notice_ref c), nv_status = tc_status c, nv_assessed = tc_assessed c,
           nv_penalty = tc_penalty c, nv_total = tc_total c, nv_due = tc_objection_due c, nv_can_object = can_object now c\<rparr>
         else Inl NoNotice)"

definition file_objection :: "case_env \<Rightarrow> string option \<Rightarrow> string option \<Rightarrow> string \<Rightarrow> tax_db \<Rightarrow>
    (case_error, case_status, tax_db) outcome" where
  "file_objection env token grounds partner st = (case case_by_token token st of Inl e \<Rightarrow> (Inl e, st)
     | Inr c \<Rightarrow> (let now = now_of_case env in
         if tc_status c \<noteq> NoticeIssued then (Inl (NoticeNotOpen (tc_status c)), st)
         else if (case tc_objection_due c of None \<Rightarrow> False | Some due \<Rightarrow> due < now) then (Inl WindowClosed, st)
         else if (case grounds of None \<Rightarrow> True | Some g \<Rightarrow> trim g = []) then (Inl GroundsRequired, st)
         else transition env (tc_id c) Objection (Some (''Objection filed via '' @ partner)) None
           (st\<lparr>td_cases := update_first tc_id (tc_id c)
              (\<lambda>c. c\<lparr>tc_grounds := map_option trim grounds, tc_filed_at := Some now\<rparr>) (td_cases st)\<rparr>)))"

fun outcome_text :: "case_status \<Rightarrow> string" where
  "outcome_text Objection = ''Under review by the authority.''"
| "outcome_text Confirmed = ''Assessment confirmed - the demand stands.''"
| "outcome_text Dismissed = ''Objection upheld - the assessment was dismissed.''"
| "outcome_text Settled = ''Settled.''"
| "outcome_text Recovered = ''Settled and recovered.''"
| "outcome_text Closed = ''Closed.''"
| "outcome_text _ = ''In progress.''"

definition get_outcome :: "string option \<Rightarrow> tax_db \<Rightarrow> case_error + (case_status \<times> string)" where
  "get_outcome token st = (case case_by_token token st of Inl e \<Rightarrow> Inl e | Inr c \<Rightarrow> Inr (tc_status c, outcome_text (tc_status c)))"

subsection \<open>Every operation on cases\<close>

datatype case_op = Move string case_status "string option" "jsnum option" | AssignTo string "string option" | Deadlines
  | FileObjection "string option" "string option" string | Fuse nat "string \<Rightarrow> rat list"
  | Rescan "string list" string nat rat "string list"

fun case_exec :: "case_env \<times> case_op \<Rightarrow> tax_db \<Rightarrow> (case_error, unit, tax_db) outcome" where
  "case_exec (env, Move cid target nt amount) st = forget (transition env cid target nt amount st)"
| "case_exec (env, AssignTo cid who) st = forget (assign env cid who st)"
| "case_exec (env, Deadlines) st = forget (process_deadlines env st)"
| "case_exec (env, FileObjection token grounds partner) st = forget (file_objection env token grounds partner st)"
| "case_exec (env, Fuse year signals) st = forget (fuse_signals year signals st)"
| "case_exec (env, Rescan ids scan year threshold types) st =
     (let r = run_scan (cv_scan env) ids scan year threshold types st in (map_sum ScanFailed id (fst r), snd r))"

lemma file_objection_cases:
  obtains (refused) e where "file_objection env token grounds partner st = (Inl e, st)"
  | (filed) c where "case_by_token token st = Inr c" "tc_status c = NoticeIssued"
      "file_objection env token grounds partner st =
       transition env (tc_id c) Objection (Some (''Objection filed via '' @ partner)) None
         (st\<lparr>td_cases := update_first tc_id (tc_id c)
            (\<lambda>c. c\<lparr>tc_grounds := map_option trim grounds, tc_filed_at := Some (now_of_case env)\<rparr>) (td_cases st)\<rparr>)"
proof (cases "case_by_token token st")
  case (Inl e)
  then show ?thesis by (intro refused [of e]) (simp add: file_objection_def)
next
  case (Inr c)
  show ?thesis
  proof (cases "tc_status c \<noteq> NoticeIssued \<or> (case tc_objection_due c of None \<Rightarrow> False | Some due \<Rightarrow> due < now_of_case env) \<or>
      (case grounds of None \<Rightarrow> True | Some g \<Rightarrow> trim g = [])")
    case False
    then show ?thesis using Inr by (intro filed [of c]) (simp_all add: file_objection_def Let_def)
  next
    case True
    show ?thesis
    proof (cases "tc_status c \<noteq> NoticeIssued \<or> (case tc_objection_due c of None \<Rightarrow> False | Some due \<Rightarrow> due < now_of_case env)")
      case True
      then show ?thesis using Inr
        by (intro refused [of "if tc_status c \<noteq> NoticeIssued then NoticeNotOpen (tc_status c) else WindowClosed"])
          (simp add: file_objection_def Let_def)
    next
      case False
      then have "case grounds of None \<Rightarrow> True | Some g \<Rightarrow> trim g = []" using True by simp
      then show ?thesis using Inr False by (intro refused [of GroundsRequired]) (simp add: file_objection_def Let_def)
    qed
  qed
qed

text \<open>From one state of a case to the next: it stays where it is, with its response date, or takes one allowed step.\<close>

definition moved_on :: "tax_case \<Rightarrow> tax_case \<Rightarrow> bool" where
  "moved_on c d \<longleftrightarrow> (tc_status d = tc_status c \<and> tc_response_due d = tc_response_due c) \<or> next_status (tc_status c) (tc_status d)"

lemma moved_on_refl [simp]: "moved_on c c"
  by (simp add: moved_on_def)

lemma transition_moved:
  assumes "find_by tc_id cid (td_cases st) = Some c"
  shows "\<exists>d. find_by tc_id cid (td_cases (snd (transition env k target nt amount st))) = Some d \<and> moved_on c d"
proof (cases rule: transition_cases [where env = env and cid = k and target = target and nt = nt and amount = amount and st = st])
  case (refused e rows)
  then show ?thesis using assms by simp
next
  case (moved c')
  then show ?thesis using assms
    by (cases "cid = k") (simp_all add: find_update_first move_data_life moved_on_def next_status_def)
qed

lemma case_exec_moved:
  assumes "find_by tc_id cid (td_cases st) = Some c"
  shows "\<exists>d. find_by tc_id cid (td_cases (snd (case_exec eo st))) = Some d \<and> moved_on c d"
proof (cases "(eo, st)" rule: case_exec.cases)
  case (1 env k target nt amount st')
  then show ?thesis using transition_moved [OF assms] by simp
next
  case (2 env k who st')
  then show ?thesis using assms
    by (cases "cid = k") (auto simp: assign_def find_update_first moved_on_def split: option.split)
next
  case (3 env st')
  have "find_by tc_id cid (map (\<lambda>c. if lapsed t c then deem_upheld t c else c) (td_cases st)) =
      map_option (\<lambda>c. if lapsed t c then deem_upheld t c else c) (Some c)" for t
    using assms by (subst find_case_map) (simp_all add: deem_upheld_def)
  then show ?thesis using 3
    by (simp add: process_deadlines_def Let_def moved_on_def deem_upheld_def lapsed_def next_status_def)
next
  case (4 env token grounds partner st')
  show ?thesis
  proof (cases rule: file_objection_cases [where env = env and token = token and grounds = grounds and partner = partner and st = st])
    case (refused e)
    then show ?thesis using 4 assms by simp
  next
    case (filed c')
    let ?f = "\<lambda>c. c\<lparr>tc_grounds := map_option trim grounds, tc_filed_at := Some (now_of_case env)\<rparr>"
    let ?st = "st\<lparr>td_cases := update_first tc_id (tc_id c') ?f (td_cases st)\<rparr>"
    obtain d where "find_by tc_id cid (td_cases ?st) = Some d" "tc_status d = tc_status c" "tc_response_due d = tc_response_due c"
      using assms by (cases "cid = tc_id c'") (auto simp: find_update_first)
    then show ?thesis using transition_moved [of cid ?st d] filed(3) 4 by (force simp: moved_on_def)
  qed
next
  case (5 env y signals st')
  have "find_by tc_id cid (map (\<lambda>c. if P c then fuse_case signals c else c) (td_cases st)) =
      map_option (\<lambda>c. if P c then fuse_case signals c else c) (Some c)" for P
    using assms by (subst find_case_map) (simp_all add: fuse_case_def Let_def)
  then show ?thesis using 5 by (simp add: fuse_signals_def Let_def moved_on_def fuse_case_def)
next
  case (6 env ids scan y th ty st')
  then show ?thesis using run_scan_find [OF assms] same_life_status by (fastforce simp: Let_def moved_on_def)
qed

lemma status_of_find: "status_of st cid = Some s \<longleftrightarrow> (\<exists>c. find_by tc_id cid (td_cases st) = Some c \<and> tc_status c = s)"
  by (auto simp: status_of_def)

lemma case_exec_status:
  assumes "status_of st cid = Some s"
  shows "\<exists>t. status_of (snd (case_exec eo st)) cid = Some t \<and> next_status\<^sup>*\<^sup>* s t"
  using assms case_exec_moved [of cid st _ eo] unfolding status_of_find moved_on_def by (metis r_into_rtranclp rtranclp.rtrancl_refl)

interpretation case_life: tracked_service next_status case_rank case_exec status_of
  by unfold_locales (auto intro: next_status_rank case_exec_status)

lemma case_exec_ok: "cases_ok st \<Longrightarrow> cases_ok (snd (case_exec eo st))"
proof (cases "(eo, st)" rule: case_exec.cases)
  case (4 env token grounds partner st')
  assume ok: "cases_ok st"
  show ?thesis
  proof (cases rule: file_objection_cases [where env = env and token = token and grounds = grounds and partner = partner and st = st])
    case (refused e)
    then show ?thesis using ok 4 by simp
  next
    case (filed c)
    let ?f = "\<lambda>c. c\<lparr>tc_grounds := map_option trim grounds, tc_filed_at := Some (now_of_case env)\<rparr>"
    have f: "case_sound n (?f c) = case_sound n c" for n c
      by (cases "tc_status c") (simp_all add: sound_defs)
    have "list_all (case_sound n) (update_first tc_id cid ?f cs) = list_all (case_sound n) cs" for n cid cs
      by (induction cs) (simp_all add: f)
    then have "cases_ok (st\<lparr>td_cases := update_first tc_id (tc_id c) ?f (td_cases st)\<rparr>)"
      using ok by (simp add: cases_ok_def one_case_def map_update_first case_key_def)
    then show ?thesis using filed(3) 4 transition_ok by simp
  qed
qed (simp_all add: transition_ok assign_ok process_deadlines_ok fuse_signals_ok run_scan_ok Let_def)

interpretation case_service: service case_exec cases_ok
  by unfold_locales (rule case_exec_ok)

subsection \<open>Properties\<close>

text \<open>
  C1. Cases only move forward. Whatever officers, partners, deadlines, agents and scans do, in whatever
  order and however many of their requests are refused, the status of a case follows the table of
  allowed moves, and a status it has left is never taken again.
\<close>

theorem cases_never_go_back:
  assumes "status_of st cid = Some s"
  shows "\<exists>t u. status_of (run_ops case_exec ops st) cid = Some t \<and> status_of (run_ops case_exec (ops @ later) st) cid = Some u \<and>
    next_status\<^sup>*\<^sup>* s t \<and> next_status\<^sup>*\<^sup>* t u \<and> (if u = s then t = s else case_rank s < case_rank u)"
proof -
  obtain t where t: "status_of (run_ops case_exec ops st) cid = Some t" "next_status\<^sup>*\<^sup>* s t"
    using case_life.run_status [OF assms] by blast
  obtain u where u: "status_of (run_ops case_exec later (run_ops case_exec ops st)) cid = Some u" "next_status\<^sup>*\<^sup>* t u"
    using case_life.run_status [OF t(1)] by blast
  have "if u = s then t = s else case_rank s < case_rank u"
    using t(2) u(2) case_life.star_antisym case_life.reach_rank by (metis rtranclp_trans rtranclpD)
  then show ?thesis using t u by auto
qed

text \<open>
  C2. The books of the cases stay sound under any sequence of operations: at most one case for a taxpayer
  and year, no demand before a notice, and from the notice on a reference, an access token, an objection
  date after the notice, a recorded version of the law that exists, an assessment that is not of a limited
  company, and a total not below the tax; an objection has its response date, a recovery its amount, and
  exactly the ended cases have a date of resolution.
\<close>

theorem cases_stay_sound:
  assumes "cases_ok st"
  shows "cases_ok (run_ops case_exec ops st)"
  using assms by (rule case_service.run_inv)

subsection \<open>No objection is left unanswered\<close>

definition answered_by :: "time \<Rightarrow> tax_case \<Rightarrow> bool" where
  "answered_by due c \<longleftrightarrow> (tc_status c = Objection \<and> tc_response_due c = Some due) \<or>
     tc_status c \<in> {Confirmed, Settled, Recovered, Dismissed, Closed}"

lemma answered_moved: "moved_on c d \<Longrightarrow> answered_by due c \<Longrightarrow> answered_by due d"
  by (cases "tc_status c") (auto simp: moved_on_def answered_by_def next_status_def)

lemma run_answered:
  assumes "find_by tc_id cid (td_cases st) = Some c" "answered_by due c"
  shows "\<exists>d. find_by tc_id cid (td_cases (run_ops case_exec ops st)) = Some d \<and> answered_by due d"
  using assms
proof (induction ops arbitrary: st c)
  case (Cons eo ops)
  from case_exec_moved [OF Cons.prems(1), of eo] obtain d where
    "find_by tc_id cid (td_cases (snd (case_exec eo st))) = Some d" "moved_on c d" by blast
  then show ?case using Cons.IH answered_moved Cons.prems(2) by simp
qed simp

text \<open>
  C3. An objection is always answered: once a case is under objection with a response date, then after any
  further operations and a run of the deadlines later than that date, the case is confirmed, settled,
  recovered, dismissed or closed. If nobody has decided it, the run of the deadlines dismisses it.
\<close>

theorem objections_are_answered:
  assumes "find_by tc_id cid (td_cases st) = Some c" and "tc_status c = Objection" and "tc_response_due c = Some due"
    and "due < now_of_case env"
  shows "status_of (run_ops case_exec (ops @ [(env, Deadlines)]) st) cid \<in>
      Some ` {Confirmed, Settled, Recovered, Dismissed, Closed} \<and>
    (if status_of (run_ops case_exec ops st) cid = Some Objection
     then status_of (run_ops case_exec (ops @ [(env, Deadlines)]) st) cid = Some Dismissed else True)"
proof -
  let ?st = "run_ops case_exec ops st"
  obtain d where d: "find_by tc_id cid (td_cases ?st) = Some d" "answered_by due d"
    using run_answered [OF assms(1), of due ops] assms(2,3) by (auto simp: answered_by_def)
  have "status_of (run_ops case_exec (ops @ [(env, Deadlines)]) st) cid =
      Some (tc_status (if lapsed (now_of_case env) d then deem_upheld (now_of_case env) d else d))"
    using d(1) by (simp add: process_deadlines_def Let_def status_of_def find_case_map deem_upheld_def)
  then show ?thesis using d assms(4) by (auto simp: answered_by_def lapsed_def deem_upheld_def status_of_def)
qed

subsection \<open>The demand\<close>

lemma cents_int: "cents x \<Longrightarrow> 0 \<le> x \<Longrightarrow> \<exists>k::int. x = of_int k / 100"
  unfolding cents_def to_fixed_def by (auto simp: power2_eq_square) metis

lemma cents_close:
  assumes "cents x" "0 \<le> x" "0 \<le> y" "\<bar>y - x\<bar> < 1/200"
  shows "to_fixed 2 y = x"
proof -
  obtain k :: int where k: "x = of_int k / 100" using cents_int assms by blast
  have "\<lfloor>y * 100 + 1/2\<rfloor> = k" using assms(4) unfolding k floor_eq_iff by linarith
  then show ?thesis using assms(3) k by (simp add: to_fixed_def power2_eq_square)
qed

lemma cents_apart: "cents x \<Longrightarrow> cents y \<Longrightarrow> cents z \<Longrightarrow> 0 \<le> x \<Longrightarrow> 0 \<le> y \<Longrightarrow> 0 \<le> z \<Longrightarrow> \<bar>x - (y + z)\<bar> < 2/100 \<Longrightarrow> \<bar>x - (y + z)\<bar> \<le> 1/100"
proof -
  assume c: "cents x" "cents y" "cents z" "0 \<le> x" "0 \<le> y" "0 \<le> z" and d: "\<bar>x - (y + z)\<bar> < 2/100"
  obtain i j k :: int where e: "x = of_int i / 100" "y = of_int j / 100" "z = of_int k / 100" using c cents_int by metis
  have "\<bar>of_int (i - (j + k)) :: rat\<bar> < 2" using d unfolding e of_int_diff of_int_add by linarith
  then have "\<bar>i - (j + k)\<bar> < 2" by linarith
  then have "\<bar>i - (j + k)\<bar> \<le> 1" by linarith
  then have "\<bar>of_int (i - (j + k)) :: rat\<bar> \<le> 1" by linarith
  then show ?thesis unfolding e of_int_diff of_int_add by linarith
qed

lemma demand_close:
  assumes e: "cents e" "0 \<le> e" "e \<le> 10 ^ 13" and r: "0 \<le> r" "r \<le> 1"
  defines "t \<equiv> fl e"
  defines "p \<equiv> fmul t r"
  shows "to_fixed 2 t = e" "0 \<le> t" "t \<le> 10 ^ 13 + 1" "0 \<le> p" "p \<le> 10 ^ 13 + 2" "0 \<le> fadd t p" "fadd t p \<le> 10 ^ 14"
    "\<bar>to_fixed 2 p - e * r\<bar> \<le> 1/100" "\<bar>to_fixed 2 (fadd t p) - (e + to_fixed 2 p)\<bar> \<le> 1/100"
proof -
  have m: "(10 ^ 13 + 1 :: rat) / 2 ^ 53 \<le> 1/800" "(10 ^ 14 :: rat) / 2 ^ 53 \<le> 1/50" "(3 * 10 ^ 13 :: rat) / 2 ^ 53 \<le> 1/250" by simp_all
  have "\<bar>t - e\<bar> \<le> (10 ^ 13 + 1) / 2 ^ 53" unfolding t_def using e by (intro fl_err) simp_all
  then have te: "\<bar>t - e\<bar> \<le> 1/800" using m(1) by linarith
  have t0: "0 \<le> t" using e by (simp add: t_def dbl.nonneg)
  have t1: "t \<le> 10 ^ 13 + 1" using te e(3) by linarith
  show "0 \<le> t" "t \<le> 10 ^ 13 + 1" by (rule t0, rule t1)
  show ft: "to_fixed 2 t = e" using te by (intro cents_close e t0) linarith
  have tr: "0 \<le> t * r" "t * r \<le> 10 ^ 13 + 1" using t0 t1 r by (simp_all add: mult_left_le order_trans [OF mult_left_le])
  have "\<bar>p - t * r\<bar> \<le> (10 ^ 13 + 1) / 2 ^ 53" unfolding p_def fmul_def using tr by (intro fl_err) simp_all
  then have pe: "\<bar>p - t * r\<bar> \<le> 1/800" using m(1) by linarith
  have "\<bar>t * r - e * r\<bar> = \<bar>t - e\<bar> * r" using r by (simp add: abs_mult flip: left_diff_distrib)
  also have "\<dots> \<le> \<bar>t - e\<bar>" using r by (simp add: mult_left_le)
  finally have er: "\<bar>t * r - e * r\<bar> \<le> 1/800" using te by linarith
  show p0: "0 \<le> p" using tr by (simp add: p_def fmul_def dbl.nonneg)
  show p1: "p \<le> 10 ^ 13 + 2" using pe tr(2) by linarith
  have fp: "\<bar>to_fixed 2 p - p\<bar> \<le> 1/200" "\<bar>to_fixed 2 (fadd t p) - fadd t p\<bar> \<le> 1/200" using to_fixed_error [of 2] by simp_all
  show "\<bar>to_fixed 2 p - e * r\<bar> \<le> 1/100" using fp(1) pe er by linarith
  have "\<bar>fadd t p - (t + p)\<bar> \<le> 3 * 10 ^ 13 / 2 ^ 53" unfolding fadd_def using t0 t1 p0 p1 by (intro fl_err) simp_all
  then have s: "\<bar>fadd t p - (t + p)\<bar> \<le> 1/250" using m(3) by linarith
  show s0: "0 \<le> fadd t p" using t0 p0 by (simp add: fadd_def dbl.nonneg)
  have "(2 * 10 ^ 13 + 4 :: rat) \<le> 10 ^ 14" by simp
  then show "fadd t p \<le> 10 ^ 14" using s t1 p1 by linarith
  have "\<bar>to_fixed 2 (fadd t p) - (e + to_fixed 2 p)\<bar> < 2/100" using s fp te by linarith
  then show "\<bar>to_fixed 2 (fadd t p) - (e + to_fixed 2 p)\<bar> \<le> 1/100"
    using e s0 p0 by (intro cents_apart) (simp_all add: cents_def to_fixed_nonneg)
qed

text \<open>
  C4. A notice adds up. Issuing the notice of a case under review, with an estimate up to ten trillion
  naira, succeeds, and the demand it records is to the kobo: the tax is the estimate exactly, the penalty
  is within one kobo of the estimate times the statutory rate, and the total within one kobo of the tax
  plus the penalty, although all three are computed as doubles and rounded separately.
\<close>

theorem demand_adds_up:
  assumes "cases_ok st" and "find_by tc_id cid (td_cases st) = Some c" and "tc_status c = UnderReview"
    and "tc_tax_basis c \<noteq> Some NotAssessedLlc" and "tc_estimated_tax c \<le> 10 ^ 13"
    and "list_all (\<lambda>d. tc_token d \<noteq> Some (new_token env)) (td_cases st)"
  shows "fst (transition env cid NoticeIssued nt amount st) = Inr NoticeIssued \<and>
    (\<exists>d p t. find_by tc_id cid (td_cases (snd (transition env cid NoticeIssued nt amount st))) = Some d \<and>
      tc_assessed d = Some (tc_estimated_tax c) \<and> tc_penalty d = Some p \<and> tc_total d = Some t \<and>
      \<bar>p - tc_estimated_tax c * sc_value (fst (active_config (td_config st))) LatePaymentPenaltyRate\<bar> \<le> 1/100 \<and>
      \<bar>t - (tc_estimated_tax c + p)\<bar> \<le> 1/100)"
proof -
  let ?cfg = "fst (active_config (td_config st))"
  let ?r = "sc_value ?cfg LatePaymentPenaltyRate" and ?e = "tc_estimated_tax c"
  have e: "cents ?e" "0 \<le> ?e"
    using assms(1) find_by_Some [OF assms(2)] by (auto simp: cases_ok_def list_all_iff case_sound_def)
  have r: "0 \<le> ?r" "?r \<le> 1"
    using cases_ok_later(3) [OF assms(1)] unfolding values_ok_def by (metis in_range.simps(2) kind_of.simps(4))+
  note dc = demand_close [OF e assms(5) r]
  have big: "(10 ^ 14 + 1 :: rat) \<le> 10 ^ 16" "(10 ^ 13 + 3 :: rat) \<le> 10 ^ 14" by simp_all
  have fits: "fits 18 2 (fl ?e)" "fits 18 2 (fmul (fl ?e) ?r)" "fits 18 2 (fadd (fl ?e) (fmul (fl ?e) ?r))"
    using dc(2-7) big by (intro fits_bound; simp; linarith)+
  have "move_error env ?cfg NoticeIssued amount c (td_cases st) = None"
    using assms(4,6) fits by (simp add: move_error_def demand_of_def Let_def recovered_value_def list_all_iff list_ex_iff)
  then show ?thesis
  proof (cases rule: transition_cases [where env = env and cid = cid and target = NoticeIssued and nt = nt and amount = amount and st = st])
    case (refused x rows)
    then show ?thesis using assms(2,3) \<open>move_error _ _ _ _ _ _ = None\<close> by (simp add: transition_def split_beta Let_def)
  next
    case (moved c')
    then show ?thesis using assms(2) dc(1,8,9)
      by (simp add: find_update_first move_data_life move_data_def notice_data_def demand_of_def Let_def recovered_value_def)
  qed
qed

subsection \<open>What a partner is told\<close>

lemma find_by_distinct: "distinct (map k rs) \<Longrightarrow> find_by j x rs = Some r \<Longrightarrow> find_by k (k r) rs = Some r"
  using find_by_Some [of j x rs r] find_distinct [of k rs r] by simp

text \<open>
  What the notice tells a taxpayer is honoured: if the notice read at some moment says that an objection
  can be filed, then filing one with grounds at that moment succeeds, records the trimmed grounds and sets
  the authority's response date of the active law. A notice can be read with the token of its own case only.
\<close>

theorem can_object_is_honoured:
  assumes "get_notice (now_of_case env) token st = Inr v" and "nv_can_object v" and "trim g \<noteq> []"
    and "distinct (map tc_id (td_cases st))"
  shows "fst (file_objection env token (Some g) partner st) = Inr Objection \<and>
    (\<exists>c d. case_by_token token st = Inr c \<and> tc_token c = token \<and>
      find_by tc_id (tc_id c) (td_cases (snd (file_objection env token (Some g) partner st))) = Some d \<and>
      tc_status d = Objection \<and> tc_grounds d = Some (trim g) \<and> tc_response_due d =
        Some (days_later (now_of_case env) (sc_value (fst (active_config (td_config st))) AuthorityResponseDays)))"
proof -
  obtain c where c: "case_by_token token st = Inr c" "can_object (now_of_case env) c"
    using assms(1,2) by (auto simp: get_notice_def split: sum.splits if_splits)
  then have f: "find_by tc_token token (td_cases st) = Some c"
    by (auto simp: case_by_token_def split: if_splits option.splits)
  from find_by_distinct [OF assms(4) f] have i: "find_by tc_id (tc_id c) (td_cases st) = Some c" .
  let ?f = "\<lambda>c. c\<lparr>tc_grounds := map_option trim (Some g), tc_filed_at := Some (now_of_case env)\<rparr>"
  let ?st = "st\<lparr>td_cases := update_first tc_id (tc_id c) ?f (td_cases st)\<rparr>"
  let ?nt = "Some (''Objection filed via '' @ partner)"
  have s: "tc_status c = NoticeIssued" "\<not> (case tc_objection_due c of None \<Rightarrow> False | Some due \<Rightarrow> due < now_of_case env)"
    using c(2) by (auto simp: can_object_def split: option.splits)
  have o: "file_objection env token (Some g) partner st = transition env (tc_id c) Objection ?nt None ?st"
    using c(1) s assms(3) by (simp add: file_objection_def Let_def)
  have j: "find_by tc_id (tc_id c) (td_cases ?st) = Some (?f c)" using i by (simp add: find_update_first)
  show ?thesis
  proof (cases rule: transition_cases [where env = env and cid = "tc_id c" and target = Objection and nt = ?nt and amount = None
      and st = ?st])
    case (refused x rows)
    then show ?thesis using j s(1) unfolding o
      by (simp add: transition_def split_beta Let_def move_error_def recovered_value_def)
  next
    case (moved c')
    let ?d = "move_data env (fst (active_config (td_config st))) Objection ?nt None (?f c)"
    have "c' = ?f c" "td_config ?st = td_config st" using j moved(1) by simp_all
    then have r: "fst (file_objection env token (Some g) partner st) = Inr Objection"
        "find_by tc_id (tc_id c) (td_cases (snd (file_objection env token (Some g) partner st))) = Some ?d"
      unfolding o moved(4) using i by (simp_all add: find_update_first move_data_life)
    have "tc_status ?d = Objection" "tc_grounds ?d = Some (trim g)" "tc_response_due ?d =
        Some (days_later (now_of_case env) (sc_value (fst (active_config (td_config st))) AuthorityResponseDays))"
      by (simp_all add: move_data_def Let_def recovered_value_def)
    then show ?thesis using r c(1) find_by_Some [OF f] by blast
  qed
qed

subsection \<open>Instances\<close>

definition demo_case_env :: "time \<Rightarrow> case_env" where
  "demo_case_env t = \<lparr>cv_scan = small_env\<lparr>se_now := t\<rparr>, cv_token = ''ab'', cv_staff = [''s1'']\<rparr>"

definition demo_case :: "case_status \<Rightarrow> tax_case" where
  "demo_case s = (new_case ''c1'' ''t1'' 2026)\<lparr>tc_status := s, tc_estimated_tax := 1000\<rparr>"

definition case_desk :: "tax_case \<Rightarrow> tax_db" where
  "case_desk c = (small_db 0 [])\<lparr>td_cases := [c]\<rparr>"

lemma cents_1000: "cents 1000"
proof -
  have "\<lfloor>200001 / 2 :: rat\<rfloor> = 100000" by (simp add: floor_eq_iff)
  then show ?thesis by (simp add: cents_def to_fixed_def power2_eq_square)
qed

lemma case_desk_ok: "s \<in> {Open, UnderReview} \<Longrightarrow> cases_ok (case_desk (demo_case s))"
  by (auto simp: cases_ok_def case_desk_def demo_case_def small_db_def stat_ok_def one_case_def sound_defs new_case_def cents_1000)

theorem cases_never_go_back_witness:
  "\<exists>t u. status_of (run_ops case_exec [(demo_case_env 0, Move ''c1'' UnderReview None None)] (case_desk (demo_case Open))) ''c1'' = Some t \<and>
    status_of (run_ops case_exec ([(demo_case_env 0, Move ''c1'' UnderReview None None)] @ [(demo_case_env 5, Deadlines)])
      (case_desk (demo_case Open))) ''c1'' = Some u \<and>
    next_status\<^sup>*\<^sup>* Open t \<and> next_status\<^sup>*\<^sup>* t u \<and> (if u = Open then t = Open else case_rank Open < case_rank u)"
  by (rule cases_never_go_back) (simp add: status_of_def case_desk_def demo_case_def new_case_def)

theorem cases_stay_sound_witness:
  "cases_ok (run_ops case_exec [(demo_case_env 0, Move ''c1'' NoticeIssued None None)] (case_desk (demo_case UnderReview)))"
  by (rule cases_stay_sound) (simp add: case_desk_ok)

theorem objections_are_answered_witness:
  "status_of (run_ops case_exec ([(demo_case_env 3, AssignTo ''c1'' (Some ''s1''))] @ [(demo_case_env 9, Deadlines)])
      (case_desk ((demo_case Objection)\<lparr>tc_response_due := Some 8\<rparr>))) ''c1'' \<in>
      Some ` {Confirmed, Settled, Recovered, Dismissed, Closed} \<and>
    (if status_of (run_ops case_exec [(demo_case_env 3, AssignTo ''c1'' (Some ''s1''))]
        (case_desk ((demo_case Objection)\<lparr>tc_response_due := Some 8\<rparr>))) ''c1'' = Some Objection
     then status_of (run_ops case_exec ([(demo_case_env 3, AssignTo ''c1'' (Some ''s1''))] @ [(demo_case_env 9, Deadlines)])
      (case_desk ((demo_case Objection)\<lparr>tc_response_due := Some 8\<rparr>))) ''c1'' = Some Dismissed else True)"
  by (rule objections_are_answered [where c = "(demo_case Objection)\<lparr>tc_response_due := Some 8\<rparr>" and due = 8])
    (simp_all add: case_desk_def demo_case_def new_case_def now_of_case_def demo_case_env_def)

theorem demand_adds_up_witness:
  "fst (transition (demo_case_env 0) ''c1'' NoticeIssued None None (case_desk (demo_case UnderReview))) = Inr NoticeIssued \<and>
    (\<exists>d p t. find_by tc_id ''c1'' (td_cases (snd (transition (demo_case_env 0) ''c1'' NoticeIssued None None
        (case_desk (demo_case UnderReview))))) = Some d \<and>
      tc_assessed d = Some (tc_estimated_tax (demo_case UnderReview)) \<and> tc_penalty d = Some p \<and> tc_total d = Some t \<and>
      \<bar>p - tc_estimated_tax (demo_case UnderReview) *
         sc_value (fst (active_config (td_config (case_desk (demo_case UnderReview))))) LatePaymentPenaltyRate\<bar> \<le> 1/100 \<and>
      \<bar>t - (tc_estimated_tax (demo_case UnderReview) + p)\<bar> \<le> 1/100)"
  by (rule demand_adds_up [OF case_desk_ok]) (simp_all add: case_desk_def demo_case_def new_case_def)

definition noticed_case :: tax_case where
  "noticed_case = (demo_case NoticeIssued)\<lparr>tc_token := Some ''cat_ab'', tc_notice_ref := Some ''DN-2026-C1'', tc_objection_due := Some 8\<rparr>"

theorem can_object_is_honoured_witness:
  "fst (file_objection (demo_case_env 7) (Some ''cat_ab'') (Some ''my reasons'') ''Portal'' (case_desk noticed_case)) = Inr Objection \<and>
    (\<exists>c d. case_by_token (Some ''cat_ab'') (case_desk noticed_case) = Inr c \<and> tc_token c = Some ''cat_ab'' \<and>
      find_by tc_id (tc_id c) (td_cases (snd (file_objection (demo_case_env 7) (Some ''cat_ab'') (Some ''my reasons'') ''Portal''
        (case_desk noticed_case)))) = Some d \<and>
      tc_status d = Objection \<and> tc_grounds d = Some (trim ''my reasons'') \<and> tc_response_due d =
        Some (days_later (now_of_case (demo_case_env 7))
          (sc_value (fst (active_config (td_config (case_desk noticed_case)))) AuthorityResponseDays)))"
proof -
  have "trim ''my reasons'' \<noteq> []" by code_simp
  moreover have "\<exists>v. get_notice (now_of_case (demo_case_env 7)) (Some ''cat_ab'') (case_desk noticed_case) = Inr v \<and> nv_can_object v"
    by (simp add: get_notice_def case_by_token_def can_object_def case_desk_def noticed_case_def demo_case_def new_case_def
        now_of_case_def demo_case_env_def)
  moreover have "distinct (map tc_id (td_cases (case_desk noticed_case)))" by (simp add: case_desk_def)
  ultimately show ?thesis using can_object_is_honoured [of "demo_case_env 7" "Some ''cat_ab''" "case_desk noticed_case"] by blast
qed

end
