(* ===== verification/Compliance.thy ===== *)
theory Compliance
  imports TaxDb
begin

text \<open>
  Providers' filing obligations and their penalties:
  \<open>backend/src/modules/providers/provider-compliance.service.ts\<close>. For each provider and year the expected
  periods with their due dates, the status of each, the penalty of section 101 with its months in default,
  the formal penalty records, and the figures of the demand letter with the amount in words.
\<close>

subsection \<open>Months in default and the penalty\<close>

definition month_ms :: int where "month_ms = 30 * 86400000"

definition months_in_default :: "time \<Rightarrow> time \<Rightarrow> int" where
  "months_in_default due as_of = (if as_of \<le> due then 0 else max 1 \<lceil>fdiv (of_int (as_of - due)) (of_int month_ms)\<rceil>)"

definition s101_penalty :: "int \<Rightarrow> rat \<Rightarrow> rat \<Rightarrow> rat" where
  "s101_penalty months first per = (if months \<le> 0 then 0 else fadd first (fmul (of_int (max 0 (months - 1))) per))"

subsection \<open>Amounts in words\<close>

definition ones :: "string list" where
  "ones = ['''', ''One'', ''Two'', ''Three'', ''Four'', ''Five'', ''Six'', ''Seven'', ''Eight'', ''Nine'', ''Ten'',
    ''Eleven'', ''Twelve'', ''Thirteen'', ''Fourteen'', ''Fifteen'', ''Sixteen'', ''Seventeen'', ''Eighteen'', ''Nineteen'']"

definition tens :: "string list" where
  "tens = ['''', '''', ''Twenty'', ''Thirty'', ''Forty'', ''Fifty'', ''Sixty'', ''Seventy'', ''Eighty'', ''Ninety'']"

text \<open>An index past the end of the list gives the text undefined, as in a concatenation of the source.\<close>

definition at_index :: "string list \<Rightarrow> nat \<Rightarrow> string" where
  "at_index xs i = (if i < length xs then xs ! i else ''undefined'')"

definition below100 :: "nat \<Rightarrow> string" where
  "below100 x = (if 20 \<le> x then at_index tens (x div 10) @ (if x mod 10 \<noteq> 0 then ''-'' @ at_index ones (x mod 10) else [])
     else if 0 < x then at_index ones x else [])"

definition below1000 :: "nat \<Rightarrow> string" where
  "below1000 x = (if 100 \<le> x
     then at_index ones (x div 100) @ '' Hundred'' @ (if x mod 100 \<noteq> 0 then '' and '' else []) @ below100 (x mod 100)
     else below100 x)"

definition scales :: "(nat \<times> string) list" where
  "scales = [(1000000000, ''Billion''), (1000000, ''Million''), (1000, ''Thousand'')]"

fun scale_parts :: "nat \<Rightarrow> (nat \<times> string) list \<Rightarrow> string list" where
  "scale_parts n [] = (if 0 < n then [below1000 n] else [])"
| "scale_parts n ((v, label) # ss) =
     (if v \<le> n then (below1000 (n div v) @ '' '' @ label) # scale_parts (n mod v) ss else scale_parts n ss)"

function squeeze :: "string \<Rightarrow> string" where
  "squeeze [] = []"
| "squeeze (c # s) = (if is_ws c then CHR '' '' # squeeze (dropWhile is_ws s) else c # squeeze s)"
  by pat_completeness auto
termination
  by (relation "measure length") (auto simp: le_imp_less_Suc length_dropWhile_le)

definition number_to_words :: "rat \<Rightarrow> string" where
  "number_to_words x = (let n = nat \<lfloor>\<bar>x\<bar>\<rfloor> in
     if n = 0 then ''Zero'' else trim (squeeze (join '' '' (scale_parts n scales))))"

subsection \<open>Expected periods\<close>

definition plus_days :: "time \<Rightarrow> rat \<Rightarrow> time" where
  "plus_days t days = t + \<lfloor>days * 86400000\<rfloor>"

fun end_month :: "int \<Rightarrow> nat \<Rightarrow> int \<times> int" where
  "end_month year q = (if q = 1 then (year, 3) else if q = 2 then (year, 6) else if q = 3 then (year, 9) else (year + 1, 0))"

definition quarter_due :: "int \<Rightarrow> nat \<Rightarrow> rat \<Rightarrow> time" where
  "quarter_due year q due_days = (let (y, m) = end_month year q in plus_days (date_utc y m 0 0) due_days)"

definition month_due :: "int \<Rightarrow> nat \<Rightarrow> rat \<Rightarrow> time" where
  "month_due year m due_days = plus_days (date_utc year (int m) 0 0) due_days"

definition int_str :: "int \<Rightarrow> string" where
  "int_str i = (if i < 0 then ''-'' @ dec_str (nat (- i)) else dec_str (nat i))"

definition expected_periods :: "int \<Rightarrow> string option \<Rightarrow> rat \<Rightarrow> (string \<times> time) list" where
  "expected_periods year frequency due_days =
     (let freq = upper (if truthy frequency then the frequency else ''QUARTERLY'') in
      if freq = ''MONTHLY'' then map (\<lambda>m. (int_str year @ ''-'' @ pad2 m, month_due year m due_days)) [1..<13]
      else if freq = ''ANNUAL'' then [(int_str year, plus_days (date_utc year 11 31 0) due_days)]
      else map (\<lambda>q. (int_str year @ ''-Q'' @ dec_str q, quarter_due year q due_days)) [1, 2, 3, 4])"

subsection \<open>Compliance of a year\<close>

datatype period_status = OnTime | Late | Missing | Pending

record reporter = provider +
  rp_name :: string
  rp_frequency :: "string option"

record period_row =
  pr_label :: string
  pr_due :: time
  pr_status :: period_status
  pr_received :: "time option"
  pr_months :: int
  pr_penalty :: rat
  pr_enforced :: bool

text \<open>The submissions of one provider in the order received; \<open>first_filed\<close> is the first one for a label.\<close>

definition first_filed :: "submission list \<Rightarrow> string \<Rightarrow> submission option" where
  "first_filed mine label = find (\<lambda>s. sb_period_label s = label \<and> sb_status s \<noteq> Rejected) mine"

definition period_of :: "time \<Rightarrow> stat_config \<Rightarrow> submission list \<Rightarrow> string \<times> time \<Rightarrow> period_row" where
  "period_of now cfg mine e = (let (label, due) = e; filed = first_filed mine label;
      status = (case filed of Some s \<Rightarrow> if sb_received_at s \<le> due then OnTime else Late
        | None \<Rightarrow> if due < now then Missing else Pending);
      in_default = (status = Late \<or> status = Missing);
      enforced = (in_default \<and> (case sc_penalty_from cfg of None \<Rightarrow> True | Some t \<Rightarrow> t \<le> due));
      as_of = (if status = Late then sb_received_at (the filed) else now);
      months = (if enforced then months_in_default due as_of else 0)
    in \<lparr>pr_label = label, pr_due = due, pr_status = status, pr_received = map_option sb_received_at filed, pr_months = months,
        pr_penalty = s101_penalty months (sc_value cfg ProviderPenaltyFirstMonth) (sc_value cfg ProviderPenaltyPerMonth),
        pr_enforced = enforced\<rparr>)"

record compliance_row =
  cr_provider :: string
  cr_expected :: nat
  cr_on_time :: nat
  cr_late :: nat
  cr_missing :: nat
  cr_pending :: nat
  cr_rate :: int
  cr_submissions :: nat
  cr_rejection_rate :: int
  cr_penalty_total :: rat
  cr_periods :: "period_row list"

definition percent :: "nat \<Rightarrow> nat \<Rightarrow> int" where
  "percent a b = \<lfloor>fmul (fdiv (of_nat a) (of_nat b)) 100 + 1/2\<rfloor>"

definition received_order :: "int \<Rightarrow> submission list \<Rightarrow> submission list" where
  "received_order year subs = sort_key sb_received_at (filter (\<lambda>s. int (sb_period_year s) = year) subs)"

definition compliance_of :: "time \<Rightarrow> stat_config \<Rightarrow> int \<Rightarrow> submission list \<Rightarrow> reporter \<Rightarrow> compliance_row" where
  "compliance_of now cfg year subs p =
     (let mine = filter (\<lambda>s. sb_provider s = pv_id p) (received_order year subs);
          periods = map (period_of now cfg mine) (expected_periods year (rp_frequency p) (sc_value cfg ReportingDueDays));
          count = (\<lambda>st. length (filter (\<lambda>x. pr_status x = st) periods));
          due = length (filter (\<lambda>x. pr_status x \<noteq> Pending) periods);
          records = sum_list (map sb_record_count mine)
      in \<lparr>cr_provider = pv_id p, cr_expected = length periods, cr_on_time = count OnTime, cr_late = count Late,
          cr_missing = count Missing, cr_pending = count Pending, cr_rate = (if 0 < due then percent (count OnTime) due else 100),
          cr_submissions = length mine, cr_rejection_rate = (if 0 < records then percent (sum_list (map sb_rejected mine)) records else 0),
          cr_penalty_total = foldl (\<lambda>a x. fadd a (pr_penalty x)) 0 periods, cr_periods = periods\<rparr>)"

definition for_year :: "time \<Rightarrow> stat_config \<Rightarrow> int \<Rightarrow> submission list \<Rightarrow> reporter list \<Rightarrow> compliance_row list" where
  "for_year now cfg year subs ps = map (compliance_of now cfg year subs) ps"

record year_summary =
  ys_providers :: nat
  ys_average :: int
  ys_missing :: nat
  ys_late :: nat
  ys_penalty :: rat
  ys_at_risk :: "string list"

definition summary :: "compliance_row list \<Rightarrow> year_summary" where
  "summary rows = \<lparr>ys_providers = length rows,
     ys_average = (if rows = [] then 100 else \<lfloor>fdiv (of_int (sum_list (map cr_rate rows))) (of_nat (length rows)) + 1/2\<rfloor>),
     ys_missing = sum_list (map cr_missing rows), ys_late = sum_list (map cr_late rows),
     ys_penalty = foldl (\<lambda>a r. fadd a (cr_penalty_total r)) 0 rows,
     ys_at_risk = map cr_provider (filter (\<lambda>r. 0 < cr_missing r) rows)\<rparr>"

subsection \<open>Penalty records\<close>

datatype penalty_status = Assessed | Notified | Waived | Paid

record penalty =
  pn_id :: string
  pn_provider :: string
  pn_label :: string
  pn_year :: int
  pn_due :: time
  pn_reason :: period_status
  pn_months :: int
  pn_first :: rat
  pn_per :: rat
  pn_amount :: rat
  pn_version :: nat
  pn_status :: penalty_status
  pn_ref :: "string option"
  pn_notified_at :: "time option"

record enforcement =
  en_config :: "stat_config list"
  en_providers :: "reporter list"
  en_subs :: "submission list"
  en_penalties :: "penalty list"

text \<open>The clock, and the id and the random part of the reference of a record created for a provider and label.\<close>

record penalty_env =
  pe_now :: time
  pe_id :: "string \<Rightarrow> string \<Rightarrow> string"
  pe_hex :: "string \<Rightarrow> string \<Rightarrow> string"

datatype penalty_error = PenaltyProviderNotFound | PeriodNotExpected | NothingDue period_status | NotEnforceable
  | AmountOverflow | PenaltyNotFound

definition penalty_key :: "penalty \<Rightarrow> string \<times> string" where "penalty_key p = (pn_provider p, pn_label p)"

definition settled_status :: "penalty_status \<Rightarrow> bool" where "settled_status s \<longleftrightarrow> s = Waived \<or> s = Paid"

definition refresh :: "stat_config \<Rightarrow> int \<Rightarrow> period_row \<Rightarrow> penalty \<Rightarrow> penalty" where
  "refresh cfg year row p = p\<lparr>pn_year := year, pn_due := pr_due row, pn_reason := pr_status row, pn_months := pr_months row,
     pn_first := to_fixed 2 (sc_value cfg ProviderPenaltyFirstMonth), pn_per := to_fixed 2 (sc_value cfg ProviderPenaltyPerMonth),
     pn_amount := to_fixed 2 (pr_penalty row), pn_version := sc_version cfg\<rparr>"

definition new_penalty :: "penalty_env \<Rightarrow> string \<Rightarrow> string \<Rightarrow> penalty" where
  "new_penalty env pid label = \<lparr>pn_id = pe_id env pid label, pn_provider = pid, pn_label = label, pn_year = 0, pn_due = 0,
     pn_reason = Missing, pn_months = 0, pn_first = 0, pn_per = 0, pn_amount = 0, pn_version = 0, pn_status = Assessed,
     pn_ref = Some (''PPN-'' @ label @ ''-'' @ upper (pe_hex env pid label)), pn_notified_at = None\<rparr>"

definition issue_penalty :: "penalty_env \<Rightarrow> string \<Rightarrow> string \<Rightarrow> enforcement \<Rightarrow> (penalty_error, penalty, enforcement) outcome" where
  "issue_penalty env pid label st0 =
     (case find_by pv_id pid (en_providers st0) of None \<Rightarrow> (Inl PenaltyProviderNotFound, st0)
      | Some p \<Rightarrow> (case js_parse_int (take 4 label) of None \<Rightarrow> (Inl PeriodNotExpected, st0)
      | Some year \<Rightarrow> (let (cfg, config) = active_config (en_config st0); st = st0\<lparr>en_config := config\<rparr> in
          case find_by pr_label label (cr_periods (compliance_of (pe_now env) cfg year (en_subs st) p)) of
            None \<Rightarrow> (Inl PeriodNotExpected, st)
          | Some row \<Rightarrow>
             (if pr_status row \<noteq> Late \<and> pr_status row \<noteq> Missing then (Inl (NothingDue (pr_status row)), st)
              else if \<not> pr_enforced row then (Inl NotEnforceable, st)
              else (case find_by penalty_key (pid, label) (en_penalties st) of
                  Some old \<Rightarrow>
                    (if settled_status (pn_status old) then (Inr old, st)
                     else if \<not> fits 18 2 (pr_penalty row) then (Inl AmountOverflow, st)
                     else (Inr (refresh cfg year row old),
                       st\<lparr>en_penalties := update_first penalty_key (pid, label) (refresh cfg year row) (en_penalties st)\<rparr>))
                | None \<Rightarrow>
                    (if \<not> fits 18 2 (pr_penalty row) then (Inl AmountOverflow, st)
                     else (let n = refresh cfg year row (new_penalty env pid label) in
                       (Inr n, st\<lparr>en_penalties := en_penalties st @ [n]\<rparr>))))))))"

text \<open>The batch skips what is refused.\<close>

fun issue_each :: "penalty_env \<Rightarrow> (string \<times> string) list \<Rightarrow> nat \<Rightarrow> enforcement \<Rightarrow> nat \<times> enforcement" where
  "issue_each env [] n st = (n, st)"
| "issue_each env ((pid, label) # xs) n st = (case issue_penalty env pid label st of
     (Inl _, st') \<Rightarrow> issue_each env xs n st' | (Inr _, st') \<Rightarrow> issue_each env xs (Suc n) st')"

definition issue_all :: "penalty_env \<Rightarrow> int \<Rightarrow> enforcement \<Rightarrow> (penalty_error, nat, enforcement) outcome" where
  "issue_all env year st0 = (let (cfg, config) = active_config (en_config st0); st = st0\<lparr>en_config := config\<rparr>;
      rows = for_year (pe_now env) cfg year (en_subs st) (en_providers st);
      targets = concat (map (\<lambda>r. map (\<lambda>p. (cr_provider r, pr_label p))
        (filter (\<lambda>p. pr_status p = Late \<or> pr_status p = Missing) (cr_periods r))) rows);
      (n, st') = issue_each env targets 0 st
    in (Inr n, st'))"

record demand_letter =
  dl_ref :: string
  dl_months :: int
  dl_first :: rat
  dl_subsequent :: rat
  dl_total :: rat
  dl_words :: string
  dl_deadline :: time

definition letter_of :: "time \<Rightarrow> stat_config \<Rightarrow> penalty \<Rightarrow> demand_letter" where
  "letter_of now cfg p = (let total = fl (pn_amount p) in
     \<lparr>dl_ref = (case pn_ref p of None \<Rightarrow> upper (take 8 (pn_id p)) | Some r \<Rightarrow> r), dl_months = pn_months p, dl_first = fl (pn_first p),
      dl_subsequent = fmul (of_int (max 0 (pn_months p - 1))) (fl (pn_per p)), dl_total = total,
      dl_words = number_to_words (of_int \<lfloor>total + 1/2\<rfloor>) @ '' naira only'',
      dl_deadline = plus_days now (sc_value cfg ProviderPenaltyPaymentDays)\<rparr>)"

definition penalty_notice :: "penalty_env \<Rightarrow> string \<Rightarrow> enforcement \<Rightarrow> (penalty_error, demand_letter, enforcement) outcome" where
  "penalty_notice env k st0 = (case find_by pn_id k (en_penalties st0) of None \<Rightarrow> (Inl PenaltyNotFound, st0)
     | Some p \<Rightarrow> (let (cfg, config) = active_config (en_config st0); st = st0\<lparr>en_config := config\<rparr> in
         (Inr (letter_of (pe_now env) cfg p),
          if pn_status p = Assessed then st\<lparr>en_penalties := update_first pn_id k
              (\<lambda>p. p\<lparr>pn_status := Notified, pn_notified_at := Some (pe_now env)\<rparr>) (en_penalties st)\<rparr> else st)))"

subsection \<open>The penalty follows the months\<close>

lemma months_exact:
  assumes "due < t" "t - due < 2 ^ 53"
  shows "1 \<le> months_in_default due t" "due + (months_in_default due t - 1) * month_ms < t" "t \<le> due + months_in_default due t * month_ms"
proof -
  let ?d = "of_int (t - due) :: rat" and ?M = "of_int month_ms :: rat"
  let ?q = "?d / ?M"
  define k where "k = \<lceil>?q\<rceil>"
  have M: "0 < month_ms" "(0::rat) < ?M" by (simp_all add: month_ms_def)
  have q0: "0 < ?q" using assms(1) M by simp
  have k1: "1 \<le> k" using q0 unfolding k_def by linarith
  have kq: "of_int (k - 1) < ?q" "?q \<le> of_int k" unfolding k_def by linarith+
  have "of_int ((k - 1) * month_ms) < ?d" "?d \<le> of_int (k * month_ms)" using kq M by (simp_all add: field_simps)
  then have i: "(k - 1) * month_ms < t - due" "t - due \<le> k * month_ms" by (simp_all only: of_int_less_iff of_int_le_iff)
  have "(k - 1) * 1 \<le> (k - 1) * month_ms" using k1 M(1) by (intro mult_left_mono) simp_all
  then have "k \<le> 2 ^ 53" using i(1) assms(2) by simp
  then have "fl ?q \<le> of_int k" using fl_mono [OF kq(2)] fl_of_int [of k] k1 by simp
  moreover have "of_int (k - 1) < fl ?q"
  proof -
    have "of_int ((k - 1) * month_ms + 1) \<le> ?d" using i(1) by (simp only: of_int_le_iff)
    then have "(of_int (k - 1) * ?M + 1) / ?M \<le> ?q" using M(2) by (intro divide_right_mono) simp_all
    then have "of_int (k - 1) + 1 / ?M \<le> ?q" using M(2) by (simp add: add_divide_distrib)
    moreover have "?d < 2 ^ 53" using assms(2) by (simp only: of_int_less_iff [symmetric, where 'a = rat]) simp
    then have "?d / 2 ^ 53 / ?M < 1 / ?M" using M(2) by (intro divide_strict_right_mono) simp_all
    then have "?q / 2 ^ 53 < 1 / ?M" by (simp add: mult.commute)
    moreover have "\<bar>fl ?q - ?q\<bar> \<le> ?q / 2 ^ 53" by (rule fl_error [OF q0])
    ultimately show ?thesis by linarith
  qed
  ultimately have "\<lceil>fl ?q\<rceil> = k" by (simp add: ceiling_eq_iff)
  then have "months_in_default due t = k" using assms(1) k1 by (simp add: months_in_default_def fdiv_def)
  then show "1 \<le> months_in_default due t" "due + (months_in_default due t - 1) * month_ms < t" "t \<le> due + months_in_default due t * month_ms"
    using k1 i by simp_all
qed

text \<open>
  C34. The penalty of section 101 follows the months of default: with whole-naira parameters the amount
  computed on doubles is exactly the fine of the first month plus the further fine for each later month
  begun, where a filing or a moment \<open>t\<close> after the due date falls into month \<open>m\<close> when it is more than \<open>m - 1\<close>
  and at most \<open>m\<close> spans of thirty days after it.
\<close>

theorem penalty_follows_months:
  assumes "due < t" and "t - due < 2 ^ 53" and "0 \<le> f" and "f \<le> 10 ^ 15" and "0 \<le> g" and "g \<le> 10 ^ 9"
  shows "\<exists>m\<ge>1. due + (m - 1) * month_ms < t \<and> t \<le> due + m * month_ms \<and>
    s101_penalty (months_in_default due t) (of_int f) (of_int g) = of_int (f + (m - 1) * g)"
proof -
  let ?m = "months_in_default due t"
  note m = months_exact [OF assms(1,2)]
  have "(?m - 1) * month_ms < 2 ^ 53" using m(2) assms(2) by linarith
  then have "?m - 1 \<le> 4000000" by (simp add: month_ms_def)
  then have b: "(?m - 1) * g \<le> 4000000 * 10 ^ 9" by (intro mult_mono) (use assms(5,6) in simp_all)
  have b0: "0 \<le> (?m - 1) * g" using assms(5) m(1) by simp
  have "fl (of_int ((?m - 1) * g)) = of_int ((?m - 1) * g)" using b b0 by (intro fl_of_int) simp
  moreover have "fl (of_int (f + (?m - 1) * g)) = of_int (f + (?m - 1) * g)" using b b0 assms(3,4) by (intro fl_of_int) simp
  ultimately have "s101_penalty ?m (of_int f) (of_int g) = of_int (f + (?m - 1) * g)"
    using m(1) by (simp add: s101_penalty_def fadd_def fmul_def)
  then show ?thesis using m by blast
qed

theorem penalty_follows_months_witness:
  "\<exists>m\<ge>1. 0 + (m - 1) * month_ms < 7000000000 \<and> 7000000000 \<le> 0 + m * month_ms \<and>
    s101_penalty (months_in_default 0 7000000000) (of_int 100000) (of_int 50000) = of_int (100000 + (m - 1) * 50000)"
  by (rule penalty_follows_months) simp_all

subsection \<open>Reading the words back\<close>

definition number_table :: "(string \<times> nat) list" where
  "number_table = [(''One'', 1), (''Two'', 2), (''Three'', 3), (''Four'', 4), (''Five'', 5), (''Six'', 6), (''Seven'', 7),
    (''Eight'', 8), (''Nine'', 9), (''Ten'', 10), (''Eleven'', 11), (''Twelve'', 12), (''Thirteen'', 13),
    (''Fourteen'', 14), (''Fifteen'', 15), (''Sixteen'', 16), (''Seventeen'', 17), (''Eighteen'', 18),
    (''Nineteen'', 19), (''Twenty'', 20), (''Thirty'', 30), (''Forty'', 40), (''Fifty'', 50), (''Sixty'', 60),
    (''Seventy'', 70), (''Eighty'', 80), (''Ninety'', 90)]"

definition word_num :: "string \<Rightarrow> nat" where
  "word_num w = (case map_of number_table w of Some i \<Rightarrow> i | None \<Rightarrow> 0)"

definition scale_num :: "string \<Rightarrow> nat option" where
  "scale_num w = map_of (map (\<lambda>(v, l). (l, v)) scales) w"

fun read_words :: "nat \<Rightarrow> nat \<Rightarrow> string list \<Rightarrow> nat" where
  "read_words t c [] = t + c"
| "read_words t c (w # ws) = (if w = ''Hundred'' then read_words t (c * 100) ws else if w = ''and'' then read_words t c ws
     else (case scale_num w of Some v \<Rightarrow> read_words (t + c * v) 0 ws | None \<Rightarrow> read_words t (c + word_num w) ws))"

definition words_value :: "string \<Rightarrow> nat" where "words_value s = read_words 0 0 (words_of s)"

definition tokens100 :: "nat \<Rightarrow> string list" where
  "tokens100 x = (if 20 \<le> x then tens ! (x div 10) # (if x mod 10 \<noteq> 0 then [ones ! (x mod 10)] else [])
     else if 0 < x then [ones ! x] else [])"

lemma words_of_sep: "\<not> is_word c \<Longrightarrow> words_of (s @ c # t) = words_of s @ words_of t"
proof -
  assume c: "\<not> is_word c"
  let ?f = "\<lambda>c. if is_word c then c else CHR '' ''"
  have "split_on x (s @ x # t) = split_on x s @ split_on x t" for x and s t :: string
    by (induction s) (auto split: list.split)
  then show ?thesis using c by (simp add: words_of_def)
qed

lemma words_of_word: "w \<noteq> [] \<Longrightarrow> list_all is_word w \<Longrightarrow> words_of w = [w]"
proof -
  assume w: "w \<noteq> []" "list_all is_word w"
  have "\<not> is_word (CHR '' '')" by code_simp
  then have "CHR '' '' \<notin> set w" using w(2) by (auto simp: list_all_iff)
  moreover have "map (\<lambda>c. if is_word c then c else CHR '' '') w = w" using w(2) by (induction w) auto
  ultimately show ?thesis using w(1) by (simp add: words_of_def split_on_no_sep)
qed

lemma number_words: "list_all (\<lambda>w. w \<noteq> [] \<and> list_all is_word w) (tl ones @ tl (tl tens))"
  by (simp add: ones_def tens_def is_word_def is_alpha_def is_digit_def)

lemma words_of_Nil [simp]: "words_of [] = []"
  by (simp add: words_of_def)

lemma ones_word: "0 < i \<Longrightarrow> i < 20 \<Longrightarrow> words_of (ones ! i) = [ones ! i]"
proof -
  assume i: "0 < i" "i < 20"
  have "ones ! i = tl ones ! (i - 1)" "i - 1 < length (tl ones)" using i by (simp_all add: nth_tl ones_def)
  then have "ones ! i \<in> set (tl ones)" by (metis nth_mem)
  then show ?thesis using number_words by (intro words_of_word) (auto simp: list_all_iff)
qed

lemma tens_word: "2 \<le> i \<Longrightarrow> i < 10 \<Longrightarrow> words_of (tens ! i) = [tens ! i]"
proof -
  assume i: "2 \<le> i" "i < 10"
  have "tens ! i = tl (tl tens) ! (i - 2)" "i - 2 < length (tl (tl tens))" using i by (simp_all add: nth_tl tens_def numeral_2_eq_2)
  then have "tens ! i \<in> set (tl (tl tens))" by (metis nth_mem)
  then show ?thesis using number_words by (intro words_of_word) (auto simp: list_all_iff)
qed

lemma number_lists: "length ones = 20" "length tens = 10"
  by (simp_all add: ones_def tens_def)

lemma below100_tokens: "x < 100 \<Longrightarrow> words_of (below100 x) = tokens100 x"
proof -
  assume x: "x < 100"
  have d: "\<not> is_word (CHR ''-'')" by code_simp
  show ?thesis
  proof (cases "20 \<le> x")
    case True
    then have "2 \<le> x div 10" "x div 10 < 10" using x by simp_all
    then show ?thesis using True tens_word ones_word [of "x mod 10"] words_of_sep [OF d, of "tens ! (x div 10)"]
      by (simp add: below100_def tokens100_def at_index_def number_lists)
  next
    case False
    then show ?thesis using ones_word [of x] by (simp add: below100_def tokens100_def at_index_def number_lists)
  qed
qed

lemma read_tokens100: "x < 100 \<Longrightarrow> read_words t c (tokens100 x @ ws) = read_words t (c + x) ws"
proof -
  have "list_all (\<lambda>w. w \<noteq> ''Hundred'' \<and> w \<noteq> ''and'' \<and> scale_num w = None) (ones @ tens)"
    by (simp add: ones_def tens_def scale_num_def scales_def)
  then have n: "w \<in> set ones \<union> set tens \<Longrightarrow> read_words t c (w # ws) = read_words t (c + word_num w) ws" for w t c ws
    by (auto simp: list_all_iff)
  have u: "[0..<20] = [0, 1, 2, 3, 4, 5, 6, 7, 8, 9, 10, 11, 12, 13, 14, 15, 16, 17, 18, 19]"
    by (simp add: eval_nat_numeral)
  have m: "map word_num ones = [0..<20]" "map word_num (drop 2 tens) = map (\<lambda>i. 10 * i) [2..<10]"
    by (simp_all add: word_num_def number_table_def ones_def tens_def u upt_rec_numeral)
  have v: "word_num (ones ! i) = i" if "0 < i" "i < 20" for i
  proof -
    have "word_num (ones ! i) = map word_num ones ! i" using that by (simp add: number_lists)
    then show ?thesis using that by (simp only: m nth_upt add_0)
  qed
  have v': "word_num (tens ! j) = 10 * j" if "2 \<le> j" "j < 10" for j
  proof -
    have "Suc (Suc (j - 2)) = j" using that by simp
    then have "word_num (tens ! j) = map word_num (drop 2 tens) ! (j - 2)" using that by (simp add: number_lists)
    also have "\<dots> = map (\<lambda>i. 10 * i) [2..<10] ! (j - 2)" by (simp only: m)
    also have "\<dots> = 10 * j" using that by (simp del: upt_rec_numeral)
    finally show ?thesis .
  qed
  have l: "length ones = 20" "length tens = 10" by (simp_all add: ones_def tens_def)
  assume x: "x < 100"
  show ?thesis
  proof (cases "20 \<le> x")
    case True
    then have "2 \<le> x div 10" "x div 10 < 10" "10 * (x div 10) + x mod 10 = x" using x by simp_all
    moreover have "tens ! (x div 10) \<in> set tens" "ones ! (x mod 10) \<in> set ones" using l x by simp_all
    moreover have "0 < x mod 10 \<Longrightarrow> word_num (ones ! (x mod 10)) = x mod 10" by (intro v) simp_all
    moreover have "10 * (x div 10) = x" if "x mod 10 = 0" using that by presburger
    ultimately show ?thesis using True v v' n
      by (simp add: tokens100_def del: read_words.simps add: add.commute)
  next
    case False
    then have "0 < x \<Longrightarrow> ones ! x \<in> set ones" using l by simp
    then show ?thesis using False v n by (simp add: tokens100_def del: read_words.simps)
  qed
qed

lemma words_of_ws: "is_ws c \<Longrightarrow> \<not> is_word c"
  by (auto simp: is_ws_def ws_chars_def is_word_def is_alpha_def is_digit_def)

lemma words_of_drop: "words_of (dropWhile is_ws s) = words_of s"
  using words_of_sep [of _ "[]"] words_of_ws by (induction s) auto

lemma words_of_trim: "words_of (trim s) = words_of s"
proof -
  have e: "words_of (rev (dropWhile is_ws (rev s))) = words_of s" for s
  proof (induction s rule: rev_induct)
    case (snoc c s)
    then show ?case using words_of_sep [of c s "[]"] words_of_ws by simp
  qed simp
  show ?thesis by (simp add: trim_def e words_of_drop)
qed

lemma words_of_squeeze: "words_of (p @ squeeze s) = words_of (p @ s)"
proof (induction s arbitrary: p rule: squeeze.induct)
  case (2 c s)
  have b: "\<not> is_word (CHR '' '')" by code_simp
  show ?case
  proof (cases "is_ws c")
    case True
    then have "words_of (p @ squeeze (c # s)) = words_of p @ words_of ([] @ squeeze (dropWhile is_ws s))"
      using words_of_sep [OF b, of p] by simp
    also have "\<dots> = words_of p @ words_of s" using 2(1) [OF True, of "[]"] by (simp add: words_of_drop)
    finally show ?thesis using words_of_sep [OF words_of_ws [OF True], of p s] by simp
  next
    case False
    then show ?thesis using 2(2) [OF False, of "p @ [c]"] by simp
  qed
qed simp

lemma words_of_join: "words_of (join '' '' ps) = concat (map words_of ps)"
proof (induction ps rule: join.induct [of "\<lambda>_ ps. words_of (join '' '' ps) = concat (map words_of ps)"])
  case (3 sep p q ps)
  have b: "\<not> is_word (CHR '' '')" by code_simp
  show ?case using 3 words_of_sep [OF b, of p] by simp
qed simp_all

definition tokens1000 :: "nat \<Rightarrow> string list" where
  "tokens1000 x = (if 100 \<le> x then [ones ! (x div 100), ''Hundred''] @ (if x mod 100 \<noteq> 0 then [''and''] else []) @ tokens100 (x mod 100)
     else tokens100 x)"

lemma below1000_tokens: "x < 1000 \<Longrightarrow> words_of (below1000 x) = tokens1000 x"
proof (cases "100 \<le> x")
  case True
  assume "x < 1000"
  then have x: "0 < x div 100" "x div 100 < 20" using True by (simp_all add: div_greater_zero_iff less_mult_imp_div_less)
  have b: "\<not> is_word (CHR '' '')" and h: "words_of ''Hundred'' = [''Hundred'']" and a: "words_of (''and '' @ t) = ''and'' # words_of t" for t
  proof -
    show b: "\<not> is_word (CHR '' '')" by code_simp
    show "words_of ''Hundred'' = [''Hundred'']" by code_simp
    have "words_of ''and'' = [''and'']" by code_simp
    then show "words_of (''and '' @ t) = ''and'' # words_of t" using words_of_sep [OF b, of "''and''" t] by simp
  qed
  let ?o = "ones ! (x div 100)"
  show ?thesis
  proof (cases "x mod 100 = 0")
    case zero: True
    have "below1000 x = ?o @ CHR '' '' # ''Hundred''" using True zero x by (simp add: below1000_def at_index_def number_lists below100_def)
    then show ?thesis using words_of_sep [OF b, of ?o "''Hundred''"] h ones_word [OF x] True zero
      by (simp add: tokens1000_def tokens100_def)
  next
    case False
    have "x mod 100 < 100" by simp
    note t = below100_tokens [OF this]
    let ?S = "''and '' @ below100 (x mod 100)"
    have S: "words_of ?S = ''and'' # tokens100 (x mod 100)" by (rule a [of "below100 (x mod 100)", unfolded t])
    have R: "words_of (''Hundred'' @ CHR '' '' # ?S) = ''Hundred'' # ''and'' # tokens100 (x mod 100)"
      by (rule trans [OF words_of_sep [OF b, of "''Hundred''" ?S]]) (simp only: h S, simp only: append_Cons append_Nil)
    have e: "below1000 x = ?o @ CHR '' '' # (''Hundred'' @ CHR '' '' # ?S)"
      using True False x by (simp add: below1000_def at_index_def number_lists)
    have "words_of (?o @ CHR '' '' # (''Hundred'' @ CHR '' '' # ?S)) = [?o, ''Hundred'', ''and''] @ tokens100 (x mod 100)"
      by (rule trans [OF words_of_sep [OF b]]) (simp only: R ones_word [OF x], simp only: append_Cons append_Nil)
    then show ?thesis using True False unfolding e by (simp add: tokens1000_def)
  qed
qed (simp add: below1000_def tokens1000_def below100_tokens)

lemma read_tokens1000: "x < 1000 \<Longrightarrow> read_words t 0 (tokens1000 x @ ws) = read_words t x ws"
proof (cases "100 \<le> x")
  case True
  assume "x < 1000"
  then have x: "0 < x div 100" "x div 100 < 20" using True by (simp_all add: div_greater_zero_iff less_mult_imp_div_less)
  have h: "read_words t 0 ((ones ! (x div 100)) # ws) = read_words t (x div 100) ws" for t ws
    using read_tokens100 [of "x div 100" t 0 ws] x by (simp add: tokens100_def del: read_words.simps)
  have "read_words t 0 (tokens1000 x @ ws) = read_words t (100 * (x div 100)) (tokens100 (x mod 100) @ ws)"
    using True h by (simp add: tokens1000_def mult.commute)
  also have "\<dots> = read_words t (100 * (x div 100) + x mod 100) ws" by (rule read_tokens100) simp
  also have "100 * (x div 100) + x mod 100 = x" by simp
  finally show ?thesis .
qed (use read_tokens100 [of x t 0 ws] in \<open>simp add: tokens1000_def\<close>)

definition part_words :: "string list \<Rightarrow> string list" where "part_words ps = concat (map words_of ps)"

lemma read_scale:
  assumes "n div v < 1000" "(v, l) \<in> set scales" "v \<le> n"
  shows "read_words t 0 (words_of (below1000 (n div v) @ '' '' @ l) @ ws) = read_words (t + n div v * v) 0 ws"
proof -
  have b: "\<not> is_word (CHR '' '')" by code_simp
  have w: "words_of (below1000 (n div v) @ '' '' @ l) = tokens1000 (n div v) @ words_of l"
    using words_of_sep [OF b, of "below1000 (n div v)" l] below1000_tokens [OF assms(1)] by simp
  have "list_all (\<lambda>(v, l). words_of l = [l]) scales"
    by (simp add: scales_def words_of_word is_word_def is_alpha_def)
  then have l: "words_of l = [l]" using assms(2) by (auto simp: list_all_iff)
  have "list_all (\<lambda>(v, l). l \<noteq> ''Hundred'' \<and> l \<noteq> ''and'' \<and> scale_num l = Some v) scales" by (simp add: scales_def scale_num_def)
  then have "read_words t c (l # ws) = read_words (t + c * v) 0 ws" for c using assms(2) by (auto simp: list_all_iff)
  then show ?thesis unfolding w l append_assoc using read_tokens1000 [OF assms(1)] by (simp del: read_words.simps)
qed

lemma read_parts:
  assumes "n < 10 ^ 12"
  shows "read_words 0 0 (part_words (scale_parts n scales)) = n"
proof -
  have last: "read_words t 0 (part_words (scale_parts r [])) = t + r" if "r < 1000" for t r
    using read_tokens1000 [OF that, of t "[]"] below1000_tokens [OF that] by (auto simp: part_words_def)
  have step: "read_words t 0 (part_words (scale_parts r ((v, l) # ss))) =
      read_words (t + r div v * v) 0 (part_words (scale_parts (r mod v) ss))"
    if "r div v < 1000" "(v, l) \<in> set scales" for t r v l ss
    using read_scale [OF that] that by (auto simp: part_words_def)
  let ?a = "n mod 1000000000" and ?A = "n div 1000000000 * 1000000000"
  let ?b = "?a mod 1000000" and ?B = "?A + ?a div 1000000 * 1000000"
  have l: "n div 1000000000 < 1000" "?a div 1000000 < 1000" "?b div 1000 < 1000" "?b mod 1000 < 1000"
    using assms by (simp_all add: less_mult_imp_div_less)
  have "read_words 0 0 (part_words (scale_parts n scales)) = ?B + ?b div 1000 * 1000 + ?b mod 1000"
    using l by (simp add: scales_def [unfolded atomize_eq] step last del: scale_parts.simps)
  then show ?thesis by simp
qed

text \<open>
  The words of a demand say its figure: read back by the rules of English number words, the words
  written for any whole amount below a million million naira give the amount. So two different demands
  are never written with the same words.
\<close>

theorem words_read_back:
  assumes "n < 10 ^ 12"
  shows "words_value (number_to_words (of_nat n)) = n"
proof (cases "n = 0")
  case True
  have "words_value ''Zero'' = 0"
    using words_of_word [of "''Zero''"] by (simp add: words_value_def is_word_def is_alpha_def scale_num_def scales_def word_num_def number_table_def)
  then show ?thesis using True by (simp add: number_to_words_def)
next
  case False
  have "words_of (number_to_words (of_nat n)) = part_words (scale_parts n scales)"
    using False words_of_squeeze [of "[]"] by (simp add: number_to_words_def Let_def words_of_trim words_of_join part_words_def)
  then show ?thesis using read_parts [OF assms] by (simp add: words_value_def)
qed

theorem words_read_back_witness:
  "words_value (number_to_words (of_nat 1250300)) = 1250300"
  by (rule words_read_back) simp

subsection \<open>Served penalties\<close>

text \<open>The operations on penalties, with the two things that change under them: arriving returns and the statutory values.\<close>

datatype penalty_op = Issue string string | IssueAll int | Serve string | Receive submission
  | Amend "string \<Rightarrow> time option" stat_patch "string option"

fun penalty_exec :: "penalty_env \<times> penalty_op \<Rightarrow> enforcement \<Rightarrow> (penalty_error, unit, enforcement) outcome" where
  "penalty_exec (env, Issue pid label) st = forget (issue_penalty env pid label st)"
| "penalty_exec (env, IssueAll year) st = forget (issue_all env year st)"
| "penalty_exec (env, Serve k) st = forget (penalty_notice env k st)"
| "penalty_exec (env, Receive s) st = (Inr (), st\<lparr>en_subs := en_subs st @ [s]\<rparr>)"
| "penalty_exec (env, Amend other p nt) st = (Inr (), st\<lparr>en_config := snd (update_config other p nt (en_config st))\<rparr>)"

definition one_penalty :: "penalty list \<Rightarrow> bool" where "one_penalty ps \<longleftrightarrow> distinct (map penalty_key ps)"

fun penalty_next :: "penalty_status \<Rightarrow> penalty_status \<Rightarrow> bool" where
  "penalty_next s t = (s = t \<or> (s = Assessed \<and> t = Notified))"

text \<open>What stays of a penalty: its reference, its service, and everything once it is waived or paid.\<close>

definition penalty_kept :: "penalty \<Rightarrow> penalty \<Rightarrow> bool" where
  "penalty_kept p q \<longleftrightarrow> pn_id q = pn_id p \<and> pn_ref q = pn_ref p \<and> penalty_next (pn_status p) (pn_status q) \<and>
     (pn_status p = Assessed \<or> pn_notified_at q = pn_notified_at p) \<and> (if settled_status (pn_status p) then q = p else True)"

definition keeps_penalties :: "penalty list \<Rightarrow> penalty list \<Rightarrow> bool" where
  "keeps_penalties ps qs \<longleftrightarrow> list_all (\<lambda>p. case find_by penalty_key (penalty_key p) qs of None \<Rightarrow> False | Some q \<Rightarrow> penalty_kept p q) ps"

lemma penalty_kept_refl [simp]: "penalty_kept p p"
  by (simp add: penalty_kept_def)

lemma penalty_kept_trans: "penalty_kept p q \<Longrightarrow> penalty_kept q r \<Longrightarrow> penalty_kept p r"
  by (cases "pn_status p"; cases "pn_status q") (auto simp: penalty_kept_def settled_status_def split: if_splits)

lemma find_distinct_key: "one_penalty ps \<Longrightarrow> p \<in> set ps \<Longrightarrow> find_by penalty_key (penalty_key p) ps = Some p"
  using find_distinct [of penalty_key ps p] by (simp add: one_penalty_def)

lemma keeps_penalties_refl: "one_penalty ps \<Longrightarrow> keeps_penalties ps ps"
  by (simp add: keeps_penalties_def list_all_iff find_distinct_key)

lemma keeps_penalties_trans:
  assumes "keeps_penalties ps qs" "keeps_penalties qs rs"
  shows "keeps_penalties ps rs"
  unfolding keeps_penalties_def list_all_iff
proof
  fix p assume "p \<in> set ps"
  then obtain q where q: "find_by penalty_key (penalty_key p) qs = Some q" "penalty_kept p q"
    using assms(1) by (auto simp: keeps_penalties_def list_all_iff split: option.splits)
  then have k: "q \<in> set qs" "penalty_key q = penalty_key p" using find_by_Some by fastforce+
  obtain r where "find_by penalty_key (penalty_key q) rs = Some r" "penalty_kept q r"
    using assms(2) k(1) by (fastforce simp: keeps_penalties_def list_all_iff split: option.splits)
  then show "case find_by penalty_key (penalty_key p) rs of None \<Rightarrow> False | Some r \<Rightarrow> penalty_kept p r"
    using q(2) k(2) penalty_kept_trans by auto
qed

text \<open>The two writes: a change of one row that keeps it, and a new row under a new key.\<close>

lemma keeps_update_first:
  assumes "one_penalty ps" "find_by k x ps = Some p" "\<And>q. penalty_key (f q) = penalty_key q" "penalty_kept p (f p)"
  shows "keeps_penalties ps (update_first k x f ps) \<and> one_penalty (update_first k x f ps)"
proof
  show "one_penalty (update_first k x f ps)" using assms(1,3) by (simp add: one_penalty_def map_update_first)
  then have d: "distinct (map penalty_key (update_first k x f ps))" by (simp add: one_penalty_def)
  have "\<exists>r \<in> set (update_first k x f ps). penalty_key r = penalty_key q \<and> penalty_kept q r" if "q \<in> set ps" for q
    using assms(2) that
  proof (induction ps)
    case (Cons q' qs)
    then show ?case using assms(3,4) by (cases "k q' = x") (auto split: if_splits)
  qed simp
  then show "keeps_penalties ps (update_first k x f ps)"
    using find_distinct [OF d] by (fastforce simp: keeps_penalties_def list_all_iff)
qed

lemma keeps_append:
  assumes "one_penalty ps" "find_by penalty_key (penalty_key n) ps = None"
  shows "keeps_penalties ps (ps @ [n]) \<and> one_penalty (ps @ [n])"
  using assms by (auto simp: keeps_penalties_def list_all_iff find_by_append find_distinct_key one_penalty_def find_by_None)

lemma refresh_kept: "\<not> settled_status (pn_status p) \<Longrightarrow> penalty_kept p (refresh cfg y row p)" "penalty_key (refresh cfg y row p) = penalty_key p"
  by (simp_all add: penalty_kept_def refresh_def penalty_key_def)

lemma issue_penalty_writes:
  obtains (same) "en_penalties (snd (issue_penalty env pid label st)) = en_penalties st"
  | (refreshed) cfg y row old where "find_by penalty_key (pid, label) (en_penalties st) = Some old" "\<not> settled_status (pn_status old)"
      "en_penalties (snd (issue_penalty env pid label st)) = update_first penalty_key (pid, label) (refresh cfg y row) (en_penalties st)"
  | (added) cfg y row where "find_by penalty_key (pid, label) (en_penalties st) = None"
      "en_penalties (snd (issue_penalty env pid label st)) = en_penalties st @ [refresh cfg y row (new_penalty env pid label)]"
proof (cases "find_by pv_id pid (en_providers st)")
  case None
  then show ?thesis by (intro same) (simp add: issue_penalty_def)
next
  case (Some p)
  note prov = Some
  show ?thesis
  proof (cases "js_parse_int (take 4 label)")
    case None
    then show ?thesis using prov by (intro same) (simp add: issue_penalty_def)
  next
    case (Some y)
    note year = Some
    obtain cfg config where a: "active_config (en_config st) = (cfg, config)" by (cases "active_config (en_config st)")
    let ?row = "find_by pr_label label (cr_periods (compliance_of (pe_now env) cfg y (en_subs st) p))"
    show ?thesis
    proof (cases "?row = None \<or> (pr_status (the ?row) \<noteq> Late \<and> pr_status (the ?row) \<noteq> Missing) \<or> \<not> pr_enforced (the ?row)")
      case True
      then show ?thesis using prov year a by (intro same) (auto simp: issue_penalty_def Let_def split: option.split)
    next
      case False
      then obtain row where row: "?row = Some row" "\<not> (pr_status row \<noteq> Late \<and> pr_status row \<noteq> Missing)" "pr_enforced row" by force
      note eqs = issue_penalty_def prov year a row
      show ?thesis
      proof (cases "find_by penalty_key (pid, label) (en_penalties st)")
        case None
        show ?thesis
        proof (cases "fits 18 2 (pr_penalty row)")
          case True
          then show ?thesis using None row(2) by (intro added [of cfg y row]) (simp_all add: eqs Let_def)
        next
          case False
          then show ?thesis using None by (intro same) (auto simp: eqs Let_def)
        qed
      next
        case (Some old)
        show ?thesis
        proof (cases "settled_status (pn_status old) \<or> \<not> fits 18 2 (pr_penalty row)")
          case True
          then show ?thesis using Some by (intro same) (auto simp: eqs Let_def)
        next
          case False
          then show ?thesis using Some row(2) by (intro refreshed [of old cfg y row]) (simp_all add: eqs Let_def)
        qed
      qed
    qed
  qed
qed

lemma issue_penalty_keeps:
  assumes "one_penalty (en_penalties st)"
  shows "keeps_penalties (en_penalties st) (en_penalties (snd (issue_penalty env pid label st))) \<and>
    one_penalty (en_penalties (snd (issue_penalty env pid label st)))"
proof (cases rule: issue_penalty_writes [where env = env and pid = pid and label = label and st = st])
  case same
  then show ?thesis using assms keeps_penalties_refl by simp
next
  case (refreshed cfg y row old)
  from keeps_update_first [OF assms refreshed(1) refresh_kept(2) refresh_kept(1) [OF refreshed(2)]] show ?thesis
    by (simp only: refreshed(3))
next
  case (added cfg y row)
  have "penalty_key (refresh cfg y row (new_penalty env pid label)) = (pid, label)"
    by (simp add: refresh_def new_penalty_def penalty_key_def)
  then show ?thesis using keeps_append [OF assms] added by simp
qed

lemma issue_each_keeps:
  "one_penalty (en_penalties st) \<Longrightarrow> keeps_penalties (en_penalties st) (en_penalties (snd (issue_each env xs n st))) \<and>
    one_penalty (en_penalties (snd (issue_each env xs n st)))"
proof (induction xs arbitrary: n st)
  case (Cons x xs)
  obtain pid label where x: "x = (pid, label)" by (cases x)
  obtain r st' where r: "issue_penalty env pid label st = (r, st')" by (cases "issue_penalty env pid label st")
  then have k: "keeps_penalties (en_penalties st) (en_penalties st')" "one_penalty (en_penalties st')"
    using issue_penalty_keeps [OF Cons.prems, of env pid label] by simp_all
  have "keeps_penalties (en_penalties st) (en_penalties (snd (issue_each env xs m st'))) \<and>
      one_penalty (en_penalties (snd (issue_each env xs m st')))" for m
    using Cons.IH [OF k(2)] keeps_penalties_trans [OF k(1)] by blast
  then show ?case using r by (cases r) (simp_all add: x)
qed (simp add: keeps_penalties_refl)

lemma penalty_exec_keeps:
  assumes "one_penalty (en_penalties st)"
  shows "keeps_penalties (en_penalties st) (en_penalties (snd (penalty_exec eo st))) \<and> one_penalty (en_penalties (snd (penalty_exec eo st)))"
proof (cases "(eo, st)" rule: penalty_exec.cases)
  case (1 env pid label st')
  then show ?thesis using issue_penalty_keeps [OF assms] by simp
next
  case (2 env y st')
  let ?st = "st\<lparr>en_config := snd (active_config (en_config st))\<rparr>"
  obtain xs where "snd (issue_all env y st) = snd (issue_each env xs 0 ?st)"
    by (auto simp: issue_all_def Let_def split_beta)
  then show ?thesis using 2 issue_each_keeps [of ?st env xs 0] assms by simp
next
  case (3 env k st')
  show ?thesis
  proof (cases "find_by pn_id k (en_penalties st)")
    case None
    then show ?thesis using 3 assms keeps_penalties_refl by (simp add: penalty_notice_def)
  next
    case (Some p)
    let ?f = "\<lambda>p. p\<lparr>pn_status := Notified, pn_notified_at := Some (pe_now env)\<rparr>"
    show ?thesis
    proof (cases "pn_status p = Assessed")
      case True
      have "penalty_kept p (?f p)" using True by (simp add: penalty_kept_def settled_status_def)
      from keeps_update_first [where f = ?f, OF assms Some _ this] show ?thesis
        using 3 Some True by (simp add: penalty_notice_def split_beta Let_def penalty_key_def)
    next
      case False
      then show ?thesis using 3 Some assms keeps_penalties_refl by (simp add: penalty_notice_def split_beta Let_def)
    qed
  qed
qed (use assms keeps_penalties_refl in simp_all)

interpretation penalties: service penalty_exec "\<lambda>st. one_penalty (en_penalties st)"
  by unfold_locales (simp add: penalty_exec_keeps)

text \<open>
  C31. Penalties are settled once. Whatever returns arrive, however often penalties are issued, for one
  provider or for all, under whatever statutory values, and however often a notice is served: there is at
  most one penalty for a provider and period, it keeps its id and the reference its letter cites, its status
  goes from assessed to notified only, and a penalty that is waived or paid is never touched again.
\<close>

theorem penalties_settled_once:
  assumes "one_penalty (en_penalties st)"
  shows "keeps_penalties (en_penalties (run_ops penalty_exec ops st)) (en_penalties (run_ops penalty_exec (ops @ later) st)) \<and>
    one_penalty (en_penalties (run_ops penalty_exec ops st))"
proof -
  have "keeps_penalties (en_penalties st) (en_penalties (run_ops penalty_exec later st))" if "one_penalty (en_penalties st)" for st
    using that
  proof (induction later arbitrary: st)
    case (Cons eo ops)
    then show ?case using penalty_exec_keeps [OF Cons.prems, of eo] keeps_penalties_trans by fastforce
  qed (simp add: keeps_penalties_refl)
  then show ?thesis using penalties.run_inv [OF assms] by simp
qed

subsection \<open>A quarter filed in time\<close>

definition bank :: reporter where
  "bank = \<lparr>pv_id = ''p1'', pv_type = ''BANK'', pv_code = None, rp_name = ''Bank'', rp_frequency = None\<rparr>"

definition return_of :: "string \<Rightarrow> time \<Rightarrow> submission" where
  "return_of label t = \<lparr>sb_id = ''s1'', sb_provider = ''p1'', sb_staff = None, sb_user = None, sb_period_label = label,
     sb_period_year = 2026, sb_period_quarter = Some 1, sb_period_month = None, sb_file_name = ''f.csv'', sb_file_size = 1,
     sb_status = Accepted, sb_record_count = 1, sb_accepted = 1, sb_rejected = 0, sb_warning_count = 0, sb_report = NoReport,
     sb_warnings = [], sb_receipt_hash = None, sb_received_at = t, sb_processed_at = None, sb_resubmit_due = None\<rparr>"

definition small_enforcement :: enforcement where
  "small_enforcement = \<lparr>en_config = [], en_providers = [bank], en_subs = [], en_penalties = []\<rparr>"

definition small_penalty_env :: penalty_env where
  "small_penalty_env = \<lparr>pe_now = date_utc 2026 3 20 0, pe_id = (\<lambda>p l. p @ l), pe_hex = (\<lambda>p l. ''a1'')\<rparr>"

theorem penalties_settled_once_witness:
  "keeps_penalties (en_penalties (run_ops penalty_exec [(small_penalty_env, Issue ''p1'' ''2026-Q1'')] small_enforcement))
     (en_penalties (run_ops penalty_exec ([(small_penalty_env, Issue ''p1'' ''2026-Q1'')] @ [(small_penalty_env, Serve ''p12026-Q1'')])
       small_enforcement)) \<and>
    one_penalty (en_penalties (run_ops penalty_exec [(small_penalty_env, Issue ''p1'' ''2026-Q1'')] small_enforcement))"
  by (rule penalties_settled_once) (simp add: small_enforcement_def one_penalty_def)

text \<open>
  Two returns for the first quarter of 2026 that were filed in time, as far as a reader of the rules can
  tell, and are penalised. The due date is midnight at the start of 15 April, so a return filed at nine
  in the morning of that day counts as late, by one month. And the labels are compared as text: a
  return filed on 10 April for Q1 2026, which the ingestion reads as the same period, leaves 2026-Q1
  missing on 20 April, with a penalty.
\<close>

theorem in_time_yet_penalised:
  "(let row = period_of (date_utc 2026 3 20 0) seed_config [return_of ''2026-Q1'' (date_utc 2026 3 15 32400000)]
        (''2026-Q1'', quarter_due 2026 1 15)
    in pr_status row = Late \<and> pr_months row = 1 \<and> pr_due row = date_utc 2026 3 15 0) \<and>
   (let row = period_of (date_utc 2026 3 20 0) seed_config [return_of ''Q1 2026'' (date_utc 2026 3 10 0)]
        (''2026-Q1'', quarter_due 2026 1 15)
    in pr_status row = Missing \<and> pr_months row = 1) \<and>
   parse_period ''Q1 2026'' = parse_period ''2026-Q1''"
proof -
  have d: "quarter_due 2026 1 15 = date_utc 2026 3 15 0" by code_simp
  have m: "months_in_default (date_utc 2026 3 15 0) t = 1"
    if "date_utc 2026 3 15 0 < t" "t \<le> date_utc 2026 3 15 0 + month_ms" for t
  proof -
    have b: "t - date_utc 2026 3 15 0 < 2 ^ 53" using that(2) by (simp add: month_ms_def)
    note e = months_exact [OF that(1) b]
    have "(months_in_default (date_utc 2026 3 15 0) t - 1) * month_ms < month_ms" using e(2) that(2) by linarith
    then have "months_in_default (date_utc 2026 3 15 0) t < 2" by (simp add: month_ms_def)
    then show ?thesis using e(1) by linarith
  qed
  have t: "date_utc 2026 3 15 0 < date_utc 2026 3 15 32400000" "date_utc 2026 3 15 32400000 \<le> date_utc 2026 3 15 0 + month_ms"
    "date_utc 2026 3 15 0 < date_utc 2026 3 20 0" "date_utc 2026 3 20 0 \<le> date_utc 2026 3 15 0 + month_ms" by code_simp+
  have s: "sc_penalty_from seed_config = None" by (simp add: seed_config_def)
  have "parse_period ''Q1 2026'' = parse_period ''2026-Q1''" by code_simp
  then show ?thesis unfolding d using t m s by (simp add: period_of_def first_filed_def return_of_def Let_def)
qed

end
