(* ===== verification/Totp.thy ===== *)
theory Totp
  imports Prelude JsDate JsNumber JsParse "HOL-Library.Word"
begin

text \<open>
  One-time codes, \<open>backend/src/common/services/totp.ts\<close>: the Base32 text of a secret, which is written and
  read with shifts of 32-bit integers, and the time-based codes. HMAC-SHA-1 is a parameter.
\<close>

unbundle bit_operations_syntax

subsection \<open>Base32\<close>

definition b32 :: string where
  "b32 = ''ABCDEFGHIJKLMNOPQRSTUVWXYZ234567''"

text \<open>The inner loop: a character for every five bits, the highest first. What is left are less than five bits.\<close>

fun emit5 :: "nat \<Rightarrow> 32 word \<Rightarrow> string \<times> nat" where
  "emit5 bits val = (if bits < 5 then ([], bits)
     else (let (out, k) = emit5 (bits - 5) val in (b32 ! unat (drop_bit (bits - 5) val AND 31) # out, k)))"

declare emit5.simps [simp del]

fun encode_loop :: "nat \<Rightarrow> 32 word \<Rightarrow> 8 word list \<Rightarrow> string" where
  "encode_loop bits val [] = (if 0 < bits then [b32 ! unat (push_bit (5 - bits) val AND 31)] else [])"
| "encode_loop bits val (b # bs) = (let val' = push_bit 8 val OR ucast b; (out, k) = emit5 (bits + 8) val' in out @ encode_loop k val' bs)"

definition base32_encode :: "8 word list \<Rightarrow> string" where
  "base32_encode buf = encode_loop 0 0 buf"

fun index_of :: "char \<Rightarrow> string \<Rightarrow> nat option" where
  "index_of c [] = None"
| "index_of c (d # s) = (if c = d then Some 0 else map_option Suc (index_of c s))"

fun decode_loop :: "nat \<Rightarrow> 32 word \<Rightarrow> string \<Rightarrow> 8 word list" where
  "decode_loop bits val [] = []"
| "decode_loop bits val (c # cs) = (case index_of c b32 of None \<Rightarrow> decode_loop bits val cs
     | Some i \<Rightarrow> (let val' = push_bit 5 val OR of_nat i; bits' = bits + 5 in
         if 8 \<le> bits' then ucast (drop_bit (bits' - 8) val' AND 255) # decode_loop (bits' - 8) val' cs
         else decode_loop bits' val' cs))"

definition strip_padding :: "string \<Rightarrow> string" where
  "strip_padding s = rev (dropWhile (\<lambda>c. c = CHR ''='') (rev s))"

definition base32_decode :: "string \<Rightarrow> 8 word list" where
  "base32_decode s = decode_loop 0 0 (upper (strip_padding s))"

definition generate_secret :: "8 word list \<Rightarrow> string" where
  "generate_secret random = base32_encode random"

subsection \<open>Codes\<close>

type_synonym hmac = "8 word list \<Rightarrow> 8 word list \<Rightarrow> 8 word list"

text \<open>The counter as eight bytes; a negative one throws.\<close>

definition counter_bytes :: "int \<Rightarrow> 8 word list option" where
  "counter_bytes c = (if c < 0 \<or> 2 ^ 64 \<le> c then None else Some (map (\<lambda>i. word_of_int (c div 256 ^ (7 - i))) [0..<8]))"

definition truncated :: "8 word list \<Rightarrow> 32 word" where
  "truncated h = (let off = unat (last h AND 15) in
     push_bit 24 (ucast (h ! off AND 0x7F)) OR push_bit 16 (ucast (h ! (off + 1))) OR
     push_bit 8 (ucast (h ! (off + 2))) OR ucast (h ! (off + 3)))"

definition six_digits :: "nat \<Rightarrow> string" where
  "six_digits n = (let s = dec_str n in replicate (6 - length s) (CHR ''0'') @ s)"

definition hotp :: "hmac \<Rightarrow> 8 word list \<Rightarrow> int \<Rightarrow> string option" where
  "hotp mac secret c = map_option (\<lambda>buf. six_digits (unat (truncated (mac secret buf)) mod 1000000)) (counter_bytes c)"

text \<open>\<open>Math.floor(time / 1000 / 30)\<close>, on doubles.\<close>

definition time_step :: "time \<Rightarrow> int" where
  "time_step t = \<lfloor>fdiv (fdiv (of_int t) 1000) 30\<rfloor>"

definition totp :: "hmac \<Rightarrow> string \<Rightarrow> time \<Rightarrow> string option" where
  "totp mac secret t = hotp mac (base32_decode secret) (time_step t)"

text \<open>The loop over the windows; None when a code cannot be computed (the code throws).\<close>

fun try_windows :: "hmac \<Rightarrow> 8 word list \<Rightarrow> int \<Rightarrow> string \<Rightarrow> int list \<Rightarrow> bool option" where
  "try_windows mac buf c token [] = Some False"
| "try_windows mac buf c token (w # ws) = (case hotp mac buf (c + w) of None \<Rightarrow> None
     | Some code \<Rightarrow> if code = trim token then Some True else try_windows mac buf c token ws)"

definition verify_totp :: "hmac \<Rightarrow> time \<Rightarrow> string \<Rightarrow> string \<Rightarrow> int \<Rightarrow> bool option" where
  "verify_totp mac now token secret window =
     (if token = [] \<or> secret = [] then Some False
      else try_windows mac (base32_decode secret) (time_step now) token [- window..window])"

subsection \<open>Bits\<close>

text \<open>The lowest bits of a word, the highest first.\<close>

definition bits_of :: "nat \<Rightarrow> 32 word \<Rightarrow> bool list" where
  "bits_of n w = map (bit w) (rev [0..<n])"

lemma length_bits_of [simp]: "length (bits_of n w) = n"
  by (simp add: bits_of_def)

lemma bits_of_nth: "i < n \<Longrightarrow> bits_of n w ! i = bit w (n - 1 - i)"
  by (simp add: bits_of_def rev_nth)

lemma bits_of_0 [simp]: "bits_of 0 w = []"
  by (simp add: bits_of_def)

lemma bits_of_split: "bits_of (k + n) w = bits_of n (drop_bit k w) @ bits_of k w"
proof (rule nth_equalityI)
  fix i assume "i < length (bits_of (k + n) w)"
  then have i: "i < k + n" by simp
  show "bits_of (k + n) w ! i = (bits_of n (drop_bit k w) @ bits_of k w) ! i"
  proof (cases "i < n")
    case True
    then have "k + n - 1 - i = k + (n - 1 - i)" by simp
    then show ?thesis using True by (simp add: nth_append bits_of_nth bit_drop_bit_eq)
  next
    case False
    then show ?thesis using i by (simp add: nth_append bits_of_nth)
  qed
qed simp

lemma bits_of_push:
  assumes "n + m \<le> 32" "\<And>i. m \<le> i \<Longrightarrow> \<not> bit x i"
  shows "bits_of (n + m) (push_bit m v OR x) = bits_of n v @ bits_of m x"
proof (rule nth_equalityI)
  fix i assume "i < length (bits_of (n + m) (push_bit m v OR x))"
  then have i: "i < n + m" by simp
  show "bits_of (n + m) (push_bit m v OR x) ! i = (bits_of n v @ bits_of m x) ! i"
  proof (cases "i < n")
    case True
    have "\<not> bit x (n + m - 1 - i)" by (rule assms(2)) (use True in linarith)
    moreover have "n + m - 1 - i - m = n - 1 - i" using True by simp
    ultimately show ?thesis using True assms(1) by (auto simp: nth_append bits_of_nth bit_or_iff bit_push_bit_iff)
  next
    case False
    then have "n + m - 1 - i < m" "n + m - 1 - i = m - 1 - (i - n)" using i by auto
    then show ?thesis using False i by (simp add: nth_append bits_of_nth bit_or_iff bit_push_bit_iff)
  qed
qed simp

lemma bits_of_mask: "n \<le> m \<Longrightarrow> bits_of n (w AND mask m) = bits_of n w"
  by (rule nth_equalityI) (auto simp: bits_of_nth bit_and_iff bit_mask_iff dest: bit_imp_le_length)

lemma bits_of_zero: "bits_of n 0 = replicate n False"
  by (rule nth_equalityI) (simp_all add: bits_of_nth)

definition byte_bits :: "8 word \<Rightarrow> bool list" where
  "byte_bits b = bits_of 8 (ucast b)"

definition char_bits :: "char \<Rightarrow> bool list" where
  "char_bits c = bits_of 5 (of_nat (the (index_of c b32)))"

definition b32_char :: "char \<Rightarrow> bool" where
  "b32_char c \<longleftrightarrow> index_of c b32 \<noteq> None"

lemma byte_bits_length [simp]: "length (byte_bits b) = 8"
  by (simp add: byte_bits_def)

lemma byte_bits_inj: "byte_bits b = byte_bits c \<Longrightarrow> b = c"
proof (rule bit_word_eqI)
  fix i assume e: "byte_bits b = byte_bits c" and i: "i < LENGTH(8)"
  then have "byte_bits b ! (7 - i) = byte_bits c ! (7 - i)" by simp
  then show "bit b i = bit c i" using i by (simp add: byte_bits_def bits_of_nth bit_ucast_iff)
qed

lemma index_b32: "i < 32 \<Longrightarrow> index_of (b32 ! i) b32 = Some i"
proof -
  have "list_all (\<lambda>i. index_of (b32 ! i) b32 = Some i) [0..<32]" by code_simp
  then show "i < 32 \<Longrightarrow> index_of (b32 ! i) b32 = Some i" by (simp add: list_all_iff)
qed

lemma index_b32_less: "index_of c b32 = Some i \<Longrightarrow> i < 32"
proof -
  have "index_of c s = Some i \<Longrightarrow> i < length s" for s by (induction s arbitrary: i) (auto split: if_splits)
  from this [of b32] show "index_of c b32 = Some i \<Longrightarrow> i < 32" by (simp add: b32_def)
qed

lemma five_bits: "unat (w AND 31 :: 32 word) < 32"
proof -
  have "unat (w AND 31) \<le> unat (31 :: 32 word)" by (rule word_and_le1 [THEN word_le_nat_alt [THEN iffD1]])
  then show ?thesis by simp
qed

lemma masks: "(31 :: 32 word) = mask 5" "(255 :: 32 word) = mask 8"
  by (simp_all add: mask_eq_exp_minus_1)

lemma written_char: "b32_char (b32 ! unat (w AND 31)) \<and> char_bits (b32 ! unat (w AND 31)) = bits_of 5 w"
  using index_b32 [OF five_bits [of w]] by (simp add: b32_char_def char_bits_def masks bits_of_mask)

lemma emit5_bits:
  "emit5 bits val = (out, k) \<Longrightarrow> k < 5 \<and> list_all b32_char out \<and> concat (map char_bits out) @ bits_of k val = bits_of bits val"
proof (induction bits val arbitrary: out k rule: emit5.induct)
  case (1 bits val)
  show ?case
  proof (cases "bits < 5")
    case True
    then show ?thesis using 1(2) by (subst (asm) emit5.simps) auto
  next
    case False
    obtain o' k' where r: "emit5 (bits - 5) val = (o', k')" by (cases "emit5 (bits - 5) val")
    have "bits_of bits val = bits_of 5 (drop_bit (bits - 5) val) @ bits_of (bits - 5) val"
      using False bits_of_split [of "bits - 5" 5 val] by simp
    then show ?thesis using 1(1) [OF False r] 1(2) False r written_char
      by (subst (asm) emit5.simps) auto
  qed
qed

lemma encode_bits:
  "bits < 5 \<Longrightarrow> \<exists>p < 5. list_all b32_char (encode_loop bits val bs) \<and>
     concat (map char_bits (encode_loop bits val bs)) = bits_of bits val @ concat (map byte_bits bs) @ replicate p False"
proof (induction bits val bs rule: encode_loop.induct)
  case (1 bits val)
  show ?case
  proof (cases "bits = 0")
    case False
    have "bits_of (bits + (5 - bits)) (push_bit (5 - bits) val OR 0) = bits_of bits val @ bits_of (5 - bits) 0"
      by (rule bits_of_push) (use 1 in auto)
    then have "bits_of 5 (push_bit (5 - bits) val) = bits_of bits val @ replicate (5 - bits) False"
      using 1 by (simp add: bits_of_zero)
    then show ?thesis using False written_char by (intro exI [of _ "5 - bits"]) auto
  qed (auto intro: exI [of _ 0])
next
  case (2 bits val b bs)
  let ?v = "push_bit 8 val OR ucast b"
  obtain out k where e: "emit5 (bits + 8) ?v = (out, k)" by (cases "emit5 (bits + 8) ?v")
  have "bits_of (bits + 8) ?v = bits_of bits val @ byte_bits b"
    unfolding byte_bits_def by (rule bits_of_push) (use 2(2) in \<open>auto simp: bit_ucast_iff dest: bit_imp_le_length\<close>)
  then show ?case using emit5_bits [OF e] 2(1) [OF refl e [symmetric]] e
    by (auto simp: Let_def simp flip: append_assoc)
qed

lemma decode_bits:
  "bits < 8 \<Longrightarrow> list_all b32_char cs \<Longrightarrow>
     \<exists>r. length r < 8 \<and> bits_of bits val @ concat (map char_bits cs) = concat (map byte_bits (decode_loop bits val cs)) @ r"
proof (induction bits val cs rule: decode_loop.induct)
  case (1 bits val)
  then show ?case by (intro exI [of _ "bits_of bits val"]) simp
next
  case (2 bits val c cs)
  obtain i where i: "index_of c b32 = Some i" using 2(5) by (auto simp: b32_char_def)
  define v where "v = push_bit 5 val OR (of_nat i :: 32 word)"
  have "\<not> bit (of_nat i :: 32 word) n" if "5 \<le> n" for n
  proof -
    have "take_bit 5 i = i" using index_b32_less [OF i] by (simp add: take_bit_nat_eq_self)
    then show ?thesis using that by (metis bit_take_bit_iff bit_of_nat_iff_bit bit_of_nat_iff not_le)
  qed
  then have "bits_of (bits + 5) v = bits_of bits val @ char_bits c"
    unfolding char_bits_def i option.sel v_def by (intro bits_of_push) (use 2(4) in auto)
  then have all: "bits_of bits val @ concat (map char_bits (c # cs)) = bits_of (bits + 5) v @ concat (map char_bits cs)" by simp
  show ?case
  proof (cases "8 \<le> bits + 5")
    case True
    define k where "k = bits + 5 - 8"
    have k: "k < 8" "bits + 5 = k + 8" using 2(4) True by (auto simp: k_def)
    have "byte_bits (ucast (drop_bit k v AND 255)) = bits_of 8 (drop_bit k v)"
      unfolding byte_bits_def by (rule nth_equalityI) (auto simp: bits_of_nth bit_ucast_iff bit_and_iff masks bit_mask_iff dest: bit_imp_le_length)
    moreover obtain r where "length r < 8" "bits_of k v @ concat (map char_bits cs) = concat (map byte_bits (decode_loop k v cs)) @ r"
      using 2(2) [OF i refl refl True] 2(5) k unfolding v_def k_def by auto
    moreover have "decode_loop bits val (c # cs) = ucast (drop_bit k v AND 255) # decode_loop k v cs"
      using True i by (simp add: Let_def v_def k_def)
    ultimately show ?thesis unfolding all k(2) bits_of_split [of k 8 v] by (intro exI [of _ r]) simp
  next
    case False
    then obtain r where "length r < 8" "bits_of (bits + 5) v @ concat (map char_bits cs) = concat (map byte_bits (decode_loop (bits + 5) v cs)) @ r"
      using 2(3) [OF i refl refl False] 2(5) unfolding v_def by auto
    moreover have "decode_loop bits val (c # cs) = decode_loop (bits + 5) v cs" using False i by (simp add: Let_def v_def)
    ultimately show ?thesis unfolding all by (intro exI [of _ r]) simp
  qed
qed

lemma byte_bits_list_inj: "length xs = length ys \<Longrightarrow> concat (map byte_bits xs) = concat (map byte_bits ys) \<Longrightarrow> xs = ys"
  by (induction xs ys rule: list_induct2) (auto dest: byte_bits_inj)

lemma byte_bits_list_length [simp]: "length (concat (map byte_bits xs)) = 8 * length xs"
  by (induction xs) auto

lemma index_of_member: "index_of c s \<noteq> None \<Longrightarrow> c \<in> set s"
  by (induction s) (auto split: if_splits)

lemma b32_char_cases: "b32_char c \<Longrightarrow> c \<in> set b32"
  unfolding b32_char_def by (rule index_of_member)

lemma upper_b32: "list_all b32_char s \<Longrightarrow> upper s = s"
proof (induction s)
  case (Cons c s)
  have "list_all (\<lambda>c. c \<noteq> CHR 0xDF \<and> upper_char c = c) b32" by code_simp
  then have "c \<noteq> CHR 0xDF \<and> upper_char c = c" using Cons.prems b32_char_cases [of c] by (simp add: list_all_iff)
  then show ?case using Cons by (simp add: upper_def)
qed (simp add: upper_def)

lemma strip_b32: "list_all b32_char s \<Longrightarrow> strip_padding s = s"
proof (cases s rule: rev_cases)
  case (snoc r c)
  have "CHR ''='' \<notin> set b32" by code_simp
  moreover assume "list_all b32_char s"
  ultimately show ?thesis using snoc b32_char_cases [of c] by (auto simp: strip_padding_def)
qed (simp add: strip_padding_def)

lemma encode_b32: "list_all b32_char (base32_encode bs)"
  using encode_bits [of 0 0 bs] by (auto simp: base32_encode_def)

text \<open>
  C36. A secret is read back. Reading the Base32 text of any bytes gives the bytes: the five- and eight-bit
  windows over the shifted 32-bit integer never lose a bit that is still to come, whatever overflows at
  the top, and the zero bits that fill the last character are dropped.
\<close>

theorem base32_roundtrip: "base32_decode (base32_encode bs) = bs"
proof -
  let ?cs = "base32_encode bs"
  obtain p where p: "p < 5" "concat (map char_bits ?cs) = concat (map byte_bits bs) @ replicate p False"
    using encode_bits [of 0 0 bs] by (auto simp: base32_encode_def)
  obtain r where r: "length r < 8" "concat (map char_bits ?cs) = concat (map byte_bits (decode_loop 0 0 ?cs)) @ r"
    using decode_bits [of 0 ?cs 0] encode_b32 by auto
  have e: "concat (map byte_bits bs) @ replicate p False = concat (map byte_bits (decode_loop 0 0 ?cs)) @ r" using p(2) r(2) by simp
  then have "8 * length bs + p = 8 * length (decode_loop 0 0 ?cs) + length r"
    by (metis length_append length_replicate byte_bits_list_length)
  then have l: "length bs = length (decode_loop 0 0 ?cs)" using p(1) r(1) by linarith
  then have "concat (map byte_bits bs) = concat (map byte_bits (decode_loop 0 0 ?cs))"
    using e by (metis append_eq_append_conv byte_bits_list_length)
  then have "bs = decode_loop 0 0 ?cs" by (rule byte_bits_list_inj [OF l])
  then show ?thesis using upper_b32 [OF encode_b32] strip_b32 [OF encode_b32] by (simp add: base32_decode_def)
qed

subsection \<open>The time step\<close>

lemma fl_below:
  assumes "x \<le> of_int m * pow2 e" "\<bar>m\<bar> \<le> (2::int) ^ 53"
  shows "fl x \<le> of_int m * pow2 e"
  using fl_mono [OF assms(1)] fl_exact [OF assms(2), of e] by simp

lemma time_step_exact:
  assumes "0 \<le> t" "t < 2 ^ 47"
  shows "time_step t = t div 30000"
proof -
  define q where "q = t div 30000"
  define m where "m = t mod 30000"
  have m1: "t = 30000 * q + m" unfolding q_def m_def by (rule mult_div_mod_eq [symmetric])
  have m2: "0 \<le> m" "m < 30000" unfolding m_def by (rule pos_mod_sign, simp, rule pos_mod_bound, simp)
  have t: "t < 140737488355328" using assms(2) by simp
  have q: "30000 * q \<le> t" "t \<le> 30000 * q + 29999" using m1 m2 by linarith+
  have q0: "0 \<le> q" "q < 8589934592" using q t assms(1) by linarith+
  have p10: "pow2 (- 10) = 1 / 1024" and p15: "pow2 (- 15) = 1 / 32768" by (simp_all add: pow2_def power_int_def power_divide)
  let ?x = "of_int t / 1000 :: rat"
  have "(of_int (30000 * q) :: rat) \<le> of_int t" using q(1) by (simp only: of_int_le_iff)
  then have "of_int (30 * q) \<le> ?x" by simp
  then have lo: "of_int (30 * q) \<le> fl ?x" using fl_mono [of "of_int (30 * q)" ?x] fl_of_int [of "30 * q"] q0 by simp
  have "(of_int t :: rat) \<le> of_int (30000 * q + 29999)" using q(2) by (simp only: of_int_le_iff)
  then have "?x \<le> of_int ((30 * q + 30) * 1024 - 1) * pow2 (- 10)" by (simp add: p10 field_simps)
  then have hi: "fl ?x \<le> of_int ((30 * q + 30) * 1024 - 1) * pow2 (- 10)" by (rule fl_below) (use q0 in simp)
  have "of_int q \<le> fl ?x / 30" using lo by simp
  then have "of_int q \<le> fl (fl ?x / 30)" using fl_mono [of "of_int q" "fl ?x / 30"] fl_of_int [of q] q0 by simp
  moreover have "fl ?x / 30 \<le> of_int ((q + 1) * 32768 - 1) * pow2 (- 15)" using hi by (simp add: p10 p15 field_simps)
  then have "fl (fl ?x / 30) \<le> of_int ((q + 1) * 32768 - 1) * pow2 (- 15)" by (rule fl_below) (use q0 in simp)
  then have "fl (fl ?x / 30) < of_int (q + 1)" by (simp add: p15 field_simps)
  ultimately show ?thesis unfolding time_step_def fdiv_def q_def [symmetric] by (intro floor_unique) simp_all
qed

subsection \<open>Which codes are accepted\<close>

lemma hotp_Some: "0 \<le> c \<Longrightarrow> c < 2 ^ 64 \<Longrightarrow> \<exists>code. hotp mac buf c = Some code"
  by (simp add: hotp_def counter_bytes_def)

lemma window_three: "[- 1..1] = [- 1, 0, 1 :: int]"
  by (simp add: upto.simps)

lemma try_windows_Some:
  "list_all (\<lambda>w. \<exists>code. hotp mac buf (c + w) = Some code) ws \<Longrightarrow>
     try_windows mac buf c token ws = Some (list_ex (\<lambda>w. hotp mac buf (c + w) = Some (trim token)) ws)"
  by (induction ws) auto

text \<open>
  C35. A code is good for its own half minute and the two beside it. From the year 1970 to past the year
  6000, with the default window, the code is accepted exactly when an authenticator shows it whose clock
  is at the server's time, or half a minute before or after it. The double division finds the half minute
  of every such time exactly.
\<close>

theorem totp_window:
  assumes "30000 \<le> now" "now < 2 ^ 46" "token \<noteq> []" "secret \<noteq> []"
  shows "verify_totp mac now token secret 1 =
    Some (list_ex (\<lambda>t. totp mac secret t = Some (trim token)) [now - 30000, now, now + 30000])"
proof -
  let ?buf = "base32_decode secret"
  have n: "now < 70368744177664" using assms(2) by simp
  have step: "time_step now = now div 30000" by (rule time_step_exact) (use n assms(1) in simp_all)
  have before: "time_step (now - 30000) = now div 30000 - 1"
    by (subst time_step_exact) (use n assms(1) in simp_all)
  have after: "time_step (now + 30000) = now div 30000 + 1"
    by (subst time_step_exact) (use n assms(1) in simp_all)
  have c: "1 \<le> now div 30000" "now div 30000 < 2 ^ 63" using n assms(1) by simp_all
  have ok: "list_all (\<lambda>w. \<exists>code. hotp mac ?buf (now div 30000 + w) = Some code) [- 1, 0, 1]"
    using hotp_Some [of "now div 30000 - 1" mac ?buf] hotp_Some [of "now div 30000" mac ?buf] hotp_Some [of "now div 30000 + 1" mac ?buf] c by simp
  show ?thesis using try_windows_Some [OF ok, of token] assms(3,4)
    by (simp add: verify_totp_def window_three totp_def step before after)
qed

lemma totp_window_witness:
  "verify_totp (\<lambda>_ _. replicate 20 0) 60000 ''000000'' ''AAAA'' 1 = Some True"
proof -
  have e: "replicate 5 (CHR ''0'') = ''00000''" "char_of (48 :: nat) = CHR ''0''" by code_simp+
  have "totp (\<lambda>_ _. replicate 20 0) ''AAAA'' 60000 = Some (trim ''000000'')"
    unfolding totp_def time_step_exact [of 60000, simplified]
    by (simp add: hotp_def counter_bytes_def truncated_def six_digits_def dec_str.simps digit_char_def trim_def is_ws_def ws_chars_def e)
  then show ?thesis by (subst totp_window) simp_all
qed

end
