(* ===== verification/AuditChain.thy ===== *)
theory AuditChain
  imports JsDate "HOL-Library.List_Lexorder" "HOL-Library.Char_ord"
begin

text \<open>
  The audit log and its hash chain: \<open>backend/src/common/services/audit.service.ts\<close> and the verification of
  \<open>backend/src/modules/audit/audit.service.ts\<close>. The database's jsonb column and SHA-256 are parameters.
\<close>

subsection \<open>Values and their text\<close>

text \<open>
  A JavaScript value as the audit log meets it. A number is given by its text, as \<open>JSON.stringify\<close> writes
  it; NaN and the infinities are written null and are \<open>JNull\<close> here. The members of an object are in the
  order of \<open>Object.keys\<close>, which has no key twice.
\<close>

datatype json = JNull | JUndefined | JBool bool | JNum string | JStr string | JDate time | JArr "json list"
  | JObj "(string \<times> json) list"

definition hex_digit :: "nat \<Rightarrow> char" where
  "hex_digit n = ''0123456789abcdef'' ! n"

text \<open>\<open>JSON.stringify\<close> of a string.\<close>

definition escape_char :: "char \<Rightarrow> string" where
  "escape_char c = (if c = CHR 0x22 then [CHR 0x5C, CHR 0x22] else if c = CHR 0x5C then [CHR 0x5C, CHR 0x5C]
     else if c = CHR 0x08 then [CHR 0x5C, CHR ''b''] else if c = CHR 0x0C then [CHR 0x5C, CHR ''f'']
     else if c = CHR 0x0A then [CHR 0x5C, CHR ''n''] else if c = CHR 0x0D then [CHR 0x5C, CHR ''r'']
     else if c = CHR 0x09 then [CHR 0x5C, CHR ''t'']
     else if of_char c < (32::nat) then [CHR 0x5C, CHR ''u'', CHR ''0'', CHR ''0'', hex_digit (of_char c div 16), hex_digit (of_char c mod 16)]
     else [c])"

definition quote :: "string \<Rightarrow> string" where
  "quote s = CHR 0x22 # concat (map escape_char s) @ [CHR 0x22]"

lemma size_member: "(k, v) \<in> set ms \<Longrightarrow> size v < Suc (size_list (size_prod (\<lambda>_. 0) size) ms)"
  by (induction ms) auto

function stable_stringify :: "json \<Rightarrow> string" where
  "stable_stringify JNull = ''null''"
| "stable_stringify JUndefined = ''null''"
| "stable_stringify (JBool b) = (if b then ''true'' else ''false'')"
| "stable_stringify (JNum n) = n"
| "stable_stringify (JStr s) = quote s"
| "stable_stringify (JDate t) = quote (iso_string t)"
| "stable_stringify (JArr vs) = ''['' @ join '','' (map stable_stringify vs) @ '']''"
| "stable_stringify (JObj ms) =
     ''{'' @ join '','' (map (\<lambda>(k, v). quote k @ '':'' @ stable_stringify v) (sort_key fst ms)) @ ''}''"
  by pat_completeness auto

termination
  by (relation "measure size") (auto simp: less_Suc_eq_le size_list_estimation' dest: size_member)

subsection \<open>Entries\<close>

record audit_options =
  ao_actor_type :: string
  ao_actor :: "string option"
  ao_staff :: "string option"
  ao_action :: string
  ao_entity :: string
  ao_entity_id :: "string option"
  ao_before :: json
  ao_after :: json
  ao_ip :: "string option"
  ao_agent :: "string option"

record audit_entry =
  al_id :: string
  al_actor_type :: string
  al_actor :: "string option"
  al_staff :: "string option"
  al_action :: string
  al_entity :: string
  al_entity_id :: "string option"
  al_before :: json
  al_after :: json
  al_ip :: "string option"
  al_agent :: "string option"
  al_at :: time
  al_prev :: "string option"
  al_curr :: string

definition or_jnull :: "json \<Rightarrow> json" where
  "or_jnull v = (if v = JUndefined then JNull else v)"

definition opt_text :: "string option \<Rightarrow> json" where
  "opt_text x = (case x of None \<Rightarrow> JNull | Some s \<Rightarrow> JStr s)"

definition audit_payload :: "string \<Rightarrow> string option \<Rightarrow> string \<Rightarrow> string \<Rightarrow> string option \<Rightarrow> json \<Rightarrow> json \<Rightarrow> string \<Rightarrow> string" where
  "audit_payload actor_type actor action entity entity_id before after ts = stable_stringify (JObj
     [(''actorType'', JStr actor_type), (''actorId'', opt_text actor), (''action'', JStr action), (''entity'', JStr entity),
      (''entityId'', opt_text entity_id), (''beforeJson'', or_jnull before), (''afterJson'', or_jnull after), (''ts'', JStr ts)])"

definition audit_hash :: "(string \<Rightarrow> string) \<Rightarrow> string \<Rightarrow> string \<Rightarrow> string" where
  "audit_hash sha prev payload = sha (prev @ payload)"

definition entry_payload :: "audit_entry \<Rightarrow> string" where
  "entry_payload e = audit_payload (al_actor_type e) (al_actor e) (al_action e) (al_entity e) (al_entity_id e)
     (al_before e) (al_after e) (iso_string (al_at e))"

subsection \<open>Appending\<close>

text \<open>
  \<open>keep\<close> is what a jsonb column gives back for a value; null and undefined are stored as SQL null. The
  database names the new entry (\<open>new_id\<close>). An append that fails, for whatever reason (\<open>ok\<close> is false), leaves
  the log as it is and is only reported on the console. The appends happen one at a time: the transaction
  holds an advisory lock.
\<close>

definition kept_value :: "(json \<Rightarrow> json) \<Rightarrow> json \<Rightarrow> json" where
  "kept_value keep v = (if v = JNull \<or> v = JUndefined then JNull else keep v)"

definition chain_head :: "audit_entry list \<Rightarrow> audit_entry option" where
  "chain_head rows = (case rev (sort_key al_at rows) of [] \<Rightarrow> None | e # _ \<Rightarrow> Some e)"

definition audit_log :: "(string \<Rightarrow> string) \<Rightarrow> (json \<Rightarrow> json) \<Rightarrow> bool \<Rightarrow> time \<Rightarrow> string \<Rightarrow> audit_options \<Rightarrow>
    audit_entry list \<Rightarrow> audit_entry list" where
  "audit_log sha keep ok now new_id op rows =
     (let head = chain_head rows;
          prev = (case head of None \<Rightarrow> [] | Some e \<Rightarrow> al_curr e);
          ts = (case head of None \<Rightarrow> now | Some e \<Rightarrow> if now \<le> al_at e then al_at e + 1 else now);
          payload = audit_payload (ao_actor_type op) (ao_actor op) (ao_action op) (ao_entity op) (ao_entity_id op)
            (ao_before op) (ao_after op) (iso_string ts)
      in if \<not> ok then rows else rows @ [\<lparr>al_id = new_id, al_actor_type = ao_actor_type op, al_actor = ao_actor op,
           al_staff = ao_staff op, al_action = ao_action op, al_entity = ao_entity op, al_entity_id = ao_entity_id op,
           al_before = kept_value keep (ao_before op), al_after = kept_value keep (ao_after op), al_ip = ao_ip op,
           al_agent = ao_agent op, al_at = ts, al_prev = (if prev = [] then None else Some prev),
           al_curr = audit_hash sha prev payload\<rparr>])"

subsection \<open>Verifying\<close>

datatype audit_verdict = Verified nat "string option" | Broken nat nat string string string

text \<open>\<open>Verified count headHash\<close> and \<open>Broken count brokenAt entryId reason action\<close>.\<close>

fun verify_loop :: "(string \<Rightarrow> string) \<Rightarrow> nat \<Rightarrow> nat \<Rightarrow> string \<Rightarrow> audit_entry list \<Rightarrow> audit_verdict" where
  "verify_loop sha n i prev [] = Verified n (if prev = [] then None else Some prev)"
| "verify_loop sha n i prev (r # rows) =
     (if (case al_prev r of None \<Rightarrow> [] | Some p \<Rightarrow> p) \<noteq> prev
      then Broken n (Suc i) (al_id r) ''prev-link mismatch'' (al_action r)
      else if al_curr r \<noteq> audit_hash sha prev (entry_payload r)
      then Broken n (Suc i) (al_id r) ''hash mismatch (entry altered)'' (al_action r)
      else verify_loop sha n (Suc i) (al_curr r) rows)"

definition verify :: "(string \<Rightarrow> string) \<Rightarrow> audit_entry list \<Rightarrow> audit_verdict" where
  "verify sha rows = verify_loop sha (length rows) 0 [] (sort_key al_at rows)"

subsection \<open>Reading the text back\<close>

text \<open>
  What a value means to the log: undefined is null, a date is its text, and the order of the members of an
  object does not matter. \<open>meaning\<close> is this value in a normal form.
\<close>

fun meaning :: "json \<Rightarrow> json" where
  "meaning JUndefined = JNull"
| "meaning (JDate t) = JStr (iso_string t)"
| "meaning (JArr vs) = JArr (map meaning vs)"
| "meaning (JObj ms) = JObj (sort_key fst (map (\<lambda>(k, v). (k, meaning v)) ms))"
| "meaning v = v"

lemma insort_map_snd: "insort_key fst (k, f v) (map (\<lambda>(k, v). (k, f v)) ms) = map (\<lambda>(k, v). (k, f v)) (insort_key fst (k, v) ms)"
  by (induction ms) auto

lemma sort_map_snd: "sort_key fst (map (\<lambda>(k, v). (k, f v)) ms) = map (\<lambda>(k, v). (k, f v)) (sort_key fst ms)"
  by (induction ms) (auto simp: insort_map_snd)

lemma sort_key_idem: "sort_key f (sort_key f xs) = sort_key f xs"
  by (rule sort_key_id_if_sorted) simp

lemma stable_meaning: "stable_stringify (meaning v) = stable_stringify v"
proof (induction v rule: stable_stringify.induct)
  case (7 vs)
  then show ?case by (simp add: comp_def cong: map_cong)
next
  case (8 ms)
  have "map (\<lambda>(k, v). quote k @ '':'' @ stable_stringify v) (sort_key fst (map (\<lambda>(k, v). (k, meaning v)) ms)) =
      map (\<lambda>(k, v). quote k @ '':'' @ stable_stringify v) (sort_key fst ms)"
    using 8 by (auto simp: sort_map_snd)
  then show ?case by (simp add: sort_key_idem)
qed simp_all

definition num_char :: "char \<Rightarrow> bool" where
  "num_char c \<longleftrightarrow> is_digit c \<or> c \<in> set ''+-.e''"

definition num_text :: "string \<Rightarrow> bool" where
  "num_text n \<longleftrightarrow> n \<noteq> [] \<and> list_all num_char n \<and> (is_digit (hd n) \<or> hd n = CHR ''-'')"

text \<open>Values as a program can hold them: numbers have the text of a number.\<close>

fun numbers_ok :: "json \<Rightarrow> bool" where
  "numbers_ok (JNum n) = num_text n"
| "numbers_ok (JArr vs) = list_all numbers_ok vs"
| "numbers_ok (JObj ms) = list_all (\<lambda>(k, v). numbers_ok v) ms"
| "numbers_ok _ = True"

fun normal :: "json \<Rightarrow> bool" where
  "normal JUndefined = False"
| "normal (JDate t) = False"
| "normal (JNum n) = num_text n"
| "normal (JArr vs) = list_all normal vs"
| "normal (JObj ms) = (sorted (map fst ms) \<and> list_all (\<lambda>(k, v). normal v) ms)"
| "normal _ = True"

lemma numbers_ok_normal: "numbers_ok v \<Longrightarrow> normal (meaning v)"
proof (induction v rule: meaning.induct)
  case (3 vs)
  then show ?case by (simp add: list_all_iff)
next
  case (4 ms)
  then show ?case by (auto simp: list_all_iff)
qed simp_all

text \<open>One character is read back from its escape.\<close>

definition hex_val :: "char \<Rightarrow> nat" where
  "hex_val c = (if is_digit c then digit_val c else of_char c - 87)"

fun unescape :: "string \<Rightarrow> (char \<times> string) option" where
  "unescape (c # s) = (if c = CHR 0x22 then None
     else if c \<noteq> CHR 0x5C then Some (c, s)
     else (case s of [] \<Rightarrow> None
       | d # r \<Rightarrow> if d = CHR ''u'' then Some (char_of (16 * hex_val (r ! 2) + hex_val (r ! 3)), drop 4 r)
           else if d = CHR ''b'' then Some (CHR 0x08, r) else if d = CHR ''f'' then Some (CHR 0x0C, r)
           else if d = CHR ''n'' then Some (CHR 0x0A, r) else if d = CHR ''r'' then Some (CHR 0x0D, r)
           else if d = CHR ''t'' then Some (CHR 0x09, r) else Some (d, r)))"
| "unescape [] = None"

lemma hex_val_digit: "n < 16 \<Longrightarrow> hex_val (hex_digit n) = n"
proof -
  have "list_all (\<lambda>n. hex_val (hex_digit n) = n) [0..<16]" by code_simp
  then show "n < 16 \<Longrightarrow> hex_val (hex_digit n) = n" by (simp add: list_all_iff)
qed

lemma unescape_escape: "unescape (escape_char c @ s) = Some (c, s)"
proof (cases "of_char c < (32::nat)")
  case True
  then have "hex_val (hex_digit (of_char c div 16)) = of_char c div 16" "hex_val (hex_digit (of_char c mod 16)) = of_char c mod 16"
    by (simp_all add: hex_val_digit)
  then show ?thesis by (simp add: escape_char_def)
qed (auto simp: escape_char_def)

lemma escape_head: "escape_char c @ s \<noteq> CHR 0x22 # t"
  using unescape_escape [of c s] by auto

lemma escapes_inj:
  "concat (map escape_char a) @ CHR 0x22 # s = concat (map escape_char b) @ CHR 0x22 # t \<Longrightarrow> a = b \<and> s = t"
proof (induction a arbitrary: b)
  case Nil
  then show ?case using escape_head by (cases b) (auto dest: sym)
next
  case (Cons c a)
  show ?case
  proof (cases b)
    case Nil
    then show ?thesis using Cons.prems escape_head [of c] by auto
  next
    case (Cons d b')
    have "escape_char c @ concat (map escape_char a) @ CHR 0x22 # s = escape_char d @ concat (map escape_char b') @ CHR 0x22 # t"
      using Cons.prems Cons by simp
    then have "Some (c, concat (map escape_char a) @ CHR 0x22 # s) = Some (d, concat (map escape_char b') @ CHR 0x22 # t)"
      using unescape_escape by metis
    then show ?thesis using Cons.IH Cons by auto
  qed
qed

lemma quote_inj: "quote a @ s = quote b @ t \<Longrightarrow> a = b \<and> s = t"
  using escapes_inj [of a s b t] by (simp add: quote_def)

text \<open>
  Every text starts with a character that tells its kind and ends before a comma, a closing bracket or
  the end, so a text followed by one of these has one reading.
\<close>

definition ends :: "string \<Rightarrow> bool" where
  "ends s \<longleftrightarrow> s = [] \<or> hd s \<in> set '',]}''"

definition head_ok :: "json \<Rightarrow> char \<Rightarrow> bool" where
  "head_ok v c = (case v of JNull \<Rightarrow> c = CHR ''n'' | JUndefined \<Rightarrow> c = CHR ''n'' | JBool b \<Rightarrow> c = (if b then CHR ''t'' else CHR ''f'')
     | JNum n \<Rightarrow> is_digit c \<or> c = CHR ''-'' | JStr s \<Rightarrow> c = CHR 0x22 | JDate t \<Rightarrow> c = CHR 0x22 | JArr vs \<Rightarrow> c = CHR ''['' | JObj ms \<Rightarrow> c = CHR ''{'')"

lemma stable_head:
  assumes "normal v"
  obtains c r where "stable_stringify v = c # r" "head_ok v c"
proof (cases v)
  case (JNum n)
  then show ?thesis using assms that by (cases n) (auto simp: num_text_def head_ok_def)
next
  case (JBool b)
  then show ?thesis using that by (cases b) (auto simp: head_ok_def)
qed (use that in \<open>auto simp: head_ok_def quote_def\<close>)

lemma head_kind:
  assumes "head_ok v c" "head_ok w c"
  shows "case v of JNull \<Rightarrow> w = JNull \<or> w = JUndefined | JUndefined \<Rightarrow> w = JNull \<or> w = JUndefined | JBool b \<Rightarrow> w = JBool b
    | JNum n \<Rightarrow> (\<exists>m. w = JNum m) | JStr s \<Rightarrow> (\<exists>u. w = JStr u) \<or> (\<exists>t. w = JDate t) | JDate t \<Rightarrow> (\<exists>u. w = JStr u) \<or> (\<exists>t. w = JDate t)
    | JArr vs \<Rightarrow> (\<exists>us. w = JArr us) | JObj ms \<Rightarrow> (\<exists>us. w = JObj us)"
  using assms by (cases v; cases w) (auto simp: head_ok_def is_digit_def split: if_splits)

lemma head_not_end: "head_ok v c \<Longrightarrow> c \<notin> set '',]}''"
  by (cases v) (auto simp: head_ok_def is_digit_def split: if_splits)

lemma num_end: "num_text n \<Longrightarrow> ends s \<Longrightarrow> takeWhile num_char (n @ s) = n"
proof -
  assume n: "num_text n" and s: "ends s"
  have "\<not> num_char (CHR '','')" "\<not> num_char (CHR '']'')" "\<not> num_char (CHR ''}'')" by (simp_all add: num_char_def is_digit_def)
  then have "takeWhile num_char s = []" using s by (cases s) (auto simp: ends_def)
  then show ?thesis using n by (simp add: num_text_def list_all_iff takeWhile_append)
qed

lemma join_tail: "join '','' (x # xs) = x @ concat (map (\<lambda>y. CHR '','' # y) xs)"
  by (induction xs arbitrary: x) (auto simp: join_Cons)

text \<open>A list of texts between commas, up to its closing character, when each text is read in one way.\<close>

lemma tails_inj:
  assumes "concat (map (\<lambda>y. CHR '','' # f y) xs) @ k # s = concat (map (\<lambda>y. CHR '','' # f y) ys) @ k # t" "k \<in> set '']}''"
    and "\<And>x y u v. x \<in> set xs \<Longrightarrow> y \<in> set ys \<Longrightarrow> ends u \<Longrightarrow> ends v \<Longrightarrow> f x @ u = f y @ v \<Longrightarrow> x = y \<and> u = v"
  shows "xs = ys \<and> s = t"
  using assms(1,3)
proof (induction xs arbitrary: ys)
  case Nil
  then show ?case using assms(2) by (cases ys) auto
next
  case (Cons x xs)
  show ?case
  proof (cases ys)
    case Nil
    then show ?thesis using Cons.prems(1) assms(2) by auto
  next
    case (Cons y ys')
    let ?u = "concat (map (\<lambda>y. CHR '','' # f y) xs) @ k # s" and ?v = "concat (map (\<lambda>y. CHR '','' # f y) ys') @ k # t"
    have e: "ends (concat (map (\<lambda>y. CHR '','' # f y) zs) @ k # r)" for zs r
      using assms(2) by (cases zs) (auto simp: ends_def)
    have "f x @ ?u = f y @ ?v" using Cons.prems(1) Cons by simp
    then have "x = y \<and> ?u = ?v" using Cons.prems(2) [of x y ?u ?v] Cons e by simp
    moreover have "xs = ys' \<and> s = t" if "?u = ?v"
      by (rule Cons.IH [OF that]) (rule Cons.prems(2), auto simp: Cons)
    ultimately show ?thesis using Cons by simp
  qed
qed

lemma join_inj:
  assumes "join '','' (map f xs) @ k # s = join '','' (map f ys) @ k # t" "k \<in> set '']}''"
    and "\<And>x y u v. x \<in> set xs \<Longrightarrow> y \<in> set ys \<Longrightarrow> ends u \<Longrightarrow> ends v \<Longrightarrow> f x @ u = f y @ v \<Longrightarrow> x = y \<and> u = v"
    and "\<And>x. x \<in> set xs \<union> set ys \<Longrightarrow> \<exists>c r. f x = c # r \<and> c \<notin> set '',]}''"
  shows "xs = ys \<and> s = t"
proof -
  have tail: "join '','' (map f (z # zs)) @ r = f z @ concat (map (\<lambda>y. CHR '','' # f y) zs) @ r" for z zs r
    by (simp only: list.map join_tail append_assoc map_map comp_def)
  show ?thesis
  proof (cases xs)
    case Nil
    then show ?thesis using assms(1,2,4) tail by (cases ys) fastforce+
  next
    case (Cons x xs')
    note xs = Cons
    show ?thesis
    proof (cases ys)
      case Nil
      then show ?thesis using assms(1,2,4) tail xs by fastforce
    next
      case (Cons y ys')
      let ?u = "concat (map (\<lambda>y. CHR '','' # f y) xs') @ k # s" and ?v = "concat (map (\<lambda>y. CHR '','' # f y) ys') @ k # t"
      have e: "ends (concat (map (\<lambda>y. CHR '','' # f y) zs) @ k # r)" for zs r
        using assms(2) by (cases zs) (auto simp: ends_def)
      have "f x @ ?u = f y @ ?v" using assms(1) tail unfolding xs Cons by metis
      then have "x = y \<and> ?u = ?v" using assms(3) [of x y ?u ?v] xs Cons e by simp
      moreover have "xs' = ys' \<and> s = t" if "?u = ?v"
        by (rule tails_inj [OF that assms(2)]) (rule assms(3), auto simp: xs Cons)
      ultimately show ?thesis using xs Cons by simp
    qed
  qed
qed

definition member_text :: "string \<times> json \<Rightarrow> string" where
  "member_text = (\<lambda>(k, v). quote k @ '':'' @ stable_stringify v)"

lemma stable_object: "sorted (map fst ms) \<Longrightarrow> stable_stringify (JObj ms) = ''{'' @ join '','' (map member_text ms) @ ''}''"
  by (simp add: member_text_def sort_key_id_if_sorted)

lemma member_head: "\<exists>c r. member_text m = c # r \<and> c \<notin> set '',]}''"
  by (cases m) (simp add: member_text_def quote_def)

lemma same_kind:
  assumes "normal v" "normal w" "stable_stringify v @ s = stable_stringify w @ t"
  shows "case v of JNull \<Rightarrow> w = JNull | JBool b \<Rightarrow> w = JBool b | JNum n \<Rightarrow> (\<exists>m. w = JNum m) | JStr a \<Rightarrow> (\<exists>u. w = JStr u)
    | JArr vs \<Rightarrow> (\<exists>us. w = JArr us) | JObj ms \<Rightarrow> (\<exists>us. w = JObj us) | _ \<Rightarrow> True"
proof -
  obtain c r where c: "stable_stringify v = c # r" "head_ok v c" using stable_head assms(1) by blast
  obtain d q where d: "stable_stringify w = d # q" "head_ok w d" using stable_head assms(2) by blast
  have "head_ok w c" using c d assms(3) by simp
  from head_kind [OF c(2) this] show ?thesis using assms(2) by (cases v; cases w) auto
qed

lemma text_inj:
  assumes "normal v" "normal w" "ends s" "ends t" "stable_stringify v @ s = stable_stringify w @ t"
  shows "v = w \<and> s = t"
  using assms
proof (induction v arbitrary: w s t rule: stable_stringify.induct)
  case (4 n)
  obtain m where m: "w = JNum m" using same_kind [OF 4(1,2,5)] by auto
  have "takeWhile num_char (n @ s) = n" "takeWhile num_char (m @ t) = m"
    using num_end [of n s] num_end [of m t] 4 m by simp_all
  then show ?case using 4(5) m by auto
next
  case (7 vs)
  obtain us where us: "w = JArr us" using same_kind [OF 7(2,3,6)] by auto
  have nv: "x \<in> set vs \<Longrightarrow> normal x" "y \<in> set us \<Longrightarrow> normal y" for x y
    using 7(2,3) us by (auto simp: list_all_iff)
  have "vs = us \<and> s = t"
  proof (rule join_inj [where f = stable_stringify and k = "CHR '']''"])
    fix x assume "x \<in> set vs \<union> set us"
    then show "\<exists>c r. stable_stringify x = c # r \<and> c \<notin> set '',]}''" using nv stable_head head_not_end by (metis Un_iff)
  next
    fix x y u v assume "x \<in> set vs" "y \<in> set us" "ends u" "ends v" "stable_stringify x @ u = stable_stringify y @ v"
    then show "x = y \<and> u = v" using 7(1) [of x y u v] nv by blast
  qed (use 7(6) us in simp_all)
  then show ?case using us by simp
next
  case (8 ms)
  obtain us where us: "w = JObj us" using same_kind [OF 8(2,3,6)] by auto
  have so: "sorted (map fst ms)" "sorted (map fst us)" using 8(2,3) us by auto
  have nv: "(k, x) \<in> set ms \<Longrightarrow> normal x" "(k, y) \<in> set us \<Longrightarrow> normal y" for k x y
    using 8(2,3) us by (auto simp: list_all_iff)
  have "ms = us \<and> s = t"
  proof (rule join_inj [where f = member_text and k = "CHR ''}''"])
    show "join '','' (map member_text ms) @ CHR ''}'' # s = join '','' (map member_text us) @ CHR ''}'' # t"
      using 8(6) us stable_object so by (simp del: stable_stringify.simps)
    fix x y u v assume x: "x \<in> set ms" "y \<in> set us" "ends u" "ends v" "member_text x @ u = member_text y @ v"
    obtain k a l b where kl: "x = (k, a)" "y = (l, b)" by (cases x, cases y)
    have "k = l \<and> CHR '':'' # stable_stringify a @ u = CHR '':'' # stable_stringify b @ v"
      by (rule quote_inj) (use x(5) kl in \<open>simp add: member_text_def\<close>)
    moreover have "a = b \<and> u = v" if "stable_stringify a @ u = stable_stringify b @ v"
      by (rule 8(1) [of x k a]) (use x kl nv that so in \<open>auto simp: sort_key_id_if_sorted\<close>)
    ultimately show "x = y \<and> u = v" using kl by simp
  qed (simp, rule member_head)
  then show ?case using us by simp
next
  case 1
  then show ?case using same_kind [OF 1(1,2,5)] by auto
next
  case (3 b)
  then show ?case using same_kind [OF 3(1,2,5)] by auto
next
  case (5 a)
  then obtain u where "w = JStr u" using same_kind [OF 5(1,2,5)] by auto
  then show ?case using quote_inj [OF 5(5) [unfolded \<open>w = JStr u\<close> stable_stringify.simps]] by simp
qed simp_all

lemma stable_inj: "numbers_ok v \<Longrightarrow> numbers_ok w \<Longrightarrow> stable_stringify v = stable_stringify w \<Longrightarrow> meaning v = meaning w"
  using text_inj [of "meaning v" "meaning w" "[]" "[]"] by (simp add: numbers_ok_normal stable_meaning ends_def)

lemma stable_eq_iff: "numbers_ok v \<Longrightarrow> numbers_ok w \<Longrightarrow> stable_stringify v = stable_stringify w \<longleftrightarrow> meaning v = meaning w"
  using stable_inj [of v w] stable_meaning by metis

lemma payload_members:
  "sort_key fst [(''actorType'', a), (''actorId'', b), (''action'', c), (''entity'', d), (''entityId'', e), (''beforeJson'', f), (''afterJson'', g), (''ts'', h)] =
   [(''action'', c), (''actorId'', b), (''actorType'', a), (''afterJson'', g), (''beforeJson'', f), (''entity'', d), (''entityId'', e), (''ts'', h)]"
  by (simp add: less_char_def)

subsection \<open>What the chain is\<close>

fun linked :: "(string \<Rightarrow> string) \<Rightarrow> string \<Rightarrow> audit_entry list \<Rightarrow> bool" where
  "linked sha prev [] = True"
| "linked sha prev (r # rows) = ((case al_prev r of None \<Rightarrow> [] | Some p \<Rightarrow> p) = prev \<and>
     al_curr r = audit_hash sha prev (entry_payload r) \<and> linked sha (al_curr r) rows)"

fun chain_end :: "string \<Rightarrow> audit_entry list \<Rightarrow> string" where
  "chain_end prev [] = prev"
| "chain_end prev (r # rows) = chain_end (al_curr r) rows"

lemma linked_append: "linked sha prev (xs @ ys) \<longleftrightarrow> linked sha prev xs \<and> linked sha (chain_end prev xs) ys"
  by (induction xs arbitrary: prev) auto

lemma chain_end_append [simp]: "chain_end prev (xs @ ys) = chain_end (chain_end prev xs) ys"
  by (induction xs arbitrary: prev) auto

lemma verify_loop_verified:
  "verify_loop sha n i prev rows = Verified m h \<longleftrightarrow>
     linked sha prev rows \<and> m = n \<and> h = (if chain_end prev rows = [] then None else Some (chain_end prev rows))"
  by (induction sha n i prev rows rule: verify_loop.induct) auto

lemma verify_loop_append:
  "linked sha prev xs \<Longrightarrow> verify_loop sha n i prev (xs @ ys) = verify_loop sha n (i + length xs) (chain_end prev xs) ys"
  by (induction xs arbitrary: prev i) auto

definition chain_ok :: "(string \<Rightarrow> string) \<Rightarrow> audit_entry list \<Rightarrow> bool" where
  "chain_ok sha rows \<longleftrightarrow> sorted_wrt (<) (map al_at rows) \<and> linked sha [] rows"

lemma in_order: "sorted_wrt (<) (map al_at rows) \<Longrightarrow> sort_key al_at rows = rows"
  by (rule sort_key_id_if_sorted) (rule strict_sorted_imp_sorted)

lemma chain_head_last: "sorted_wrt (<) (map al_at rows) \<Longrightarrow> chain_head rows = (if rows = [] then None else Some (last rows))"
  by (cases rows rule: rev_cases) (simp_all add: chain_head_def in_order)

lemma chain_end_last: "chain_end prev rows = (if rows = [] then prev else al_curr (last rows))"
  by (induction rows arbitrary: prev) auto

lemma before_last: "sorted_wrt (<) (map al_at rows) \<Longrightarrow> r \<in> set rows \<Longrightarrow> al_at r \<le> al_at (last rows)"
  by (cases rows rule: rev_cases) (auto simp: sorted_wrt_append)

text \<open>An append to a chain: the entry that is added links to the end and is later than every other.\<close>

definition new_entry :: "(string \<Rightarrow> string) \<Rightarrow> (json \<Rightarrow> json) \<Rightarrow> time \<Rightarrow> string \<Rightarrow> audit_options \<Rightarrow> audit_entry list \<Rightarrow> audit_entry" where
  "new_entry sha keep now new_id op rows = last (audit_log sha keep True now new_id op rows)"

lemma audit_log_appends: "audit_log sha keep ok now new_id op rows = (if ok then rows @ [new_entry sha keep now new_id op rows] else rows)"
  by (simp add: new_entry_def audit_log_def Let_def)

lemma new_entry_later:
  "sorted_wrt (<) (map al_at rows) \<Longrightarrow> r \<in> set rows \<Longrightarrow> al_at r < al_at (new_entry sha keep now new_id op rows)"
  by (frule (1) before_last) (auto simp: new_entry_def audit_log_def Let_def chain_head_last)

lemma new_entry_prev:
  "sorted_wrt (<) (map al_at rows) \<Longrightarrow>
     (case al_prev (new_entry sha keep now new_id op rows) of None \<Rightarrow> [] | Some p \<Rightarrow> p) = chain_end [] rows"
  by (simp add: new_entry_def audit_log_def Let_def chain_head_last chain_end_last)

definition sent_payload :: "audit_options \<Rightarrow> time \<Rightarrow> string" where
  "sent_payload op t = audit_payload (ao_actor_type op) (ao_actor op) (ao_action op) (ao_entity op) (ao_entity_id op)
     (ao_before op) (ao_after op) (iso_string t)"

lemma new_entry_curr:
  "sorted_wrt (<) (map al_at rows) \<Longrightarrow> al_curr (new_entry sha keep now new_id op rows) =
     audit_hash sha (chain_end [] rows) (sent_payload op (al_at (new_entry sha keep now new_id op rows)))"
  by (simp add: new_entry_def audit_log_def Let_def chain_head_last chain_end_last sent_payload_def)

subsection \<open>What the database keeps\<close>

text \<open>
  \<open>sent\<close> is the JSON the database client writes into a jsonb column (\<open>JSON.stringify\<close>): an undefined member of an
  object is left out, an undefined element of an array is null, a date is its text. A column is faithful when
  what it gives back means what was sent; it may order the members as it likes. A value is plain when no
  object in it has an undefined member.
\<close>

fun sent :: "json \<Rightarrow> json" where
  "sent JUndefined = JNull"
| "sent (JDate t) = JStr (iso_string t)"
| "sent (JArr vs) = JArr (map sent vs)"
| "sent (JObj ms) = JObj (map (\<lambda>(k, v). (k, sent v)) (filter (\<lambda>(k, v). v \<noteq> JUndefined) ms))"
| "sent v = v"

fun plain :: "json \<Rightarrow> bool" where
  "plain (JArr vs) = list_all plain vs"
| "plain (JObj ms) = list_all (\<lambda>(k, v). v \<noteq> JUndefined \<and> plain v) ms"
| "plain _ = True"

definition faithful :: "(json \<Rightarrow> json) \<Rightarrow> bool" where
  "faithful keep \<longleftrightarrow> (\<forall>v. meaning (keep v) = meaning (sent v))"

lemma meaning_sent: "plain v \<Longrightarrow> meaning (sent v) = meaning v"
proof (induction v rule: sent.induct)
  case (3 vs)
  then show ?case by (simp add: list_all_iff)
next
  case (4 ms)
  have f: "filter (\<lambda>(k, v). v \<noteq> JUndefined) ms = ms" using 4(2) by (auto simp: list_all_iff filter_id_conv)
  have "map (\<lambda>(k, v). (k, meaning (sent v))) ms = map (\<lambda>(k, v). (k, meaning v)) ms"
    using 4 by (auto simp: list_all_iff)
  then have "map (\<lambda>(k, v). (k, meaning v)) (map (\<lambda>(k, v). (k, sent v)) ms) = map (\<lambda>(k, v). (k, meaning v)) ms"
    by (simp add: split_def comp_def)
  then show ?case by (simp only: f sent.simps meaning.simps)
qed simp_all

lemma stable_kept: "faithful keep \<Longrightarrow> plain v \<Longrightarrow> stable_stringify (or_jnull (kept_value keep v)) = stable_stringify (or_jnull v)"
  by (metis faithful_def meaning_sent or_jnull_def kept_value_def stable_meaning stable_stringify.simps(1,2))

lemma payload_text:
  "audit_payload a b c d e f g t = ''{'' @ join '','' (map member_text
     [(''action'', JStr c), (''actorId'', opt_text b), (''actorType'', JStr a), (''afterJson'', or_jnull g),
      (''beforeJson'', or_jnull f), (''entity'', JStr d), (''entityId'', opt_text e), (''ts'', JStr t)]) @ ''}''"
  by (simp only: audit_payload_def stable_stringify.simps payload_members member_text_def)

lemma payload_cong:
  "stable_stringify (or_jnull f) = stable_stringify (or_jnull f') \<Longrightarrow> stable_stringify (or_jnull g) = stable_stringify (or_jnull g') \<Longrightarrow>
     audit_payload a b c d e f g t = audit_payload a b c d e f' g' t"
  by (simp add: payload_text member_text_def)

definition plain_op :: "audit_options \<Rightarrow> bool" where
  "plain_op op \<longleftrightarrow> plain (ao_before op) \<and> plain (ao_after op)"

lemma new_entry_payload:
  assumes "faithful keep" "plain_op op"
  shows "entry_payload (new_entry sha keep now new_id op rows) = sent_payload op (al_at (new_entry sha keep now new_id op rows))"
  using assms unfolding entry_payload_def sent_payload_def
  by (auto simp: new_entry_def audit_log_def Let_def plain_op_def intro!: payload_cong stable_kept)

lemma audit_log_chain:
  assumes "faithful keep" "plain_op op" "chain_ok sha rows"
  shows "chain_ok sha (audit_log sha keep ok now new_id op rows)"
proof -
  let ?e = "new_entry sha keep now new_id op rows"
  have s: "sorted_wrt (<) (map al_at rows)" and l: "linked sha [] rows" using assms(3) by (simp_all add: chain_ok_def)
  have "sorted_wrt (<) (map al_at (rows @ [?e]))" using s new_entry_later by (auto simp: sorted_wrt_append)
  moreover have "linked sha [] (rows @ [?e])"
    using l new_entry_prev [OF s] new_entry_curr [OF s] new_entry_payload [OF assms(1,2)] by (simp add: linked_append)
  ultimately show ?thesis using assms(3) by (simp add: audit_log_appends chain_ok_def)
qed

lemma chain_verified:
  "chain_ok sha rows \<Longrightarrow> verify sha rows = Verified (length rows) (if chain_end [] rows = [] then None else Some (chain_end [] rows))"
  by (simp add: verify_def chain_ok_def in_order verify_loop_verified)

text \<open>A sequence of appends, each with its outcome, the clock, the identifier the database chooses and the options.\<close>

type_synonym append = "bool \<times> time \<times> string \<times> audit_options"

definition append_all :: "(string \<Rightarrow> string) \<Rightarrow> (json \<Rightarrow> json) \<Rightarrow> append list \<Rightarrow> audit_entry list \<Rightarrow> audit_entry list" where
  "append_all sha keep as rows = fold (\<lambda>(ok, now, new_id, op). audit_log sha keep ok now new_id op) as rows"

definition plain_append :: "append \<Rightarrow> bool" where
  "plain_append = (\<lambda>(ok, now, new_id, op). plain_op op)"

lemma append_all_chain:
  "faithful keep \<Longrightarrow> list_all plain_append as \<Longrightarrow> chain_ok sha rows \<Longrightarrow> chain_ok sha (append_all sha keep as rows)"
  by (induction as arbitrary: rows) (auto simp: append_all_def plain_append_def audit_log_chain)

lemma append_all_length: "length (append_all sha keep as rows) = length rows + length (filter fst as)"
  by (induction as arbitrary: rows) (auto simp: append_all_def audit_log_appends)

subsection \<open>What a hash says about the past\<close>

text \<open>What the hash of an entry covers.\<close>

definition content :: "audit_entry \<Rightarrow> string \<times> string option \<times> string \<times> string \<times> string option \<times> json \<times> json \<times> string" where
  "content r = (al_actor_type r, al_actor r, al_action r, al_entity r, al_entity_id r, meaning (al_before r), meaning (al_after r),
     iso_string (al_at r))"

definition entry_ok :: "audit_entry \<Rightarrow> bool" where
  "entry_ok r \<longleftrightarrow> numbers_ok (al_before r) \<and> numbers_ok (al_after r)"

lemma meaning_or_jnull [simp]: "meaning (or_jnull v) = meaning v"
  by (simp add: or_jnull_def)

lemma opt_text_inj: "meaning (opt_text x) = meaning (opt_text y) \<Longrightarrow> x = y"
  by (cases x; cases y) (simp_all add: opt_text_def)

lemma numbers_ok_texts [simp]: "numbers_ok (opt_text x)" "numbers_ok (or_jnull v) = numbers_ok v"
  by (auto simp: opt_text_def or_jnull_def split: option.split)

lemma payload_content:
  assumes "entry_ok r" "entry_ok q" "entry_payload r = entry_payload q"
  shows "content r = content q"
proof -
  define members where "members = (\<lambda>r :: audit_entry. [(''actorType'', JStr (al_actor_type r)), (''actorId'', opt_text (al_actor r)),
    (''action'', JStr (al_action r)), (''entity'', JStr (al_entity r)), (''entityId'', opt_text (al_entity_id r)),
    (''beforeJson'', or_jnull (al_before r)), (''afterJson'', or_jnull (al_after r)), (''ts'', JStr (iso_string (al_at r)))])"
  have "meaning (JObj (members r)) = meaning (JObj (members q))"
    by (rule stable_inj) (use assms in \<open>simp_all add: members_def entry_payload_def audit_payload_def entry_ok_def del: stable_stringify.simps\<close>)
  then show ?thesis
    by (auto simp: members_def payload_members content_def dest: opt_text_inj)
qed

text \<open>The strings that the verification hashes, and a collision of the hash among two such lists.\<close>

fun hashed :: "string \<Rightarrow> audit_entry list \<Rightarrow> string list" where
  "hashed prev [] = []"
| "hashed prev (r # rows) = (prev @ entry_payload r) # hashed (al_curr r) rows"

definition collision :: "(string \<Rightarrow> string) \<Rightarrow> string list \<Rightarrow> string list \<Rightarrow> bool" where
  "collision sha xs ys \<longleftrightarrow> list_ex (\<lambda>x. list_ex (\<lambda>y. x \<noteq> y \<and> sha x = sha y) ys) xs"

text \<open>A hex digest of SHA-256 has 64 characters, each a hex digit.\<close>

definition hex_digest :: "(string \<Rightarrow> string) \<Rightarrow> bool" where
  "hex_digest sha \<longleftrightarrow> (\<forall>x. length (sha x) = 64 \<and> CHR ''{'' \<notin> set (sha x))"

lemma digest_nonempty: "hex_digest sha \<Longrightarrow> sha x \<noteq> [] \<and> [] \<noteq> sha x"
  unfolding hex_digest_def by (metis list.size(3) zero_neq_numeral)

lemma hashed_append [simp]: "hashed prev (xs @ ys) = hashed prev xs @ hashed (chain_end prev xs) ys"
  by (induction xs arbitrary: prev) auto

lemma collision_append: "collision sha xs ys \<Longrightarrow> collision sha (xs @ us) (ys @ vs)"
  by (auto simp: collision_def list_ex_iff)

lemma chain_end_digest: "linked sha [] rows \<Longrightarrow> chain_end [] rows = [] \<or> (\<exists>x. chain_end [] rows = sha x)"
  by (cases rows rule: rev_cases) (auto simp: linked_append audit_hash_def)

lemma payload_brace: "\<exists>s. entry_payload r = CHR ''{'' # s"
  by (simp add: entry_payload_def payload_text)

lemma same_hashed:
  assumes "hex_digest sha" "linked sha [] xs" "linked sha [] ys"
    and "chain_end [] xs @ entry_payload r = chain_end [] ys @ entry_payload q"
  shows "chain_end [] xs = chain_end [] ys \<and> entry_payload r = entry_payload q"
proof -
  obtain s t where p: "entry_payload r = CHR ''{'' # s" "entry_payload q = CHR ''{'' # t" using payload_brace by metis
  have l: "length (sha x) = 64" "CHR ''{'' \<notin> set (sha x)" for x using assms(1) by (simp_all add: hex_digest_def)
  have "\<not> (sha x @ u = CHR ''{'' # v)" for x u v using l [of x] by (cases "sha x") auto
  then show ?thesis using chain_end_digest [OF assms(2)] chain_end_digest [OF assms(3)] assms(4) p l
    by (metis append_Nil append_eq_append_conv)
qed

lemma same_end:
  assumes "hex_digest sha"
  shows "linked sha [] xs \<Longrightarrow> linked sha [] ys \<Longrightarrow> list_all entry_ok xs \<Longrightarrow> list_all entry_ok ys \<Longrightarrow>
    chain_end [] xs = chain_end [] ys \<Longrightarrow> map content xs = map content ys \<or> collision sha (hashed [] xs) (hashed [] ys)"
proof (induction xs arbitrary: ys rule: rev_induct)
  case Nil
  have "chain_end [] ys = []" using Nil(5) by simp
  then have "ys = []" using Nil(2) assms by (cases ys rule: rev_cases) (auto simp: linked_append audit_hash_def digest_nonempty)
  then show ?case by simp
next
  case (snoc r xs)
  have "sha (chain_end [] xs @ entry_payload r) = chain_end [] ys" using snoc.prems by (simp add: linked_append audit_hash_def)
  then obtain q ys' where ys: "ys = ys' @ [q]" using digest_nonempty [OF assms] by (cases ys rule: rev_cases) auto
  have eq: "sha (chain_end [] xs @ entry_payload r) = sha (chain_end [] ys' @ entry_payload q)"
    using snoc.prems ys by (simp add: linked_append audit_hash_def)
  show ?case
  proof (cases "chain_end [] xs @ entry_payload r = chain_end [] ys' @ entry_payload q")
    case True
    have l: "linked sha [] xs" "linked sha [] ys'" using snoc.prems ys by (simp_all add: linked_append)
    have same: "chain_end [] xs = chain_end [] ys'" "entry_payload r = entry_payload q"
      using same_hashed [OF assms l True] by simp_all
    have "content r = content q" by (rule payload_content) (use snoc.prems ys same in simp_all)
    moreover have "map content xs = map content ys' \<or> collision sha (hashed [] xs) (hashed [] ys')"
      by (rule snoc.IH) (use snoc.prems ys l same in simp_all)
    ultimately show ?thesis using collision_append by (auto simp: ys)
  next
    case False
    then show ?thesis using eq by (auto simp: ys collision_def)
  qed
qed

subsection \<open>Undefined members\<close>

lemma numbers_ok_meaning: "numbers_ok (meaning v) = numbers_ok v"
proof (induction v rule: meaning.induct)
  case (3 vs)
  then show ?case by (simp add: list_all_iff)
next
  case (4 ms)
  then show ?case by (fastforce simp: list_all_iff)
qed simp_all

lemma numbers_ok_sent: "numbers_ok v \<Longrightarrow> numbers_ok (sent v)"
proof (induction v rule: sent.induct)
  case (3 vs)
  then show ?case by (simp add: list_all_iff)
next
  case (4 ms)
  then show ?case by (fastforce simp: list_all_iff)
qed simp_all

lemma numbers_ok_kept: "faithful keep \<Longrightarrow> numbers_ok v \<Longrightarrow> numbers_ok (kept_value keep v)"
  by (metis faithful_def kept_value_def numbers_ok_meaning numbers_ok_sent numbers_ok.simps(4))

lemma dropped_member: "JUndefined \<in> snd ` set ms \<Longrightarrow> meaning (sent (JObj ms)) \<noteq> meaning (JObj ms)"
proof -
  assume "JUndefined \<in> snd ` set ms"
  then obtain k where "(k, JUndefined) \<in> set ms" by auto
  then have "length (filter (\<lambda>(k, v). v \<noteq> JUndefined) ms) < length ms"
    by (rule length_filter_less) simp
  then have "length (sort_key fst (map (\<lambda>(k, v). (k, meaning v)) (map (\<lambda>(k, v). (k, sent v)) (filter (\<lambda>(k, v). v \<noteq> JUndefined) ms))))
      \<noteq> length (sort_key fst (map (\<lambda>(k, v). (k, meaning v)) ms))"
    by (simp only: length_sort length_map)
  then show ?thesis unfolding sent.simps meaning.simps json.inject by metis
qed

lemma sent_payload_entry:
  "sent_payload op t = entry_payload (r\<lparr>al_actor_type := ao_actor_type op, al_actor := ao_actor op, al_action := ao_action op,
     al_entity := ao_entity op, al_entity_id := ao_entity_id op, al_before := ao_before op, al_after := ao_after op, al_at := t\<rparr>)"
  by (simp add: sent_payload_def entry_payload_def)

lemma dropped_payload:
  assumes "faithful keep" "ao_after op = JObj ms" "JUndefined \<in> snd ` set ms" "numbers_ok (ao_before op)" "numbers_ok (ao_after op)"
  shows "entry_payload (new_entry sha keep now new_id op rows) \<noteq> sent_payload op (al_at (new_entry sha keep now new_id op rows))"
proof
  let ?e = "new_entry sha keep now new_id op rows"
  define q where "q = ?e\<lparr>al_actor_type := ao_actor_type op, al_actor := ao_actor op, al_action := ao_action op,
     al_entity := ao_entity op, al_entity_id := ao_entity_id op, al_before := ao_before op, al_after := ao_after op, al_at := al_at ?e\<rparr>"
  have kept: "al_before ?e = kept_value keep (ao_before op)" "al_after ?e = kept_value keep (ao_after op)"
    by (simp_all add: new_entry_def audit_log_def Let_def)
  assume "entry_payload ?e = sent_payload op (al_at ?e)"
  then have "entry_payload ?e = entry_payload q" unfolding q_def by (simp only: sent_payload_entry [where r = ?e])
  moreover have "entry_ok ?e" "entry_ok q"
    using assms(1,4,5) by (simp_all add: entry_ok_def kept numbers_ok_kept q_def)
  ultimately have "content ?e = content q" by (intro payload_content)
  then have "meaning (kept_value keep (ao_after op)) = meaning (ao_after op)" by (simp add: content_def kept q_def)
  moreover have "meaning (kept_value keep (ao_after op)) = meaning (sent (ao_after op))"
    using assms(1,2) by (simp add: kept_value_def faithful_def)
  ultimately show False using dropped_member [OF assms(3)] assms(2) by simp
qed

subsection \<open>The properties\<close>

text \<open>
  C10. The hashed text determines the value. Two values have the same stable text exactly when they mean the
  same: undefined counts as null, a date as its text, and the order of the members of an object does not
  count, at any depth. No quoting or nesting makes two different values look the same to the hash.
\<close>

theorem stable_text_is_the_value:
  assumes "numbers_ok v" "numbers_ok w"
  shows "stable_stringify v = stable_stringify w \<longleftrightarrow> meaning v = meaning w"
  by (rule stable_eq_iff [OF assms])

lemma stable_text_is_the_value_witness:
  "stable_stringify (JObj [(''b'', JNum ''1''), (''a'', JUndefined)]) = stable_stringify (JObj [(''a'', JNull), (''b'', JNum ''1'')])"
  by (subst stable_text_is_the_value) (simp_all add: num_text_def num_char_def less_char_def is_digit_def)

text \<open>
  C9. The log verifies. Whatever is logged, whatever the clock says (it may stand still or go back) and
  whichever appends fail, the verification of the log reports every entry in place and the hash of the
  newest, as long as no logged object has an undefined member.
\<close>

theorem honest_log_verifies:
  assumes "faithful keep" "list_all plain_append as"
  shows "verify sha (append_all sha keep as []) =
    Verified (length (filter fst as)) (let h = chain_end [] (append_all sha keep as []) in if h = [] then None else Some h)"
proof -
  have "chain_ok sha (append_all sha keep as [])"
    by (rule append_all_chain [OF assms]) (simp add: chain_ok_def)
  then show ?thesis by (simp add: chain_verified append_all_length)
qed

definition login_op :: audit_options where
  "login_op = \<lparr>ao_actor_type = ''STAFF'', ao_actor = Some ''s1'', ao_staff = Some ''s1'', ao_action = ''LOGIN'', ao_entity = ''Staff'',
     ao_entity_id = Some ''s1'', ao_before = JUndefined, ao_after = JObj [(''ok'', JBool True)], ao_ip = None, ao_agent = None\<rparr>"

lemma faithful_sent: "faithful (\<lambda>v. meaning (sent v))"
proof -
  have "meaning (meaning v) = meaning v" for v
  proof (induction v rule: meaning.induct)
    case (4 ms)
    then have "map (\<lambda>(k, v). (k, meaning v)) (map (\<lambda>(k, v). (k, meaning v)) ms) = map (\<lambda>(k, v). (k, meaning v)) ms" by auto
    then show ?case by (simp only: meaning.simps sort_map_snd [symmetric] sort_key_idem)
  qed simp_all
  then show ?thesis by (simp add: faithful_def)
qed

lemma honest_log_verifies_witness:
  "\<exists>h. verify (\<lambda>x. x) (append_all (\<lambda>x. x) (\<lambda>v. meaning (sent v)) [(True, 5, ''e1'', login_op), (False, 6, ''e2'', login_op), (True, 3, ''e3'', login_op)] []) =
    Verified 2 h"
  using honest_log_verifies [OF faithful_sent, of "[(True, 5, ''e1'', login_op), (False, 6, ''e2'', login_op), (True, 3, ''e3'', login_op)]" "\<lambda>x. x"]
  by (simp add: plain_append_def plain_op_def login_op_def)

text \<open>
  C8. Tampering shows. Take two logs that both verify with the same head hash: one that somebody wrote down
  earlier, and the one in the database now. Then the two hold the same entries in the same order (in every
  field the hash covers), or verifying them has hashed two different strings to the same digest, and the
  two lists of hashed strings exhibit that collision of SHA-256.
\<close>

theorem tampering_needs_a_collision:
  assumes "hex_digest sha" "verify sha rows = Verified n (Some h)" "verify sha rows' = Verified n' (Some h)"
    and "list_all entry_ok rows" "list_all entry_ok rows'"
  shows "map content (sort_key al_at rows) = map content (sort_key al_at rows') \<or>
    collision sha (hashed [] (sort_key al_at rows)) (hashed [] (sort_key al_at rows'))"
proof (rule same_end [OF assms(1)])
  show "linked sha [] (sort_key al_at rows)" "linked sha [] (sort_key al_at rows')"
    "chain_end [] (sort_key al_at rows) = chain_end [] (sort_key al_at rows')"
    using assms(2,3) by (simp_all add: verify_def verify_loop_verified split: if_splits)
qed (use assms(4,5) in \<open>simp_all add: list_all_iff\<close>)

definition flat_digest :: "string \<Rightarrow> string" where
  "flat_digest x = replicate 64 (CHR ''0'')"

definition one_entry :: "string \<Rightarrow> audit_entry list" where
  "one_entry who = append_all flat_digest (\<lambda>v. meaning (sent v)) [(True, 5, ''e1'', login_op\<lparr>ao_actor := Some who\<rparr>)] []"

lemma one_entry_props:
  "verify flat_digest (one_entry who) = Verified 1 (Some (replicate 64 (CHR ''0'')))" "list_all entry_ok (one_entry who)"
proof -
  have c: "chain_ok flat_digest (one_entry who)" unfolding one_entry_def
    by (rule append_all_chain [OF faithful_sent]) (simp_all add: plain_append_def plain_op_def login_op_def chain_ok_def)
  have l: "length (one_entry who) = 1" by (simp add: one_entry_def append_all_length)
  then obtain r where r: "one_entry who = [r]" by (cases "one_entry who") auto
  then show "verify flat_digest (one_entry who) = Verified 1 (Some (replicate 64 (CHR ''0'')))"
    using chain_verified [OF c] c by (simp add: chain_ok_def audit_hash_def flat_digest_def)
  show "list_all entry_ok (one_entry who)"
    by (simp add: one_entry_def append_all_def audit_log_def Let_def login_op_def entry_ok_def kept_value_def)
qed

lemma tampering_needs_a_collision_witness:
  "map content (sort_key al_at (one_entry ''s1'')) = map content (sort_key al_at (one_entry ''s2'')) \<or>
    collision flat_digest (hashed [] (sort_key al_at (one_entry ''s1''))) (hashed [] (sort_key al_at (one_entry ''s2'')))"
  by (rule tampering_needs_a_collision [OF _ one_entry_props(1) one_entry_props(1) one_entry_props(2) one_entry_props(2)])
    (simp add: hex_digest_def flat_digest_def)

text \<open>
  A member that is undefined breaks the chain. The hash at the time of writing takes an undefined member
  of an object for null, but the jsonb column does not store it: from then on the verification reports the
  untouched entry as altered (or the hash collides on the two texts). The note of a change of the statutory
  configuration is such a member when it is not given.
\<close>

theorem undefined_member_breaks_chain:
  assumes "chain_ok sha rows" "faithful keep" "ao_after op = JObj ms" "JUndefined \<in> snd ` set ms"
    and "numbers_ok (ao_before op)" "numbers_ok (ao_after op)"
  shows "verify sha (audit_log sha keep True now new_id op rows) =
      Broken (Suc (length rows)) (Suc (length rows)) new_id ''hash mismatch (entry altered)'' (ao_action op) \<or>
    collision sha [chain_end [] rows @ sent_payload op (al_at (new_entry sha keep now new_id op rows))]
      [chain_end [] rows @ entry_payload (new_entry sha keep now new_id op rows)]"
proof -
  let ?e = "new_entry sha keep now new_id op rows"
  have s: "sorted_wrt (<) (map al_at rows)" and l: "linked sha [] rows" using assms(1) by (simp_all add: chain_ok_def)
  have "sorted_wrt (<) (map al_at (rows @ [?e]))" using s new_entry_later by (auto simp: sorted_wrt_append)
  then have v: "verify sha (rows @ [?e]) = verify_loop sha (Suc (length rows)) (length rows) (chain_end [] rows) [?e]"
    by (simp add: verify_def in_order verify_loop_append [OF l])
  have "al_id ?e = new_id" "al_action ?e = ao_action op" by (simp_all add: new_entry_def audit_log_def Let_def)
  moreover have "sha (chain_end [] rows @ sent_payload op (al_at ?e)) \<noteq> sha (chain_end [] rows @ entry_payload ?e) \<or>
      collision sha [chain_end [] rows @ sent_payload op (al_at ?e)] [chain_end [] rows @ entry_payload ?e]"
    using dropped_payload [OF assms(2-6), THEN not_sym, of sha now new_id rows] by (simp add: collision_def)
  ultimately show ?thesis using v new_entry_prev [OF s] new_entry_curr [OF s]
    by (auto simp: audit_log_appends audit_hash_def)
qed

text \<open>The entry of a change of one setting without a note, as \<open>statutory.service.ts\<close> logs it (three of its members).\<close>

definition setting_op :: audit_options where
  "setting_op = \<lparr>ao_actor_type = ''STAFF'', ao_actor = Some ''s1'', ao_staff = Some ''s1'', ao_action = ''UPDATE_STATUTORY_CONFIG'',
     ao_entity = ''StatutoryConfig'', ao_entity_id = Some ''c2'', ao_before = JObj [(''citRate'', JNum ''0.3'')],
     ao_after = JObj [(''citRate'', JNum ''0.25''), (''version'', JNum ''2''), (''note'', JUndefined)], ao_ip = None, ao_agent = None\<rparr>"

lemma undefined_member_breaks_chain_witness:
  "verify (\<lambda>x. x) (audit_log (\<lambda>x. x) (\<lambda>v. meaning (sent v)) True 5 ''e1'' setting_op []) =
    Broken 1 1 ''e1'' ''hash mismatch (entry altered)'' ''UPDATE_STATUTORY_CONFIG''"
  using undefined_member_breaks_chain [OF _ faithful_sent, of "\<lambda>x. x" "[]" setting_op
      "[(''citRate'', JNum ''0.25''), (''version'', JNum ''2''), (''note'', JUndefined)]" 5 "''e1''"]
  by (simp add: chain_ok_def setting_op_def collision_def num_text_def num_char_def is_digit_def)

end
