(* ===== verification/Access.thy ===== *)
theory Access
  imports AuditChain JsParse
begin

text \<open>
  Access to raw taxpayer records and to clear personal data, \<open>backend/src/modules/access/\<close>: the need-to-know
  assignments (\<open>access-assignment.service.ts\<close>), the approved one-time tokens that open a work session
  (\<open>access-grant-token.service.ts\<close>), and the elevations to clear personal data (\<open>access.service.ts\<close> and
  \<open>common/services/pii-access.service.ts\<close>). The state holds the tables, the mails sent and the calls of the
  audit log. SHA-256, bcrypt, the random part of a token and the identifiers of new rows are parameters.
\<close>

subsection \<open>Tables\<close>

datatype staff_role = SuperAdmin | Admin | Supervisor | Analyst | AuditOfficer | DataOfficer | ReadOnlyStaff

fun role_text :: "staff_role \<Rightarrow> string" where
  "role_text SuperAdmin = ''SUPER_ADMIN''"
| "role_text Admin = ''ADMIN''"
| "role_text Supervisor = ''SUPERVISOR''"
| "role_text Analyst = ''ANALYST''"
| "role_text AuditOfficer = ''AUDIT_OFFICER''"
| "role_text DataOfficer = ''DPO''"
| "role_text ReadOnlyStaff = ''READONLY''"

record officer =
  sf_id :: string
  sf_role :: staff_role
  sf_active :: bool
  sf_password :: string
  sf_email :: string

text \<open>The caller of an operation, as the guard found it.\<close>

record caller =
  ar_id :: string
  ar_role :: staff_role

record assignment =
  as_id :: string
  as_staff :: string
  as_provider :: "string option"
  as_case :: "string option"
  as_reason :: string
  as_granter :: string
  as_self :: bool
  as_created :: time
  as_revoked :: "time option"
  as_revoker :: "string option"

datatype grant_status = GrantPending | GrantApproved | GrantRedeemed | GrantRevoked | GrantExpired

record grant =
  gt_id :: string
  gt_staff :: string
  gt_provider :: "string option"
  gt_case :: "string option"
  gt_reason :: string
  gt_status :: grant_status
  gt_hash :: "string option"
  gt_requested :: time
  gt_approver :: "string option"
  gt_approved :: "time option"
  gt_redeem_by :: "time option"
  gt_redeemed :: "time option"
  gt_session :: "time option"
  gt_revoked :: "time option"
  gt_revoker :: "string option"

datatype elevation_status = ElevationPending | ElevationActive | ElevationDenied | ElevationExpired

record elevation =
  ev_id :: string
  ev_staff :: string
  ev_scope :: string
  ev_reason :: string
  ev_status :: elevation_status
  ev_requested :: time
  ev_decider :: "string option"
  ev_decided :: "time option"
  ev_expires :: "time option"

record access_db =
  ad_officers :: "officer list"
  ad_providers :: "string list"
  ad_cases :: "string list"
  ad_assignments :: "assignment list"
  ad_grants :: "grant list"
  ad_elevations :: "elevation list"
  ad_trail :: "audit_options list"
  ad_mails :: "(string \<times> string) list"

record access_env =
  xe_now :: time
  xe_id :: string
  xe_raw :: string
  xe_sha :: "string \<Rightarrow> string"
  xe_compare :: "string \<Rightarrow> string \<Rightarrow> bool"

datatype access_error = RawRolesOnly | ExactlyOneScope | ReasonRequired | TargetNotFound | TargetRole | ProviderUnknown
  | CaseUnknown | IdTaken | AssignmentNotFound | NotAssignedProvider | NotAssignedCase | SuperAdminOnly | FourEyes
  | RequestNotFound | NotPending grant_status | CredentialsRequired | PasswordWrong | NoMatchingToken | TokenExpired
  | SessionEnded | SessionRequired | NotPermitted | JustificationRequired | ElevationNotFound
  | ElevationDecided elevation_status | OwnElevation | OthersElevation | ElevationNotActive
  | UnknownField | RevealRefused | RecordNotFound

text \<open>A call of \<open>audit.log\<close> for a member of staff.\<close>

definition trail_call :: "string \<Rightarrow> string \<Rightarrow> string \<Rightarrow> string \<Rightarrow> json \<Rightarrow> json \<Rightarrow> audit_options" where
  "trail_call who action entity entity_id before after = \<lparr>ao_actor_type = ''STAFF'', ao_actor = Some who, ao_staff = Some who,
     ao_action = action, ao_entity = entity, ao_entity_id = Some entity_id, ao_before = before, ao_after = after, ao_ip = None, ao_agent = None\<rparr>"

definition scope_entity :: "string option \<Rightarrow> string" where
  "scope_entity pid = (if truthy pid then ''DataProvider'' else ''UnderdeclarationCase'')"

definition scope_key :: "string option \<Rightarrow> string option \<Rightarrow> string" where
  "scope_key pid cid = (case pid of Some p \<Rightarrow> p | None \<Rightarrow> the cid)"

subsection \<open>Assignments\<close>

definition raw_role :: "staff_role \<Rightarrow> bool" where
  "raw_role r \<longleftrightarrow> r = SuperAdmin \<or> r = Admin"

definition has_provider_access :: "string \<Rightarrow> string \<Rightarrow> access_db \<Rightarrow> bool" where
  "has_provider_access who pid st \<longleftrightarrow>
     list_ex (\<lambda>a. as_staff a = who \<and> as_provider a = Some pid \<and> as_revoked a = None) (ad_assignments st)"

definition has_case_access :: "string \<Rightarrow> string \<Rightarrow> access_db \<Rightarrow> bool" where
  "has_case_access who cid st \<longleftrightarrow>
     list_ex (\<lambda>a. as_staff a = who \<and> as_case a = Some cid \<and> as_revoked a = None) (ad_assignments st)"

definition assert_provider_access :: "caller \<Rightarrow> string \<Rightarrow> access_db \<Rightarrow> access_error + unit" where
  "assert_provider_access staff pid st = (if \<not> raw_role (ar_role staff) then Inl RawRolesOnly
     else if has_provider_access (ar_id staff) pid st then Inr () else Inl NotAssignedProvider)"

definition assert_case_access :: "caller \<Rightarrow> string \<Rightarrow> access_db \<Rightarrow> access_error + unit" where
  "assert_case_access staff cid st = (if \<not> raw_role (ar_role staff) then Inl RawRolesOnly
     else if has_case_access (ar_id staff) cid st then Inr () else Inl NotAssignedCase)"

definition reason_of :: "string option \<Rightarrow> string" where
  "reason_of r = trim (case r of None \<Rightarrow> [] | Some s \<Rightarrow> s)"

definition assign_access :: "access_env \<Rightarrow> caller \<Rightarrow> string \<Rightarrow> string option \<Rightarrow> string option \<Rightarrow> string option \<Rightarrow> access_db \<Rightarrow>
    (access_error, assignment, access_db) outcome" where
  "assign_access env actor staff pid cid why st =
     (if \<not> raw_role (ar_role actor) then (Inl RawRolesOnly, st)
      else if truthy pid = truthy cid then (Inl ExactlyOneScope, st)
      else if reason_of why = [] then (Inl ReasonRequired, st)
      else (case find_by sf_id staff (ad_officers st) of None \<Rightarrow> (Inl TargetNotFound, st)
        | Some target \<Rightarrow>
          if \<not> sf_active target then (Inl TargetNotFound, st)
          else if \<not> raw_role (sf_role target) then (Inl TargetRole, st)
          else if truthy pid \<and> the pid \<notin> set (ad_providers st) then (Inl ProviderUnknown, st)
          else if truthy cid \<and> the cid \<notin> set (ad_cases st) then (Inl CaseUnknown, st)
          else (case find (\<lambda>a. as_staff a = staff \<and> as_provider a = pid \<and> as_case a = cid \<and> as_revoked a = None) (ad_assignments st) of
              Some a \<Rightarrow> (Inr a, st)
            | None \<Rightarrow> if find_by as_id (xe_id env) (ad_assignments st) \<noteq> None then (Inl IdTaken, st)
                else (let self = (staff = ar_id actor);
                    a = \<lparr>as_id = xe_id env, as_staff = staff, as_provider = pid, as_case = cid, as_reason = reason_of why,
                      as_granter = ar_id actor, as_self = self, as_created = xe_now env, as_revoked = None, as_revoker = None\<rparr>;
                    call = trail_call (ar_id actor) (if self then ''ACCESS_SELF_ASSIGN'' else ''ACCESS_ASSIGN_GRANT'') (scope_entity pid)
                      (scope_key pid cid) JUndefined (JObj [(''assignmentId'', JStr (xe_id env)), (''staffId'', JStr staff),
                        (''providerId'', opt_text pid), (''caseId'', opt_text cid), (''reason'', JStr (reason_of why)), (''selfAssigned'', JBool self)])
                  in (Inr a, st\<lparr>ad_assignments := ad_assignments st @ [a], ad_trail := ad_trail st @ [call]\<rparr>)))))"

definition unassign_access :: "access_env \<Rightarrow> caller \<Rightarrow> string \<Rightarrow> access_db \<Rightarrow> (access_error, assignment, access_db) outcome" where
  "unassign_access env actor aid st =
     (if \<not> raw_role (ar_role actor) then (Inl RawRolesOnly, st)
      else (case find_by as_id aid (ad_assignments st) of None \<Rightarrow> (Inl AssignmentNotFound, st)
        | Some a \<Rightarrow> if as_revoked a \<noteq> None then (Inr a, st)
            else (let f = (\<lambda>a. a\<lparr>as_revoked := Some (xe_now env), as_revoker := Some (ar_id actor)\<rparr>);
                call = trail_call (ar_id actor) ''ACCESS_ASSIGN_REVOKE'' (scope_entity (as_provider a)) (scope_key (as_provider a) (as_case a))
                  JUndefined (JObj [(''assignmentId'', JStr aid), (''revokedStaffId'', JStr (as_staff a))])
              in (Inr (f a), st\<lparr>ad_assignments := update_first as_id aid f (ad_assignments st), ad_trail := ad_trail st @ [call]\<rparr>))))"

subsection \<open>Grant tokens\<close>

definition live_grant :: "time \<Rightarrow> grant \<Rightarrow> bool" where
  "live_grant now g \<longleftrightarrow> (gt_status g = GrantPending \<or> gt_status g = GrantApproved \<or> gt_status g = GrantRedeemed) \<and>
     (case gt_session g of None \<Rightarrow> True | Some t \<Rightarrow> now < t)"

definition in_scope :: "string \<Rightarrow> string option \<Rightarrow> string option \<Rightarrow> grant \<Rightarrow> bool" where
  "in_scope who pid cid g \<longleftrightarrow> gt_staff g = who \<and> gt_provider g = pid \<and> gt_case g = cid"

definition new_grant :: "access_env \<Rightarrow> string \<Rightarrow> string option \<Rightarrow> string option \<Rightarrow> string option \<Rightarrow> grant" where
  "new_grant env who pid cid why = \<lparr>gt_id = xe_id env, gt_staff = who, gt_provider = pid, gt_case = cid, gt_reason = reason_of why,
     gt_status = GrantPending, gt_hash = None, gt_requested = xe_now env, gt_approver = None, gt_approved = None,
     gt_redeem_by = None, gt_redeemed = None, gt_session = None, gt_revoked = None, gt_revoker = None\<rparr>"

definition request_call :: "access_env \<Rightarrow> string \<Rightarrow> string option \<Rightarrow> string option \<Rightarrow> string option \<Rightarrow> audit_options" where
  "request_call env who pid cid why = trail_call who ''GRANT_TOKEN_REQUEST'' (scope_entity pid) (scope_key pid cid) JUndefined
     (JObj [(''id'', JStr (xe_id env)), (''reason'', JStr (reason_of why))])"

definition request_grant :: "access_env \<Rightarrow> caller \<Rightarrow> string option \<Rightarrow> string option \<Rightarrow> string option \<Rightarrow> access_db \<Rightarrow>
    (access_error, string \<times> grant_status, access_db) outcome" where
  "request_grant env actor pid cid why st =
     (if reason_of why = [] then (Inl ReasonRequired, st)
      else if truthy pid = truthy cid then (Inl ExactlyOneScope, st)
      else (case (if truthy pid then assert_provider_access actor (the pid) st else assert_case_access actor (the cid) st) of
          Inl e \<Rightarrow> (Inl e, st)
        | Inr _ \<Rightarrow> (case find (\<lambda>g. in_scope (ar_id actor) pid cid g \<and> live_grant (xe_now env) g) (ad_grants st) of
              Some g \<Rightarrow> (Inr (gt_id g, gt_status g), st)
            | None \<Rightarrow> if find_by gt_id (xe_id env) (ad_grants st) \<noteq> None then (Inl IdTaken, st)
                else (Inr (xe_id env, GrantPending), st\<lparr>ad_grants := ad_grants st @ [new_grant env (ar_id actor) pid cid why],
                  ad_trail := ad_trail st @ [request_call env (ar_id actor) pid cid why]\<rparr>))))"

definition self_approval_allowed :: bool where
  "self_approval_allowed = True"

definition approve_call :: "string \<Rightarrow> grant \<Rightarrow> audit_options" where
  "approve_call approver g = trail_call approver ''GRANT_TOKEN_APPROVE'' (scope_entity (gt_provider g)) (scope_key (gt_provider g) (gt_case g))
     JUndefined (JObj [(''id'', JStr (gt_id g)), (''requester'', JStr (gt_staff g)), (''redeemWindowMin'', JNum ''60''),
       (''selfApproved'', JBool (gt_staff g = approver))])"

definition approved_grant :: "access_env \<Rightarrow> string \<Rightarrow> grant \<Rightarrow> grant" where
  "approved_grant env approver g = g\<lparr>gt_status := GrantApproved, gt_hash := Some (xe_sha env (upper (xe_raw env))),
     gt_approver := Some approver, gt_approved := Some (xe_now env), gt_redeem_by := Some (xe_now env + 60 * 60000)\<rparr>"

definition token_mails :: "string \<Rightarrow> grant \<Rightarrow> access_db \<Rightarrow> (string \<times> string) list" where
  "token_mails raw g st = (case find_by sf_id (gt_staff g) (ad_officers st) of None \<Rightarrow> []
     | Some u \<Rightarrow> if sf_email u = [] then [] else [(sf_email u, raw)])"

definition approve_grant :: "access_env \<Rightarrow> caller \<Rightarrow> string \<Rightarrow> access_db \<Rightarrow> (access_error, string \<times> string \<times> time \<times> string, access_db) outcome" where
  "approve_grant env approver k st =
     (if ar_role approver \<noteq> SuperAdmin then (Inl SuperAdminOnly, st)
      else (case find_by gt_id k (ad_grants st) of None \<Rightarrow> (Inl RequestNotFound, st)
        | Some g \<Rightarrow>
          if gt_staff g = ar_id approver \<and> \<not> self_approval_allowed then (Inl FourEyes, st)
          else if gt_status g \<noteq> GrantPending then (Inl (NotPending (gt_status g)), st)
          else (let raw = upper (xe_raw env) in (Inr (k, raw, xe_now env + 60 * 60000, gt_staff g),
              st\<lparr>ad_grants := update_first gt_id k (approved_grant env (ar_id approver)) (ad_grants st),
                 ad_trail := ad_trail st @ [approve_call (ar_id approver) g], ad_mails := ad_mails st @ token_mails raw g st\<rparr>))))"

definition redeemed_grant :: "access_env \<Rightarrow> grant \<Rightarrow> grant" where
  "redeemed_grant env g = g\<lparr>gt_status := GrantRedeemed, gt_redeemed := Some (xe_now env), gt_session := Some (xe_now env + 8 * 3600000)\<rparr>"

definition redeem_call :: "access_env \<Rightarrow> string \<Rightarrow> grant \<Rightarrow> audit_options" where
  "redeem_call env who g = trail_call who ''GRANT_TOKEN_REDEEM'' (scope_entity (gt_provider g)) (scope_key (gt_provider g) (gt_case g))
     JUndefined (JObj [(''id'', JStr (gt_id g)), (''sessionExpiresAt'', JDate (xe_now env + 8 * 3600000))])"

text \<open>The password of the officer, as the user table has it.\<close>

definition password_ok :: "access_env \<Rightarrow> string \<Rightarrow> string \<Rightarrow> access_db \<Rightarrow> bool" where
  "password_ok env who pw st = (case find_by sf_id who (ad_officers st) of None \<Rightarrow> False
     | Some u \<Rightarrow> sf_active u \<and> xe_compare env pw (sf_password u))"

definition token_text :: "string option \<Rightarrow> string" where
  "token_text token = upper (trim (case token of None \<Rightarrow> [] | Some s \<Rightarrow> s))"

definition redeem_grant :: "access_env \<Rightarrow> caller \<Rightarrow> string option \<Rightarrow> string option \<Rightarrow> string option \<Rightarrow> string option \<Rightarrow> access_db \<Rightarrow>
    (access_error, time option, access_db) outcome" where
  "redeem_grant env actor pid cid token password st =
     (let tok = token_text token; pw = (case password of None \<Rightarrow> [] | Some s \<Rightarrow> s); now = xe_now env in
      if tok = [] \<or> pw = [] then (Inl CredentialsRequired, st)
      else if truthy pid = truthy cid then (Inl ExactlyOneScope, st)
      else if \<not> password_ok env (ar_id actor) pw st then (Inl PasswordWrong, st)
      else (case find (\<lambda>g. in_scope (ar_id actor) pid cid g \<and> (gt_status g = GrantApproved \<or> gt_status g = GrantRedeemed) \<and>
            gt_hash g = Some (xe_sha env tok) \<and> gt_revoked g = None) (ad_grants st) of
          None \<Rightarrow> (Inl NoMatchingToken, st)
        | Some g \<Rightarrow>
          if gt_status g = GrantApproved
          then if (case gt_redeem_by g of None \<Rightarrow> False | Some t \<Rightarrow> t < now) then (Inl TokenExpired, st)
            else (Inr (Some (now + 8 * 3600000)), st\<lparr>ad_grants := update_first gt_id (gt_id g) (redeemed_grant env) (ad_grants st),
              ad_trail := ad_trail st @ [redeem_call env (ar_id actor) g]\<rparr>)
          else if (case gt_session g of None \<Rightarrow> False | Some t \<Rightarrow> t < now) then (Inl SessionEnded, st)
          else (Inr (gt_session g), st)))"

definition assert_active_session :: "time \<Rightarrow> string \<Rightarrow> string option \<Rightarrow> string option \<Rightarrow> access_db \<Rightarrow> access_error + unit" where
  "assert_active_session now who pid cid st =
     (case find (\<lambda>g. in_scope who pid cid g \<and> gt_status g = GrantRedeemed \<and> gt_revoked g = None \<and>
         (case gt_session g of None \<Rightarrow> False | Some t \<Rightarrow> now < t)) (ad_grants st) of
       None \<Rightarrow> Inl SessionRequired | Some g \<Rightarrow> Inr ())"

definition revoked_grant :: "access_env \<Rightarrow> string \<Rightarrow> grant \<Rightarrow> grant" where
  "revoked_grant env who g = g\<lparr>gt_status := GrantRevoked, gt_revoked := Some (xe_now env), gt_revoker := Some who, gt_hash := None\<rparr>"

definition revoke_call :: "string \<Rightarrow> grant \<Rightarrow> audit_options" where
  "revoke_call who g = trail_call who ''GRANT_TOKEN_REVOKE'' (scope_entity (gt_provider g)) (scope_key (gt_provider g) (gt_case g))
     JUndefined (JObj [(''id'', JStr (gt_id g)), (''requester'', JStr (gt_staff g))])"

definition revoke_grant :: "access_env \<Rightarrow> caller \<Rightarrow> string \<Rightarrow> access_db \<Rightarrow> (access_error, grant, access_db) outcome" where
  "revoke_grant env actor k st =
     (if \<not> (ar_role actor = SuperAdmin \<or> ar_role actor = Admin) then (Inl NotPermitted, st)
      else (case find_by gt_id k (ad_grants st) of None \<Rightarrow> (Inl RequestNotFound, st)
        | Some g \<Rightarrow> if gt_revoked g \<noteq> None then (Inr g, st)
            else (let f = revoked_grant env (ar_id actor)
              in (Inr (f g), st\<lparr>ad_grants := update_first gt_id k f (ad_grants st), ad_trail := ad_trail st @ [revoke_call (ar_id actor) g]\<rparr>))))"

text \<open>The checks in front of the evidence bundle of a case (\<open>cases.controller.ts\<close>).\<close>

definition open_evidence :: "time \<Rightarrow> caller \<Rightarrow> string \<Rightarrow> access_db \<Rightarrow> access_error + unit" where
  "open_evidence now staff cid st = (case assert_case_access staff cid st of Inl e \<Rightarrow> Inl e
     | Inr _ \<Rightarrow> assert_active_session now (ar_id staff) None (Some cid) st)"

text \<open>The lists of the officers and administrators.\<close>

definition list_assignments :: "string option \<Rightarrow> string option \<Rightarrow> string option \<Rightarrow> bool \<Rightarrow> access_db \<Rightarrow> assignment list" where
  "list_assignments who pid cid revoked st = sort_key (\<lambda>a. - as_created a)
     (filter (\<lambda>a. (truthy who \<longrightarrow> as_staff a = the who) \<and> (truthy pid \<longrightarrow> as_provider a = pid) \<and> (truthy cid \<longrightarrow> as_case a = cid) \<and>
        (revoked \<or> as_revoked a = None)) (ad_assignments st))"

definition my_assignments :: "string \<Rightarrow> access_db \<Rightarrow> assignment list" where
  "my_assignments who st = sort_key (\<lambda>a. - as_created a) (filter (\<lambda>a. as_staff a = who \<and> as_revoked a = None) (ad_assignments st))"

definition pending_grants :: "access_db \<Rightarrow> grant list" where
  "pending_grants st = sort_key gt_requested (filter (\<lambda>g. gt_status g = GrantPending) (ad_grants st))"

definition my_grants :: "string \<Rightarrow> access_db \<Rightarrow> grant list" where
  "my_grants who st = sort_key (\<lambda>g. - gt_requested g)
     (filter (\<lambda>g. gt_staff g = who \<and> (gt_status g = GrantPending \<or> gt_status g = GrantApproved \<or> gt_status g = GrantRedeemed)) (ad_grants st))"

subsection \<open>Elevations\<close>

definition approver_role :: "staff_role \<Rightarrow> bool" where
  "approver_role r \<longleftrightarrow> r = Supervisor \<or> r = Admin \<or> r = SuperAdmin"

definition elevation_call :: "string \<Rightarrow> string \<Rightarrow> string \<Rightarrow> json \<Rightarrow> json \<Rightarrow> audit_options" where
  "elevation_call who action k before after = trail_call who action ''AccessElevation'' k before after"

definition request_elevation :: "access_env \<Rightarrow> string \<Rightarrow> string option \<Rightarrow> access_db \<Rightarrow> (access_error, elevation, access_db) outcome" where
  "request_elevation env who why st =
     (if \<not> truthy why \<or> length (trim (the why)) < 5 then (Inl JustificationRequired, st)
      else (case find (\<lambda>e. ev_staff e = who \<and> ev_scope e = ''PII'' \<and> ev_status e = ElevationPending) (ad_elevations st) of
          Some e \<Rightarrow> (Inr e, st)
        | None \<Rightarrow> if find_by ev_id (xe_id env) (ad_elevations st) \<noteq> None then (Inl IdTaken, st)
            else (let e = \<lparr>ev_id = xe_id env, ev_staff = who, ev_scope = ''PII'', ev_reason = trim (the why), ev_status = ElevationPending,
                  ev_requested = xe_now env, ev_decider = None, ev_decided = None, ev_expires = None\<rparr>;
                call = elevation_call who ''ELEVATION_REQUEST'' (xe_id env) JUndefined (JObj [(''reason'', JStr (trim (the why)))])
              in (Inr e, st\<lparr>ad_elevations := ad_elevations st @ [e], ad_trail := ad_trail st @ [call]\<rparr>))))"

definition approve_elevation :: "access_env \<Rightarrow> caller \<Rightarrow> string \<Rightarrow> access_db \<Rightarrow> (access_error, elevation, access_db) outcome" where
  "approve_elevation env approver k st =
     (if \<not> approver_role (ar_role approver) then (Inl NotPermitted, st)
      else (case find_by ev_id k (ad_elevations st) of None \<Rightarrow> (Inl ElevationNotFound, st)
        | Some e \<Rightarrow>
          if ev_status e \<noteq> ElevationPending then (Inl (ElevationDecided (ev_status e)), st)
          else (let self = (ev_staff e = ar_id approver) in
            if self \<and> ar_role approver \<noteq> SuperAdmin then (Inl OwnElevation, st)
            else (let until = xe_now env + 30 * 60000;
                f = (\<lambda>e. e\<lparr>ev_status := ElevationActive, ev_decider := Some (ar_id approver), ev_decided := Some (xe_now env), ev_expires := Some until\<rparr>);
                call = elevation_call (ar_id approver) ''ELEVATION_APPROVE'' k (JObj [(''staffId'', JStr (ev_staff e))])
                  (JObj [(''expiresAt'', JDate until), (''selfApproved'', JBool self)])
              in (Inr (f e), st\<lparr>ad_elevations := update_first ev_id k f (ad_elevations st), ad_trail := ad_trail st @ [call]\<rparr>)))))"

definition deny_elevation :: "access_env \<Rightarrow> caller \<Rightarrow> string \<Rightarrow> access_db \<Rightarrow> (access_error, elevation, access_db) outcome" where
  "deny_elevation env approver k st =
     (if \<not> approver_role (ar_role approver) then (Inl NotPermitted, st)
      else (case find_by ev_id k (ad_elevations st) of None \<Rightarrow> (Inl ElevationNotFound, st)
        | Some e \<Rightarrow>
          if ev_status e \<noteq> ElevationPending then (Inl (ElevationDecided (ev_status e)), st)
          else (let f = (\<lambda>e. e\<lparr>ev_status := ElevationDenied, ev_decider := Some (ar_id approver), ev_decided := Some (xe_now env)\<rparr>);
              call = elevation_call (ar_id approver) ''ELEVATION_DENY'' k JUndefined JUndefined
            in (Inr (f e), st\<lparr>ad_elevations := update_first ev_id k f (ad_elevations st), ad_trail := ad_trail st @ [call]\<rparr>))))"

definition end_elevation :: "access_env \<Rightarrow> string \<Rightarrow> string \<Rightarrow> access_db \<Rightarrow> (access_error, elevation, access_db) outcome" where
  "end_elevation env who k st =
     (case find_by ev_id k (ad_elevations st) of None \<Rightarrow> (Inl ElevationNotFound, st)
      | Some e \<Rightarrow>
        if ev_staff e \<noteq> who then (Inl OthersElevation, st)
        else if ev_status e \<noteq> ElevationActive then (Inl ElevationNotActive, st)
        else (let f = (\<lambda>e. e\<lparr>ev_status := ElevationExpired\<rparr>);
            call = elevation_call who ''ELEVATION_REVOKE'' k JUndefined JUndefined
          in (Inr (f e), st\<lparr>ad_elevations := update_first ev_id k f (ad_elevations st), ad_trail := ad_trail st @ [call]\<rparr>)))"

definition pending_elevations :: "string option \<Rightarrow> access_db \<Rightarrow> elevation list" where
  "pending_elevations approver st = sort_key ev_requested
     (filter (\<lambda>e. ev_status e = ElevationPending \<and> (truthy approver \<longrightarrow> ev_staff e \<noteq> the approver)) (ad_elevations st))"

definition my_elevation :: "time \<Rightarrow> string \<Rightarrow> access_db \<Rightarrow> elevation option \<times> bool" where
  "my_elevation now who st =
     (let mine = filter (\<lambda>e. ev_staff e = who \<and> ev_scope e = ''PII'' \<and> (ev_status e = ElevationPending \<or> ev_status e = ElevationActive)) (ad_elevations st)
      in case sort_key (\<lambda>e. - ev_requested e) mine of [] \<Rightarrow> (None, False)
        | e # _ \<Rightarrow> (Some e, ev_status e = ElevationActive \<and> (case ev_expires e of None \<Rightarrow> False | Some t \<Rightarrow> now < t)))"

subsection \<open>Clear personal data\<close>

text \<open>The context of a request: who is looking, and whether an access was logged already.\<close>

record viewer =
  vw_role :: "staff_role option"
  vw_staff :: "string option"
  vw_ip :: "string option"
  vw_agent :: "string option"
  vw_logged :: bool

definition has_active_elevation :: "time \<Rightarrow> string \<Rightarrow> access_db \<Rightarrow> bool" where
  "has_active_elevation now who st \<longleftrightarrow> list_ex (\<lambda>e. ev_staff e = who \<and> ev_scope e = ''PII'' \<and> ev_status e = ElevationActive \<and>
     (case ev_expires e of None \<Rightarrow> False | Some t \<Rightarrow> now < t)) (ad_elevations st)"

definition can_reveal :: "time \<Rightarrow> viewer \<Rightarrow> access_db \<Rightarrow> bool \<times> viewer \<times> access_db" where
  "can_reveal now v st = (case vw_role v of None \<Rightarrow> (False, v, st)
     | Some r \<Rightarrow> if \<not> truthy (vw_staff v) then (False, v, st)
         else if r = SuperAdmin then (True, v, st)
         else if r = Analyst \<or> r = ReadOnlyStaff then (False, v, st)
         else (let who = the (vw_staff v) in
           if \<not> has_active_elevation now who st then (False, v, st)
           else if vw_logged v then (True, v, st)
           else (True, v\<lparr>vw_logged := True\<rparr>, st\<lparr>ad_trail := ad_trail st @
             [\<lparr>ao_actor_type = ''STAFF'', ao_actor = Some who, ao_staff = Some who, ao_action = ''PII_ACCESS'', ao_entity = ''PII'',
               ao_entity_id = None, ao_before = JUndefined, ao_after = JObj [(''role'', JStr (role_text r)), (''via'', JStr ''JIT_ELEVATION'')],
               ao_ip = vw_ip v, ao_agent = None\<rparr>]\<rparr>)))"

datatype pii_field = BvnField | AccountField | NinField | PhoneField

text \<open>Texts are lists of UTF-16 units here; \<open>dot\<close> is the bullet, which the masks are made of.\<close>

definition mask_value :: "'c \<Rightarrow> 'c list option \<Rightarrow> pii_field \<Rightarrow> 'c list option" where
  "mask_value dot v f = (case v of None \<Rightarrow> None | Some s \<Rightarrow>
     if s = [] then Some s
     else (let keep = (if f = AccountField then 4 else 3) in
       if length s \<le> keep then Some (replicate (length s) dot)
       else Some (replicate (length s - keep) dot @ drop (length s - keep) s)))"

definition reveal_value :: "'c \<Rightarrow> 'c list option \<Rightarrow> pii_field \<Rightarrow> bool \<Rightarrow> 'c list option" where
  "reveal_value dot v f clear = (case v of None \<Rightarrow> None | Some s \<Rightarrow> if clear then Some s else mask_value dot (Some s) f)"

text \<open>
  The columns of the two entities. (A JavaScript object also has the members it inherits, such as
  \<open>constructor\<close>; an entity of such a name is left out here.)
\<close>

definition pii_column :: "string \<Rightarrow> string \<Rightarrow> string option" where
  "pii_column entity field =
     (if entity = ''Taxpayer'' then map_of [(''nin'', ''ninEnc''), (''bvn'', ''bvnEnc'')] field
      else if entity = ''DataRecord'' then map_of [(''account'', ''accountNumber''), (''bvn'', ''bvn''), (''nin'', ''nin''), (''phone'', ''phoneNumber'')] field
      else None)"

text \<open>\<open>row entity id\<close> is the row with its columns, and \<open>dec\<close> the decryption of a stored value.\<close>

definition reveal :: "(string \<Rightarrow> string \<Rightarrow> (string \<Rightarrow> string option) option) \<Rightarrow> (string option \<Rightarrow> string option) \<Rightarrow> time \<Rightarrow> viewer \<Rightarrow> caller \<Rightarrow>
    string \<Rightarrow> string option \<Rightarrow> string option \<Rightarrow> access_db \<Rightarrow> (access_error, string option, access_db) outcome" where
  "reveal row dec now v u entity k field st =
     (case pii_column entity (case field of None \<Rightarrow> [] | Some f \<Rightarrow> f) of None \<Rightarrow> (Inl UnknownField, st)
      | Some column \<Rightarrow>
        if \<not> truthy k then (Inl UnknownField, st)
        else (let (allowed, v', st1) = can_reveal now v st;
            call = (\<lambda>action. (trail_call (ar_id u) action entity (the k) JUndefined
              (JObj [(''field'', opt_text field)]))\<lparr>ao_ip := vw_ip v, ao_agent := vw_agent v\<rparr>)
          in if \<not> allowed then (Inl RevealRefused, st1\<lparr>ad_trail := ad_trail st1 @ [call ''PII_REVEAL_DENIED'']\<rparr>)
            else (case row entity (the k) of None \<Rightarrow> (Inl RecordNotFound, st1)
              | Some cols \<Rightarrow> (Inr (dec (cols column)), st1\<lparr>ad_trail := ad_trail st1 @ [call ''PII_REVEAL'']\<rparr>))))"

subsection \<open>The service\<close>

datatype access_op = Assign caller string "string option" "string option" "string option" | Unassign caller string
  | AskGrant caller "string option" "string option" "string option" | ApproveGrant caller string
  | RedeemGrant caller "string option" "string option" "string option" "string option" | RevokeGrant caller string
  | AskElevation string "string option" | ApproveElevation caller string | DenyElevation caller string | EndElevation string string

fun access_exec :: "access_env \<times> access_op \<Rightarrow> access_db \<Rightarrow> (access_error, unit, access_db) outcome" where
  "access_exec (env, Assign a who pid cid why) st = forget (assign_access env a who pid cid why st)"
| "access_exec (env, Unassign a k) st = forget (unassign_access env a k st)"
| "access_exec (env, AskGrant a pid cid why) st = forget (request_grant env a pid cid why st)"
| "access_exec (env, ApproveGrant a k) st = forget (approve_grant env a k st)"
| "access_exec (env, RedeemGrant a pid cid tok pw) st = forget (redeem_grant env a pid cid tok pw st)"
| "access_exec (env, RevokeGrant a k) st = forget (revoke_grant env a k st)"
| "access_exec (env, AskElevation who why) st = forget (request_elevation env who why st)"
| "access_exec (env, ApproveElevation a k) st = forget (approve_elevation env a k st)"
| "access_exec (env, DenyElevation a k) st = forget (deny_elevation env a k st)"
| "access_exec (env, EndElevation who k) st = forget (end_elevation env who k st)"

text \<open>What each operation can do to the grants: nothing, add a request, or update the one with a key.\<close>

lemma request_grant_cases:
  obtains (same) "snd (request_grant env a pid cid why st) = st"
  | (fresh) "snd (request_grant env a pid cid why st) = st\<lparr>ad_grants := ad_grants st @ [new_grant env (ar_id a) pid cid why],
        ad_trail := ad_trail st @ [request_call env (ar_id a) pid cid why]\<rparr>"
      "find_by gt_id (xe_id env) (ad_grants st) = None" "truthy pid \<noteq> truthy cid"
      "find (\<lambda>g. in_scope (ar_id a) pid cid g \<and> live_grant (xe_now env) g) (ad_grants st) = None"
proof (cases "reason_of why = [] \<or> truthy pid = truthy cid \<or>
    (\<exists>e. (if truthy pid then assert_provider_access a (the pid) st else assert_case_access a (the cid) st) = Inl e)")
  case True
  then show ?thesis by (intro same) (auto simp: request_grant_def)
next
  case False
  then obtain u where u: "(if truthy pid then assert_provider_access a (the pid) st else assert_case_access a (the cid) st) = Inr u"
    by (metis sum.exhaust)
  show ?thesis
  proof (cases "find (\<lambda>g. in_scope (ar_id a) pid cid g \<and> live_grant (xe_now env) g) (ad_grants st)")
    case None
    show ?thesis
    proof (cases "find_by gt_id (xe_id env) (ad_grants st) = None")
      case True
      then show ?thesis using False None u by (intro fresh) (simp_all add: request_grant_def)
    next
      case taken: False
      then show ?thesis using False None u by (intro same) (simp add: request_grant_def)
    qed
  next
    case (Some g)
    then show ?thesis using False u by (intro same) (simp add: request_grant_def)
  qed
qed

lemma approve_grant_cases:
  obtains (same) "snd (approve_grant env a k st) = st"
  | (approved) g where "find_by gt_id k (ad_grants st) = Some g" "gt_status g = GrantPending" "ar_role a = SuperAdmin"
      "snd (approve_grant env a k st) = st\<lparr>ad_grants := update_first gt_id k (approved_grant env (ar_id a)) (ad_grants st),
         ad_trail := ad_trail st @ [approve_call (ar_id a) g], ad_mails := ad_mails st @ token_mails (upper (xe_raw env)) g st\<rparr>"
proof (cases "ar_role a = SuperAdmin")
  case True
  show ?thesis
  proof (cases "find_by gt_id k (ad_grants st)")
    case None
    then show ?thesis by (intro same) (simp add: approve_grant_def)
  next
    case (Some g)
    show ?thesis
    proof (cases "gt_status g = GrantPending")
      case pending: True
      then show ?thesis using True Some by (intro approved) (simp_all add: approve_grant_def self_approval_allowed_def Let_def)
    next
      case False
      then show ?thesis using Some by (intro same) (simp add: approve_grant_def)
    qed
  qed
qed (intro same, simp add: approve_grant_def)

lemma redeem_grant_cases:
  obtains (same) "snd (redeem_grant env a pid cid tok pw st) = st"
  | (redeemed) g where "find (\<lambda>g. in_scope (ar_id a) pid cid g \<and> (gt_status g = GrantApproved \<or> gt_status g = GrantRedeemed) \<and>
        gt_hash g = Some (xe_sha env (token_text tok)) \<and> gt_revoked g = None) (ad_grants st) = Some g"
      "gt_status g = GrantApproved" "case gt_redeem_by g of None \<Rightarrow> True | Some t \<Rightarrow> xe_now env \<le> t"
      "pw \<noteq> None" "password_ok env (ar_id a) (the pw) st"
      "snd (redeem_grant env a pid cid tok pw st) = st\<lparr>ad_grants := update_first gt_id (gt_id g) (redeemed_grant env) (ad_grants st),
         ad_trail := ad_trail st @ [redeem_call env (ar_id a) g]\<rparr>"
proof (cases "token_text tok = [] \<or> \<not> truthy pw \<or> truthy pid = truthy cid \<or> \<not> password_ok env (ar_id a) (the pw) st")
  case True
  then show ?thesis by (intro same, cases pw) (auto simp: redeem_grant_def Let_def)
next
  case False
  then obtain p where p: "pw = Some p" "p \<noteq> []" by (cases pw) auto
  show ?thesis
  proof (cases "find (\<lambda>g. in_scope (ar_id a) pid cid g \<and> (gt_status g = GrantApproved \<or> gt_status g = GrantRedeemed) \<and>
        gt_hash g = Some (xe_sha env (token_text tok)) \<and> gt_revoked g = None) (ad_grants st)")
    case None
    then show ?thesis using p by (intro same) (simp add: redeem_grant_def Let_def)
  next
    case (Some g)
    note g = Some
    show ?thesis
    proof (cases "gt_status g = GrantApproved \<and> (case gt_redeem_by g of None \<Rightarrow> True | Some t \<Rightarrow> xe_now env \<le> t)")
      case True
      then show ?thesis using False p Some
        by (intro redeemed) (auto simp: redeem_grant_def Let_def not_less split: option.splits)
    next
      case not: False
      then show ?thesis using p Some
        by (intro same) (auto simp: redeem_grant_def Let_def not_less split: option.splits if_splits)
    qed
  qed
qed

lemma revoke_grant_cases:
  obtains (same) "snd (revoke_grant env a k st) = st"
  | (revoked) g where "find_by gt_id k (ad_grants st) = Some g" "gt_revoked g = None"
      "snd (revoke_grant env a k st) = st\<lparr>ad_grants := update_first gt_id k (revoked_grant env (ar_id a)) (ad_grants st),
         ad_trail := ad_trail st @ [revoke_call (ar_id a) g]\<rparr>"
proof (cases "find_by gt_id k (ad_grants st)")
  case None
  then show ?thesis by (intro same) (simp add: revoke_grant_def)
next
  case (Some g)
  show ?thesis
  proof (cases "gt_revoked g = None \<and> (ar_role a = SuperAdmin \<or> ar_role a = Admin)")
    case True
    then show ?thesis using Some by (intro revoked) (auto simp: revoke_grant_def Let_def)
  next
    case False
    then show ?thesis using Some by (intro same) (auto simp: revoke_grant_def)
  qed
qed

text \<open>The operations on assignments and elevations leave the grants alone, and no operation touches the officers.\<close>

lemma assignments_leave:
  "ad_grants (snd (assign_access env a who pid cid why st)) = ad_grants st"
  "ad_officers (snd (assign_access env a who pid cid why st)) = ad_officers st"
  "ad_elevations (snd (assign_access env a who pid cid why st)) = ad_elevations st"
  "ad_grants (snd (unassign_access env a k st)) = ad_grants st"
  "ad_officers (snd (unassign_access env a k st)) = ad_officers st"
  "ad_elevations (snd (unassign_access env a k st)) = ad_elevations st"
  by (simp_all add: assign_access_def unassign_access_def Let_def split: option.split)

lemma elevations_leave:
  "ad_grants (snd (request_elevation env who why st)) = ad_grants st" "ad_officers (snd (request_elevation env who why st)) = ad_officers st"
  "ad_grants (snd (approve_elevation env a k st)) = ad_grants st" "ad_officers (snd (approve_elevation env a k st)) = ad_officers st"
  "ad_grants (snd (deny_elevation env a k st)) = ad_grants st" "ad_officers (snd (deny_elevation env a k st)) = ad_officers st"
  "ad_grants (snd (end_elevation env who k st)) = ad_grants st" "ad_officers (snd (end_elevation env who k st)) = ad_officers st"
  by (simp_all add: request_elevation_def approve_elevation_def deny_elevation_def end_elevation_def Let_def split: option.split)

lemma request_grant_leaves:
  "ad_officers (snd (request_grant env a pid cid why st)) = ad_officers st" "ad_elevations (snd (request_grant env a pid cid why st)) = ad_elevations st"
  by (cases rule: request_grant_cases [of env a pid cid why st]; simp)+

lemma approve_grant_leaves:
  "ad_officers (snd (approve_grant env a k st)) = ad_officers st" "ad_elevations (snd (approve_grant env a k st)) = ad_elevations st"
  by (cases rule: approve_grant_cases [of env a k st]; simp)+

lemma redeem_grant_leaves:
  "ad_officers (snd (redeem_grant env a pid cid tok pw st)) = ad_officers st" "ad_elevations (snd (redeem_grant env a pid cid tok pw st)) = ad_elevations st"
  by (cases rule: redeem_grant_cases [of env a pid cid tok pw st]; simp)+

lemma revoke_grant_leaves:
  "ad_officers (snd (revoke_grant env a k st)) = ad_officers st" "ad_elevations (snd (revoke_grant env a k st)) = ad_elevations st"
  by (cases rule: revoke_grant_cases [of env a k st]; simp)+

lemmas leaves = assignments_leave elevations_leave request_grant_leaves approve_grant_leaves redeem_grant_leaves revoke_grant_leaves

lemma exec_officers [simp]: "ad_officers (snd (access_exec c st)) = ad_officers st"
  by (cases "(c, st)" rule: access_exec.cases) (simp_all add: leaves)

lemma run_officers [simp]: "ad_officers (run_ops access_exec ops st) = ad_officers st"
  by (induction ops arbitrary: st) simp_all

text \<open>How one operation changes the grants.\<close>

lemma exec_grants_cases:
  obtains (same) "ad_grants (snd (access_exec c st)) = ad_grants st"
  | (asked) env a pid cid why where "c = (env, AskGrant a pid cid why)"
      "ad_grants (snd (access_exec c st)) = ad_grants st @ [new_grant env (ar_id a) pid cid why]"
      "find_by gt_id (xe_id env) (ad_grants st) = None" "truthy pid \<noteq> truthy cid"
      "find (\<lambda>g. in_scope (ar_id a) pid cid g \<and> live_grant (xe_now env) g) (ad_grants st) = None"
  | (approved) env a k g where "c = (env, ApproveGrant a k)" "find_by gt_id k (ad_grants st) = Some g" "gt_status g = GrantPending"
      "ar_role a = SuperAdmin" "ad_grants (snd (access_exec c st)) = update_first gt_id k (approved_grant env (ar_id a)) (ad_grants st)"
      "ad_trail (snd (access_exec c st)) = ad_trail st @ [approve_call (ar_id a) g]"
  | (redeemed) env a pid cid tok pw g where "c = (env, RedeemGrant a pid cid tok pw)" "g \<in> set (ad_grants st)"
      "in_scope (ar_id a) pid cid g" "gt_status g = GrantApproved" "gt_hash g = Some (xe_sha env (token_text tok))" "gt_revoked g = None"
      "case gt_redeem_by g of None \<Rightarrow> True | Some t \<Rightarrow> xe_now env \<le> t" "pw \<noteq> None" "password_ok env (ar_id a) (the pw) st"
      "ad_grants (snd (access_exec c st)) = update_first gt_id (gt_id g) (redeemed_grant env) (ad_grants st)"
  | (revoked) env a k g where "c = (env, RevokeGrant a k)" "find_by gt_id k (ad_grants st) = Some g" "gt_revoked g = None"
      "ad_grants (snd (access_exec c st)) = update_first gt_id k (revoked_grant env (ar_id a)) (ad_grants st)"
proof (cases "(c, st)" rule: access_exec.cases)
  case (3 env a pid cid why st')
  then show ?thesis
    by (cases rule: request_grant_cases [of env a pid cid why st]) (auto intro: same asked)
next
  case (4 env a k st')
  then show ?thesis
    by (cases rule: approve_grant_cases [of env a k st]) (auto intro: same approved)
next
  case (5 env a pid cid tok pw st')
  then show ?thesis
  proof (cases rule: redeem_grant_cases [of env a pid cid tok pw st])
    case (redeemed g)
    then show ?thesis using 5 find_Some_pred [OF redeemed(1)]
      by (intro that(4) [of env a pid cid tok pw g]) auto
  qed (use 5 in \<open>auto intro: same\<close>)
next
  case (6 env a k st')
  then show ?thesis
    by (cases rule: revoke_grant_cases [of env a k st]) (auto intro: same revoked)
qed (auto intro!: same simp: leaves)

subsection \<open>The life of a grant\<close>

fun grant_next :: "grant_status \<Rightarrow> grant_status \<Rightarrow> bool" where
  "grant_next GrantPending t = (t = GrantApproved \<or> t = GrantRevoked)"
| "grant_next GrantApproved t = (t = GrantRedeemed \<or> t = GrantRevoked)"
| "grant_next GrantRedeemed t = (t = GrantRevoked)"
| "grant_next GrantExpired t = (t = GrantRevoked)"
| "grant_next GrantRevoked t = False"

fun grant_rank :: "grant_status \<Rightarrow> nat" where
  "grant_rank GrantPending = 0"
| "grant_rank GrantApproved = 1"
| "grant_rank GrantRedeemed = 2"
| "grant_rank GrantExpired = 3"
| "grant_rank GrantRevoked = 4"

definition grant_ids :: "access_db \<Rightarrow> bool" where
  "grant_ids st \<longleftrightarrow> distinct (map gt_id (ad_grants st))"

lemma grant_updates [simp]:
  "gt_id (approved_grant env who g) = gt_id g" "gt_id (redeemed_grant env g) = gt_id g" "gt_id (revoked_grant env who g) = gt_id g"
  "gt_id (new_grant env who pid cid why) = xe_id env"
  "in_scope w p c (approved_grant env who g) = in_scope w p c g" "in_scope w p c (redeemed_grant env g) = in_scope w p c g"
  "in_scope w p c (revoked_grant env who g) = in_scope w p c g" "in_scope w p c (new_grant env who pid cid why) \<longleftrightarrow> who = w \<and> pid = p \<and> cid = c"
  by (auto simp: approved_grant_def redeemed_grant_def revoked_grant_def new_grant_def in_scope_def)

lemma grant_statuses [simp]:
  "gt_status (approved_grant env who g) = GrantApproved" "gt_status (redeemed_grant env g) = GrantRedeemed"
  "gt_status (revoked_grant env who g) = GrantRevoked" "gt_status (new_grant env who pid cid why) = GrantPending"
  by (simp_all add: approved_grant_def redeemed_grant_def revoked_grant_def new_grant_def)

lemma exec_grant_ids: "grant_ids st \<Longrightarrow> grant_ids (snd (access_exec c st))"
  by (cases rule: exec_grants_cases [of c st]) (auto simp: grant_ids_def map_update_first find_by_None)

text \<open>The status of a grant, when the primary keys are unique.\<close>

definition status_of_grant :: "access_db \<Rightarrow> string \<Rightarrow> grant_status option" where
  "status_of_grant st k = (if grant_ids st then map_option gt_status (find_by gt_id k (ad_grants st)) else None)"

lemma grant_next_rank: "grant_next s t \<Longrightarrow> grant_rank s < grant_rank t"
  by (cases s) auto

lemma revoke_next: "grant_next\<^sup>*\<^sup>* s GrantRevoked"
  by (cases s) (auto intro: r_into_rtranclp)

lemma exec_grant_status:
  assumes "status_of_grant st k = Some s"
  shows "\<exists>t. status_of_grant (snd (access_exec c st)) k = Some t \<and> grant_next\<^sup>*\<^sup>* s t"
proof -
  have ids: "grant_ids st" and k: "map_option gt_status (find_by gt_id k (ad_grants st)) = Some s"
    using assms by (auto simp: status_of_grant_def split: if_splits)
  have status: "status_of_grant (snd (access_exec c st)) k = map_option gt_status (find_by gt_id k (ad_grants (snd (access_exec c st))))"
    using exec_grant_ids [OF ids] by (simp add: status_of_grant_def)
  show ?thesis
  proof (cases rule: exec_grants_cases [of c st])
    case (approved env a j g)
    then show ?thesis using k status by (cases "j = k") (auto simp: find_update_first)
  next
    case (redeemed env a pid cid tok pw g)
    have "find_by gt_id (gt_id g) (ad_grants st) = Some g" using redeemed(2) ids by (simp add: grant_ids_def find_distinct)
    then show ?thesis using redeemed k status by (cases "gt_id g = k") (auto simp: find_update_first)
  next
    case (revoked env a j g)
    then show ?thesis using k status revoke_next by (cases "j = k") (auto simp: find_update_first)
  qed (use k status in \<open>auto simp: find_by_append\<close>)
qed

interpretation grant_life: tracked_service grant_next grant_rank access_exec status_of_grant
  by unfold_locales (auto intro: grant_next_rank exec_grant_status)

subsection \<open>What stands behind an open session\<close>

text \<open>
  \<open>approved_in ops g\<close>: among the operations is the approval of \<open>g\<close> by a Super Admin, the one the grant names,
  which fixed its token and gave it an hour. \<open>redeemed_in officers ops g\<close>: among them is the redemption by the
  officer who asked, with the right password and the token, within that hour, which gave it eight hours.
\<close>

definition approval_of :: "grant \<Rightarrow> access_env \<times> access_op \<Rightarrow> bool" where
  "approval_of g c = (case c of (env, ApproveGrant a k) \<Rightarrow> k = gt_id g \<and> ar_role a = SuperAdmin \<and> gt_approver g = Some (ar_id a) \<and>
       gt_hash g = Some (xe_sha env (upper (xe_raw env))) \<and> gt_approved g = Some (xe_now env) \<and> gt_redeem_by g = Some (xe_now env + 3600000)
     | _ \<Rightarrow> False)"

definition redemption_of :: "officer list \<Rightarrow> grant \<Rightarrow> access_env \<times> access_op \<Rightarrow> bool" where
  "redemption_of officers g c = (case c of (env, RedeemGrant a pid cid tok (Some pw)) \<Rightarrow>
       in_scope (ar_id a) pid cid g \<and> gt_hash g = Some (xe_sha env (token_text tok)) \<and>
       (case find_by sf_id (ar_id a) officers of None \<Rightarrow> False | Some u \<Rightarrow> sf_active u \<and> xe_compare env pw (sf_password u)) \<and>
       (case gt_redeem_by g of None \<Rightarrow> False | Some t \<Rightarrow> xe_now env \<le> t) \<and>
       gt_redeemed g = Some (xe_now env) \<and> gt_session g = Some (xe_now env + 28800000)
     | _ \<Rightarrow> False)"

definition backed :: "officer list \<Rightarrow> (access_env \<times> access_op) list \<Rightarrow> grant \<Rightarrow> bool" where
  "backed officers ops g \<longleftrightarrow>
     (if gt_status g = GrantApproved then list_ex (approval_of g) ops
      else if gt_status g = GrantRedeemed then list_ex (approval_of g) ops \<and> list_ex (redemption_of officers g) ops
      else gt_status g = GrantPending \<or> gt_status g = GrantRevoked)"

lemma backed_more: "backed officers ops g \<Longrightarrow> backed officers (ops @ cs) g"
  by (auto simp: backed_def list_ex_iff)

lemma approval_redeemed: "approval_of (redeemed_grant env g) = approval_of g"
  by (auto simp: approval_of_def redeemed_grant_def fun_eq_iff split: access_op.split)

lemma backed_approved: "ar_role a = SuperAdmin \<Longrightarrow> backed officers (ops @ [(env, ApproveGrant a (gt_id g))]) (approved_grant env (ar_id a) g)"
  by (simp add: backed_def approval_of_def approved_grant_def)

lemma backed_redeemed:
  assumes "backed (ad_officers st) ops g" "gt_status g = GrantApproved" "in_scope (ar_id a) pid cid g" "gt_hash g = Some (xe_sha env (token_text tok))"
    and "case gt_redeem_by g of None \<Rightarrow> True | Some t \<Rightarrow> xe_now env \<le> t" "pw \<noteq> None" "password_ok env (ar_id a) (the pw) st"
  shows "backed (ad_officers st) (ops @ [(env, RedeemGrant a pid cid tok pw)]) (redeemed_grant env g)"
proof -
  obtain p where p: "pw = Some p" using assms(6) by auto
  have a: "list_ex (approval_of g) ops" using assms(1,2) by (simp add: backed_def)
  then obtain c where "approval_of g c" by (auto simp: list_ex_iff)
  then obtain t where "gt_redeem_by g = Some t" by (auto simp: approval_of_def split: prod.splits access_op.splits)
  then have "redemption_of (ad_officers st) (redeemed_grant env g) (env, RedeemGrant a pid cid tok pw)"
    using assms(3-5,7) by (simp add: redemption_of_def p redeemed_grant_def in_scope_def password_ok_def)
  then show ?thesis using a by (simp add: backed_def approval_redeemed)
qed

lemma update_first_member:
  "x \<in> set (update_first key k f rows) \<Longrightarrow> x \<in> set rows \<or> (\<exists>r\<in>set rows. find_by key k rows = Some r \<and> x = f r)"
  by (induction rows) (auto split: if_splits)

lemma exec_backed:
  assumes "grant_ids st" "\<forall>g\<in>set (ad_grants st). backed (ad_officers st) ops g" "g \<in> set (ad_grants (snd (access_exec c st)))"
  shows "backed (ad_officers st) (ops @ [c]) g"
proof (cases "g \<in> set (ad_grants st)")
  case True
  then show ?thesis using assms(2) backed_more by blast
next
  case False
  show ?thesis
  proof (cases rule: exec_grants_cases [of c st])
    case (approved env a k g0)
    have "g \<in> set (update_first gt_id k (approved_grant env (ar_id a)) (ad_grants st))" using assms(3) approved(5) by simp
    then have "g = approved_grant env (ar_id a) g0" using False approved(2) by (auto dest!: update_first_member)
    moreover have "k = gt_id g0" using find_by_Some [OF approved(2)] by simp
    ultimately show ?thesis using backed_approved approved(1,4) by simp
  next
    case (redeemed env a pid cid tok pw g0)
    have "find_by gt_id (gt_id g0) (ad_grants st) = Some g0" using redeemed(2) assms(1) by (simp add: grant_ids_def find_distinct)
    moreover have "g \<in> set (update_first gt_id (gt_id g0) (redeemed_grant env) (ad_grants st))" using assms(3) redeemed(10) by simp
    ultimately have "g = redeemed_grant env g0" using False by (auto dest!: update_first_member)
    then show ?thesis using backed_redeemed [of st ops g0 a pid cid env tok pw] redeemed assms(2) by simp
  qed (use assms(3) False in \<open>auto simp: backed_def dest!: update_first_member\<close>)
qed

lemma run_backed:
  assumes "ad_grants st = []"
  shows "grant_ids (run_ops access_exec ops st) \<and> (\<forall>g\<in>set (ad_grants (run_ops access_exec ops st)). backed (ad_officers st) ops g)"
proof (induction ops rule: rev_induct)
  case Nil
  then show ?case using assms by (simp add: grant_ids_def)
next
  case (snoc c ops)
  then show ?case using exec_backed [of "run_ops access_exec ops st" ops _ c] exec_grant_ids by simp
qed

subsection \<open>A token that lapsed\<close>

definition dead_grant :: "time \<Rightarrow> grant \<Rightarrow> bool" where
  "dead_grant t h \<longleftrightarrow> gt_status h = GrantRevoked \<or> gt_status h = GrantExpired \<or>
     (gt_status h = GrantRedeemed \<and> (case gt_session h of None \<Rightarrow> False | Some u \<Rightarrow> u \<le> t))"

text \<open>\<open>g\<close> is approved, its hour ended at \<open>t\<close>, and every other grant of the officer for the scope is dead.\<close>

definition locked :: "time \<Rightarrow> string \<Rightarrow> string option \<Rightarrow> string option \<Rightarrow> grant \<Rightarrow> access_db \<Rightarrow> bool" where
  "locked t who pid cid g st \<longleftrightarrow> grant_ids st \<and> find_by gt_id (gt_id g) (ad_grants st) = Some g \<and> in_scope who pid cid g \<and>
     gt_status g = GrantApproved \<and> gt_redeem_by g = Some t \<and> gt_session g = None \<and>
     list_all (\<lambda>h. \<not> in_scope who pid cid h \<or> h = g \<or> dead_grant t h) (ad_grants st)"

definition leaves_grant :: "time \<Rightarrow> string \<Rightarrow> access_env \<times> access_op \<Rightarrow> bool" where
  "leaves_grant t k c \<longleftrightarrow> t < xe_now (fst c) \<and> (case snd c of RevokeGrant a j \<Rightarrow> j \<noteq> k | _ \<Rightarrow> True)"

lemma revoked_dead: "dead_grant t (revoked_grant env who h)"
  by (simp add: dead_grant_def)

lemma exec_locked:
  assumes "locked t who pid cid g st" "leaves_grant t (gt_id g) c"
  shows "locked t who pid cid g (snd (access_exec c st))"
proof -
  let ?rows = "ad_grants st" and ?ok = "\<lambda>h. \<not> in_scope who pid cid h \<or> h = g \<or> dead_grant t h"
  have g: "grant_ids st" "find_by gt_id (gt_id g) ?rows = Some g" "in_scope who pid cid g" "gt_status g = GrantApproved"
    "gt_redeem_by g = Some t" "gt_session g = None" "list_all ?ok ?rows"
    using assms(1) by (simp_all add: locked_def)
  have ok: "?ok h" if "h \<in> set ?rows" for h using g(7) that by (simp add: list_all_iff)
  have upd: "find_by gt_id (gt_id g) (update_first gt_id k f ?rows) = Some g \<and> list_all ?ok (update_first gt_id k f ?rows)"
    if "find_by gt_id k ?rows = Some h" "k \<noteq> gt_id g" "?ok (f h)" "\<And>x. gt_id (f x) = gt_id x" for k f h
    using update_first_all [where f = f, OF that(1) g(7)] g(2) that(2,3,4) by (simp add: find_update_first)
  have "find_by gt_id (gt_id g) (ad_grants (snd (access_exec c st))) = Some g \<and> list_all ?ok (ad_grants (snd (access_exec c st)))"
  proof (cases rule: exec_grants_cases [of c st])
    case same
    then show ?thesis using g by simp
  next
    case (asked env a p q why)
    have "g \<in> set ?rows" using find_by_Some [OF g(2)] by simp
    moreover have "live_grant (xe_now env) g" using g by (simp add: live_grant_def)
    ultimately have "\<not> in_scope (ar_id a) p q g" using asked(5) by (auto simp: find_None_iff)
    then have "?ok (new_grant env (ar_id a) p q why)" using g(3) by (auto simp: in_scope_def new_grant_def)
    then have "list_all ?ok (?rows @ [new_grant env (ar_id a) p q why])"
      using g(7) by (simp only: list_all_append list.pred_inject simp_thms)
    then show ?thesis using g(2) by (simp only: asked(2) find_by_append option.case simp_thms)
  next
    case (approved env a k h)
    have h: "h \<in> set ?rows" "gt_id h = k" using find_by_Some [OF approved(2)] by simp_all
    have k: "k \<noteq> gt_id g" using approved(2,3) g(2,4) by auto
    then have "\<not> in_scope who pid cid h" using h ok [OF h(1)] approved(3) by (auto simp: dead_grant_def)
    then show ?thesis using upd [OF approved(2) k] by (simp add: approved(5))
  next
    case (redeemed env a p q tok pw h)
    have "t < xe_now env" using assms(2) redeemed(1) by (simp add: leaves_grant_def)
    then have "h \<noteq> g" using redeemed(7) g(5) by auto
    then have h: "\<not> in_scope who pid cid h" using redeemed(4) ok [OF redeemed(2)] by (auto simp: dead_grant_def)
    have f: "find_by gt_id (gt_id h) ?rows = Some h" using redeemed(2) g(1) by (simp add: grant_ids_def find_distinct)
    then have "gt_id h \<noteq> gt_id g" using \<open>h \<noteq> g\<close> g(2) by (metis option.inject)
    from upd [OF f this] show ?thesis using h by (simp add: redeemed(10))
  next
    case (revoked env a k h)
    then have "k \<noteq> gt_id g" using assms(2) by (simp add: leaves_grant_def)
    from upd [OF revoked(2) this] show ?thesis by (simp add: revoked(4) revoked_dead)
  qed
  then show ?thesis using g exec_grant_ids [OF g(1)] by (simp add: locked_def)
qed

lemma run_locked: "locked t who pid cid g st \<Longrightarrow> list_all (leaves_grant t (gt_id g)) ops \<Longrightarrow> locked t who pid cid g (run_ops access_exec ops st)"
  by (induction ops arbitrary: st) (auto intro: exec_locked)

lemma locked_no_session: "locked t who pid cid g st \<Longrightarrow> t \<le> now \<Longrightarrow> assert_active_session now who pid cid st = Inl SessionRequired"
  by (fastforce simp: assert_active_session_def locked_def list_all_iff find_None_iff dead_grant_def split: option.splits dest!: find_Some_pred)

subsection \<open>The trail\<close>

lemma opt_text_plain [simp]: "opt_text x \<noteq> JUndefined" "plain (opt_text x)"
  by (cases x; simp add: opt_text_def)+

lemma calls_plain [simp]:
  "plain_op (request_call env who pid cid why)" "plain_op (approve_call who g)" "plain_op (redeem_call env who g)" "plain_op (revoke_call who g)"
  by (simp_all add: plain_op_def trail_call_def request_call_def approve_call_def redeem_call_def revoke_call_def)

definition trail_grows :: "access_db \<Rightarrow> access_db \<Rightarrow> bool" where
  "trail_grows st st' \<longleftrightarrow> (\<exists>calls. ad_trail st' = ad_trail st @ calls \<and> list_all plain_op calls)"

lemma trail_grows_same: "ad_trail st' = ad_trail st \<Longrightarrow> trail_grows st st'"
  by (simp add: trail_grows_def)

lemma trail_grows_one: "ad_trail st' = ad_trail st @ [c] \<Longrightarrow> plain_op c \<Longrightarrow> trail_grows st st'"
  by (simp add: trail_grows_def)

lemma request_grant_trail: "trail_grows st (snd (request_grant env a pid cid why st))"
  by (cases rule: request_grant_cases [of env a pid cid why st]; simp add: trail_grows_def)

lemma approve_grant_trail: "trail_grows st (snd (approve_grant env a k st))"
  by (cases rule: approve_grant_cases [of env a k st]; simp add: trail_grows_def)

lemma redeem_grant_trail: "trail_grows st (snd (redeem_grant env a pid cid tok pw st))"
  by (cases rule: redeem_grant_cases [of env a pid cid tok pw st]; simp add: trail_grows_def)

lemma revoke_grant_trail: "trail_grows st (snd (revoke_grant env a k st))"
  by (cases rule: revoke_grant_cases [of env a k st]; simp add: trail_grows_def)

lemma others_trail:
  "trail_grows st (snd (assign_access env a who pid cid why st))" "trail_grows st (snd (unassign_access env a k st))"
  "trail_grows st (snd (request_elevation env who why st))" "trail_grows st (snd (approve_elevation env a k st))"
  "trail_grows st (snd (deny_elevation env a k st))" "trail_grows st (snd (end_elevation env who k st))"
  by (simp_all add: trail_grows_def assign_access_def unassign_access_def request_elevation_def approve_elevation_def deny_elevation_def
      end_elevation_def elevation_call_def trail_call_def plain_op_def Let_def split: option.split)

lemma exec_trail: "trail_grows st (snd (access_exec c st))"
  by (cases "(c, st)" rule: access_exec.cases) (simp_all add: request_grant_trail approve_grant_trail redeem_grant_trail revoke_grant_trail others_trail)

lemma run_trail: "trail_grows st (run_ops access_exec ops st)"
proof (induction ops arbitrary: st)
  case (Cons c ops)
  show ?case using exec_trail [of st c] Cons [of "snd (access_exec c st)"] by (auto simp: trail_grows_def)
qed (simp add: trail_grows_def)

definition on_record :: "access_db \<Rightarrow> grant \<Rightarrow> bool" where
  "on_record st g \<longleftrightarrow> (case gt_approver g of None \<Rightarrow> True | Some w \<Rightarrow> approve_call w g \<in> set (ad_trail st))"

lemma approve_call_updates [simp]:
  "approve_call w (redeemed_grant env g) = approve_call w g" "approve_call w (revoked_grant env who g) = approve_call w g"
  "approve_call w (approved_grant env who g) = approve_call w g"
  "gt_approver (redeemed_grant env g) = gt_approver g" "gt_approver (revoked_grant env who g) = gt_approver g"
  "gt_approver (approved_grant env who g) = Some who" "gt_approver (new_grant env who pid cid why) = None"
  by (simp_all add: approve_call_def redeemed_grant_def revoked_grant_def approved_grant_def new_grant_def)

lemma exec_on_record:
  assumes "\<forall>g\<in>set (ad_grants st). on_record st g" "g \<in> set (ad_grants (snd (access_exec c st)))"
  shows "on_record (snd (access_exec c st)) g"
proof -
  have trail: "set (ad_trail st) \<subseteq> set (ad_trail (snd (access_exec c st)))" using exec_trail [of st c] by (auto simp: trail_grows_def)
  have old: "on_record (snd (access_exec c st)) h" if "on_record st h" for h
    using that trail by (auto simp: on_record_def split: option.splits)
  show ?thesis
  proof (cases "g \<in> set (ad_grants st)")
    case True
    then show ?thesis using assms(1) old by blast
  next
    case False
    show ?thesis
    proof (cases rule: exec_grants_cases [of c st])
      case (approved env a k h)
      then have "g = approved_grant env (ar_id a) h" using assms(2) False by (auto dest!: update_first_member)
      then show ?thesis using approved(6) by (simp add: on_record_def)
    next
      case (redeemed env a pid cid tok pw h)
      obtain h' where "h' \<in> set (ad_grants st)" "g = redeemed_grant env h'"
        using assms(2) False redeemed(10) by (auto dest!: update_first_member)
      then show ?thesis using assms(1) old by (fastforce simp: on_record_def split: option.splits)
    next
      case (revoked env a k h)
      obtain h' where "h' \<in> set (ad_grants st)" "g = revoked_grant env (ar_id a) h'"
        using assms(2) False revoked(4) by (auto dest!: update_first_member)
      then show ?thesis using assms(1) old by (fastforce simp: on_record_def split: option.splits)
    qed (use assms(2) False in \<open>auto simp: on_record_def\<close>)
  qed
qed

lemma run_on_record: "\<forall>g\<in>set (ad_grants st). on_record st g \<Longrightarrow> \<forall>g\<in>set (ad_grants (run_ops access_exec ops st)). on_record (run_ops access_exec ops st) g"
proof (induction ops arbitrary: st)
  case (Cons c ops)
  show ?case using Cons.IH [of "snd (access_exec c st)"] exec_on_record [OF Cons.prems] by simp
qed simp

subsection \<open>What stands behind an elevation\<close>

definition elevated_by :: "elevation \<Rightarrow> access_env \<times> access_op \<Rightarrow> bool" where
  "elevated_by e c = (case c of (env, ApproveElevation a k) \<Rightarrow> k = ev_id e \<and> approver_role (ar_role a) \<and>
       (if ev_staff e = ar_id a then ar_role a = SuperAdmin else True) \<and> ev_decider e = Some (ar_id a) \<and>
       ev_expires e = Some (xe_now env + 1800000)
     | _ \<Rightarrow> False)"

definition elevation_backed :: "(access_env \<times> access_op) list \<Rightarrow> elevation \<Rightarrow> bool" where
  "elevation_backed ops e \<longleftrightarrow> (if ev_status e = ElevationActive then list_ex (elevated_by e) ops else True)"

lemma elevation_backed_more: "elevation_backed ops e \<Longrightarrow> elevation_backed (ops @ cs) e"
  by (auto simp: elevation_backed_def split: if_splits)

lemma approve_elevation_backed:
  assumes "e \<in> set (ad_elevations (snd (approve_elevation env a k st)))" "e \<notin> set (ad_elevations st)"
  shows "elevation_backed [(env, ApproveElevation a k)] e"
proof (cases "find_by ev_id k (ad_elevations st)")
  case None
  then show ?thesis using assms by (simp add: approve_elevation_def split: if_splits)
next
  case (Some e0)
  have k: "ev_id e0 = k" using find_by_Some [OF Some] by simp
  have ok: "approver_role (ar_role a)" "ev_staff e0 = ar_id a \<Longrightarrow> ar_role a = SuperAdmin" "ev_status e0 = ElevationPending"
    using assms Some by (auto simp: approve_elevation_def Let_def split: if_splits)
  have "ad_elevations (snd (approve_elevation env a k st)) = update_first ev_id k
      (\<lambda>e. e\<lparr>ev_status := ElevationActive, ev_decider := Some (ar_id a), ev_decided := Some (xe_now env), ev_expires := Some (xe_now env + 1800000)\<rparr>)
      (ad_elevations st)"
    using ok Some by (auto simp: approve_elevation_def Let_def)
  then have "e = e0\<lparr>ev_status := ElevationActive, ev_decider := Some (ar_id a), ev_decided := Some (xe_now env), ev_expires := Some (xe_now env + 1800000)\<rparr>"
    using assms Some by (auto dest!: update_first_member)
  then show ?thesis using ok k by (simp add: elevation_backed_def elevated_by_def)
qed

lemma idle_elevations:
  "e \<in> set (ad_elevations (snd (request_elevation env who why st))) \<Longrightarrow> e \<in> set (ad_elevations st) \<or> ev_status e \<noteq> ElevationActive"
  "e \<in> set (ad_elevations (snd (deny_elevation env a k st))) \<Longrightarrow> e \<in> set (ad_elevations st) \<or> ev_status e \<noteq> ElevationActive"
  "e \<in> set (ad_elevations (snd (end_elevation env who k st))) \<Longrightarrow> e \<in> set (ad_elevations st) \<or> ev_status e \<noteq> ElevationActive"
  by (auto simp: request_elevation_def deny_elevation_def end_elevation_def Let_def split: if_splits option.splits dest!: update_first_member)

lemma exec_elevation_backed:
  assumes "\<forall>e\<in>set (ad_elevations st). elevation_backed ops e" "e \<in> set (ad_elevations (snd (access_exec c st)))"
  shows "elevation_backed (ops @ [c]) e"
proof (cases "e \<in> set (ad_elevations st) \<or> ev_status e \<noteq> ElevationActive")
  case True
  then show ?thesis using assms(1) elevation_backed_more by (auto simp: elevation_backed_def)
next
  case False
  show ?thesis
  proof (cases "(c, st)" rule: access_exec.cases)
    case (8 env a k st')
    then have "elevation_backed [c] e" using approve_elevation_backed [of e env a k st] assms(2) False by simp
    then show ?thesis by (auto simp: elevation_backed_def split: if_splits)
  qed (use assms(2) False idle_elevations in \<open>auto simp: leaves\<close>)
qed

lemma run_elevation_backed:
  "ad_elevations st = [] \<Longrightarrow> \<forall>e\<in>set (ad_elevations (run_ops access_exec ops st)). elevation_backed ops e"
proof (induction ops rule: rev_induct)
  case (snoc c ops)
  then show ?case using exec_elevation_backed [of "run_ops access_exec ops st" ops _ c] by simp
qed simp

lemma reveal_allowed:
  assumes "reveal row dec now v u entity k field st = (Inr x, st')"
  shows "fst (can_reveal now v st) \<and> (\<exists>cs. ad_trail st' = ad_trail st @ cs @
    [(trail_call (ar_id u) ''PII_REVEAL'' entity (the k) JUndefined (JObj [(''field'', opt_text field)]))\<lparr>ao_ip := vw_ip v, ao_agent := vw_agent v\<rparr>])"
proof -
  obtain allowed v' st1 where c: "can_reveal now v st = (allowed, v', st1)" by (cases "can_reveal now v st")
  have "allowed" and s: "st' = st1\<lparr>ad_trail := ad_trail st1 @
      [(trail_call (ar_id u) ''PII_REVEAL'' entity (the k) JUndefined (JObj [(''field'', opt_text field)]))\<lparr>ao_ip := vw_ip v, ao_agent := vw_agent v\<rparr>]\<rparr>"
    using assms c by (auto simp: reveal_def Let_def split: option.splits if_splits)
  moreover have "\<exists>cs. ad_trail st1 = ad_trail st @ cs" using c by (auto simp: can_reveal_def Let_def split: option.splits if_splits)
  ultimately show ?thesis using c by auto
qed

lemma can_reveal_elevated:
  "fst (can_reveal now v st) \<Longrightarrow> vw_role v = Some r \<Longrightarrow> r \<noteq> SuperAdmin \<Longrightarrow> has_active_elevation now (the (vw_staff v)) st \<and> r \<noteq> Analyst \<and> r \<noteq> ReadOnlyStaff"
  by (auto simp: can_reveal_def Let_def split: if_splits)

subsection \<open>The properties\<close>

text \<open>
  C5. Raw records need an assignment and an approved session. Start without grants, let any calls of the
  access services follow, failing ones included. If the evidence of a case then opens for somebody, that
  person has the role of an Admin or Super Admin and an assignment to the case that is not revoked, and a
  grant of that person for that case stands behind it: among the calls are its approval by a Super Admin and
  its redemption by the person, with the right password and the approved token, within an hour of the
  approval and less than eight hours ago.
\<close>

theorem evidence_is_backed:
  assumes "ad_grants st = []" "open_evidence now staff cid (run_ops access_exec ops st) = Inr ()"
  shows "raw_role (ar_role staff) \<and> has_case_access (ar_id staff) cid (run_ops access_exec ops st) \<and>
    list_ex (\<lambda>g. in_scope (ar_id staff) None (Some cid) g \<and> gt_revoked g = None \<and> list_ex (approval_of g) ops \<and>
      list_ex (redemption_of (ad_officers st) g) ops \<and> (case gt_session g of None \<Rightarrow> False | Some t \<Rightarrow> now < t))
      (ad_grants (run_ops access_exec ops st))"
proof -
  let ?st = "run_ops access_exec ops st"
  have a: "assert_case_access staff cid ?st = Inr ()" and b: "assert_active_session now (ar_id staff) None (Some cid) ?st = Inr ()"
    using assms(2) by (auto simp: open_evidence_def split: sum.splits)
  obtain g where g: "g \<in> set (ad_grants ?st)" "in_scope (ar_id staff) None (Some cid) g" "gt_status g = GrantRedeemed" "gt_revoked g = None"
      "case gt_session g of None \<Rightarrow> False | Some t \<Rightarrow> now < t"
    using b by (auto simp: assert_active_session_def split: option.splits dest!: find_Some_pred)
  moreover have "backed (ad_officers st) ops g" using run_backed [OF assms(1)] g(1) by blast
  ultimately show ?thesis using a by (auto simp: backed_def list_ex_iff assert_case_access_def split: if_splits)
qed

definition env_at :: "time \<Rightarrow> string \<Rightarrow> access_env" where
  "env_at t i = \<lparr>xe_now = t, xe_id = i, xe_raw = ''ab'', xe_sha = (\<lambda>s. s), xe_compare = (=)\<rparr>"

definition officer_u :: caller where
  "officer_u = \<lparr>ar_id = ''u'', ar_role = Admin\<rparr>"

definition boss :: caller where
  "boss = \<lparr>ar_id = ''b'', ar_role = SuperAdmin\<rparr>"

definition office :: access_db where
  "office = \<lparr>ad_officers = [\<lparr>sf_id = ''u'', sf_role = Admin, sf_active = True, sf_password = ''pw'', sf_email = ''u@x''\<rparr>],
     ad_providers = [], ad_cases = [''c''], ad_assignments = [], ad_grants = [], ad_elevations = [], ad_trail = [], ad_mails = []\<rparr>"

definition unlock_ops :: "(access_env \<times> access_op) list" where
  "unlock_ops = [(env_at 0 ''a'', Assign boss ''u'' None (Some ''c'') (Some ''audit'')), (env_at 1 ''g'', AskGrant officer_u None (Some ''c'') (Some ''audit'')),
     (env_at 2 [], ApproveGrant boss ''g''), (env_at 3 [], RedeemGrant officer_u None (Some ''c'') (Some ''ab'') (Some ''pw''))]"

lemma unlocked: "open_evidence 4 officer_u ''c'' (run_ops access_exec unlock_ops office) = Inr ()"
  by code_simp

lemma evidence_is_backed_witness:
  "list_ex (\<lambda>g. list_ex (redemption_of (ad_officers office) g) unlock_ops) (ad_grants (run_ops access_exec unlock_ops office))"
  using evidence_is_backed [OF _ unlocked] by (auto simp: office_def list_ex_iff)

text \<open>
  A token that lapsed locks its officer out. When the hour after an approval ends without a redemption,
  the service tells the officer to request a new token; but a request finds the approved grant and answers
  with it, an approval refuses it as not pending, and a redemption refuses it as expired. Whatever calls
  follow, no session for that scope opens until somebody revokes the lapsed grant.
\<close>

theorem lapsed_token_locks_out:
  assumes "locked t who pid cid g st" "list_all (leaves_grant t (gt_id g)) ops" "t \<le> now"
  shows "assert_active_session now who pid cid (run_ops access_exec ops st) = Inl SessionRequired \<and>
    find_by gt_id (gt_id g) (ad_grants (run_ops access_exec ops st)) = Some g"
proof -
  have "locked t who pid cid g (run_ops access_exec ops st)" by (rule run_locked [OF assms(1,2)])
  then show ?thesis using locked_no_session [OF _ assms(3)] by (auto simp: locked_def)
qed

definition lapsed_db :: access_db where
  "lapsed_db = run_ops access_exec (take 3 unlock_ops) office"

definition late_ops :: "(access_env \<times> access_op) list" where
  "late_ops = [(env_at 4000000 [], RedeemGrant officer_u None (Some ''c'') (Some ''ab'') (Some ''pw'')),
     (env_at 4000001 ''h'', AskGrant officer_u None (Some ''c'') (Some ''again'')), (env_at 4000002 [], ApproveGrant boss ''g''),
     (env_at 4000003 [], RedeemGrant officer_u None (Some ''c'') (Some ''ab'') (Some ''pw''))]"

lemma lapsed_token_locks_out_witness:
  "assert_active_session 4000004 ''u'' None (Some ''c'') (run_ops access_exec late_ops lapsed_db) = Inl SessionRequired"
proof -
  have "locked 3600002 ''u'' None (Some ''c'') (hd (ad_grants lapsed_db)) lapsed_db" by code_simp
  moreover have "list_all (leaves_grant 3600002 (gt_id (hd (ad_grants lapsed_db)))) late_ops" by code_simp
  ultimately show ?thesis using lapsed_token_locks_out [of 3600002 "''u''" None "Some ''c''" "hd (ad_grants lapsed_db)" lapsed_db late_ops 4000004] by simp
qed

text \<open>
  A revocation is final. After a grant is revoked, no calls of the services, whoever makes them, take it
  out of that state: the token is gone, it is never approved or redeemed again.
\<close>

theorem revocation_is_final:
  assumes "grant_ids st" "find_by gt_id k (ad_grants st) = Some g" "gt_revoked g = None" "raw_role (ar_role a)"
  shows "status_of_grant (run_ops access_exec ((env, RevokeGrant a k) # ops) st) k = Some GrantRevoked"
proof -
  let ?st = "snd (access_exec (env, RevokeGrant a k) st)"
  have "ad_grants ?st = update_first gt_id k (revoked_grant env (ar_id a)) (ad_grants st)"
    using assms(2-4) by (auto simp: revoke_grant_def Let_def raw_role_def)
  then have "status_of_grant ?st k = Some GrantRevoked"
    using exec_grant_ids [OF assms(1)] assms(2) by (simp add: status_of_grant_def find_update_first del: access_exec.simps)
  then show ?thesis using grant_life.run_terminal [of ?st k GrantRevoked ops] by simp
qed

lemma revocation_is_final_witness:
  "status_of_grant (run_ops access_exec [(env_at 9 [], RevokeGrant boss ''g''), (env_at 10 [], RedeemGrant officer_u None (Some ''c'') (Some ''ab'') (Some ''pw''))]
     lapsed_db) ''g'' = Some GrantRevoked"
proof -
  have "grant_ids lapsed_db" by code_simp
  moreover have "find_by gt_id ''g'' (ad_grants lapsed_db) = Some (hd (ad_grants lapsed_db))" by code_simp
  moreover have "gt_revoked (hd (ad_grants lapsed_db)) = None" by code_simp
  ultimately show ?thesis
    by (rule revocation_is_final) (simp add: boss_def raw_role_def)
qed




definition viewer_u :: viewer where
  "viewer_u = \<lparr>vw_role = Some AuditOfficer, vw_staff = Some ''v'', vw_ip = None, vw_agent = None, vw_logged = False\<rparr>"

definition elevate_ops :: "(access_env \<times> access_op) list" where
  "elevate_ops = [(env_at 0 ''e'', AskElevation ''v'' (Some ''case review'')), (env_at 1 [], ApproveElevation boss ''e'')]"


end
