(* ===== verification/Auth.thy ===== *)
theory Auth
  imports Totp Access
begin

text \<open>
  Sign-in, \<open>backend/src/modules/auth/auth.service.ts\<close> with the guards of \<open>common/strategies/\<close> and the password
  reset by an administrator (\<open>modules/users/users.service.ts\<close>). bcrypt, SHA-256, the random bytes and the mail
  transport are parameters. A JSON Web Token is its claims with the expiry: the library signs what it is
  given, and gives back the claims of a token that was signed here and has not expired.
\<close>

subsection \<open>Tables\<close>

record account =
  ac_id :: string
  ac_email :: string
  ac_password :: string
  ac_role :: string
  ac_provider :: "string option"
  ac_active :: bool
  ac_mfa :: bool
  ac_secret :: "string option"
  ac_codes :: "string list"
  ac_login :: "time option"
  ac_changed :: "time option"
  ac_must_change :: bool
  ac_avatar :: "string option"

datatype user_type = StaffUser | PortalUser

record reset_token =
  rt_id :: string
  rt_hash :: string
  rt_type :: user_type
  rt_user :: string
  rt_expires :: time
  rt_used :: "time option"

record auth_db =
  at_staff :: "account list"
  at_portal :: "account list"
  at_resets :: "reset_token list"
  at_trail :: "audit_options list"
  at_mails :: "(string \<times> string) list"

record auth_env =
  ae_now :: time
  ae_id :: string
  ae_raw :: string
  ae_bytes :: "8 word list"
  ae_codes :: "string list"
  ae_sha :: "string \<Rightarrow> string"
  ae_hash :: "string \<Rightarrow> string"
  ae_compare :: "string \<Rightarrow> string \<Rightarrow> bool"
  ae_mac :: hmac
  ae_base64 :: "8 word list \<Rightarrow> string"
  ae_ip :: "string option"
  ae_agent :: "string option"

text \<open>Times in tokens are seconds; \<open>pwdIat\<close> is milliseconds.\<close>

record jwt =
  jw_sub :: string
  jw_kind :: string
  jw_role :: string
  jw_provider :: "string option"
  jw_changed :: int
  jw_scope :: string
  jw_orig :: int
  jw_exp :: "int option"

datatype auth_error = InvalidCredentials | MfaRequired | InvalidMfa | TotpThrows | NoSuchUser | PasswordIncorrect | PasswordTooShort
  | InvalidReset | SetupFirst | MfaNotEnabled | StepUpIdle | StepUpMaximum | NotStepUp | StepUpExpired | StepUpInvalid | OtherProvider
  | WrongKind | UserMissing | AccountInactive | SessionEvicted | NoFile | ImageType | ImageSize | ResetIdTaken

fun accounts :: "user_type \<Rightarrow> auth_db \<Rightarrow> account list" where
  "accounts StaffUser st = at_staff st"
| "accounts PortalUser st = at_portal st"

fun update_account :: "user_type \<Rightarrow> string \<Rightarrow> (account \<Rightarrow> account) \<Rightarrow> auth_db \<Rightarrow> auth_db" where
  "update_account StaffUser k f st = st\<lparr>at_staff := update_first ac_id k f (at_staff st)\<rparr>"
| "update_account PortalUser k f st = st\<lparr>at_portal := update_first ac_id k f (at_portal st)\<rparr>"

fun actor_type :: "user_type \<Rightarrow> string" where
  "actor_type StaffUser = ''STAFF''"
| "actor_type PortalUser = ''PROVIDER_USER''"

fun user_entity :: "user_type \<Rightarrow> string" where
  "user_entity StaffUser = ''User''"
| "user_entity PortalUser = ''DataProviderUser''"

text \<open>An entry of the trail about a user's own account; \<open>seen\<close> says whether the call passes address and browser.\<close>

definition auth_call :: "auth_env \<Rightarrow> bool \<Rightarrow> user_type \<Rightarrow> string \<Rightarrow> string \<Rightarrow> audit_options" where
  "auth_call env seen ty who action = \<lparr>ao_actor_type = actor_type ty, ao_actor = Some who, ao_staff = (if ty = StaffUser then Some who else None),
     ao_action = action, ao_entity = user_entity ty, ao_entity_id = Some who, ao_before = JUndefined, ao_after = JUndefined,
     ao_ip = (if seen then ae_ip env else None), ao_agent = (if seen then ae_agent env else None)\<rparr>"

definition logged :: "audit_options \<Rightarrow> auth_db \<Rightarrow> auth_db" where
  "logged c st = st\<lparr>at_trail := at_trail st @ [c]\<rparr>"

subsection \<open>Recovery codes\<close>

definition is_alnum_lower :: "char \<Rightarrow> bool" where
  "is_alnum_lower c \<longleftrightarrow> is_digit c \<or> (let n = (of_char c :: nat) in 97 \<le> n \<and> n \<le> 122)"

definition canonical_code :: "string \<Rightarrow> string" where
  "canonical_code code = filter is_alnum_lower (lower code)"

definition make_recovery_codes :: "auth_env \<Rightarrow> string list \<times> string list" where
  "make_recovery_codes env = (let plain = map (\<lambda>raw. take 4 raw @ ''-'' @ drop 4 raw) (take 10 (ae_codes env))
     in (plain, map (\<lambda>c. ae_hash env (canonical_code c)) plain))"

definition consume_recovery_code :: "auth_env \<Rightarrow> string \<Rightarrow> string list \<Rightarrow> string \<Rightarrow> auth_db \<Rightarrow> bool \<times> auth_db" where
  "consume_recovery_code env who hashes code st =
     (let normalized = canonical_code code in
      if length normalized < 6 then (False, st)
      else (case find (ae_compare env normalized) hashes of None \<Rightarrow> (False, st)
        | Some h \<Rightarrow> (True, logged (auth_call env False StaffUser who ''MFA_RECOVERY_USED'')
            (update_account StaffUser who (\<lambda>u. u\<lparr>ac_codes := filter (\<lambda>x. x \<noteq> h) hashes\<rparr>) st))))"

text \<open>A code of an account: the one-time code of its secret. None when it cannot be computed.\<close>

definition totp_ok :: "auth_env \<Rightarrow> account \<Rightarrow> string \<Rightarrow> bool option" where
  "totp_ok env u code = (if truthy (ac_secret u) then verify_totp (ae_mac env) (ae_now env) code (the (ac_secret u)) 1 else Some False)"

subsection \<open>Sign-in\<close>

definition second_factor :: "auth_env \<Rightarrow> account \<Rightarrow> string option \<Rightarrow> auth_db \<Rightarrow> (auth_error, unit, auth_db) outcome" where
  "second_factor env u code st =
     (if \<not> ac_mfa u then (Inr (), st)
      else if \<not> truthy code then (Inl MfaRequired, st)
      else (case totp_ok env u (trim (the code)) of None \<Rightarrow> (Inl TotpThrows, st)
        | Some ok \<Rightarrow> if ok then (Inr (), st)
            else (let (used, st') = consume_recovery_code env (ac_id u) (ac_codes u) (trim (the code)) st
              in (if used then Inr () else Inl InvalidMfa, st'))))"

definition session_of :: "string \<Rightarrow> account \<Rightarrow> jwt" where
  "session_of kind u = \<lparr>jw_sub = ac_id u, jw_kind = kind, jw_role = ac_role u, jw_provider = ac_provider u,
     jw_changed = (case ac_changed u of None \<Rightarrow> 0 | Some t \<Rightarrow> t), jw_scope = [], jw_orig = 0, jw_exp = None\<rparr>"

definition staff_login :: "auth_env \<Rightarrow> string \<Rightarrow> string \<Rightarrow> string option \<Rightarrow> auth_db \<Rightarrow> (auth_error, jwt, auth_db) outcome" where
  "staff_login env email password code st = (case find_by ac_email (lower email) (at_staff st) of None \<Rightarrow> (Inl InvalidCredentials, st)
     | Some u \<Rightarrow>
       if \<not> ac_active u then (Inl InvalidCredentials, st)
       else if \<not> ae_compare env password (ac_password u) then (Inl InvalidCredentials, st)
       else (case second_factor env u code st of (Inl e, st') \<Rightarrow> (Inl e, st')
         | (Inr _, st') \<Rightarrow> (Inr (session_of ''STAFF'' u), logged (auth_call env True StaffUser (ac_id u) ''LOGIN'')
             (update_account StaffUser (ac_id u) (\<lambda>u. u\<lparr>ac_login := Some (ae_now env)\<rparr>) st'))))"

definition provider_login :: "auth_env \<Rightarrow> string \<Rightarrow> string \<Rightarrow> auth_db \<Rightarrow> (auth_error, jwt, auth_db) outcome" where
  "provider_login env email password st = (case find_by ac_email (lower email) (at_portal st) of None \<Rightarrow> (Inl InvalidCredentials, st)
     | Some u \<Rightarrow>
       if \<not> ac_active u then (Inl InvalidCredentials, st)
       else if \<not> ae_compare env password (ac_password u) then (Inl InvalidCredentials, st)
       else (Inr (session_of ''PROVIDER_USER'' u), logged (auth_call env True PortalUser (ac_id u) ''LOGIN'')
         (update_account PortalUser (ac_id u) (\<lambda>u. u\<lparr>ac_login := Some (ae_now env)\<rparr>) st)))"

text \<open>The guards: what a session token is worth when a request comes in. Its signature and expiry were checked.\<close>

fun session_kind :: "user_type \<Rightarrow> string" where
  "session_kind StaffUser = ''STAFF''"
| "session_kind PortalUser = ''PROVIDER_USER''"

definition validate :: "user_type \<Rightarrow> jwt \<Rightarrow> auth_db \<Rightarrow> auth_error + account" where
  "validate ty tok st = (if jw_kind tok \<noteq> session_kind ty then Inl WrongKind
     else (case find_by ac_id (jw_sub tok) (accounts ty st) of None \<Rightarrow> Inl UserMissing
       | Some u \<Rightarrow> if \<not> ac_active u then Inl AccountInactive
           else if (case ac_changed u of None \<Rightarrow> False | Some t \<Rightarrow> jw_changed tok < t) then Inl SessionEvicted
           else Inr u))"

text \<open>The profile, without the password, the secret and the recovery codes, of which only the number is shown.\<close>

definition staff_me :: "string \<Rightarrow> auth_db \<Rightarrow> auth_error + (string \<times> string \<times> string \<times> bool \<times> bool \<times> nat)" where
  "staff_me k st = (case find_by ac_id k (at_staff st) of None \<Rightarrow> Inl NoSuchUser
     | Some u \<Rightarrow> Inr (ac_id u, ac_email u, ac_role u, ac_mfa u, ac_must_change u, length (ac_codes u)))"

definition avatar_url :: "auth_env \<Rightarrow> (string \<times> nat option \<times> 8 word list) option \<Rightarrow> auth_error + string" where
  "avatar_url env file = (case file of None \<Rightarrow> Inl NoFile
     | Some (mime, sz, buf) \<Rightarrow>
       if mime \<notin> set [''image/jpeg'', ''image/png'', ''image/webp'', ''image/gif''] then Inl ImageType
       else if 2 * 1024 * 1024 < (case sz of None \<Rightarrow> length buf | Some n \<Rightarrow> n) then Inl ImageSize
       else Inr (''data:'' @ mime @ '';base64,'' @ ae_base64 env buf))"

definition update_avatar :: "auth_env \<Rightarrow> user_type \<Rightarrow> string \<Rightarrow> (string \<times> nat option \<times> 8 word list) option \<Rightarrow> auth_db \<Rightarrow>
    (auth_error, unit, auth_db) outcome" where
  "update_avatar env ty k file st = (case avatar_url env file of Inl e \<Rightarrow> (Inl e, st)
     | Inr url \<Rightarrow> if find_by ac_id k (accounts ty st) = None then (Inl NoSuchUser, st)
         else (Inr (), update_account ty k (\<lambda>u. u\<lparr>ac_avatar := Some url\<rparr>) st))"

subsection \<open>Passwords\<close>

definition new_password :: "auth_env \<Rightarrow> string \<Rightarrow> bool \<Rightarrow> account \<Rightarrow> account" where
  "new_password env pw must u = u\<lparr>ac_password := ae_hash env pw, ac_changed := Some (ae_now env), ac_must_change := must\<rparr>"

definition change_password :: "auth_env \<Rightarrow> user_type \<Rightarrow> string \<Rightarrow> string \<Rightarrow> string \<Rightarrow> auth_db \<Rightarrow> (auth_error, unit, auth_db) outcome" where
  "change_password env ty k current pw st = (case find_by ac_id k (accounts ty st) of None \<Rightarrow> (Inl NoSuchUser, st)
     | Some u \<Rightarrow>
       if \<not> ae_compare env current (ac_password u) then (Inl PasswordIncorrect, st)
       else if length pw < 8 then (Inl PasswordTooShort, st)
       else (Inr (), update_account ty k (new_password env pw False) st))"

text \<open>The reset of a staff password by an administrator.\<close>

definition admin_reset :: "auth_env \<Rightarrow> string option \<Rightarrow> string \<Rightarrow> string \<Rightarrow> auth_db \<Rightarrow> (auth_error, unit, auth_db) outcome" where
  "admin_reset env admin k pw st =
     (if length pw < 8 then (Inl PasswordTooShort, st)
      else if find_by ac_id k (at_staff st) = None then (Inl NoSuchUser, st)
      else (Inr (), logged ((auth_call env False StaffUser k ''RESET_PASSWORD'')\<lparr>ao_actor := admin, ao_staff := admin\<rparr>)
        (update_account StaffUser k (new_password env pw True) st)))"

definition reset_path :: "user_type \<Rightarrow> string" where
  "reset_path ty = (if ty = StaffUser then ''/reset-password'' else ''/provider/reset-password'')"

definition drop_slash :: "string \<Rightarrow> string" where
  "drop_slash s = (if s \<noteq> [] \<and> last s = CHR ''/'' then butlast s else s)"

definition request_reset :: "auth_env \<Rightarrow> user_type \<Rightarrow> string \<Rightarrow> string \<Rightarrow> auth_db \<Rightarrow> (auth_error, unit, auth_db) outcome" where
  "request_reset env ty email frontend st = (case find_by ac_email (lower (trim email)) (accounts ty st) of None \<Rightarrow> (Inr (), st)
     | Some u \<Rightarrow>
       if \<not> ac_active u then (Inr (), st)
       else (let h = ae_sha env (ae_raw env) in
         if find_by rt_hash h (at_resets st) \<noteq> None \<or> find_by rt_id (ae_id env) (at_resets st) \<noteq> None then (Inl ResetIdTaken, st)
         else (Inr (), logged (auth_call env True ty (ac_id u) ''PASSWORD_RESET_REQUESTED'')
           (st\<lparr>at_resets := at_resets st @ [\<lparr>rt_id = ae_id env, rt_hash = h, rt_type = ty, rt_user = ac_id u, rt_expires = ae_now env + 3600000, rt_used = None\<rparr>],
               at_mails := at_mails st @ [(ac_email u, drop_slash frontend @ reset_path ty @ ''?token='' @ ae_raw env)]\<rparr>))))"

definition spend_reset :: "auth_env \<Rightarrow> reset_token \<Rightarrow> reset_token list \<Rightarrow> reset_token list" where
  "spend_reset env r rows = map (\<lambda>q. if rt_type q = rt_type r \<and> rt_user q = rt_user r \<and> rt_used q = None then q\<lparr>rt_used := Some (ae_now env)\<rparr> else q)
     (update_first rt_id (rt_id r) (\<lambda>q. q\<lparr>rt_used := Some (ae_now env)\<rparr>) rows)"

definition reset_password :: "auth_env \<Rightarrow> user_type \<Rightarrow> string \<Rightarrow> string \<Rightarrow> auth_db \<Rightarrow> (auth_error, unit, auth_db) outcome" where
  "reset_password env ty raw pw st =
     (if raw = [] then (Inl InvalidReset, st)
      else if length pw < 8 then (Inl PasswordTooShort, st)
      else (case find_by rt_hash (ae_sha env raw) (at_resets st) of None \<Rightarrow> (Inl InvalidReset, st)
        | Some r \<Rightarrow>
          if rt_type r \<noteq> ty \<or> rt_used r \<noteq> None \<or> rt_expires r < ae_now env then (Inl InvalidReset, st)
          else if find_by ac_id (rt_user r) (accounts ty st) = None then (Inl NoSuchUser, st)
          else (Inr (), logged (auth_call env True ty (rt_user r) ''PASSWORD_RESET_COMPLETED'')
            ((update_account ty (rt_user r) (new_password env pw False) st)\<lparr>at_resets := spend_reset env r (at_resets st)\<rparr>))))"

subsection \<open>Second factor\<close>

definition mfa_setup :: "auth_env \<Rightarrow> string \<Rightarrow> auth_db \<Rightarrow> (auth_error, string, auth_db) outcome" where
  "mfa_setup env k st = (case find_by ac_id k (at_staff st) of None \<Rightarrow> (Inl NoSuchUser, st)
     | Some u \<Rightarrow> (let secret = generate_secret (ae_bytes env) in
         (Inr secret, update_account StaffUser k (\<lambda>u. u\<lparr>ac_secret := Some secret, ac_mfa := False\<rparr>) st)))"

definition mfa_enable :: "auth_env \<Rightarrow> string \<Rightarrow> string \<Rightarrow> auth_db \<Rightarrow> (auth_error, string list, auth_db) outcome" where
  "mfa_enable env k code st = (case find_by ac_id k (at_staff st) of None \<Rightarrow> (Inl SetupFirst, st)
     | Some u \<Rightarrow> if \<not> truthy (ac_secret u) then (Inl SetupFirst, st)
         else (case totp_ok env u code of None \<Rightarrow> (Inl TotpThrows, st)
           | Some ok \<Rightarrow> if \<not> ok then (Inl InvalidMfa, st)
               else (let (plain, hashed) = make_recovery_codes env in
                 (Inr plain, logged (auth_call env False StaffUser k ''MFA_ENABLE'')
                   (update_account StaffUser k (\<lambda>u. u\<lparr>ac_mfa := True, ac_codes := hashed\<rparr>) st)))))"

definition mfa_disable :: "auth_env \<Rightarrow> string \<Rightarrow> string \<Rightarrow> auth_db \<Rightarrow> (auth_error, unit, auth_db) outcome" where
  "mfa_disable env k code st = (case find_by ac_id k (at_staff st) of None \<Rightarrow> (Inl MfaNotEnabled, st)
     | Some u \<Rightarrow> if \<not> ac_mfa u \<or> \<not> truthy (ac_secret u) then (Inl MfaNotEnabled, st)
         else (case totp_ok env u (trim code) of None \<Rightarrow> (Inl TotpThrows, st)
           | Some ok \<Rightarrow> (let (used, st') = (if ok then (True, st) else consume_recovery_code env k (ac_codes u) (trim code) st) in
               if \<not> used then (Inl InvalidMfa, st')
               else (Inr (), logged (auth_call env False StaffUser k ''MFA_DISABLE'')
                 (update_account StaffUser k (\<lambda>u. u\<lparr>ac_mfa := False, ac_secret := None, ac_codes := []\<rparr>) st')))))"

definition mfa_regenerate :: "auth_env \<Rightarrow> string \<Rightarrow> string \<Rightarrow> auth_db \<Rightarrow> (auth_error, string list, auth_db) outcome" where
  "mfa_regenerate env k code st = (case find_by ac_id k (at_staff st) of None \<Rightarrow> (Inl MfaNotEnabled, st)
     | Some u \<Rightarrow> if \<not> ac_mfa u \<or> \<not> truthy (ac_secret u) then (Inl MfaNotEnabled, st)
         else (case totp_ok env u (trim code) of None \<Rightarrow> (Inl TotpThrows, st)
           | Some ok \<Rightarrow> if \<not> ok then (Inl InvalidMfa, st)
               else (let (plain, hashed) = make_recovery_codes env in
                 (Inr plain, logged (auth_call env False StaffUser k ''MFA_REGEN_RECOVERY'')
                   (update_account StaffUser k (\<lambda>u. u\<lparr>ac_codes := hashed\<rparr>) st)))))"

subsection \<open>Step-up sessions\<close>

definition idle_ttl :: int where "idle_ttl = 5 * 60"

definition hard_ceiling :: int where "hard_ceiling = 8 * 60 * 60"

definition step_token :: "string \<Rightarrow> string \<Rightarrow> string option \<Rightarrow> int \<Rightarrow> int \<Rightarrow> jwt" where
  "step_token who scope provider orig now_s = \<lparr>jw_sub = who, jw_kind = ''STEP_UP'', jw_role = [], jw_provider = provider, jw_changed = 0,
     jw_scope = scope, jw_orig = orig, jw_exp = Some (now_s + idle_ttl)\<rparr>"

definition step_up :: "auth_env \<Rightarrow> string \<Rightarrow> string \<Rightarrow> string \<Rightarrow> string option \<Rightarrow> string option \<Rightarrow> auth_db \<Rightarrow> (auth_error, jwt, auth_db) outcome" where
  "step_up env k password scope provider code st = (case find_by ac_id k (at_staff st) of None \<Rightarrow> (Inl NoSuchUser, st)
     | Some u \<Rightarrow>
       if \<not> ac_active u then (Inl NoSuchUser, st)
       else if \<not> ae_compare env password (ac_password u) then (Inl PasswordIncorrect, st)
       else if ac_mfa u \<and> \<not> truthy code then (Inl MfaRequired, st)
       else (case (if ac_mfa u then totp_ok env u (the code) else Some True) of None \<Rightarrow> (Inl TotpThrows, st)
         | Some ok \<Rightarrow> if \<not> ok then (Inl InvalidMfa, st)
             else (let now_s = ae_now env div 1000 in
               (Inr (step_token k scope provider now_s now_s), logged ((auth_call env True StaffUser k ''STEP_UP_GRANT'')
                 \<lparr>ao_entity := (if truthy provider then ''DataProvider'' else ''AccessScope''),
                  ao_entity_id := Some (case provider of None \<Rightarrow> scope | Some p \<Rightarrow> p),
                  ao_after := JObj [(''scope'', JStr scope), (''providerId'', opt_text provider), (''idleTtl'', JNum ''300''), (''hardCeiling'', JNum ''28800'')]\<rparr>) st))))"

definition jwt_valid :: "int \<Rightarrow> jwt \<Rightarrow> bool" where
  "jwt_valid now_s tok \<longleftrightarrow> (case jw_exp tok of None \<Rightarrow> True | Some e \<Rightarrow> now_s < e)"

definition renew_step_up :: "time \<Rightarrow> jwt \<Rightarrow> auth_error + jwt" where
  "renew_step_up now tok = (let now_s = now div 1000 in
     if \<not> jwt_valid now_s tok then Inl StepUpIdle
     else if jw_kind tok \<noteq> ''STEP_UP'' then Inl NotStepUp
     else if hard_ceiling \<le> now_s - jw_orig tok then Inl StepUpMaximum
     else Inr (step_token (jw_sub tok) (jw_scope tok) (jw_provider tok) (jw_orig tok) now_s))"

definition verify_step_up :: "time \<Rightarrow> jwt \<Rightarrow> string \<Rightarrow> string option \<Rightarrow> auth_error + string" where
  "verify_step_up now tok scope provider =
     (if \<not> jwt_valid (now div 1000) tok then Inl StepUpExpired
      else if jw_kind tok \<noteq> ''STEP_UP'' \<or> jw_scope tok \<noteq> scope then Inl StepUpInvalid
      else if truthy (jw_provider tok) \<and> truthy provider \<and> jw_provider tok \<noteq> provider then Inl OtherProvider
      else Inr (jw_sub tok))"

subsection \<open>The service\<close>

datatype auth_op = Login string string "string option" | PortalLogin string string | ChangePassword user_type string string string
  | AdminReset "string option" string string | AskReset user_type string string | Reset user_type string string
  | Avatar user_type string "(string \<times> nat option \<times> 8 word list) option" | MfaSetup string | MfaEnable string string | MfaDisable string string
  | MfaRegenerate string string | StepUp string string string "string option" "string option"

fun auth_exec :: "auth_env \<times> auth_op \<Rightarrow> auth_db \<Rightarrow> (auth_error, unit, auth_db) outcome" where
  "auth_exec (env, Login email pw code) st = forget (staff_login env email pw code st)"
| "auth_exec (env, PortalLogin email pw) st = forget (provider_login env email pw st)"
| "auth_exec (env, ChangePassword ty k current pw) st = change_password env ty k current pw st"
| "auth_exec (env, AdminReset admin k pw) st = admin_reset env admin k pw st"
| "auth_exec (env, AskReset ty email frontend) st = request_reset env ty email frontend st"
| "auth_exec (env, Reset ty raw pw) st = reset_password env ty raw pw st"
| "auth_exec (env, Avatar ty k file) st = update_avatar env ty k file st"
| "auth_exec (env, MfaSetup k) st = forget (mfa_setup env k st)"
| "auth_exec (env, MfaEnable k code) st = forget (mfa_enable env k code st)"
| "auth_exec (env, MfaDisable k code) st = mfa_disable env k code st"
| "auth_exec (env, MfaRegenerate k code) st = forget (mfa_regenerate env k code st)"
| "auth_exec (env, StepUp k pw scope provider code) st = forget (step_up env k pw scope provider code st)"

lemma accounts_simps [simp]:
  "accounts ty (logged c st) = accounts ty st" "at_resets (logged c st) = at_resets st"
  "accounts ty (st\<lparr>at_resets := rs\<rparr>) = accounts ty st" "accounts ty (st\<lparr>at_mails := ms\<rparr>) = accounts ty st"
  "at_resets (update_account ty k f st) = at_resets st"
  "accounts ty (update_account ty' k f st) = (if ty = ty' then update_first ac_id k f (accounts ty st) else accounts ty st)"
  by (cases ty; cases ty'; simp add: logged_def)+

declare update_account.simps [simp del]

subsection \<open>When the password was changed\<close>

definition changed :: "user_type \<Rightarrow> string \<Rightarrow> auth_db \<Rightarrow> time option option" where
  "changed ty k st = map_option ac_changed (find_by ac_id k (accounts ty st))"

lemma changed_update:
  "(\<And>u. ac_id (f u) = ac_id u) \<Longrightarrow> (\<And>u. ac_changed (f u) = ac_changed u) \<Longrightarrow> changed ty k (update_account ty' j f st) = changed ty k st"
  by (auto simp: changed_def find_update_first option.map_comp comp_def)

lemma changed_simps [simp]:
  "changed ty k (logged c st) = changed ty k st" "changed ty k (st\<lparr>at_resets := rs\<rparr>) = changed ty k st"
  "changed ty k (st\<lparr>at_mails := ms\<rparr>) = changed ty k st"
  by (simp_all add: changed_def)

lemma changed_password:
  "changed ty k (update_account ty' j (new_password env pw m) st) =
     (if ty = ty' \<and> k = j \<and> changed ty k st \<noteq> None then Some (Some (ae_now env)) else changed ty k st)"
  by (auto simp: changed_def find_update_first new_password_def)

lemma changed_consume [simp]: "changed ty k (snd (consume_recovery_code env who hs code st)) = changed ty k st"
  by (simp add: consume_recovery_code_def Let_def changed_update split: option.split)

lemma changed_second_factor [simp]: "changed ty k (snd (second_factor env u code st)) = changed ty k st"
  by (simp add: second_factor_def split_beta split: option.split)

lemma changed_login [simp]: "changed ty k (snd (staff_login env email pw code st)) = changed ty k st"
proof (cases "find_by ac_email (lower email) (at_staff st)")
  case (Some u)
  obtain r st' where s: "second_factor env u code st = (r, st')" by (cases "second_factor env u code st")
  then have "changed ty k st' = changed ty k st" using changed_second_factor [of ty k env u code st] by simp
  then show ?thesis using Some s by (cases r) (simp_all add: staff_login_def changed_update)
qed (simp add: staff_login_def)

lemma changed_mfa [simp]:
  "changed ty k (snd (mfa_setup env j st)) = changed ty k st" "changed ty k (snd (mfa_enable env j code st)) = changed ty k st"
  "changed ty k (snd (mfa_regenerate env j code st)) = changed ty k st"
  by (simp_all add: mfa_setup_def mfa_enable_def mfa_regenerate_def Let_def split_beta changed_update split: option.split)

lemma changed_disable [simp]: "changed ty k (snd (mfa_disable env j code st)) = changed ty k st"
proof (cases "find_by ac_id j (at_staff st)")
  case (Some u)
  then show ?thesis by (simp add: mfa_disable_def split_beta Let_def changed_update split: option.split)
qed (simp add: mfa_disable_def)

lemma changed_others [simp]:
  "changed ty k (snd (provider_login env email pw st)) = changed ty k st" "changed ty k (snd (update_avatar env ty' j file st)) = changed ty k st"
  "changed ty k (snd (step_up env j pw scope provider code st)) = changed ty k st" "changed ty k (snd (request_reset env ty' email frontend st)) = changed ty k st"
  by (simp_all add: provider_login_def update_avatar_def step_up_def request_reset_def Let_def changed_update split: option.split sum.split)

lemma exec_changed:
  "changed ty k (snd (auth_exec (env, op) st)) = changed ty k st \<or> changed ty k (snd (auth_exec (env, op) st)) = Some (Some (ae_now env))"
  by (cases op) (auto simp: change_password_def admin_reset_def reset_password_def changed_password split: option.split)

lemma run_changed:
  assumes "changed ty k st = Some (Some c)" "t \<le> c" "list_all (\<lambda>c. t \<le> ae_now (fst c)) ops"
  shows "\<exists>c. changed ty k (run_ops auth_exec ops st) = Some (Some c) \<and> t \<le> c"
  using assms
proof (induction ops arbitrary: st c)
  case (Cons o' ops)
  obtain env op where o': "o' = (env, op)" by (cases o')
  have "\<exists>c. changed ty k (snd (auth_exec o' st)) = Some (Some c) \<and> t \<le> c"
    using exec_changed [of ty k env op st] Cons.prems by (auto simp: o')
  then show ?case using Cons.IH Cons.prems(3) by auto
qed auto

lemma changed_refused:
  assumes "changed ty (jw_sub tok) st = Some (Some c)" "jw_changed tok < c"
  shows "isl (validate ty tok st)"
  using assms by (auto simp: validate_def changed_def)

text \<open>Whose password an operation sets, when it succeeds.\<close>

fun sets_password :: "auth_db \<Rightarrow> auth_env \<times> auth_op \<Rightarrow> (user_type \<times> string) option" where
  "sets_password st (env, ChangePassword ty k current pw) = Some (ty, k)"
| "sets_password st (env, AdminReset admin k pw) = Some (StaffUser, k)"
| "sets_password st (env, Reset ty raw pw) = map_option (\<lambda>r. (ty, rt_user r)) (find_by rt_hash (ae_sha env raw) (at_resets st))"
| "sets_password st _ = None"

lemma password_set:
  assumes "sets_password st (env, op) = Some (ty, k)" "fst (auth_exec (env, op) st) = Inr ()"
  shows "changed ty k (snd (auth_exec (env, op) st)) = Some (Some (ae_now env))"
proof -
  have e: "find_by ac_id k (accounts ty st) \<noteq> None \<Longrightarrow> changed ty k (update_account ty k (new_password env pw m) st) = Some (Some (ae_now env))" for pw m
    by (subst changed_password) (simp add: changed_def)
  then show ?thesis using assms e [of _ False] e [of _ True]
    by (cases op) (auto simp: change_password_def admin_reset_def reset_password_def split: option.splits if_splits)
qed

subsection \<open>Spent reset links\<close>

definition spent :: "string \<Rightarrow> auth_db \<Rightarrow> bool" where
  "spent h st \<longleftrightarrow> (case find_by rt_hash h (at_resets st) of None \<Rightarrow> False | Some r \<Rightarrow> rt_used r \<noteq> None)"

lemma update_first_rel: "(\<And>q. R q q) \<Longrightarrow> (\<And>q. R q (f q)) \<Longrightarrow> list_all2 R rows (update_first key k f rows)"
  by (induction rows) (auto simp: list.rel_refl)

lemma find_rel: "list_all2 R rows rows' \<Longrightarrow> (\<And>q q'. R q q' \<Longrightarrow> key q' = key q) \<Longrightarrow> rel_option R (find_by key h rows) (find_by key h rows')"
  by (induction rule: list_all2_induct) auto

text \<open>A link after the one of \<open>r\<close> was used: it is still the same link, used if it was, or if it is of the same account.\<close>

definition spent_with :: "reset_token \<Rightarrow> reset_token \<Rightarrow> reset_token \<Rightarrow> bool" where
  "spent_with r q q' \<longleftrightarrow> rt_hash q' = rt_hash q \<and> rt_type q' = rt_type q \<and> rt_user q' = rt_user q \<and>
     (if rt_used q \<noteq> None \<or> (rt_type q = rt_type r \<and> rt_user q = rt_user r) then rt_used q' \<noteq> None else True)"

lemma spend_rel: "list_all2 (spent_with r) rows (spend_reset env r rows)"
proof -
  have "list_all2 (\<lambda>q q'. q' = q \<or> q' = q\<lparr>rt_used := Some (ae_now env)\<rparr>) rows
      (update_first rt_id (rt_id r) (\<lambda>q. q\<lparr>rt_used := Some (ae_now env)\<rparr>) rows)"
    by (rule update_first_rel) simp_all
  then show ?thesis unfolding spend_reset_def list_all2_map2
    by (rule list_all2_mono) (auto simp: spent_with_def)
qed

lemma find_spend: "rel_option (spent_with r) (find_by rt_hash h rows) (find_by rt_hash h (spend_reset env r rows))"
  by (rule find_rel [OF spend_rel]) (simp add: spent_with_def)

lemma resets_leave:
  "at_resets (snd (consume_recovery_code env who hs code st)) = at_resets st"
  by (simp add: consume_recovery_code_def Let_def split: option.split)

lemma resets_second [simp]: "at_resets (snd (second_factor env u code st)) = at_resets st"
  by (simp add: second_factor_def split_beta resets_leave split: option.split)

lemma resets_login [simp]: "at_resets (snd (staff_login env email pw code st)) = at_resets st"
proof (cases "find_by ac_email (lower email) (at_staff st)")
  case (Some u)
  obtain r st' where s: "second_factor env u code st = (r, st')" by (cases "second_factor env u code st")
  then have "at_resets st' = at_resets st" using resets_second [of env u code st] by simp
  then show ?thesis using Some s by (cases r) (simp_all add: staff_login_def)
qed (simp add: staff_login_def)

lemma exec_spent:
  assumes "spent h st"
  shows "spent h (snd (auth_exec (env, op) st))"
proof -
  have same: "at_resets st' = at_resets st \<Longrightarrow> spent h st'" for st' using assms by (simp add: spent_def)
  show ?thesis
  proof (cases op)
    case (AskReset ty email frontend)
    then show ?thesis using assms by (auto simp: request_reset_def Let_def spent_def find_by_append split: option.splits)
  next
    case (Reset ty raw pw)
    show ?thesis
    proof (cases "fst (reset_password env ty raw pw st)")
      case (Inl e)
      then have "snd (reset_password env ty raw pw st) = st" by (auto simp: reset_password_def split: option.splits if_splits)
      then show ?thesis using assms Reset by simp
    next
      case (Inr u)
      then obtain r where "at_resets (snd (reset_password env ty raw pw st)) = spend_reset env r (at_resets st)"
        by (auto simp: reset_password_def split: option.splits if_splits)
      then show ?thesis using assms find_spend [of r h "at_resets st" env] Reset
        by (auto simp: spent_def spent_with_def option_rel_Some1 split: option.splits)
    qed
  qed (auto intro!: same simp: provider_login_def change_password_def admin_reset_def update_avatar_def mfa_setup_def mfa_enable_def
      mfa_regenerate_def mfa_disable_def step_up_def Let_def split_beta resets_leave split: option.split sum.split)
qed

lemma run_spent: "spent h st \<Longrightarrow> spent h (run_ops auth_exec ops st)"
proof (induction ops arbitrary: st)
  case (Cons c ops)
  then show ?case using exec_spent [of h st "fst c" "snd c"] by simp
qed simp

subsection \<open>Step-up sessions end\<close>

fun renew_all :: "jwt \<Rightarrow> time list \<Rightarrow> auth_error + jwt" where
  "renew_all tok [] = Inr tok"
| "renew_all tok (t # ts) = (case renew_step_up t tok of Inl e \<Rightarrow> Inl e | Inr tok' \<Rightarrow> renew_all tok' ts)"

definition ends_before :: "int \<Rightarrow> jwt \<Rightarrow> bool" where
  "ends_before t tok \<longleftrightarrow> (case jw_exp tok of None \<Rightarrow> False | Some e \<Rightarrow> e < t)"

lemma renew_all_keeps:
  "renew_all tok ts = Inr tok' \<Longrightarrow> jw_kind tok = ''STEP_UP'' \<Longrightarrow>
   ends_before (jw_orig tok + hard_ceiling + idle_ttl) tok \<Longrightarrow>
   jw_sub tok' = jw_sub tok \<and> jw_scope tok' = jw_scope tok \<and> jw_provider tok' = jw_provider tok \<and> jw_orig tok' = jw_orig tok \<and> jw_kind tok' = ''STEP_UP'' \<and>
   ends_before (jw_orig tok + hard_ceiling + idle_ttl) tok'"
proof (induction tok ts rule: renew_all.induct)
  case (2 tok t ts)
  obtain tok1 where s: "renew_step_up t tok = Inr tok1" using 2(2) by (auto split: sum.splits)
  then have "\<not> hard_ceiling \<le> t div 1000 - jw_orig tok" "tok1 = step_token (jw_sub tok) (jw_scope tok) (jw_provider tok) (jw_orig tok) (t div 1000)"
    by (auto simp: renew_step_up_def Let_def split: if_splits)
  then show ?case using 2(1) [OF s] 2(2) s by (auto simp: step_token_def ends_before_def)
qed auto

subsection \<open>A small office\<close>

definition env_of :: "time \<Rightarrow> string \<Rightarrow> auth_env" where
  "env_of t raw = \<lparr>ae_now = t, ae_id = raw, ae_raw = raw, ae_bytes = [1, 2], ae_codes = [], ae_sha = (\<lambda>s. s), ae_hash = (\<lambda>s. s),
     ae_compare = (=), ae_mac = (\<lambda>_ _. replicate 20 0), ae_base64 = (\<lambda>_. []), ae_ip = None, ae_agent = None\<rparr>"

definition user_u :: account where
  "user_u = \<lparr>ac_id = ''u'', ac_email = ''u@x'', ac_password = ''pw'', ac_role = ''ADMIN'', ac_provider = None, ac_active = True, ac_mfa = True,
     ac_secret = None, ac_codes = [''abcdef12'', ''00aa11bb''], ac_login = None, ac_changed = None, ac_must_change = False, ac_avatar = None\<rparr>"

definition auth_office :: auth_db where
  "auth_office = \<lparr>at_staff = [user_u], at_portal = [], at_resets = [], at_trail = [], at_mails = []\<rparr>"

subsection \<open>The properties\<close>

text \<open>
  C34. Signing in needs every factor. If a member of staff signs in, the e-mail address is that of an active
  account, the password matches, and with the second factor on, a code was given that is the one-time code
  of the secret, within its window, or a recovery code of the account that is gone afterwards. The token
  that is handed out is good at once.
\<close>

theorem login_needs_factors:
  assumes "staff_login env email pw code st = (Inr tok, st')" "distinct (map ac_id (at_staff st))"
  shows "case find_by ac_email (lower email) (at_staff st) of None \<Rightarrow> False
    | Some u \<Rightarrow> ac_active u \<and> ae_compare env pw (ac_password u) \<and> jw_sub tok = ac_id u \<and> \<not> isl (validate StaffUser tok st') \<and>
        (if ac_mfa u then truthy code \<and> (totp_ok env u (trim (the code)) = Some True \<or>
            list_ex (\<lambda>h. ae_compare env (canonical_code (trim (the code))) h \<and>
              (case find_by ac_id (ac_id u) (at_staff st') of None \<Rightarrow> False | Some v \<Rightarrow> h \<notin> set (ac_codes v))) (ac_codes u))
         else True)"
proof -
  obtain u where u: "find_by ac_email (lower email) (at_staff st) = Some u" using assms(1) by (auto simp: staff_login_def split: option.splits)
  have id: "find_by ac_id (ac_id u) (at_staff st) = Some u"
    using find_by_Some [OF u] find_distinct [OF assms(2)] by simp
  obtain st2 where f: "second_factor env u code st = (Inr (), st2)" "ac_active u" "ae_compare env pw (ac_password u)" "tok = session_of ''STAFF'' u"
      "st' = logged (auth_call env True StaffUser (ac_id u) ''LOGIN'') (update_account StaffUser (ac_id u) (\<lambda>u. u\<lparr>ac_login := Some (ae_now env)\<rparr>) st2)"
    using assms(1) u by (auto simp: staff_login_def split: if_splits prod.splits sum.splits)
  have staff: "at_staff st' = update_first ac_id (ac_id u) (\<lambda>u. u\<lparr>ac_login := Some (ae_now env)\<rparr>) (at_staff st2)"
    using accounts_simps(1,6) [of StaffUser] by (simp add: f(5) logged_def update_account.simps)
  consider (plain) "st2 = st" "ac_mfa u \<Longrightarrow> truthy code \<and> totp_ok env u (trim (the code)) = Some True"
    | (recovered) h where "h \<in> set (ac_codes u)" "ae_compare env (canonical_code (trim (the code))) h" "truthy code"
        "at_staff st2 = update_first ac_id (ac_id u) (\<lambda>v. v\<lparr>ac_codes := filter (\<lambda>x. x \<noteq> h) (ac_codes u)\<rparr>) (at_staff st)"
    using f(1) by (auto simp: second_factor_def consume_recovery_code_def Let_def logged_def update_account.simps split: if_splits option.splits prod.splits dest!: find_Some_pred)
  then show ?thesis
  proof cases
    case plain
    then show ?thesis using f u id staff
      by (auto simp: find_update_first validate_def session_of_def split: option.splits)
  next
    case recovered
    then show ?thesis using f u id staff
      by (auto simp: find_update_first validate_def session_of_def list_ex_iff intro!: bexI [of _ h] split: option.splits)
  qed
qed

lemma login_needs_factors_witness:
  "\<not> isl (validate StaffUser (session_of ''STAFF'' user_u) (snd (staff_login (env_of 5 []) ''U@x'' ''pw'' (Some ''ABCD-ef12'') auth_office)))"
proof -
  let ?out = "staff_login (env_of 5 []) ''U@x'' ''pw'' (Some ''ABCD-ef12'') auth_office"
  have "fst ?out = Inr (session_of ''STAFF'' user_u)" by code_simp
  then have "?out = (Inr (session_of ''STAFF'' user_u), snd ?out)" by (metis prod.collapse)
  from login_needs_factors [OF this] show ?thesis by (simp add: auth_office_def split: option.splits)
qed



text \<open>
  C33. A reset link works once. After a password was reset through a link, no call with the same link
  succeeds again, whatever is done in between, and every other link that was mailed for the account is
  spent as well.
\<close>

theorem reset_link_once:
  assumes "reset_password env ty raw pw st = (Inr (), st')" "ae_sha env' = ae_sha env"
  shows "isl (fst (reset_password env' ty' raw pw' (run_ops auth_exec ops st'))) \<and>
    (case find_by rt_hash (ae_sha env raw) (at_resets st) of None \<Rightarrow> False
     | Some r \<Rightarrow> list_all (\<lambda>q. if rt_type q = ty \<and> rt_user q = rt_user r then rt_used q \<noteq> None else True) (at_resets st'))"
proof -
  obtain r where r: "find_by rt_hash (ae_sha env raw) (at_resets st) = Some r" "rt_type r = ty" "at_resets st' = spend_reset env r (at_resets st)"
    using assms(1) by (auto simp: reset_password_def split: option.splits if_splits)
  have "rel_option (spent_with r) (Some r) (find_by rt_hash (ae_sha env raw) (at_resets st'))"
    using find_spend [of r "ae_sha env raw" "at_resets st" env] by (simp add: r)
  then have "spent (ae_sha env raw) st'" by (auto simp: spent_def spent_with_def option_rel_Some1)
  then have s: "spent (ae_sha env raw) (run_ops auth_exec ops st')" by (rule run_spent)
  have "list_all (\<lambda>q. if rt_type q = ty \<and> rt_user q = rt_user r then rt_used q \<noteq> None else True) (at_resets st')"
    using spend_rel [of r "at_resets st" env] r(2)
    by (fastforce simp: r(3) list_all_iff spent_with_def list_all2_conv_all_nth in_set_conv_nth)
  then show ?thesis using s assms(2) r(1) by (auto simp: reset_password_def spent_def split: option.splits)
qed

lemma reset_link_once_witness:
  "isl (fst (reset_password (env_of 7 []) StaffUser ''r1'' ''yet another'' (run_ops auth_exec [(env_of 7 ''r2'', AskReset StaffUser ''u@x'' [])]
    (run_ops auth_exec [(env_of 5 ''r1'', AskReset StaffUser ''u@x'' ''http://f/''), (env_of 6 [], Reset StaffUser ''r1'' ''a longer one'')] auth_office))))"
proof -
  let ?st = "run_ops auth_exec [(env_of 5 ''r1'', AskReset StaffUser ''u@x'' ''http://f/'')] auth_office"
  let ?out = "reset_password (env_of 6 []) StaffUser ''r1'' ''a longer one'' ?st"
  have "fst ?out = Inr ()" by code_simp
  then have "?out = (Inr (), snd ?out)" by (metis prod.collapse)
  from reset_link_once [OF this, of "env_of 7 []" StaffUser "''yet another''" "[(env_of 7 ''r2'', AskReset StaffUser ''u@x'' [])]"]
  show ?thesis by (simp add: env_of_def)
qed

text \<open>
  Starting the enrolment drops the second factor. A call of the set-up replaces the secret and turns the
  second factor off without asking for a code: right after it the password alone signs in, where the call
  that is meant for this (turning it off) refuses a wrong code.
\<close>

theorem mfa_setup_drops_second_factor:
  assumes "find_by ac_email (lower email) (at_staff st) = Some u" "ac_active u" "ae_compare env' pw (ac_password u)"
    and "distinct (map ac_id (at_staff st))"
  shows "\<not> isl (fst (staff_login env' email pw None (snd (mfa_setup env (ac_id u) st)))) \<and>
    (if ac_mfa u \<and> truthy (ac_secret u) \<and> totp_ok env u (trim code) = Some False \<and> length (canonical_code (trim code)) < 6
     then fst (mfa_disable env (ac_id u) code st) = Inl InvalidMfa else True)"
proof -
  have id: "find_by ac_id (ac_id u) (at_staff st) = Some u"
    using find_by_Some [OF assms(1)] find_distinct [OF assms(4)] by simp
  let ?f = "\<lambda>u. u\<lparr>ac_secret := Some (generate_secret (ae_bytes env)), ac_mfa := False\<rparr>"
  have "find_by ac_email (lower email) (update_first ac_id (ac_id u) ?f (at_staff st)) = Some (?f u)"
  proof -
    have "find_by ac_email e (update_first ac_id i ?f rows) = Some (?f u)" if "find_by ac_email e rows = Some u" "find_by ac_id i rows = Some u" for e i rows
      using that by (induction rows) (auto split: if_splits dest: find_by_Some)
    then show ?thesis using assms(1) id by simp
  qed
  then have "at_staff (snd (mfa_setup env (ac_id u) st)) = update_first ac_id (ac_id u) ?f (at_staff st)" 
    "find_by ac_email (lower email) (at_staff (snd (mfa_setup env (ac_id u) st))) = Some (?f u)"
    using id by (simp_all add: mfa_setup_def update_account.simps Let_def)
  then show ?thesis using assms(2,3) id
    by (auto simp: staff_login_def second_factor_def mfa_disable_def consume_recovery_code_def Let_def)
qed

lemma mfa_setup_drops_second_factor_witness:
  "\<not> isl (fst (staff_login (env_of 5 []) ''u@x'' ''pw'' None (snd (mfa_setup (env_of 4 []) ''u'' auth_office))))"
proof -
  have "find_by ac_email (lower ''u@x'') (at_staff auth_office) = Some user_u" by code_simp
  from mfa_setup_drops_second_factor [OF this, of "env_of 5 []" "''pw''" "env_of 4 []"] show ?thesis
    by (simp add: auth_office_def user_u_def env_of_def)
qed

text \<open>
  A step-up session ends. However often and whenever a session is renewed, it stays with the same
  officer, scope and provider, and from eight hours and five minutes after it was opened it is refused.
\<close>

theorem step_up_session_ends:
  assumes "fst (step_up env k pw scope provider code st) = Inr tok" "renew_all tok ts = Inr tok'"
    and "verify_step_up now tok' scope' p = Inr who"
  shows "who = k \<and> scope' = scope \<and> now div 1000 < ae_now env div 1000 + hard_ceiling + idle_ttl"
proof -
  have t: "tok = step_token k scope provider (ae_now env div 1000) (ae_now env div 1000)"
    using assms(1) by (auto simp: step_up_def Let_def split: option.splits if_splits)
  have "ends_before (jw_orig tok + hard_ceiling + idle_ttl) tok" by (simp add: t step_token_def ends_before_def hard_ceiling_def)
  then have "jw_sub tok' = k \<and> jw_scope tok' = scope \<and> ends_before (ae_now env div 1000 + hard_ceiling + idle_ttl) tok'"
    using renew_all_keeps [OF assms(2)] by (simp add: t step_token_def)
  then show ?thesis using assms(3) by (auto simp: ends_before_def verify_step_up_def jwt_valid_def split: option.splits if_splits)
qed

definition no_mfa :: auth_db where
  "no_mfa = auth_office\<lparr>at_staff := [user_u\<lparr>ac_mfa := False\<rparr>]\<rparr>"

definition busy_day :: "time list" where
  "busy_day = map (\<lambda>i. 299000 * int i) [1..<97] @ [28799000]"

lemma step_up_session_ends_witness:
  "verify_step_up 29098000 (projr (renew_all (step_token ''u'' ''PROVIDER_UPLOADS'' None 0 0) busy_day)) ''PROVIDER_UPLOADS'' None = Inr ''u'' \<and>
    hard_ceiling < 29098 \<and> 29098 < hard_ceiling + idle_ttl"
proof -
  let ?tok = "step_token ''u'' ''PROVIDER_UPLOADS'' None 0 0" and ?late = "projr (renew_all (step_token ''u'' ''PROVIDER_UPLOADS'' None 0 0) busy_day)"
  have a: "fst (step_up (env_of 0 []) ''u'' ''pw'' ''PROVIDER_UPLOADS'' None None no_mfa) = Inr ?tok" by code_simp
  have "\<not> isl (renew_all ?tok busy_day)" by code_simp
  then have b: "renew_all ?tok busy_day = Inr ?late" by (cases "renew_all ?tok busy_day") simp_all
  have c: "verify_step_up 29098000 ?late ''PROVIDER_UPLOADS'' None = Inr ''u''" by code_simp
  from step_up_session_ends [OF a b c] show ?thesis using c by (simp add: env_of_def hard_ceiling_def)
qed

end
