(* ===== verification/NameMatch.thy ===== *)
theory NameMatch
  imports JsParse
begin

text \<open>
  Names and dates of birth of \<open>backend/src/modules/agents/implementations/matching.agent.ts\<close>: the
  normalised form of a name, the phonetic code, the edit distance by rows, the greedy pairing of the
  words of two names, and the graded comparison of two dates of birth. The reference for the edit
  distance is the least number of single edits that lead from one string to the other.
\<close>

subsection \<open>Normalised names\<close>

text \<open>
  The NFKD form of a Latin-1 character without the combining marks, which the next replacement drops.
  The micro sign becomes a Greek letter and the fractions get a fraction slash, both outside Latin-1;
  as neither is an ASCII letter they are written as the sign itself and as a slash.
\<close>

definition nfkd_base :: "(int \<times> int \<times> string) list" where
  "nfkd_base = [(160, 160, '' ''), (168, 168, '' ''), (170, 170, ''a''), (175, 175, '' ''), (178, 178, ''2''), (179, 179, ''3''),
     (180, 180, '' ''), (184, 184, '' ''), (185, 185, ''1''), (186, 186, ''o''), (188, 188, ''1/4''), (189, 189, ''1/2''), (190, 190, ''3/4''),
     (192, 197, ''A''), (199, 199, ''C''), (200, 203, ''E''), (204, 207, ''I''), (209, 209, ''N''), (210, 214, ''O''), (217, 220, ''U''),
     (221, 221, ''Y''), (224, 229, ''a''), (231, 231, ''c''), (232, 235, ''e''), (236, 239, ''i''), (241, 241, ''n''), (242, 246, ''o''),
     (249, 252, ''u''), (253, 253, ''y''), (255, 255, ''y'')]"

definition nfkd :: "string \<Rightarrow> string" where
  "nfkd s = concat (map (\<lambda>c. case find (\<lambda>(a, b, t). a \<le> (of_char c :: int) \<and> of_char c \<le> b) nfkd_base of
     None \<Rightarrow> [c] | Some (a, b, t) \<Rightarrow> t) s)"

definition is_lower :: "char \<Rightarrow> bool" where
  "is_lower c \<longleftrightarrow> (let n = (of_char c :: int) in 97 \<le> n \<and> n \<le> 122)"

text \<open>\<open>replace(/\s+/g, ' ')\<close>: every run of white space becomes one space.\<close>

fun collapse_ws :: "string \<Rightarrow> string" where
  "collapse_ws [] = []"
| "collapse_ws [c] = (if is_ws c then '' '' else [c])"
| "collapse_ws (c # d # s) = (if is_ws c then (if is_ws d then collapse_ws (d # s) else CHR '' '' # collapse_ws (d # s))
     else c # collapse_ws (d # s))"

definition titles :: "string list" where
  "titles = [''alhaji'', ''alhaja'', ''alh'', ''chief'', ''dr'', ''doc'', ''engr'', ''engineer'',
     ''mr'', ''mrs'', ''miss'', ''ms'', ''mallam'', ''malam'', ''hon'', ''honourable'',
     ''pastor'', ''pst'', ''rev'', ''reverend'', ''prof'', ''professor'', ''barr'',
     ''barrister'', ''sir'', ''madam'', ''oba'', ''otunba'', ''prince'', ''princess'']"

definition name_tokens :: "string \<Rightarrow> string list" where
  "name_tokens raw = (let stripped = trim (collapse_ws (map (\<lambda>c. if is_lower c \<or> is_ws c then c else CHR '' '') (lower (nfkd raw))))
     in filter (\<lambda>t. t \<noteq> [] \<and> t \<notin> set titles) (split_on (CHR '' '') stripped))"

definition normalize_name :: "string option \<Rightarrow> string" where
  "normalize_name raw = (case raw of None \<Rightarrow> [] | Some s \<Rightarrow> if s = [] then [] else join '' '' (name_tokens s))"

subsection \<open>Phonetic code\<close>

text \<open>\<open>s.replace(/p/g, r)\<close> for a literal pattern of one or two letters.\<close>

fun replace1 :: "char \<Rightarrow> string \<Rightarrow> string \<Rightarrow> string" where
  "replace1 p r [] = []"
| "replace1 p r (c # s) = (if c = p then r @ replace1 p r s else c # replace1 p r s)"

fun replace2 :: "char \<Rightarrow> char \<Rightarrow> string \<Rightarrow> string \<Rightarrow> string" where
  "replace2 p q r (c # d # s) = (if c = p \<and> d = q then r @ replace2 p q r s else c # replace2 p q r (d # s))"
| "replace2 p q r s = s"

definition fold_variants :: "string \<Rightarrow> string" where
  "fold_variants t =
     replace1 (CHR ''x'') ''ks'' (replace2 (CHR ''q'') (CHR ''u'') ''k'' (replace1 (CHR ''v'') ''f'' (replace1 (CHR ''z'') ''s''
       (replace2 (CHR ''c'') (CHR ''k'') ''k'' (replace2 (CHR ''c'') (CHR ''h'') ''k'' (replace2 (CHR ''s'') (CHR ''h'') ''s''
         (replace2 (CHR ''p'') (CHR ''h'') ''f'' t)))))))"

definition sound_class :: "char \<Rightarrow> char option" where
  "sound_class c =
     (if c \<in> set ''bfpv'' then Some (CHR ''1'') else if c \<in> set ''cgjkqsxz'' then Some (CHR ''2'')
      else if c \<in> set ''dt'' then Some (CHR ''3'') else if c = CHR ''l'' then Some (CHR ''4'')
      else if c \<in> set ''mn'' then Some (CHR ''5'') else if c = CHR ''r'' then Some (CHR ''6'') else None)"

fun soundex_loop :: "string \<Rightarrow> char option \<Rightarrow> string \<Rightarrow> string" where
  "soundex_loop out prev [] = out"
| "soundex_loop out prev (c # s) =
     (if 4 \<le> length out then out
      else (let d = sound_class c;
                out' = (case d of None \<Rightarrow> out | Some x \<Rightarrow> if Some x \<noteq> prev then out @ [x] else out)
            in soundex_loop out' (if c \<noteq> CHR ''h'' \<and> c \<noteq> CHR ''w'' then d else prev) s))"

definition nigerian_soundex :: "string \<Rightarrow> string" where
  "nigerian_soundex token = (let t = filter is_lower (lower token) in
     if t = [] then []
     else (let folded = fold_variants t; first = hd folded
           in take 4 (soundex_loop (upper [first]) (sound_class first) (tl folded) @ ''000'')))"

subsection \<open>Edit distance\<close>

text \<open>
  A cell is the least of the cell above plus one, the cell to the left plus one and the diagonal cell
  plus the cost of the two characters; \<open>lev_cells\<close> runs along one row over the previous one.
\<close>

fun lev_cells :: "char \<Rightarrow> string \<Rightarrow> nat list \<Rightarrow> nat \<Rightarrow> nat list" where
  "lev_cells c (d # ds) (diag # up # prev) left =
     (let cell = min (min (up + 1) (left + 1)) (diag + (if c = d then 0 else 1)) in cell # lev_cells c ds (up # prev) cell)"
| "lev_cells c ds prev left = []"

fun lev_rows :: "string \<Rightarrow> string \<Rightarrow> nat \<Rightarrow> nat list \<Rightarrow> nat list" where
  "lev_rows [] b i prev = prev"
| "lev_rows (c # a) b i prev = lev_rows a b (Suc i) (i # lev_cells c b prev i)"

definition levenshtein :: "string \<Rightarrow> string \<Rightarrow> nat" where
  "levenshtein a b = (if a = b then 0 else if a = [] then length b else if b = [] then length a
     else lev_rows a b 1 [0..<length b + 1] ! length b)"

definition lev_sim :: "string \<Rightarrow> string \<Rightarrow> rat" where
  "lev_sim a b = (let m = max (length a) (length b) in
     if m = 0 then 1 else fsub 1 (fdiv (of_nat (levenshtein a b)) (of_nat m)))"

subsection \<open>Similarity of two names\<close>

definition clamp01 :: "rat \<Rightarrow> rat" where "clamp01 n = max 0 (min 1 n)"

definition pair_score :: "string \<Rightarrow> string \<Rightarrow> rat" where
  "pair_score s l = (let phonetic = nigerian_soundex s in
     max (max (if phonetic \<noteq> [] \<and> phonetic = nigerian_soundex l then lit 92 100 else 0) (lev_sim s l)) (if s = l then 1 else 0))"

text \<open>The best unused word of the longer name for a word of the shorter one: its score, and its index.\<close>

fun best_pair :: "string \<Rightarrow> (string \<times> bool) list \<Rightarrow> nat \<Rightarrow> rat \<times> nat option \<Rightarrow> rat \<times> nat option" where
  "best_pair s [] i best = best"
| "best_pair s ((l, used) # rest) i best =
     best_pair s rest (Suc i) (if used then best else (let x = pair_score s l in if fst best < x then (x, Some i) else best))"

fun pair_tokens :: "string list \<Rightarrow> (string \<times> bool) list \<Rightarrow> rat \<Rightarrow> rat" where
  "pair_tokens [] large total_sum = total_sum"
| "pair_tokens (s # small) large total_sum =
     (let (best, k) = best_pair s large 0 (0, None);
          large' = (case k of None \<Rightarrow> large | Some i \<Rightarrow> large[i := (fst (large ! i), True)])
      in pair_tokens small large' (fadd total_sum best))"

definition name_similarity :: "string option \<Rightarrow> string option \<Rightarrow> rat" where
  "name_similarity a b =
     (let na = normalize_name a; nb = normalize_name b in
      if na = [] \<or> nb = [] then 0 else if na = nb then 1
      else (let ta = filter (\<lambda>t. t \<noteq> []) (split_on (CHR '' '') na); tb = filter (\<lambda>t. t \<noteq> []) (split_on (CHR '' '') nb) in
        if ta = [] \<or> tb = [] then 0
        else (let (small, large) = (if length ta \<le> length tb then (ta, tb) else (tb, ta))
              in clamp01 (fdiv (pair_tokens small (map (\<lambda>t. (t, False)) large) 0) (of_nat (length large))))))"

subsection \<open>Dates of birth\<close>

type_synonym ymd = "nat \<times> nat \<times> nat"

definition valid_ymd :: "ymd \<Rightarrow> bool" where
  "valid_ymd = (\<lambda>(y, m, d). 1900 < y \<and> y < 2200 \<and> 1 \<le> m \<and> m \<le> 12 \<and> 1 \<le> d \<and> d \<le> 31)"

text \<open>One or two digits, as many as there are; and exactly \<open>n\<close> of them.\<close>

definition digits12 :: "string \<Rightarrow> (nat \<times> string) option" where
  "digits12 s = (case s of
       c # d # r \<Rightarrow> if is_digit c then (if is_digit d then Some (parse_dec [c, d], r) else Some (digit_val c, d # r)) else None
     | [c] \<Rightarrow> if is_digit c then Some (digit_val c, []) else None
     | [] \<Rightarrow> None)"

definition digits_exact :: "nat \<Rightarrow> string \<Rightarrow> (nat \<times> string) option" where
  "digits_exact n s = (if n \<le> length s \<and> all_digits (take n s) then Some (parse_dec (take n s), drop n s) else None)"

definition after_sep :: "string \<Rightarrow> string \<Rightarrow> string option" where
  "after_sep seps s = (case s of [] \<Rightarrow> None | c # r \<Rightarrow> if c \<in> set seps then Some r else None)"

text \<open>\<open>/^(\d{4})-(\d{1,2})-(\d{1,2})/\<close> and \<open>/^(\d{1,2})[/\-.](\d{1,2})[/\-.](\d{4})$/\<close>.\<close>

definition iso_ymd :: "string \<Rightarrow> ymd option" where
  "iso_ymd s = (case digits_exact 4 s of None \<Rightarrow> None | Some (y, r1) \<Rightarrow>
     case after_sep ''-'' r1 of None \<Rightarrow> None | Some r2 \<Rightarrow>
     case digits12 r2 of None \<Rightarrow> None | Some (m, r3) \<Rightarrow>
     case after_sep ''-'' r3 of None \<Rightarrow> None | Some r4 \<Rightarrow>
     case digits12 r4 of None \<Rightarrow> None | Some (d, r5) \<Rightarrow> Some (y, m, d))"

definition dmy_ymd :: "string \<Rightarrow> ymd option" where
  "dmy_ymd s = (case digits12 s of None \<Rightarrow> None | Some (d, r1) \<Rightarrow>
     case after_sep ''/-.'' r1 of None \<Rightarrow> None | Some r2 \<Rightarrow>
     case digits12 r2 of None \<Rightarrow> None | Some (m, r3) \<Rightarrow>
     case after_sep ''/-.'' r3 of None \<Rightarrow> None | Some r4 \<Rightarrow>
     case digits_exact 4 r4 of None \<Rightarrow> None | Some (y, r5) \<Rightarrow> if r5 = [] then Some (y, m, d) else None)"

definition parse_dob :: "string option \<Rightarrow> ymd option" where
  "parse_dob raw = (if \<not> truthy raw then None
     else (let s = trim (the raw) in
       case iso_ymd s of Some x \<Rightarrow> if valid_ymd x then Some x else None
       | None \<Rightarrow> (case dmy_ymd s of Some x \<Rightarrow> if valid_ymd x then Some x else None | None \<Rightarrow> None)))"

definition near :: "nat \<Rightarrow> nat \<Rightarrow> bool" where "near a b \<longleftrightarrow> a = b + 1 \<or> b = a + 1"

definition dob_similarity :: "string option \<Rightarrow> string option \<Rightarrow> rat" where
  "dob_similarity a b = (case (parse_dob a, parse_dob b) of
     (Some (y, m, d), Some (y', m', d')) \<Rightarrow>
       (if y = y' \<and> m = m' \<and> d = d' then 1
        else if y = y' \<and> m = d' \<and> d = m' then lit 85 100
        else if y = y' \<and> m = m' \<and> near d d' then lit 8 10
        else if y = y' \<and> m = m' then lit 7 10
        else if y = y' then lit 5 10
        else if near y y' \<and> m = m' \<and> d = d' then lit 4 10
        else 0)
   | _ \<Rightarrow> 0)"

subsection \<open>The edit distance\<close>

text \<open>One edit: a character dropped, inserted or replaced anywhere in the string.\<close>

inductive edit :: "string \<Rightarrow> string \<Rightarrow> bool" where
  drop_char: "edit (x # xs) xs"
| insert_char: "edit xs (x # xs)"
| replace_char: "edit (x # xs) (y # xs)"
| later: "edit xs ys \<Longrightarrow> edit (x # xs) (x # ys)"

definition edits :: "nat \<Rightarrow> string \<Rightarrow> string \<Rightarrow> bool" where "edits n s t \<longleftrightarrow> (edit ^^ n) s t"

text \<open>The least number of edits as an optimum over alignments.\<close>

fun align :: "string \<Rightarrow> string \<Rightarrow> nat" where
  "align [] ys = length ys"
| "align xs [] = length xs"
| "align (x # xs) (y # ys) = min (min (align xs (y # ys) + 1) (align (x # xs) ys + 1)) (align xs ys + (if x = y then 0 else 1))"

lemma align_Nil2 [simp]: "align xs [] = length xs" by (cases xs) simp_all

lemma edits_0: "edits 0 s s" by (simp add: edits_def)

lemma edits_step: "edit s t \<Longrightarrow> edits n t u \<Longrightarrow> edits (Suc n) s u"
  unfolding edits_def by (rule relpowp_Suc_I2)

lemma edits_1: "edit s t \<Longrightarrow> edits 1 s t"
  using edits_step edits_0 by fastforce

lemma edits_trans: "edits m s t \<Longrightarrow> edits n t u \<Longrightarrow> edits (m + n) s u"
  unfolding edits_def by (auto simp: relpowp_add)

lemma edits_Cons: "edits n s t \<Longrightarrow> edits n (x # s) (x # t)"
proof (induction n arbitrary: s)
  case 0
  then show ?case by (simp add: edits_def)
next
  case (Suc n)
  then obtain u where "edit s u" "edits n u t" unfolding edits_def by (meson relpowp_Suc_E2)
  then show ?case using Suc.IH later edits_step by blast
qed

lemma edits_insert_all: "edits (length ys) [] ys"
proof (induction ys)
  case (Cons y ys)
  from edits_trans [OF Cons edits_1 [OF insert_char]] show ?case by simp
qed (simp add: edits_0)

lemma edits_drop_all: "edits (length xs) xs []"
  by (induction xs) (auto intro: edits_0 edits_step drop_char)

lemma align_reached: "edits (align xs ys) xs ys"
proof (induction xs ys rule: align.induct)
  case (3 x xs y ys)
  have a: "edits (align xs (y # ys) + 1) (x # xs) (y # ys)"
    using edits_step [OF drop_char 3(1)] by simp
  have "edits (align (x # xs) ys + 1) (x # xs) (y # ys)"
    by (rule edits_trans [OF 3(2) edits_1 [OF insert_char]])
  moreover have "edits (align xs ys + (if x = y then 0 else 1)) (x # xs) (y # ys)"
    using edits_Cons [OF 3(3), of y] edits_step [OF replace_char [of x xs y] edits_Cons [OF 3(3), of y]] by auto
  ultimately show ?case using a by (simp add: min_def)
qed (simp_all only: align.simps edits_insert_all edits_drop_all)

lemma align_same [simp]: "align xs xs = 0" by (induction xs) simp_all

lemma align_insert: "align xs ys \<le> Suc (align (x # xs) ys)" and align_drop: "align (x # xs) ys \<le> Suc (align xs ys)"
proof -
  show "align (x # xs) ys \<le> Suc (align xs ys)" for x xs ys by (cases ys) auto
  show "align xs ys \<le> Suc (align (x # xs) ys)" for x xs ys
  proof (induction ys arbitrary: xs x)
    case (Cons y ys)
    have "align xs (y # ys) \<le> Suc (align xs ys)" by (cases xs) auto
    moreover have "align xs (y # ys) \<le> Suc (Suc (align (x # xs) ys))"
      using Cons [of xs x] calculation by simp
    ultimately show ?case by auto
  qed simp
qed

lemma align_step: "edit s s' \<Longrightarrow> align s t \<le> Suc (align s' t)"
proof (induction s s' arbitrary: t rule: edit.induct)
  case (drop_char x xs)
  show ?case by (rule align_drop)
next
  case (insert_char xs x)
  show ?case by (rule align_insert)
next
  case (replace_char x xs y)
  show ?case
  proof (induction t)
    case (Cons z t)
    then show ?case by auto
  qed simp
next
  case (later xs ys x)
  show ?case
  proof (induction t)
    case Nil
    show ?case using later.IH [of "[]"] by simp
  next
    case (Cons z t)
    then show ?case using later.IH [of "z # t"] later.IH [of t] by auto
  qed
qed

lemma align_least: "edits n s t \<Longrightarrow> align s t \<le> n"
proof (induction n arbitrary: s)
  case 0
  then show ?case by (simp add: edits_def)
next
  case (Suc n)
  then obtain u where "edit s u" "edits n u t" unfolding edits_def by (meson relpowp_Suc_E2)
  then show ?case using Suc.IH [of u] align_step [of s u t] by simp
qed

lemma edit_append: "edit s t \<Longrightarrow> edit (s @ z) (t @ z)"
  by (induction s t rule: edit.induct) (auto intro: edit.intros)

lemma edit_prepend: "edit s t \<Longrightarrow> edit (z @ s) (z @ t)"
  by (induction z) (auto intro: edit.intros)

lemma edit_rev: "edit s t \<Longrightarrow> edit (rev s) (rev t)"
proof (induction s t rule: edit.induct)
  case (drop_char x xs)
  show ?case using edit_prepend [OF edit.drop_char [of x "[]"], of "rev xs"] by simp
next
  case (insert_char xs x)
  show ?case using edit_prepend [OF edit.insert_char [of "[]" x], of "rev xs"] by simp
next
  case (replace_char x xs y)
  show ?case using edit_prepend [OF edit.replace_char [of x "[]" y], of "rev xs"] by simp
next
  case (later xs ys x)
  then show ?case by (simp add: edit_append)
qed

lemma edits_rev: "edits n s t \<Longrightarrow> edits n (rev s) (rev t)"
proof (induction n arbitrary: s)
  case (Suc n)
  then obtain u where "edit s u" "edits n u t" unfolding edits_def by (meson relpowp_Suc_E2)
  then show ?case using Suc.IH edit_rev edits_step by blast
qed (simp add: edits_def)

lemma align_rev: "align (rev xs) (rev ys) = align xs ys"
proof (rule antisym)
  show "align (rev xs) (rev ys) \<le> align xs ys" by (rule align_least [OF edits_rev [OF align_reached]])
  show "align xs ys \<le> align (rev xs) (rev ys)"
    using align_least [OF edits_rev [OF align_reached [of "rev xs" "rev ys"]]] by simp
qed

lemma align_snoc: "align (xs @ [x]) (ys @ [y]) =
    min (min (align xs (ys @ [y]) + 1) (align (xs @ [x]) ys + 1)) (align xs ys + (if x = y then 0 else 1))"
  using align_rev [of "xs @ [x]" "ys @ [y]"] align_rev [of xs "ys @ [y]"] align_rev [of "xs @ [x]" ys] align_rev [of xs ys]
  by simp

text \<open>A row holds the distances from one prefix of the first string to all prefixes of the second.\<close>

definition row_of :: "string \<Rightarrow> string \<Rightarrow> string \<Rightarrow> nat list" where
  "row_of a done_b b = map (\<lambda>k. align a (done_b @ take k b)) [0..<length b + 1]"

lemma row_of_Cons: "row_of a p (d # b) = align a p # row_of a (p @ [d]) b"
  by (simp add: row_of_def upt_conv_Cons map_Suc_upt [symmetric] del: upt_Suc)

lemma lev_cells_row: "lev_cells c b (row_of a p b) (align (a @ [c]) p) = tl (row_of (a @ [c]) p b)"
proof (induction b arbitrary: p)
  case Nil
  show ?case by (simp add: row_of_def)
next
  case (Cons d b)
  obtain up prev where r: "row_of a (p @ [d]) b = up # prev" "up = align a (p @ [d])"
    by (cases "row_of a (p @ [d]) b") (auto simp: row_of_def upt_conv_Cons simp del: upt_Suc)
  obtain cell rest where r': "row_of (a @ [c]) (p @ [d]) b = cell # rest" "cell = align (a @ [c]) (p @ [d])"
    by (cases "row_of (a @ [c]) (p @ [d]) b") (auto simp: row_of_def upt_conv_Cons simp del: upt_Suc)
  have "cell = min (min (up + 1) (align (a @ [c]) p + 1)) (align a p + (if c = d then 0 else 1))"
    by (simp add: r r' align_snoc)
  then show ?case using Cons [of "p @ [d]"] r r' by (simp add: row_of_Cons Let_def)
qed

lemma lev_rows_row: "lev_rows a b (Suc (length p)) (row_of p [] b) = row_of (p @ a) [] b"
proof (induction a arbitrary: p)
  case (Cons c a)
  have "Suc (length p) # lev_cells c b (row_of p [] b) (Suc (length p)) = row_of (p @ [c]) [] b"
    using lev_cells_row [of c b p "[]"]
    by (cases "row_of (p @ [c]) [] b") (auto simp: row_of_def upt_conv_Cons simp del: upt_Suc)
  then show ?case using Cons [of "p @ [c]"] by simp
qed simp

lemma levenshtein_align: "levenshtein a b = align a b"
proof -
  have "[0..<length b + 1] = row_of [] [] b" unfolding row_of_def by (rule nth_equalityI) (auto simp: nth_append simp del: upt_Suc)
  moreover have "row_of a [] b ! length b = align a b" by (simp add: row_of_def del: upt_Suc)
  ultimately show ?thesis using lev_rows_row [of a b "[]"] by (simp add: levenshtein_def)
qed

text \<open>
  C15. The row-by-row computation of the edit distance is right: from the first string the second is
  reached in exactly that many single edits (a character dropped, inserted or replaced), and in no smaller
  number.
\<close>

theorem levenshtein_is_edit_distance: "edits (levenshtein a b) a b \<and> levenshtein a b = (LEAST n. edits n a b)"
proof
  show r: "edits (levenshtein a b) a b" by (simp add: levenshtein_align align_reached)
  show "levenshtein a b = (LEAST n. edits n a b)"
    by (rule Least_equality [symmetric]) (use r in \<open>auto simp: levenshtein_align align_least\<close>)
qed

subsection \<open>The similarity depends on the order\<close>

lemma omar_names:
  "normalize_name (Some ''Omar Bala'') = ''omar bala''" "normalize_name (Some ''Ola Omar'') = ''ola omar''"
  "normalize_name (Some ''omar bala'') = ''omar bala''" "normalize_name (Some ''ola omar'') = ''ola omar''"
  "filter (\<lambda>t. t \<noteq> []) (split_on (CHR '' '') ''omar bala'') = [''omar'', ''bala'']"
  "filter (\<lambda>t. t \<noteq> []) (split_on (CHR '' '') ''ola omar'') = [''ola'', ''omar'']"
  by code_simp+

lemma omar_pairs:
  "pair_score ''omar'' ''ola'' = 1/2" "pair_score ''omar'' ''omar'' = 1" "pair_score ''bala'' ''ola'' = 1/2"
  "pair_score ''ola'' ''omar'' = 1/2" "pair_score ''ola'' ''bala'' = 1/2" "pair_score ''omar'' ''bala'' = 0"
  by code_simp+

lemma small_sums:
  "fadd 0 1 = 1" "fadd 1 (1/2) = 3/2" "fdiv (3/2) 2 = 3/4" "fadd 0 (1/2) = 1/2" "fadd (1/2) 0 = 1/2" "fdiv (1/2) 2 = 1/4"
  by code_simp+

text \<open>The first word of the first name takes its partner away from the second, so swapping the names changes the result.\<close>

lemma omar_similarity:
  "name_similarity (Some ''omar bala'') (Some ''ola omar'') = 3/4" "name_similarity (Some ''ola omar'') (Some ''omar bala'') = 1/4"
  unfolding name_similarity_def omar_names Let_def by (simp_all add: omar_pairs small_sums clamp01_def Let_def)

end
