(* ===== verification/AgentProfiles.thy ===== *)
theory AgentProfiles
  imports Scan NameMatch
begin

text \<open>
  What the analytics agents work on: the profile of a taxpayer for a year
  (\<open>backend/src/modules/agents/agent.types.ts\<close>, built in \<open>agents.service.ts\<close>), the bands of severity, and
  the medians of the cohort (\<open>benchmarking.service.ts\<close>). The date of birth, the state of residence and
  the payload of a profile are left out, as no agent reads them.
\<close>

subsection \<open>Square roots\<close>

text \<open>\<open>Math.sqrt\<close> is the double nearest to the root: 53 significant bits are found one by one, then rounded.\<close>

primrec sqrt_search :: "int \<Rightarrow> nat \<Rightarrow> int \<Rightarrow> int" where
  "sqrt_search n 0 r = r"
| "sqrt_search n (Suc k) r = sqrt_search n k (if (r + 2 ^ k) ^ 2 \<le> n then r + 2 ^ k else r)"

definition fsqrt :: "rat \<Rightarrow> rat" where
  "fsqrt x = (if x \<le> 0 then 0
     else (let e = binade x div 2 - 52; q = x / pow2 (2 * e); s = sqrt_search \<lfloor>q\<rfloor> 54 0
           in of_int (if q \<le> (of_int s + 1/2) ^ 2 then s else s + 1) * pow2 e))"

subsection \<open>Profiles\<close>

datatype band_severity = SevLow | SevMedium | SevHigh

definition severity_for :: "rat \<Rightarrow> band_severity" where
  "severity_for score = (if lit 66 100 \<le> score then SevHigh else if lit 33 100 \<le> score then SevMedium else SevLow)"

record profile_record =
  pr_provider :: string
  pr_provider_type :: string
  pr_period_label :: string
  pr_period_year :: nat
  pr_inflow :: rat
  pr_outflow :: rat
  pr_opening :: rat
  pr_closing :: rat
  pr_has_balances :: bool
  pr_transactions :: int
  pr_confidence :: "rat option"
  pr_account_name :: "string option"
  pr_provider_name :: "string option"
  pr_account_number :: "string option"
  pr_bvn :: "string option"

record profile =
  pf_taxpayer :: string
  pf_type :: taxpayer_type
  pf_year :: nat
  pf_first_name :: "string option"
  pf_last_name :: "string option"
  pf_business_name :: "string option"
  pf_sector :: "string option"
  pf_records :: "profile_record list"
  pf_inflow :: rat
  pf_outflow :: rat
  pf_transactions :: int
  pf_providers :: nat
  pf_declared :: rat
  pf_has_declaration :: bool

text \<open>\<open>Number(d ?? 0)\<close> of a decimal column.\<close>

definition num_of :: "jsnum option \<Rightarrow> rat" where
  "num_of d = (case stored_amount d of None \<Rightarrow> 0 | Some x \<Rightarrow> fl x)"

definition profile_record_of :: "(string \<Rightarrow> string option) \<Rightarrow> scored_record \<Rightarrow> profile_record" where
  "profile_record_of provider_name r = \<lparr>pr_provider = d_provider r, pr_provider_type = d_provider_type r,
     pr_period_label = d_period_label r, pr_period_year = d_period_year r,
     pr_inflow = num_of (d_total_inflow r), pr_outflow = num_of (d_total_outflow r),
     pr_opening = num_of (d_opening_balance r), pr_closing = num_of (d_closing_balance r),
     pr_has_balances = (stored_amount (d_opening_balance r) \<noteq> None \<or> stored_amount (d_closing_balance r) \<noteq> None),
     pr_transactions = (case d_transaction_count r of None \<Rightarrow> 0 | Some n \<Rightarrow> n),
     pr_confidence = map_option fl (d_match_confidence r), pr_account_name = d_account_name r,
     pr_provider_name = provider_name (d_provider r), pr_account_number = d_account_number r, pr_bvn = d_bvn r\<rparr>"

definition fsum :: "rat list \<Rightarrow> rat" where "fsum xs = foldl fadd 0 xs"

definition profile_of :: "(string \<Rightarrow> string option) \<Rightarrow> nat \<Rightarrow> tax_db \<Rightarrow> person \<Rightarrow> profile" where
  "profile_of provider_name year st p =
     (let recs = filter (\<lambda>r. d_period_year r = year \<and> d_taxpayer r = Some (tp_id p)) (td_records st);
          row = map_of (td_declared st) (tp_id p, year)
      in \<lparr>pf_taxpayer = tp_id p, pf_type = tx_type p, pf_year = year, pf_first_name = tp_first_name p,
          pf_last_name = tp_last_name p, pf_business_name = tp_business_name p, pf_sector = tp_sector p,
          pf_records = map (profile_record_of provider_name) recs,
          pf_inflow = fsum (map (\<lambda>r. num_of (d_total_inflow r)) recs),
          pf_outflow = fsum (map (\<lambda>r. num_of (d_total_outflow r)) recs),
          pf_transactions = sum_list (map (\<lambda>r. case d_transaction_count r of None \<Rightarrow> 0 | Some n \<Rightarrow> n) recs),
          pf_providers = length (remdups (map d_provider recs)),
          pf_declared = (case row of Some (Some x) \<Rightarrow> fl x | _ \<Rightarrow> 0), pf_has_declaration = (row \<noteq> None)\<rparr>)"

text \<open>The profiles of a year: the reportable taxpayers that have a record in it.\<close>

definition build_profiles :: "(string \<Rightarrow> string option) \<Rightarrow> string list \<Rightarrow> nat \<Rightarrow> tax_db \<Rightarrow> profile list" where
  "build_profiles provider_name ids year st = map (profile_of provider_name year st)
     (filter (\<lambda>p. tp_id p \<in> set ids \<and> list_ex (\<lambda>r. d_period_year r = year \<and> d_taxpayer r = Some (tp_id p)) (td_records st)) (td_people st))"

subsection \<open>Benchmarks\<close>

datatype turnover_band = Under5m | Band5to50m | Band50to200m | Over200m

definition band :: "rat \<Rightarrow> turnover_band" where
  "band inflow = (if inflow < 5000000 then Under5m else if inflow < 50000000 then Band5to50m
     else if inflow < 200000000 then Band50to200m else Over200m)"

definition median :: "rat list \<Rightarrow> rat" where
  "median values = (if values = [] then 0
     else (let s = sort values; mid = length s div 2 in
       if odd (length s) then s ! mid else fdiv (fadd (s ! (mid - 1)) (s ! mid)) 2))"

text \<open>The groups of the two maps, in the order of the profiles; a group that does not exist has no median.\<close>

definition median_for_band :: "profile list \<Rightarrow> taxpayer_type \<Rightarrow> rat \<Rightarrow> rat" where
  "median_for_band profiles ty inflow =
     (let group = filter (\<lambda>p. pf_type p = ty \<and> band (pf_inflow p) = band inflow) profiles
      in if group = [] then 0 else median (map pf_inflow group))"

definition median_for_sector :: "profile list \<Rightarrow> string \<Rightarrow> rat option" where
  "median_for_sector profiles sector =
     (let group = filter (\<lambda>p. truthy (pf_sector p) \<and> pf_sector p = Some sector) profiles
      in if group = [] then None else Some (median (map pf_inflow group)))"

record agent_context =
  ac_median_band :: "taxpayer_type \<Rightarrow> rat \<Rightarrow> rat"
  ac_median_sector :: "string \<Rightarrow> rat option"
  ac_threshold :: "taxpayer_type \<Rightarrow> rat"

definition context_of :: "stat_config \<Rightarrow> profile list \<Rightarrow> agent_context" where
  "context_of cfg profiles = \<lparr>ac_median_band = median_for_band profiles, ac_median_sector = median_for_sector profiles,
     ac_threshold = (\<lambda>ty. case ty of Individual \<Rightarrow> sc_value cfg ReportingThresholdIndividual
       | Corporate \<Rightarrow> sc_value cfg ReportingThresholdCorporate | Government \<Rightarrow> sc_value cfg ReportingThresholdCorporate)\<rparr>"

subsection \<open>The root is the nearest double\<close>

lemma sqrt_search_bounds:
  "0 \<le> r \<Longrightarrow> r ^ 2 \<le> n \<Longrightarrow> n < (r + 2 ^ k) ^ 2 \<Longrightarrow>
    0 \<le> sqrt_search n k r \<and> (sqrt_search n k r) ^ 2 \<le> n \<and> n < (sqrt_search n k r + 1) ^ 2"
proof (induction k arbitrary: r)
  case (Suc k)
  have d: "r + 2 ^ Suc k = r + 2 ^ k + 2 ^ k" by simp
  show ?case using Suc.IH [of "r + 2 ^ k"] Suc.IH [of r] Suc.prems unfolding d by (simp add: not_le)
qed simp

text \<open>Half a unit of the last place on either side of the result encloses the exact root.\<close>

lemma fsqrt_nearest:
  assumes "0 < x"
  shows "let u = pow2 (binade x div 2 - 52) in (fsqrt x - u / 2) ^ 2 \<le> x \<and> x \<le> (fsqrt x + u / 2) ^ 2 \<and> u \<le> fsqrt x"
proof -
  define e where "e = binade x div 2 - 52"
  define u where "u = pow2 e"
  define q where "q = x / pow2 (2 * e)"
  define s where "s = sqrt_search \<lfloor>q\<rfloor> 54 0"
  define m where "m = (if q \<le> (of_int s + 1/2) ^ 2 then s else s + 1)"
  have u2: "pow2 (2 * e) = u ^ 2" unfolding u_def power2_eq_square mult_2 by (rule pow2_add)
  have u0: "0 < u" by (simp add: u_def)
  have b: "pow2 (binade x) \<le> x" "x < pow2 (binade x + 1)" using binade_bounds [OF assms] by auto
  have "2 * e + 104 \<le> binade x" "binade x + 1 \<le> 2 * e + 106" unfolding e_def by presburger+
  then have "pow2 (2 * e + 104) \<le> x" "x < pow2 (2 * e + 106)"
    using b pow2_mono [of "2 * e + 104" "binade x"] pow2_mono [of "binade x + 1" "2 * e + 106"] by linarith+
  then have q: "2 ^ 104 \<le> q" "q < 2 ^ 106"
    by (simp_all add: q_def pow2_add field_simps pow2_nat)
  then have n: "(0::int) ^ 2 \<le> \<lfloor>q\<rfloor>" "\<lfloor>q\<rfloor> < (0 + 2 ^ 54) ^ 2"
    by (simp_all add: floor_less_iff)
  have sb: "0 \<le> s" "s ^ 2 \<le> \<lfloor>q\<rfloor>" "\<lfloor>q\<rfloor> < (s + 1) ^ 2" using sqrt_search_bounds [OF order_refl n] by (simp_all add: s_def)
  have lo: "of_int s ^ 2 \<le> q" using sb(2) by (metis le_floor_iff of_int_power)
  have hi: "q < (of_int s + 1) ^ 2" using sb(3) by (metis floor_less_iff of_int_1 of_int_add of_int_power)
  have s1: "1 \<le> s"
  proof (rule ccontr)
    assume "\<not> 1 \<le> s"
    then have "s = 0" using sb(1) by simp
    then show False using hi q by simp
  qed
  have m: "(of_int m - 1/2) ^ 2 \<le> q \<and> q \<le> (of_int m + 1/2) ^ 2"
  proof (cases "q \<le> (of_int s + 1/2) ^ 2")
    case True
    have "(of_int s - 1/2 :: rat) ^ 2 \<le> of_int s ^ 2" using s1 by (intro power_mono) simp_all
    with True lo show ?thesis by (simp add: m_def)
  next
    case False
    then have mm: "of_int m - 1/2 = (of_int s + 1/2 :: rat)" "of_int m + 1/2 = (of_int s + 3/2 :: rat)" by (simp_all add: m_def)
    have "(of_int s + 1 :: rat) ^ 2 \<le> (of_int s + 3/2) ^ 2" using s1 by (intro power_mono) simp_all
    with hi have "q \<le> (of_int s + 3/2) ^ 2" by (rule order_trans [OF less_imp_le])
    with False show ?thesis unfolding mm by simp
  qed
  have f: "fsqrt x = of_int m * u" using assms by (simp add: fsqrt_def Let_def m_def s_def q_def u_def e_def)
  have x: "x = q * u ^ 2" using u0 by (simp add: q_def u2)
  have "(fsqrt x - u / 2) ^ 2 = (of_int m - 1/2) ^ 2 * u ^ 2" "(fsqrt x + u / 2) ^ 2 = (of_int m + 1/2) ^ 2 * u ^ 2"
    by (simp_all add: f power2_eq_square algebra_simps)
  moreover have "u \<le> fsqrt x" using s1 u0 by (simp add: f m_def)
  moreover have "(of_int m - 1/2) ^ 2 * u ^ 2 \<le> q * u ^ 2" "q * u ^ 2 \<le> (of_int m + 1/2) ^ 2 * u ^ 2"
    using m by (simp_all add: mult_right_mono)
  ultimately show ?thesis unfolding Let_def e_def [symmetric] u_def [symmetric] using x by simp
qed

end
