(* ===== verification/Agents.thy ===== *)
theory Agents
  imports AgentProfiles
begin

text \<open>
  The analytics agents of \<open>backend/src/modules/agents/implementations/\<close>: matching of identities,
  detection of patterns, classification of sectors, behaviour over the year, and compliance. An agent is
  a function of a profile and the context of the cohort. The texts of a summary are constructors that
  carry the figures they print; the details object, which repeats rounded intermediate figures, is left
  out. \<open>Math.log10\<close> is a parameter: the language leaves its precision to the implementation.
\<close>

subsection \<open>Signals\<close>

datatype inferred_sector = ProfessionalServices | Trading | RealEstate | Hospitality | Construction | Tech | OtherSector

datatype behaviour_part =
    RisingPart bool bool rat rat rat
  | NewProviderPart string rat
  | IrregularPart rat
  | PassThroughPart
  | MildPart nat

datatype priority_rationale = HighPriority | PursueWithEnforcement | EasyWin | LowPriority

datatype agent_summary =
    PatternSummary "(nat \<times> rat) option" "rat option"
  | MatchUnavailable
  | MatchShared nat "string list"
  | MatchNameOnly rat
  | MatchModerate rat nat nat
  | MatchStrong rat nat
  | SectorSummary inferred_sector rat rat bool rat rat "rat option" bool
  | BehaviourSummary string "behaviour_part list"
  | PredictiveSummary taxpayer_type rat int priority_rationale bool bool


record agent_signal =
  sg_key :: string
  sg_score :: rat
  sg_severity :: band_severity
  sg_summary :: agent_summary

definition signal :: "string \<Rightarrow> rat \<Rightarrow> agent_summary \<Rightarrow> agent_signal" where
  "signal key score summary = \<lparr>sg_key = key, sg_score = score, sg_severity = severity_for score, sg_summary = summary\<rparr>"

text \<open>\<open>clamp01(a / b)\<close>: division by zero gives an infinity or not-a-number, which the clamp maps to 1 or 0.\<close>

definition clamp_div :: "rat \<Rightarrow> rat \<Rightarrow> rat" where
  "clamp_div a b = (if b = 0 then (if 0 < a then 1 else 0) else clamp01 (fdiv a b))"

definition or_blank :: "string option \<Rightarrow> string" where
  "or_blank s = (case s of None \<Rightarrow> [] | Some t \<Rightarrow> t)"

subsection \<open>Matching\<close>

definition account_key :: "profile_record \<Rightarrow> string" where
  "account_key r = upper (trim (if truthy (pr_account_number r) then or_blank (pr_account_number r) else or_blank (pr_account_name r)))"

definition distinct_accounts :: "profile_record list \<Rightarrow> nat" where
  "distinct_accounts rs = (let n = length (remdups (filter (\<lambda>k. k \<noteq> []) (map account_key rs))) in if n = 0 then 1 else n)"

definition weight_of :: "profile_record \<Rightarrow> rat" where "weight_of r = of_int (max 0 (pr_transactions r))"

definition clamped_confidence :: "profile_record \<Rightarrow> rat" where
  "clamped_confidence r = (case pr_confidence r of None \<Rightarrow> 0 | Some c \<Rightarrow> clamp01 c)"

definition has_confidence :: "profile_record \<Rightarrow> bool" where "has_confidence r \<longleftrightarrow> pr_confidence r \<noteq> None"

definition average_confidence :: "profile_record list \<Rightarrow> rat" where
  "average_confidence scored = (let total_weight = fsum (map weight_of scored) in
     if 0 < total_weight then fdiv (fsum (map (\<lambda>r. fmul (clamped_confidence r) (weight_of r)) scored)) total_weight
     else fdiv (fsum (map clamped_confidence scored)) (of_nat (length scored)))"

text \<open>The names under each BVN, both in the order of their first appearance.\<close>

fun add_name :: "string \<Rightarrow> string \<Rightarrow> (string \<times> string list) list \<Rightarrow> (string \<times> string list) list" where
  "add_name bvn nm [] = [(bvn, [nm])]"
| "add_name bvn nm ((b, ns) # rest) =
     (if b = bvn then (b, if nm \<in> set ns then ns else ns @ [nm]) # rest else (b, ns) # add_name bvn nm rest)"

fun names_by_bvn :: "profile_record list \<Rightarrow> (string \<times> string list) list \<Rightarrow> (string \<times> string list) list" where
  "names_by_bvn [] acc = acc"
| "names_by_bvn (r # rs) acc =
     (let bvn = trim (or_blank (pr_bvn r)); nm = normalize_name (pr_account_name r)
      in names_by_bvn rs (if bvn = [] \<or> nm = [] then acc else add_name bvn nm acc))"

fun some_distinct :: "string list \<Rightarrow> bool" where
  "some_distinct [] = False"
| "some_distinct (n # ns) = (list_ex (\<lambda>k. name_similarity (Some n) (Some k) < lit 7 10) ns \<or> some_distinct ns)"

definition shared_bvn_conflicts :: "profile_record list \<Rightarrow> (string \<times> string list) list" where
  "shared_bvn_conflicts rs = filter (\<lambda>(b, ns). 2 \<le> length ns \<and> some_distinct ns) (names_by_bvn rs [])"

definition matching_summary :: "rat \<Rightarrow> profile_record list \<Rightarrow> profile_record list \<Rightarrow> agent_summary" where
  "matching_summary avg records scored =
     (case shared_bvn_conflicts records of (b, ns) # others \<Rightarrow> MatchShared (length ns) (map upper (take 2 ns))
      | [] \<Rightarrow> if avg < lit 66 100 then MatchNameOnly avg
          else if avg < lit 9 10 then MatchModerate avg (length (filter (\<lambda>r. clamped_confidence r < lit 66 100) scored)) (distinct_accounts records)
          else MatchStrong avg (distinct_accounts records))"

definition analyze_matching :: "profile \<Rightarrow> agent_signal option" where
  "analyze_matching p = (let records = pf_records p; scored = filter has_confidence records in
     if scored = [] then (if records = [] then None else Some (signal ''matching'' (lit 1 2) MatchUnavailable))
     else (let avg = average_confidence scored; base = clamp01 (fsub 1 avg);
               score = (if shared_bvn_conflicts records \<noteq> [] then max base (lit 8 10) else base)
           in Some (signal ''matching'' score (matching_summary avg records scored))))"

subsection \<open>Patterns\<close>

definition structuring_proximity :: "rat \<Rightarrow> rat \<Rightarrow> rat" where
  "structuring_proximity value threshold =
     (if \<not> 0 < value \<or> \<not> 0 < threshold then 0
      else if threshold \<le> value then 0
      else (let band_start = fmul threshold (fsub 1 (lit 5 100)) in
        if value < band_start then 0 else clamp_div (fsub value band_start) (fsub threshold band_start)))"

definition round_bases :: "rat list" where
  "round_bases = [1000000, 5000000, 10000000, 25000000, 50000000, 100000000]"

definition is_round_multiple :: "rat \<Rightarrow> rat \<Rightarrow> bool" where
  "is_round_multiple value base = (if \<not> 0 < value \<or> \<not> 0 < base \<or> value < base then False
     else (let ratio = fdiv value base; nearest = \<lfloor>ratio + 1/2\<rfloor> in
       if nearest < 1 then False else \<bar>fsub ratio (of_int nearest)\<bar> \<le> lit 5 1000))"

definition roundness_base :: "rat \<Rightarrow> rat" where
  "roundness_base value = foldl (\<lambda>best base. if is_round_multiple value base \<and> best < base then base else best) 0 round_bases"

definition structuring_hits :: "rat \<Rightarrow> profile_record list \<Rightarrow> rat list" where
  "structuring_hits threshold rs = filter (\<lambda>x. 0 < x) (map (\<lambda>r. structuring_proximity (pr_inflow r) threshold)
     (filter (\<lambda>r. \<not> pr_inflow r < fmul threshold (lit 1 2)) rs))"

text \<open>A bonus for every hit after the first, up to a cap.\<close>

definition hit_bonus :: "rat \<Rightarrow> rat \<Rightarrow> nat \<Rightarrow> rat" where
  "hit_bonus step cap n = (if 1 < n then min cap (fmul step (of_nat (n - 1))) else 0)"

definition structuring_score :: "rat \<Rightarrow> profile \<Rightarrow> rat" where
  "structuring_score threshold p =
     (let hits = structuring_hits threshold (pf_records p);
          peak = max (foldl max 0 hits) (structuring_proximity (pf_inflow p) threshold)
      in clamp01 (fadd (fmul peak (lit 85 100)) (hit_bonus (lit 1 10) (lit 2 10) (length hits))))"

definition round_hits :: "profile_record list \<Rightarrow> (rat \<times> rat) list" where
  "round_hits rs = filter (\<lambda>(inflow, base). 0 < base) (map (\<lambda>r. (pr_inflow r, roundness_base (pr_inflow r))) rs)"

definition round_strength :: "rat \<Rightarrow> rat \<times> rat \<Rightarrow> rat" where
  "round_strength threshold = (\<lambda>(inflow, base).
     fadd (lit 3 10) (fmul (fmul (lit 7 10) (fdiv base 100000000)) (fadd (lit 1 2) (fmul (lit 1 2) (clamp_div inflow threshold)))))"

definition round_score :: "rat \<Rightarrow> profile \<Rightarrow> rat" where
  "round_score threshold p =
     (let hits = round_hits (pf_records p); base = roundness_base (pf_inflow p);
          record_strength = foldl (\<lambda>m h. max m (round_strength threshold h)) 0 hits;
          total_strength = (if 0 < base then round_strength threshold (pf_inflow p, base) else 0)
      in clamp01 (fadd (max record_strength total_strength) (hit_bonus (lit 75 1000) (lit 15 100) (length hits))))"

definition pattern_summary :: "rat \<Rightarrow> profile \<Rightarrow> agent_summary" where
  "pattern_summary threshold p =
     (let n = length (structuring_hits threshold (pf_records p));
          hits = (if n = 0 then if 0 < structuring_proximity (pf_inflow p) threshold then 1 else 0 else n)
      in PatternSummary (if 0 < structuring_score threshold p then Some (hits, threshold) else None)
        (if 0 < round_score threshold p
         then Some (foldl max 0 (roundness_base (pf_inflow p) # map snd (round_hits (pf_records p)))) else None))"

definition analyze_pattern :: "agent_context \<Rightarrow> profile \<Rightarrow> agent_signal option" where
  "analyze_pattern ctx p =
     (let threshold = ac_threshold ctx (pf_type p); s = structuring_score threshold p; r = round_score threshold p;
          score = clamp01 (fadd (max s r) (fmul (min s r) (lit 1 4)))
      in if score \<le> 0 then None else Some (signal ''pattern'' score (pattern_summary threshold p)))"

subsection \<open>Sectors\<close>

definition sector_keywords :: "(inferred_sector \<times> string list) list" where
  "sector_keywords = [
    (ProfessionalServices, [''consult'', ''advisor'', ''advisory'', ''legal'', ''law'', ''chambers'', ''audit'', ''account'', ''tax'',
       ''engineer'', ''architect'', ''agency'', ''services'', ''solicitor'', ''partners'', ''associates'']),
    (Trading, [''trading'', ''trade'', ''enterprise'', ''enterprises'', ''ventures'', ''global'', ''import'', ''export'', ''merchant'',
       ''stores'', ''store'', ''mart'', ''supermarket'', ''distribut'', ''wholesale'', ''retail'', ''commodit'']),
    (RealEstate, [''real estate'', ''realty'', ''property'', ''properties'', ''estate'', ''homes'', ''housing'', ''land'', ''rent'',
       ''lease'', ''apartments'']),
    (Hospitality, [''hotel'', ''hotels'', ''suites'', ''resort'', ''restaurant'', ''lounge'', ''bar'', ''catering'', ''hospitality'',
       ''guest'', ''inn'', ''club'', ''tourism'', ''travels'', ''leisure'']),
    (Construction, [''construction'', ''build'', ''builders'', ''contractor'', ''engineering'', ''civil'', ''works'', ''cement'',
       ''concrete'', ''infrastructure'', ''developer'', ''developers'']),
    (Tech, [''tech'', ''technolog'', ''software'', ''digital'', ''systems'', ''data'', ''computer'', ''it '', ''ict'', ''solutions'',
       ''innovation'', ''labs'', ''cyber'', ''cloud'', ''app'', ''media''])]"

definition provider_hints :: "(string list \<times> inferred_sector \<times> rat) list" where
  "provider_hints = [([''mortgage'', ''estate'', ''property''], RealEstate, 3/2),
     ([''merchant'', ''pos'', ''acquir'', ''payment''], Trading, 1), ([''fintech'', ''tech'', ''digital''], Tech, 1)]"

text \<open>The score of one sector: one per keyword found in a name, then the hints of the provider types.\<close>

definition keyword_hits :: "string list \<Rightarrow> string \<Rightarrow> nat" where
  "keyword_hits kws hay = (if hay = [] then 0 else length (filter (\<lambda>kw. contains kw hay) kws))"

definition haystacks :: "profile \<Rightarrow> string list" where
  "haystacks p = lower (or_blank (pf_business_name p)) # map (\<lambda>r. lower (or_blank (pr_account_name r))) (pf_records p)"

definition hint_weights :: "profile \<Rightarrow> inferred_sector \<Rightarrow> rat list" where
  "hint_weights p sector = concat (map (\<lambda>r. concat (map (\<lambda>(pats, s, w).
     if s = sector \<and> list_ex (\<lambda>pat. contains pat (lower (pr_provider_type r))) pats then [w] else []) provider_hints)) (pf_records p))"

definition sector_score :: "profile \<Rightarrow> inferred_sector \<times> string list \<Rightarrow> rat" where
  "sector_score p = (\<lambda>(sector, kws).
     foldl fadd (of_nat (sum_list (map (keyword_hits kws) (haystacks p)))) (hint_weights p sector))"

definition variance_of :: "rat list \<Rightarrow> rat \<Rightarrow> rat" where
  "variance_of xs m = fdiv (foldl (\<lambda>a b. fadd a (fmul (fsub b m) (fsub b m))) 0 xs) (of_nat (length xs))"

fun add_period :: "'k \<Rightarrow> rat \<Rightarrow> ('k \<times> rat) list \<Rightarrow> ('k \<times> rat) list" where
  "add_period k x [] = [(k, fadd 0 x)]"
| "add_period k x ((k', y) # rest) = (if k' = k then (k', fadd y x) # rest else (k', y) # add_period k x rest)"

definition inflow_seasonality :: "profile \<Rightarrow> rat" where
  "inflow_seasonality p =
     (let vals = map snd (foldl (\<lambda>acc r. add_period (pr_period_year r, pr_period_label r) (pr_inflow r) acc) [] (pf_records p)) in
      if length vals < 2 then 0
      else (let m = fdiv (fsum vals) (of_nat (length vals)) in
        if m \<le> 0 then 0 else fdiv (fsqrt (variance_of vals m)) m))"

text \<open>The sectors by descending score; equal scores keep the order of the table.\<close>

definition ranked_sectors :: "profile \<Rightarrow> (inferred_sector \<times> rat) list" where
  "ranked_sectors p = sort_key (\<lambda>(s, x). - x) (map (\<lambda>e. (fst e, sector_score p e)) sector_keywords)"

definition infer_sector :: "profile \<Rightarrow> inferred_sector \<times> rat" where
  "infer_sector p = (case ranked_sectors p of
     (sector, best) # (_, second) # _ \<Rightarrow>
       (if best = 0 then (if lit 6 10 \<le> inflow_seasonality p then (Trading, lit 2 10) else (OtherSector, 0))
        else (sector, clamp01 (fadd (fadd (lit 3 10) (fmul (lit 15 100) best)) (fmul (lit 15 100) (fsub best second)))))
   | _ \<Rightarrow> (OtherSector, 0))"

fun sector_name :: "inferred_sector \<Rightarrow> string" where
  "sector_name ProfessionalServices = ''PROFESSIONAL_SERVICES''"
| "sector_name Trading = ''TRADING''"
| "sector_name RealEstate = ''REAL_ESTATE''"
| "sector_name Hospitality = ''HOSPITALITY''"
| "sector_name Construction = ''CONSTRUCTION''"
| "sector_name Tech = ''TECH''"
| "sector_name OtherSector = ''OTHER''"

text \<open>The median compared with, and whether it is the sector's own.\<close>

definition cohort_median :: "agent_context \<Rightarrow> profile \<Rightarrow> inferred_sector \<Rightarrow> rat \<times> bool" where
  "cohort_median ctx p sector =
     (case (if sector = OtherSector then None else ac_median_sector ctx (sector_name sector)) of
        Some m \<Rightarrow> if 0 < m then (m, True) else (ac_median_band ctx (pf_type p) (pf_inflow p), False)
      | None \<Rightarrow> (ac_median_band ctx (pf_type p) (pf_inflow p), False))"

definition sector_raw_score :: "profile \<Rightarrow> rat \<Rightarrow> rat" where
  "sector_raw_score p m =
     (let excess = clamp01 (fdiv (fsub (fdiv (pf_inflow p) m) 1) 4);
          undeclared = clamp01 (fsub 1 (fdiv (max 0 (pf_declared p)) (pf_inflow p)));
          declaration = (if pf_has_declaration p then undeclared else 1)
      in fadd (fadd (fmul (lit 65 100) (fmul excess declaration)) (fmul (lit 1 4) excess)) (fmul (lit 1 10) declaration))"

definition analyze_sector :: "agent_context \<Rightarrow> profile \<Rightarrow> agent_signal option" where
  "analyze_sector ctx p =
     (if pf_inflow p \<le> 0 then None
      else (let (sector, confidence) = infer_sector p; (m, own) = cohort_median ctx p sector in
        if \<not> 0 < m then None
        else (let factor = (if own then fadd (lit 6 10) (fmul (lit 4 10) confidence) else fadd (lit 55 100) (fmul (lit 1 4) confidence));
                  score = clamp01 (fmul (sector_raw_score p m) factor)
              in if score < lit 1 10 then None
                 else Some (signal ''sector'' score (SectorSummary sector confidence (fdiv (pf_inflow p) m) own (pf_inflow p) m
                   (if pf_has_declaration p then Some (fdiv (max 0 (pf_declared p)) (pf_inflow p)) else None)
                   (\<not> own \<or> confidence < lit 35 100))))))"

subsection \<open>Behaviour over the year\<close>

text \<open>
  The order of a period: the quarter after a q, a month name, the month of YYYY-MM, or the first number
  that is not the year; the regular expressions are searched from the left.
\<close>

fun find_quarter :: "string \<Rightarrow> nat option" where
  "find_quarter [] = None"
| "find_quarter (c # s) = (case (if c = CHR ''q'' then dropWhile is_ws s else []) of
     d # _ \<Rightarrow> if is_digit d \<and> 1 \<le> digit_val d \<and> digit_val d \<le> 4 then Some (digit_val d) else find_quarter s
   | [] \<Rightarrow> find_quarter s)"

definition month_keys :: "string list" where
  "month_keys = [''jan'', ''feb'', ''mar'', ''apr'', ''may'', ''jun'', ''jul'', ''aug'', ''sep'', ''oct'', ''nov'', ''dec'']"

definition month_index :: "string \<Rightarrow> nat option" where
  "month_index label = map_option fst (find (\<lambda>(i, m). contains m label) (enumerate 0 month_keys))"

definition numeric_month :: "string \<Rightarrow> nat option" where
  "numeric_month label = (case digits_exact 4 label of None \<Rightarrow> None | Some (y, r) \<Rightarrow>
     case after_sep ''-/'' r of None \<Rightarrow> None | Some q \<Rightarrow> map_option fst (digits12 q))"

function digit_runs :: "string \<Rightarrow> string list" where
  "digit_runs s = (case dropWhile (\<lambda>c. \<not> is_digit c) s of [] \<Rightarrow> []
     | t \<Rightarrow> takeWhile is_digit t # digit_runs (dropWhile is_digit t))"
  by auto
termination
proof (relation "measure length")
  fix s :: string and c r
  assume a: "dropWhile (\<lambda>c. \<not> is_digit c) s = c # r"
  then have "is_digit c" using hd_dropWhile [of "\<lambda>c. \<not> is_digit c" s] by simp
  then have "length (dropWhile is_digit (c # r)) \<le> length r" by (simp add: length_dropWhile_le)
  moreover have "length (c # r) \<le> length s" using length_dropWhile_le [of "\<lambda>c. \<not> is_digit c" s] a by simp
  ultimately show "(dropWhile is_digit (c # r), s) \<in> measure length" by simp
qed simp

declare digit_runs.simps [simp del]

definition period_order :: "profile_record \<Rightarrow> rat" where
  "period_order r = (let base = of_nat (pr_period_year r * 100); label = lower (pr_period_label r) in
     case find_quarter label of Some q \<Rightarrow> base + of_nat ((q - 1) * 3 + 1)
     | None \<Rightarrow> (case month_index label of Some i \<Rightarrow> base + of_nat (i + 1)
     | None \<Rightarrow> (case numeric_month label of Some m \<Rightarrow> base + of_nat m
     | None \<Rightarrow> (case find (\<lambda>n. \<not> (length n = 4 \<and> parse_dec n = pr_period_year r)) (digit_runs label) of
         Some n \<Rightarrow> fadd base (fl (of_nat (parse_dec n))) | None \<Rightarrow> base))))"

definition by_period :: "profile_record list \<Rightarrow> (rat \<times> rat) list" where
  "by_period rs = foldl (\<lambda>acc r. if period_order r \<in> fst ` set acc then add_period (period_order r) (pr_inflow r) acc
     else acc @ [(period_order r, pr_inflow r)]) [] rs"

definition period_inflows :: "profile \<Rightarrow> rat list" where
  "period_inflows p = map snd (sort_key fst (by_period (pf_records p)))"

record entrant =
  en_id :: string
  en_first :: rat
  en_inflow :: rat
  en_name :: "string option"

fun add_entrant :: "profile_record \<Rightarrow> entrant list \<Rightarrow> entrant list" where
  "add_entrant r [] = [\<lparr>en_id = (if pr_provider r = [] then ''unknown'' else pr_provider r), en_first = period_order r,
     en_inflow = pr_inflow r, en_name = pr_provider_name r\<rparr>]"
| "add_entrant r (e # es) = (if en_id e = (if pr_provider r = [] then ''unknown'' else pr_provider r)
     then e\<lparr>en_first := min (en_first e) (period_order r), en_inflow := fadd (en_inflow e) (pr_inflow r),
       en_name := (if \<not> truthy (en_name e) \<and> truthy (pr_provider_name r) then pr_provider_name r else en_name e)\<rparr> # es
     else e # add_entrant r es)"

text \<open>The provider that enters after the middle of the observed span with the largest share, a fifth at least.\<close>

definition late_entrant :: "profile_record list \<Rightarrow> rat \<Rightarrow> (string \<times> string option \<times> rat) option" where
  "late_entrant rs total_in = (if rs = [] \<or> total_in \<le> 0 then None
     else (let orders = map period_order rs; lo = foldl min (hd orders) orders; hi = foldl max (hd orders) orders in
       if lo = hi then None
       else (let late = fadd lo (fdiv (fsub hi lo) 2) in
         foldl (\<lambda>best e. let share = fdiv (en_inflow e) total_in in
             if en_first e \<le> late then best
             else if lit 2 10 \<le> share \<and> (case best of None \<Rightarrow> True | Some (_, _, s) \<Rightarrow> s < share)
             then Some (en_id e, en_name e, share) else best)
           None (foldl (\<lambda>es r. add_entrant r es) [] rs))))"

record fingerprint =
  fp_periods :: nat
  fp_variation :: rat
  fp_slope :: rat
  fp_first_half :: rat
  fp_second_half :: rat
  fp_pass_through :: rat
  fp_has_balances :: bool
  fp_entrant :: "(string \<times> string option \<times> rat) option"

definition mean_of :: "rat list \<Rightarrow> rat" where
  "mean_of xs = (if xs = [] then 0 else fdiv (fsum xs) (of_nat (length xs)))"

definition std_dev :: "rat list \<Rightarrow> rat \<Rightarrow> rat" where
  "std_dev xs m = (if length xs \<le> 1 then 0 else fsqrt (variance_of xs m))"

definition retention :: "profile \<Rightarrow> rat" where
  "retention p = (let ordered = sort_key period_order (pf_records p);
       opening = (case ordered of [] \<Rightarrow> 0 | r # _ \<Rightarrow> pr_opening r);
       closing = (if ordered = [] then 0 else pr_closing (last ordered))
     in if 0 < pf_inflow p then fdiv (fsub closing opening) (pf_inflow p) else 0)"

definition fingerprint_of :: "profile \<Rightarrow> fingerprint" where
  "fingerprint_of p =
     (let inflows = period_inflows p; n = length inflows; m = mean_of inflows;
          first = fsum (take (n div 2) inflows); second = fsum (drop (n div 2) inflows); denom = fadd first second
      in \<lparr>fp_periods = n, fp_variation = (if 0 < m then fdiv (std_dev inflows m) m else 0),
          fp_slope = (if 2 \<le> n \<and> 0 < denom then fdiv (fsub second first) denom else 0),
          fp_first_half = first, fp_second_half = second,
          fp_pass_through = clamp01 (fsub 1 \<bar>retention p\<bar>),
          fp_has_balances = list_ex pr_has_balances (pf_records p),
          fp_entrant = late_entrant (pf_records p) (pf_inflow p)\<rparr>)"

definition entrant_share :: "fingerprint \<Rightarrow> rat" where
  "entrant_share fp = (case fp_entrant fp of None \<Rightarrow> 0 | Some (_, _, s) \<Rightarrow> s)"

definition under_declaration :: "profile \<Rightarrow> rat" where
  "under_declaration p = (let ratio = (if 0 < pf_declared p then fdiv (pf_declared p) (pf_inflow p) else 0)
     in clamp01 (fsub 1 (fdiv ratio (lit 6 10))))"

definition volatility_score :: "fingerprint \<Rightarrow> rat" where
  "volatility_score fp = (if 2 \<le> fp_periods fp then clamp01 (fdiv (fp_variation fp) (lit 15 10)) else 0)"

definition rising_score :: "profile \<Rightarrow> fingerprint \<Rightarrow> rat" where
  "rising_score p fp = clamp01 (fmul (clamp01 (fp_slope fp)) (fadd (lit 4 10) (fmul (lit 6 10) (under_declaration p))))"

definition pass_through_score :: "profile \<Rightarrow> fingerprint \<Rightarrow> rat" where
  "pass_through_score p fp = fmul (clamp01 (fp_pass_through fp)) (under_declaration p)"

text \<open>The usable components with their weights; the score is their weighted mean.\<close>

definition usable_components :: "profile \<Rightarrow> fingerprint \<Rightarrow> (rat \<times> rat) list" where
  "usable_components p fp = concat (map (\<lambda>(score, weight, usable). if usable then [(score, weight)] else [])
     [(rising_score p fp, lit 40 100, 2 \<le> fp_periods fp),
      (clamp01 (entrant_share fp), lit 25 100, 0 < entrant_share fp),
      (volatility_score fp, lit 20 100, 2 \<le> fp_periods fp),
      (pass_through_score p fp, lit 15 100, fp_has_balances fp)])"

definition behaviour_score :: "profile \<Rightarrow> fingerprint \<Rightarrow> rat" where
  "behaviour_score p fp = (let us = usable_components p fp; w = fsum (map snd us) in
     if 0 < w then clamp01 (fdiv (fsum (map (\<lambda>(s, w). fmul s w) us)) w) else 0)"

definition who_is :: "profile \<Rightarrow> string" where
  "who_is p = (if truthy (pf_business_name p) then or_blank (pf_business_name p)
     else (let nm = join '' '' (map or_blank (filter truthy [pf_first_name p, pf_last_name p])) in if nm = [] then pf_taxpayer p else nm))"

definition negligible_baseline :: "fingerprint \<Rightarrow> bool" where
  "negligible_baseline fp \<longleftrightarrow> 0 < fp_second_half fp \<and> 0 \<le> fp_first_half fp \<and> fp_first_half fp < fmul (fp_second_half fp) (lit 1 100)"

definition behaviour_parts :: "profile \<Rightarrow> fingerprint \<Rightarrow> behaviour_part list" where
  "behaviour_parts p fp =
     (if lit 33 100 \<le> rising_score p fp
      then [RisingPart (lit 1 2 \<le> under_declaration p \<and> \<not> pf_has_declaration p) (negligible_baseline fp)
        (fp_first_half fp) (fp_second_half fp) (fp_slope fp)] else []) @
     (case fp_entrant fp of Some (pid, nm, share) \<Rightarrow> if lit 2 10 \<le> clamp01 share
        then [NewProviderPart (case nm of None \<Rightarrow> pid | Some t \<Rightarrow> t) share] else [] | None \<Rightarrow> []) @
     (if 3 \<le> fp_periods fp \<and> lit 4 10 \<le> volatility_score fp then [IrregularPart (fp_variation fp)] else []) @
     (if fp_has_balances fp \<and> lit 33 100 \<le> pass_through_score p fp then [PassThroughPart] else [])"

definition behaviour_summary :: "profile \<Rightarrow> fingerprint \<Rightarrow> agent_summary" where
  "behaviour_summary p fp = BehaviourSummary (who_is p)
     (if behaviour_parts p fp = [] then [MildPart (fp_periods fp)] else behaviour_parts p fp)"

definition analyze_behaviour :: "profile \<Rightarrow> agent_signal option" where
  "analyze_behaviour p = (let fp = fingerprint_of p in
     if fp_periods fp = 0 \<or> pf_inflow p \<le> 0 then None
     else (let score = behaviour_score p fp in
       if score < lit 2 10 then None else Some (signal ''behavioural'' score (behaviour_summary p fp))))"

subsection \<open>Compliance\<close>

definition estimated_exposure :: "profile \<Rightarrow> rat" where
  "estimated_exposure p = max 0 (fsub (pf_inflow p) (if pf_has_declaration p then max 0 (pf_declared p) else 0))"

definition mean_confidence :: "profile \<Rightarrow> rat option" where
  "mean_confidence p = (let vals = concat (map (\<lambda>r. case pr_confidence r of None \<Rightarrow> [] | Some c \<Rightarrow> [c]) (pf_records p)) in
     if vals = [] then None else Some (fdiv (foldl fadd 0 vals) (of_nat (length vals))))"

definition liquidity_score :: "rat \<Rightarrow> rat \<Rightarrow> rat" where
  "liquidity_score closing exposure = (if exposure \<le> 0 then 1 else if closing \<le> 0 then 0 else clamp01 (fdiv closing exposure))"

definition footprint_score :: "nat \<Rightarrow> rat option \<Rightarrow> rat" where
  "footprint_score providers avg = clamp01 (fadd (fmul (lit 1 2) (clamp01 (fdiv (of_nat providers) 3)))
     (fmul (lit 1 2) (case avg of None \<Rightarrow> lit 1 2 | Some c \<Rightarrow> clamp01 c)))"

definition type_base_rate :: "taxpayer_type \<Rightarrow> rat" where
  "type_base_rate ty = (case ty of Government \<Rightarrow> lit 8 10 | Corporate \<Rightarrow> lit 65 100 | Individual \<Rightarrow> lit 45 100)"

definition relative_gap :: "rat \<Rightarrow> rat \<Rightarrow> bool \<Rightarrow> rat option" where
  "relative_gap inflow declared has = (if \<not> has \<or> declared \<le> 0 then None else Some (max 0 (fdiv (fsub inflow declared) declared)))"

definition gap_factor :: "rat option \<Rightarrow> rat" where
  "gap_factor gap = (case gap of None \<Rightarrow> lit 4 10 | Some g \<Rightarrow> clamp01 (fdiv 1 (fadd 1 (fdiv g 3))))"

definition settlement_likelihood :: "rat \<Rightarrow> rat \<Rightarrow> rat \<Rightarrow> rat \<Rightarrow> rat" where
  "settlement_likelihood liquidity footprint base damping =
     clamp01 (fadd (fadd (fadd (fmul (lit 3 10) liquidity) (fmul (lit 2 10) footprint)) (fmul (lit 1 4) base)) (fmul (lit 1 4) damping))"

definition size_weight :: "(rat \<Rightarrow> rat) \<Rightarrow> rat \<Rightarrow> rat" where
  "size_weight log10 exposure = (if exposure \<le> 0 then 0 else clamp01 (fdiv (fsub (log10 exposure) 3) (fsub 9 3)))"

definition priority_score :: "rat \<Rightarrow> rat \<Rightarrow> rat" where
  "priority_score weight likelihood = clamp01 (max (fmul weight likelihood) (fmul (lit 6 10) weight))"

definition rationale_of :: "rat \<Rightarrow> rat \<Rightarrow> priority_rationale" where
  "rationale_of weight likelihood = (let big = lit 1 2 \<le> weight; likely = lit 1 2 \<le> likelihood in
     if big \<and> likely then HighPriority else if big then PursueWithEnforcement else if likely then EasyWin else LowPriority)"

definition likelihood_of :: "profile \<Rightarrow> rat" where
  "likelihood_of p = settlement_likelihood (liquidity_score (foldl fadd 0 (map pr_closing (pf_records p))) (estimated_exposure p))
     (footprint_score (pf_providers p) (mean_confidence p)) (type_base_rate (pf_type p))
     (gap_factor (relative_gap (pf_inflow p) (pf_declared p) (pf_has_declaration p)))"

definition analyze_predictive :: "(rat \<Rightarrow> rat) \<Rightarrow> profile \<Rightarrow> agent_signal option" where
  "analyze_predictive log10 p = (let exposure = estimated_exposure p in
     if exposure \<le> 0 then None
     else (let likelihood = likelihood_of p; weight = size_weight log10 exposure; score = priority_score weight likelihood
           in Some (signal ''predictive'' score (PredictiveSummary (pf_type p) exposure \<lfloor>fmul likelihood 100 + 1/2\<rfloor>
             (rationale_of weight likelihood) (mean_confidence p = None \<or> pf_providers p = 0) (pf_has_declaration p)))))"

subsection \<open>The fleet\<close>

text \<open>At this stage the document agent has nothing to read and raises no signal.\<close>

definition analyze_document :: "profile \<Rightarrow> agent_signal option" where "analyze_document p = None"

definition fleet :: "(rat \<Rightarrow> rat) \<Rightarrow> agent_context \<Rightarrow> profile \<Rightarrow> agent_signal option list" where
  "fleet log10 ctx p = [analyze_pattern ctx p, analyze_matching p, analyze_sector ctx p, analyze_behaviour p,
     analyze_predictive log10 p, analyze_document p]"

definition fired :: "(rat \<Rightarrow> rat) \<Rightarrow> agent_context \<Rightarrow> profile \<Rightarrow> agent_signal list" where
  "fired log10 ctx p = concat (map (\<lambda>s. case s of None \<Rightarrow> [] | Some sg \<Rightarrow> [sg]) (fleet log10 ctx p))"

end
