(* ===== verification/Documents.thy ===== *)
theory Documents
  imports Agents
begin

text \<open>
  Documents of an objection: the figures read from their text
  (\<open>backend/src/modules/agents/implementations/document-intelligence.agent.ts\<close>), the comparison with the
  observed inflow, the capital-gains assessment, and \<open>addDocument\<close> of
  \<open>backend/src/modules/cases/cases.service.ts\<close>, which stores the verdict and raises a signal. A regular
  expression is a function that returns what is left after the match. The texts of the notes are
  constructors with the figures they print.
\<close>

subsection \<open>Amounts\<close>

fun remove_ngn :: "string \<Rightarrow> string" where
  "remove_ngn (a # b # c # s) = (if a = CHR ''n'' \<and> b = CHR ''g'' \<and> c = CHR ''n'' then remove_ngn s else a # remove_ngn (b # c # s))"
| "remove_ngn s = s"

text \<open>A single leading n directly before a digit or a point.\<close>

definition strip_naira :: "string \<Rightarrow> string" where
  "strip_naira s = (case dropWhile is_ws s of
     n # d # r \<Rightarrow> if n = CHR ''n'' \<and> (is_digit d \<or> d = CHR ''.'') then d # r else s | _ \<Rightarrow> s)"

definition ends_with :: "string \<Rightarrow> string \<Rightarrow> bool" where
  "ends_with p s \<longleftrightarrow> length p \<le> length s \<and> drop (length s - length p) s = p"

definition magnitude :: "string \<Rightarrow> nat \<times> rat" where
  "magnitude s = (if ends_with ''bn'' s then (2, 1000000000) else if ends_with ''b'' s then (1, 1000000000)
     else if ends_with ''m'' s then (1, 1000000) else if ends_with ''k'' s then (1, 1000) else (0, 1))"

text \<open>\<open>/^\d*\.?\d+$/\<close> or \<open>/^\d+\.?\d*$/\<close>: digits with at most one point and at least one digit.\<close>

definition plain_number :: "string \<Rightarrow> bool" where
  "plain_number s \<longleftrightarrow> (let ip = takeWhile is_digit s; r = dropWhile is_digit s in
     if r = [] then ip \<noteq> [] else hd r = CHR ''.'' \<and> all_digits (tl r) \<and> (ip \<noteq> [] \<or> tl r \<noteq> []))"

definition parse_ngn :: "string \<Rightarrow> rat option" where
  "parse_ngn raw = (if raw = [] then None
     else (let s = filter (\<lambda>c. \<not> is_ws c) (strip_naira (remove_ngn (lower (trim raw))));
               (k, multiplier) = magnitude s; t = filter (\<lambda>c. c \<noteq> CHR '','') (take (length s - k) s)
           in if \<not> plain_number t then None
              else (case js_number t of Fin v \<Rightarrow> Some (fmul v multiplier) | _ \<Rightarrow> None)))"

subsection \<open>Labelled amounts\<close>

type_synonym matcher = "string \<Rightarrow> string option"

definition word :: "string \<Rightarrow> matcher" where
  "word w s = (if starts_with w (lower s) then Some (drop (length w) s) else None)"

definition spaces1 :: matcher where
  "spaces1 s = (if s \<noteq> [] \<and> is_ws (hd s) then Some (dropWhile is_ws s) else None)"

definition then_match :: "matcher \<Rightarrow> matcher \<Rightarrow> matcher" where
  "then_match m n s = (case m s of None \<Rightarrow> None | Some r \<Rightarrow> n r)"

definition or_match :: "matcher \<Rightarrow> matcher \<Rightarrow> matcher" where
  "or_match m n s = (case m s of None \<Rightarrow> n s | Some r \<Rightarrow> Some r)"

text \<open>Words with white space between them.\<close>

fun phrase :: "string list \<Rightarrow> matcher" where
  "phrase [] = Some"
| "phrase [w] = word w"
| "phrase (w # ws) = then_match (word w) (then_match spaces1 (phrase ws))"

definition any_of :: "matcher list \<Rightarrow> matcher" where
  "any_of ms = foldr or_match ms (\<lambda>s. None)"

text \<open>The plural is tried first, as the optional letter is greedy.\<close>

definition phrases :: "string list list \<Rightarrow> matcher" where "phrases wss = any_of (map phrase wss)"

definition declared_label :: matcher where
  "declared_label = phrases [[''declared'', ''income''], [''assessable'', ''income''], [''gross'', ''income''], [''total'', ''income''],
     [''turnover''], [''revenue'']]"

definition expenses_label :: matcher where
  "expenses_label = phrases [[''total'', ''expenses''], [''operating'', ''expenses''], [''expenses''], [''cost'', ''of'', ''sales'']]"

definition disposals_label :: matcher where
  "disposals_label = phrases [[''asset'', ''disposals''], [''asset'', ''disposal''], [''disposal'', ''of'', ''assets''],
     [''disposal'', ''of'', ''asset''], [''proceeds'', ''from'', ''sale'', ''of'', ''assets''],
     [''proceeds'', ''from'', ''sale'', ''of'', ''asset''], [''gain'', ''on'', ''disposal'']]"

text \<open>The leftmost position at which a pattern matches: what it matched from there on, and what is left.\<close>

fun search :: "matcher \<Rightarrow> string \<Rightarrow> (string \<times> string) option" where
  "search m [] = (case m [] of None \<Rightarrow> None | Some r \<Rightarrow> Some ([], r))"
| "search m (c # s) = (case m (c # s) of None \<Rightarrow> search m s
     | Some r \<Rightarrow> Some (take (length (c # s) - length r) (c # s), r))"

text \<open>The first piece of \<open>split(/\r?\n/, 1)\<close>.\<close>

definition first_line :: "string \<Rightarrow> string" where
  "first_line s = (let l = takeWhile (\<lambda>c. c \<noteq> CHR 0x0A) s in
     if CHR 0x0A \<in> set s \<and> l \<noteq> [] \<and> last l = CHR 0x0D then butlast l else l)"

text \<open>
  \<open>(?:ngn|n)?\s*\d[\d,]*(?:\.\d+)?\s*(?:bn|b|m|k)?\<close>, ignoring case; the naira sign of the source lies
  outside Latin-1.
\<close>

definition digits_part :: matcher where
  "digits_part s = (let t = dropWhile is_ws s in
     if t = [] \<or> \<not> is_digit (hd t) then None
     else (let r = dropWhile (\<lambda>c. is_digit c \<or> c = CHR '','') t;
               r2 = (case r of p # d # q \<Rightarrow> if p = CHR ''.'' \<and> is_digit d then dropWhile is_digit (d # q) else r | _ \<Rightarrow> r)
           in Some (let u = dropWhile is_ws r2 in
                case any_of (map word [''bn'', ''b'', ''m'', ''k'']) u of Some v \<Rightarrow> v | None \<Rightarrow> u)))"

definition money :: matcher where
  "money = any_of [then_match (word ''ngn'') digits_part, then_match (word ''n'') digits_part, digits_part]"

definition labelled_amount :: "matcher \<Rightarrow> string \<Rightarrow> rat option" where
  "labelled_amount label t = (case search label t of None \<Rightarrow> None
     | Some (_, rest) \<Rightarrow> (case search money (first_line rest) of None \<Rightarrow> None | Some (token, _) \<Rightarrow> parse_ngn token))"

record extracted =
  ex_declared :: "rat option"
  ex_expenses :: "rat option"
  ex_disposals :: "rat option"

definition extract_financials :: "string \<Rightarrow> extracted" where
  "extract_financials t = (if t = [] then \<lparr>ex_declared = None, ex_expenses = None, ex_disposals = None\<rparr>
     else \<lparr>ex_declared = labelled_amount declared_label t, ex_expenses = labelled_amount expenses_label t,
       ex_disposals = labelled_amount disposals_label t\<rparr>)"

subsection \<open>Reconciliation\<close>

datatype reconcile_note = NoFigure | NothingOnRecord | NoInflowFor rat | Reconciles rat rat rat | Varies rat rat rat bool

record reconciliation =
  rc_variance :: rat
  rc_consistent :: bool
  rc_note :: reconcile_note

definition reconcile :: "extracted \<Rightarrow> rat \<Rightarrow> reconciliation" where
  "reconcile ex observed = (case ex_declared ex of
     None \<Rightarrow> \<lparr>rc_variance = 0, rc_consistent = False, rc_note = NoFigure\<rparr>
   | Some declared \<Rightarrow>
       if observed \<le> 0 then \<lparr>rc_variance = 0, rc_consistent = (declared \<le> 0),
         rc_note = (if declared \<le> 0 then NothingOnRecord else NoInflowFor declared)\<rparr>
       else (let variance = fdiv (fsub declared observed) observed; consistent = (\<bar>variance\<bar> \<le> lit 15 100);
                 pct = to_fixed 1 (fmul variance 100)
             in \<lparr>rc_variance = variance, rc_consistent = consistent,
                 rc_note = (if consistent then Reconciles declared observed pct else Varies declared observed \<bar>pct\<bar> (variance < 0))\<rparr>))"

record cgt_assessment =
  cg_proceeds :: rat
  cg_rate :: rat
  cg_tax :: rat

definition compute_cgt :: "extracted \<Rightarrow> rat \<Rightarrow> cgt_assessment option" where
  "compute_cgt ex cgt_rate = (case ex_disposals ex of None \<Rightarrow> None
     | Some proceeds \<Rightarrow> if proceeds \<le> 0 then None
         else (let rate = (if 0 < cgt_rate then cgt_rate else lit 1 10)
               in Some \<lparr>cg_proceeds = proceeds, cg_rate = rate, cg_tax = fmul proceeds rate\<rparr>))"

definition score_reconciliation :: "reconciliation \<Rightarrow> rat" where
  "score_reconciliation r = clamp01 (if rc_variance r < 0 then \<bar>rc_variance r\<bar> else 0)"

subsection \<open>Signals and documents\<close>

datatype signal_summary = AgentNote agent_summary | DocumentNote reconcile_note "cgt_assessment option"

record risk_signal =
  rs_taxpayer :: string
  rs_year :: nat
  rs_agent :: string
  rs_score :: rat
  rs_severity :: band_severity
  rs_summary :: signal_summary
  rs_created :: time
  rs_computed :: time

datatype text_source = Pasted | PlainText

record case_document =
  cd_case :: string
  cd_file :: string
  cd_mime :: string
  cd_size :: nat
  cd_text :: string
  cd_source :: text_source
  cd_declared :: "rat option"
  cd_variance :: rat
  cd_consistent :: bool
  cd_note :: reconcile_note
  cd_disposals :: "rat option"
  cd_cgt :: "rat option"
  cd_by :: "string option"

record agent_db =
  ad_db :: tax_db
  ad_signals :: "risk_signal list"
  ad_documents :: "case_document list"

definition signal_key :: "risk_signal \<Rightarrow> string \<times> nat \<times> string" where
  "signal_key s = (rs_taxpayer s, rs_year s, rs_agent s)"

text \<open>The upsert on taxpayer, year and agent: the row is created or its verdict replaced, the time of creation stays.\<close>

definition upsert_signal :: "time \<Rightarrow> string \<Rightarrow> nat \<Rightarrow> string \<Rightarrow> rat \<Rightarrow> band_severity \<Rightarrow> signal_summary \<Rightarrow> risk_signal list \<Rightarrow> risk_signal list" where
  "upsert_signal now tid year agent score sev summary rows =
     (let new_row = \<lparr>rs_taxpayer = tid, rs_year = year, rs_agent = agent, rs_score = to_fixed 2 score, rs_severity = sev,
        rs_summary = summary, rs_created = now, rs_computed = now\<rparr> in
      case find_by signal_key (tid, year, agent) rows of None \<Rightarrow> rows @ [new_row]
      | Some old \<Rightarrow> update_by signal_key (tid, year, agent) (\<lambda>s. new_row\<lparr>rs_created := rs_created s\<rparr>) rows)"

record upload_file =
  uf_name :: "string option"
  uf_mime :: "string option"
  uf_size :: "nat option"
  uf_text :: "string option"

datatype document_error = DocCaseNotFound | NothingUploaded | UnreadableText | DocOverflow

definition utf8_length :: "string \<Rightarrow> nat" where
  "utf8_length s = sum_list (map (\<lambda>c. if (of_char c :: nat) < 128 then 1 else 2) s)"

definition extract_text :: "upload_file option \<Rightarrow> string option \<Rightarrow> (string \<times> text_source) option" where
  "extract_text file pasted =
     (if truthy pasted \<and> trim (the pasted) \<noteq> [] then Some (the pasted, Pasted)
      else (case file of None \<Rightarrow> None | Some f \<Rightarrow>
        (case uf_text f of None \<Rightarrow> None | Some t \<Rightarrow>
          (let mime = or_blank (uf_mime f) in
           if starts_with ''text/'' mime \<or> mime = ''application/csv'' \<or> mime = ''text/csv'' then Some (t, PlainText) else None))))"

text \<open>The declared figure is handed to its column as it was read; the column rounds it to kobo.\<close>

definition document_of :: "string \<Rightarrow> upload_file option \<Rightarrow> string \<Rightarrow> text_source \<Rightarrow> extracted \<Rightarrow> reconciliation \<Rightarrow>
    cgt_assessment option \<Rightarrow> string option \<Rightarrow> case_document" where
  "document_of cid file t src ex rc cgt staff =
     \<lparr>cd_case = cid, cd_file = (case file of None \<Rightarrow> ''pasted-document.txt'' | Some f \<Rightarrow> (case uf_name f of None \<Rightarrow> ''pasted-document.txt'' | Some n \<Rightarrow> n)),
      cd_mime = (case file of None \<Rightarrow> ''text/plain'' | Some f \<Rightarrow> (case uf_mime f of None \<Rightarrow> ''text/plain'' | Some n \<Rightarrow> n)),
      cd_size = (case file of None \<Rightarrow> utf8_length t | Some f \<Rightarrow> (case uf_size f of None \<Rightarrow> utf8_length t | Some n \<Rightarrow> n)),
      cd_text = take 20000 t, cd_source = src, cd_declared = ex_declared ex,
      cd_variance = to_fixed 4 (rc_variance rc), cd_consistent = rc_consistent rc, cd_note = rc_note rc,
      cd_disposals = map_option (\<lambda>c. to_fixed 2 (cg_proceeds c)) cgt, cd_cgt = map_option (\<lambda>c. to_fixed 2 (cg_tax c)) cgt, cd_by = staff\<rparr>"

definition document_fits :: "extracted \<Rightarrow> reconciliation \<Rightarrow> cgt_assessment option \<Rightarrow> bool" where
  "document_fits ex rc cgt \<longleftrightarrow> (case ex_declared ex of None \<Rightarrow> True | Some d \<Rightarrow> fits 18 2 d) \<and> fits 8 4 (rc_variance rc) \<and>
     (case cgt of None \<Rightarrow> True | Some c \<Rightarrow> fits 18 2 (cg_proceeds c) \<and> fits 18 2 (cg_tax c))"

text \<open>The signal of a document: raised for a shortfall of more than a tenth, or for a disposal.\<close>

definition document_signal :: "time \<Rightarrow> tax_case \<Rightarrow> reconciliation \<Rightarrow> cgt_assessment option \<Rightarrow> risk_signal list \<Rightarrow> risk_signal list" where
  "document_signal now kase rc cgt rows =
     (let score = score_reconciliation rc in
      if (rc_variance rc < 0 \<and> lit 1 10 < score) \<or> cgt \<noteq> None
      then (let combined = max score (if cgt \<noteq> None then lit 6 10 else 0)
            in upsert_signal now (tc_taxpayer kase) (tc_year kase) ''document'' combined (severity_for combined)
              (DocumentNote (rc_note rc) cgt) rows)
      else rows)"

definition add_document :: "time \<Rightarrow> string \<Rightarrow> upload_file option \<Rightarrow> string option \<Rightarrow> string option \<Rightarrow> agent_db \<Rightarrow>
    (document_error, reconciliation, agent_db) outcome" where
  "add_document now cid file pasted staff st =
     (case find_by tc_id cid (td_cases (ad_db st)) of None \<Rightarrow> (Inl DocCaseNotFound, st)
      | Some kase \<Rightarrow>
        if file = None \<and> \<not> truthy pasted then (Inl NothingUploaded, st)
        else (case extract_text file pasted of None \<Rightarrow> (Inl UnreadableText, st)
          | Some (t, src) \<Rightarrow>
            if t = [] then (Inl UnreadableText, st)
            else (let ex = extract_financials t; rc = reconcile ex (fl (tc_observed kase));
                      (cfg, rows) = active_config (td_config (ad_db st)); cgt = compute_cgt ex (sc_value cfg CgtRate);
                      st1 = st\<lparr>ad_db := (ad_db st)\<lparr>td_config := rows\<rparr>\<rparr>
                  in if \<not> document_fits ex rc cgt then (Inl DocOverflow, st1)
                     else (Inr rc, st1\<lparr>ad_documents := ad_documents st @ [document_of cid file t src ex rc cgt staff],
                       ad_signals := document_signal now kase rc cgt (ad_signals st)\<rparr>))))"

subsection \<open>A word after an amount\<close>

lemma lower_chars [str_simps]:
  "lower_char (CHR ''N'') = CHR ''n''" "lower_char (CHR ''T'') = CHR ''t''" "lower_char (CHR ''o'') = CHR ''o''"
  "lower_char (CHR ''t'') = CHR ''t''" "lower_char (CHR ''a'') = CHR ''a''" "lower_char (CHR ''l'') = CHR ''l''"
  "lower_char (CHR '' '') = CHR '' ''" "lower_char (CHR ''i'') = CHR ''i''" "lower_char (CHR ''n'') = CHR ''n''"
  "lower_char (CHR ''c'') = CHR ''c''" "lower_char (CHR ''m'') = CHR ''m''" "lower_char (CHR ''e'') = CHR ''e''"
  "lower_char (CHR '':'') = CHR '':''" "lower_char (CHR ''b'') = CHR ''b''" "lower_char (CHR ''k'') = CHR ''k''"
  by code_simp+

lemma ws_chars_eval [str_simps]:
  "is_ws (CHR '' '')" "\<not> is_ws (CHR ''N'')" "\<not> is_ws (CHR '':'')" "\<not> is_ws (CHR ''n'')" "\<not> is_ws (CHR ''i'')"
  "\<not> is_digit (CHR ''N'')" "\<not> is_digit (CHR '':'')"
  "\<not> is_ws (CHR ''b'')" "\<not> is_ws (CHR ''m'')" "\<not> is_ws (CHR ''k'')"
  by code_simp+

lemma digit_simps:
  assumes "is_digit c"
  shows "c \<noteq> CHR '','' \<and> c \<noteq> CHR ''.'' \<and> c \<noteq> CHR ''n'' \<and> c \<noteq> CHR ''g'' \<and> c \<noteq> CHR ''b'' \<and> c \<noteq> CHR 0x0A \<and> \<not> is_ws c"
  using assms by (auto simp: is_digit_def is_ws_def ws_chars_def)

lemma ends_with_last:
  "ends_with [a] (s @ [c]) \<longleftrightarrow> a = c" "ends_with [a, b] (s @ [d, c]) \<longleftrightarrow> a = d \<and> b = c"
  "ends_with [a, b] (s @ [c]) \<Longrightarrow> b = c"
proof -
  show "ends_with [a] (s @ [c]) \<longleftrightarrow> a = c" "ends_with [a, b] (s @ [d, c]) \<longleftrightarrow> a = d \<and> b = c"
    by (auto simp: ends_with_def)
  assume e: "ends_with [a, b] (s @ [c])"
  then have "s \<noteq> []" by (auto simp: ends_with_def)
  then obtain t d where "s = t @ [d]" by (cases s rule: rev_cases) auto
  then show "b = c" using e by (simp add: ends_with_def)
qed

lemma magnitude_last:
  "magnitude (s @ ''b'') = (1, 1000000000)" "magnitude (s @ ''m'') = (1, 1000000)" "magnitude (s @ ''k'') = (1, 1000)"
proof -
  have "\<not> ends_with ''bn'' (s @ ''b'')" "\<not> ends_with ''bn'' (s @ ''m'')" "\<not> ends_with ''bn'' (s @ ''k'')"
    using ends_with_last(3) by force+
  then show "magnitude (s @ ''b'') = (1, 1000000000)" "magnitude (s @ ''m'') = (1, 1000000)" "magnitude (s @ ''k'') = (1, 1000)"
    unfolding magnitude_def ends_with_last(1) by simp_all
qed

lemma lower_digits: "all_digits d \<Longrightarrow> lower d = d"
  by (induction d) (simp_all add: lower_def lower_char_digit)

lemma remove_ngn_id: "CHR ''g'' \<notin> set s \<Longrightarrow> remove_ngn s = s"
  by (induction s rule: remove_ngn.induct) auto

lemma digits_no_char: "all_digits d \<Longrightarrow> \<not> is_digit c \<Longrightarrow> c \<notin> set d"
  by (auto simp: all_digits_def list_all_iff)

text \<open>A naira amount with the letter of a unit behind a blank, and one with nothing behind it.\<close>

lemma parse_unit:
  assumes "all_digits d" "d \<noteq> []" "parse_dec d < 2 ^ 53" "u \<in> {''b'', ''m'', ''k''}"
  shows "parse_ngn (''N'' @ d @ '' '' @ u) = Some (fmul (of_nat (parse_dec d)) (snd (magnitude u)))"
proof -
  obtain d0 x where d: "d = d0 @ [x]" "is_digit x" using assms(1,2) by (cases d rule: rev_cases) auto
  let ?s = "''N'' @ d @ '' '' @ u" and ?n = "''n'' @ d @ '' '' @ u"
  have 1: "trim ?s = ?s" using assms(4) by (auto simp: trim_def is_ws_def ws_chars_def)
  have 2: "lower ?s = ?n" using lower_digits [OF assms(1)] assms(4) by (auto simp: lower_def str_simps)
  have 3: "remove_ngn ?n = ?n"
    using digits_no_char [OF assms(1), of "CHR ''g''"] assms(4) by (intro remove_ngn_id) (auto simp: is_digit_def)
  have 4: "strip_naira ?n = d @ '' '' @ u"
    using assms(1,2) by (cases d) (auto simp: strip_naira_def str_simps)
  have f: "filter (\<lambda>c. \<not> is_ws c) d = d"
    using assms(1) digit_not_ws by (simp add: all_digits_def list_all_iff filter_id_conv)
  have "filter (\<lambda>c. \<not> is_ws c) ('' '' @ u) = u" using assms(4) by (auto simp: str_simps)
  then have 5: "filter (\<lambda>c. \<not> is_ws c) (d @ '' '' @ u) = d @ u" using f by simp
  have 6: "magnitude (d @ u) = (1, snd (magnitude u))" using assms(4) magnitude_last [of d] magnitude_last [of "[]"] by auto
  have c: "filter (\<lambda>c. c \<noteq> CHR '','') d = d"
    using assms(1) digit_simps by (auto simp: all_digits_def list_all_iff filter_id_conv)
  have "length u = 1" using assms(4) by auto
  then have 7: "filter (\<lambda>c. c \<noteq> CHR '','') (take (length (d @ u) - 1) (d @ u)) = d" using c by simp
  have 8: "plain_number d = True" "(?s = []) = False" using assms(1,2) by (simp_all add: plain_number_def)
  show ?thesis unfolding parse_ngn_def 8 if_False Let_def 1 2 3 4 5 6 prod.case 7 js_number_whole [OF assms(1-3)] jsnum.case
    by (simp add: 8)
qed

lemma parse_plain:
  assumes "all_digits d" "d \<noteq> []" "parse_dec d < 2 ^ 53"
  shows "parse_ngn (''N'' @ d @ '' '') = Some (of_nat (parse_dec d))"
proof -
  obtain d0 x where d: "d = d0 @ [x]" "is_digit x" using assms(1,2) by (cases d rule: rev_cases) auto
  let ?s = "''N'' @ d @ '' ''"
  have 1: "trim ?s = ''N'' @ d" using digit_not_ws [OF d(2)] by (simp add: trim_def d str_simps)
  have 2: "lower (''N'' @ d) = ''n'' @ d" using lower_digits [OF assms(1)] by (simp add: lower_def str_simps)
  have 3: "remove_ngn (''n'' @ d) = ''n'' @ d"
    using digits_no_char [OF assms(1), of "CHR ''g''"] by (intro remove_ngn_id) (auto simp: is_digit_def)
  have 4: "strip_naira (''n'' @ d) = d" using assms(1,2) by (cases d) (auto simp: strip_naira_def str_simps)
  have 5: "filter (\<lambda>c. \<not> is_ws c) d = d" "filter (\<lambda>c. c \<noteq> CHR '','') d = d"
    using assms(1) digit_not_ws digit_simps by (auto simp: all_digits_def list_all_iff filter_id_conv)
  have "x \<noteq> CHR ''n''" "x \<noteq> CHR ''b''" "x \<noteq> CHR ''m''" "x \<noteq> CHR ''k''" using d(2) by (auto simp: is_digit_def)
  then have "\<not> ends_with ''bn'' d" "\<not> ends_with ''b'' d" "\<not> ends_with ''m'' d" "\<not> ends_with ''k'' d"
    unfolding d(1) using ends_with_last(1,3) by metis+
  then have 6: "magnitude d = (0, 1)" by (simp add: magnitude_def)
  have 7: "plain_number d = True" "(?s = []) = False" using assms(1,2) by (simp_all add: plain_number_def)
  have "fl (of_nat (parse_dec d)) = of_nat (parse_dec d)" using fl_of_int [of "int (parse_dec d)"] assms(3) by simp
  then show ?thesis unfolding parse_ngn_def 7 if_False Let_def 1 2 3 4 5 6 prod.case diff_zero take_all [OF order_refl]
      js_number_whole [OF assms] jsnum.case
    by (simp add: 7 5 fmul_def)
qed

lemma search_label: "search declared_label (''Total income: N'' @ t) = Some (''Total income'', '': N'' @ t)"
  by (simp add: declared_label_def phrases_def any_of_def or_match_def then_match_def word_def starts_with_def spaces1_def
      lower_def str_simps)

text \<open>The money token ends after the unit that the next word seems to begin with.\<close>

lemma search_money:
  assumes "all_digits d" "d \<noteq> []" "\<not> is_ws c" "\<not> is_digit c" "c \<noteq> CHR '',''"
  shows "search money ('': N'' @ d @ '' '' @ c # w) = Some (case any_of (map word [''bn'', ''b'', ''m'', ''k'']) (c # w) of
     None \<Rightarrow> (''N'' @ d @ '' '', c # w) | Some r \<Rightarrow> (take (length d + 3 + length w - length r) (''N'' @ d @ '' '' @ c # w), r))"
proof -
  obtain x d1 where d: "d = x # d1" "is_digit x" "all_digits d1" using assms(1,2) by (cases d) auto
  have x: "lower_char x = x" "x \<noteq> CHR ''g''" "\<not> is_ws x" using d(2) digit_simps lower_char_digit by auto
  have dw: "dropWhile (\<lambda>c. is_digit c \<or> c = CHR '','') (d @ '' '' @ c # w) = '' '' @ c # w"
    using assms(1) by (subst dropWhile_append2) (auto simp: all_digits_def list_all_iff is_digit_def)
  have p: "digits_part (d @ '' '' @ c # w) = Some (case any_of (map word [''bn'', ''b'', ''m'', ''k'']) (c # w) of
      None \<Rightarrow> c # w | Some r \<Rightarrow> r)"
  proof -
    have ws: "dropWhile is_ws (d @ '' '' @ c # w) = d @ '' '' @ c # w" using x(3) by (simp add: d(1))
    have hd: "is_digit (hd (d @ '' '' @ c # w))" using d by simp
    have sp: "dropWhile is_ws ('' '' @ c # w) = c # w" using assms(3) by (simp add: is_ws_def [of "CHR '' ''"] ws_chars_def)
    show ?thesis unfolding digits_part_def ws Let_def dw using hd assms(2) sp
      by (simp split: option.split)
  qed
  have m: "money (''N'' @ d @ '' '' @ c # w) = digits_part (d @ '' '' @ c # w)"
    using x p d by (simp add: money_def any_of_def or_match_def then_match_def word_def starts_with_def lower_def str_simps
        split: option.split)
  have a: "money ('': N'' @ t) = None" "money ('' N'' @ t) = None" for t
    by (simp_all add: money_def any_of_def or_match_def then_match_def word_def starts_with_def lower_def str_simps
        digits_part_def)
  have "search money ('': N'' @ d @ '' '' @ c # w) = search money (''N'' @ d @ '' '' @ c # w)"
    using a by simp
  also have "\<dots> = (case money (''N'' @ d @ '' '' @ c # w) of None \<Rightarrow> search money (d @ '' '' @ c # w)
      | Some r \<Rightarrow> Some (take (length (''N'' @ d @ '' '' @ c # w) - length r) (''N'' @ d @ '' '' @ c # w), r))"
    by (simp only: append_Cons append_Nil search.simps)
  finally have e: "search money ('': N'' @ d @ '' '' @ c # w) = Some (take (length (''N'' @ d @ '' '' @ c # w) -
      length (case any_of (map word [''bn'', ''b'', ''m'', ''k'']) (c # w) of None \<Rightarrow> c # w | Some r \<Rightarrow> r)) (''N'' @ d @ '' '' @ c # w),
      case any_of (map word [''bn'', ''b'', ''m'', ''k'']) (c # w) of None \<Rightarrow> c # w | Some r \<Rightarrow> r)"
    unfolding m p option.case .
  have l: "length (''N'' @ d @ '' '' @ c # w) = length d + 3 + length w" by simp
  have n: "take (length d + 3 + length w - length (c # w)) (''N'' @ d @ '' '' @ c # w) = ''N'' @ d @ '' ''"
    by (simp add: numeral_3_eq_3)
  show ?thesis unfolding e l
    by (cases "any_of (map word [''bn'', ''b'', ''m'', ''k'']) (c # w)") (simp_all only: option.case n)
qed

lemma first_line_id: "CHR 0x0A \<notin> set s \<Longrightarrow> first_line s = s"
proof -
  assume n: "CHR 0x0A \<notin> set s"
  then have "takeWhile (\<lambda>c. c \<noteq> CHR 0x0A) s = s" by (auto simp: takeWhile_eq_all_conv)
  then show ?thesis using n by (simp add: first_line_def)
qed

lemma declared_amount:
  assumes "all_digits d" "d \<noteq> []" "\<not> is_ws c" "\<not> is_digit c" "c \<noteq> CHR '',''" "CHR 0x0A \<notin> set (c # w)"
  shows "ex_declared (extract_financials (''Total income: N'' @ d @ '' '' @ c # w)) =
    parse_ngn (case any_of (map word [''bn'', ''b'', ''m'', ''k'']) (c # w) of None \<Rightarrow> ''N'' @ d @ '' ''
      | Some r \<Rightarrow> take (length d + 3 + length w - length r) (''N'' @ d @ '' '' @ c # w))"
proof -
  have "CHR 0x0A \<notin> set d" using digits_no_char [OF assms(1)] by (simp add: is_digit_def)
  then have f: "first_line ('': N'' @ d @ '' '' @ c # w) = '': N'' @ d @ '' '' @ c # w"
    using assms(6) by (intro first_line_id) simp
  have "labelled_amount declared_label (''Total income: N'' @ d @ '' '' @ c # w) =
      (case search money ('': N'' @ d @ '' '' @ c # w) of None \<Rightarrow> None | Some (token, _) \<Rightarrow> parse_ngn token)"
    unfolding labelled_amount_def search_label option.case prod.case f ..
  then show ?thesis unfolding search_money [OF assms(1-5)] by (simp add: extract_financials_def split: option.split)
qed

text \<open>
  The unit of an amount may be separated from it by blanks and need not end there, so the first letter of
  the next word is taken for one: whatever the amount, it is read as it stands before a word that begins with
  another letter, times a billion before a word in b and times a million before a word in m.
\<close>

theorem next_word_is_a_unit:
  assumes "all_digits d" "d \<noteq> []" "parse_dec d < 2 ^ 53"
  shows "ex_declared (extract_financials (''Total income: N'' @ d @ '' after tax'')) = Some (of_nat (parse_dec d)) \<and>
    ex_declared (extract_financials (''Total income: N'' @ d @ '' before tax'')) = Some (fmul (of_nat (parse_dec d)) 1000000000) \<and>
    ex_declared (extract_financials (''Total income: N'' @ d @ '' mainly rent'')) = Some (fmul (of_nat (parse_dec d)) 1000000)"
proof -
  have c: "\<not> is_ws (CHR ''a'')" "\<not> is_ws (CHR ''b'')" "\<not> is_ws (CHR ''m'')" "\<not> is_digit (CHR ''a'')" "\<not> is_digit (CHR ''b'')"
      "\<not> is_digit (CHR ''m'')" "CHR 0x0A \<notin> set ''after tax''" "CHR 0x0A \<notin> set ''before tax''" "CHR 0x0A \<notin> set ''mainly rent''"
    by code_simp+
  have u: "any_of (map word [''bn'', ''b'', ''m'', ''k'']) ''after tax'' = None"
      "any_of (map word [''bn'', ''b'', ''m'', ''k'']) ''before tax'' = Some ''efore tax''"
      "any_of (map word [''bn'', ''b'', ''m'', ''k'']) ''mainly rent'' = Some ''ainly rent''"
      "snd (magnitude ''b'') = 1000000000" "snd (magnitude ''m'') = 1000000"
    by code_simp+
  have t: "take (length d + 3 + length ''efore tax'' - length ''efore tax'') (''N'' @ d @ '' '' @ ''before tax'') = ''N'' @ d @ '' '' @ ''b''"
      "take (length d + 3 + length ''ainly rent'' - length ''ainly rent'') (''N'' @ d @ '' '' @ ''mainly rent'') = ''N'' @ d @ '' '' @ ''m''"
    by (simp_all add: numeral_3_eq_3)
  have "ex_declared (extract_financials (''Total income: N'' @ d @ '' '' @ ''after tax'')) = parse_ngn (''N'' @ d @ '' '')"
    using declared_amount [OF assms(1,2), of "CHR ''a''" "''fter tax''"] c(1,4,7) unfolding u(1) by simp
  moreover have "ex_declared (extract_financials (''Total income: N'' @ d @ '' '' @ ''before tax'')) = parse_ngn (''N'' @ d @ '' '' @ ''b'')"
    using declared_amount [OF assms(1,2), of "CHR ''b''" "''efore tax''"] c(2,5,8) unfolding u(2) option.case t by simp
  moreover have "ex_declared (extract_financials (''Total income: N'' @ d @ '' '' @ ''mainly rent'')) = parse_ngn (''N'' @ d @ '' '' @ ''m'')"
    using declared_amount [OF assms(1,2), of "CHR ''m''" "''ainly rent''"] c(3,6,9) unfolding u(3) option.case t by simp
  ultimately show ?thesis using parse_plain [OF assms] parse_unit [OF assms, of "''b''"] parse_unit [OF assms, of "''m''"] u(4,5) by simp
qed

theorem next_word_is_a_unit_witness:
  "ex_declared (extract_financials (''Total income: N'' @ ''500000'' @ '' after tax'')) = Some (of_nat (parse_dec ''500000'')) \<and>
    ex_declared (extract_financials (''Total income: N'' @ ''500000'' @ '' before tax'')) = Some (fmul (of_nat (parse_dec ''500000'')) 1000000000) \<and>
    ex_declared (extract_financials (''Total income: N'' @ ''500000'' @ '' mainly rent'')) = Some (fmul (of_nat (parse_dec ''500000'')) 1000000)"
  by (rule next_word_is_a_unit) (simp_all add: is_digit_def parse_dec_def digit_val_def)

end
