(* ===== verification/AgentRun.thy ===== *)
theory AgentRun
  imports Documents Cases
begin

text \<open>
  The run of the agents over a year, \<open>backend/src/modules/agents/agents.service.ts\<close>: the inferred
  sectors are written where none is known, every signal is stored on its key, and the scores are fused
  into the cases. The invariant of the stored signals is kept by runs and by uploaded documents, a signal
  is never withdrawn, and the concern over a shared BVN cannot arise from encrypted columns.
\<close>

subsection \<open>The run\<close>

record agent_env =
  ae_now :: time
  ae_log10 :: "rat \<Rightarrow> rat"
  ae_provider_name :: "string \<Rightarrow> string option"

text \<open>The taxpayers without a sector are read before any is written.\<close>

definition write_sector :: "string set \<Rightarrow> person list \<Rightarrow> profile \<Rightarrow> person list" where
  "write_sector need people p = (if pf_taxpayer p \<in> need
     then update_by tp_id (pf_taxpayer p) (\<lambda>t. t\<lparr>tp_sector := Some (sector_name (fst (infer_sector p)))\<rparr>) people else people)"

definition persist_sectors :: "profile list \<Rightarrow> person list \<Rightarrow> person list" where
  "persist_sectors profiles people =
     (let need = set (map tp_id (filter (\<lambda>t. tp_sector t = None \<and> tp_id t \<in> set (map pf_taxpayer profiles)) people))
      in foldl (write_sector need) people profiles)"

definition store_signal :: "time \<Rightarrow> nat \<Rightarrow> profile \<Rightarrow> risk_signal list \<Rightarrow> agent_signal \<Rightarrow> risk_signal list" where
  "store_signal now year p rows sg =
     upsert_signal now (pf_taxpayer p) year (sg_key sg) (clamp01 (sg_score sg)) (sg_severity sg) (AgentNote (sg_summary sg)) rows"

definition store_profile :: "agent_env \<Rightarrow> agent_context \<Rightarrow> nat \<Rightarrow> risk_signal list \<Rightarrow> profile \<Rightarrow> risk_signal list" where
  "store_profile env ctx year rows p = foldl (store_signal (ae_now env) year p) rows (fired (ae_log10 env) ctx p)"

definition scores_of :: "agent_env \<Rightarrow> agent_context \<Rightarrow> profile list \<Rightarrow> string \<Rightarrow> rat list" where
  "scores_of env ctx profiles tid = concat (map (\<lambda>p. map (\<lambda>sg. clamp01 (sg_score sg)) (fired (ae_log10 env) ctx p))
     (filter (\<lambda>p. pf_taxpayer p = tid) profiles))"

record run_result =
  rr_profiles :: nat
  rr_signals :: nat
  rr_cases :: nat

text \<open>\<open>ids\<close> is the answer of \<open>reportableTaxpayerIds\<close> for the year.\<close>

definition run_agents :: "agent_env \<Rightarrow> string list \<Rightarrow> nat \<Rightarrow> agent_db \<Rightarrow> (document_error, run_result, agent_db) outcome" where
  "run_agents env ids year st =
     (let profiles = build_profiles (ae_provider_name env) ids year (ad_db st);
          (cfg, rows) = active_config (td_config (ad_db st)); ctx = context_of cfg profiles;
          db1 = (ad_db st)\<lparr>td_config := rows, td_people := persist_sectors profiles (td_people (ad_db st))\<rparr>;
          (fused, db2) = fuse_signals year (scores_of env ctx profiles) db1
      in (Inr \<lparr>rr_profiles = length profiles, rr_signals = length (concat (map (fired (ae_log10 env) ctx) profiles)),
            rr_cases = (case fused of Inr n \<Rightarrow> n | Inl _ \<Rightarrow> 0)\<rparr>,
          st\<lparr>ad_db := db2, ad_signals := foldl (store_profile env ctx year) (ad_signals st) profiles\<rparr>))"

subsection \<open>Operations\<close>

datatype agent_op = RunAgents agent_env "string list" nat
  | AddDocument time string "upload_file option" "string option" "string option"

fun exec_agent :: "agent_op \<Rightarrow> agent_db \<Rightarrow> (document_error, unit, agent_db) outcome" where
  "exec_agent (RunAgents env ids year) st = forget (run_agents env ids year st)"
| "exec_agent (AddDocument now cid file pasted staff) st = forget (add_document now cid file pasted staff st)"

subsection \<open>Scores and severities\<close>

definition agent_keys :: "string list" where
  "agent_keys = [''pattern'', ''matching'', ''sector'', ''behavioural'', ''predictive'', ''document'']"

definition signal_ok :: "agent_signal \<Rightarrow> bool" where
  "signal_ok sg \<longleftrightarrow> sg_key sg \<in> set agent_keys \<and> 0 \<le> sg_score sg \<and> sg_score sg \<le> 1 \<and> sg_severity sg = severity_for (sg_score sg)"

lemma clamp01_range [simp]: "0 \<le> clamp01 x" "clamp01 x \<le> 1"
  by (auto simp: clamp01_def)

lemma clamp01_id: "0 \<le> x \<Longrightarrow> x \<le> 1 \<Longrightarrow> clamp01 x = x"
  by (auto simp: clamp01_def)

lemma signal_okI: "k \<in> set agent_keys \<Longrightarrow> 0 \<le> x \<Longrightarrow> x \<le> 1 \<Longrightarrow> signal_ok (signal k x m)"
  by (simp add: signal_ok_def signal_def)

lemma matching_ok: "analyze_matching p = Some sg \<Longrightarrow> signal_ok sg"
  using lit_0_1 [of 8 10] lit_0_1 [of 1 2]
  by (auto simp: analyze_matching_def Let_def agent_keys_def max_def intro!: signal_okI split: if_splits)

lemma pattern_ok: "analyze_pattern ctx p = Some sg \<Longrightarrow> signal_ok sg"
  by (auto simp: analyze_pattern_def Let_def agent_keys_def intro!: signal_okI split: if_splits)

lemma sector_ok: "analyze_sector ctx p = Some sg \<Longrightarrow> signal_ok sg"
  by (auto simp: analyze_sector_def Let_def split_beta agent_keys_def intro!: signal_okI split: if_splits)

lemma behaviour_ok: "analyze_behaviour p = Some sg \<Longrightarrow> signal_ok sg"
  by (auto simp: analyze_behaviour_def behaviour_score_def Let_def agent_keys_def intro!: signal_okI split: if_splits)

lemma predictive_ok: "analyze_predictive log10 p = Some sg \<Longrightarrow> signal_ok sg"
  by (auto simp: analyze_predictive_def priority_score_def Let_def agent_keys_def intro!: signal_okI split: if_splits)

lemma fired_ok: "sg \<in> set (fired log10 ctx p) \<Longrightarrow> signal_ok sg"
  by (auto simp: fired_def fleet_def analyze_document_def split: option.splits
      dest!: sym [of "Some _"] dest: pattern_ok matching_ok sector_ok behaviour_ok predictive_ok)

subsection \<open>The stored signals\<close>

text \<open>
  A stored score is a number of hundredths between zero and one; the severity is the one of that score,
  except on the edge of a band, where the score was rounded up to the edge.
\<close>

definition stored_ok :: "risk_signal \<Rightarrow> bool" where
  "stored_ok s \<longleftrightarrow> rs_agent s \<in> set agent_keys \<and> 0 \<le> rs_score s \<and> rs_score s \<le> 1 \<and> cents (rs_score s) \<and>
     (rs_severity s = severity_for (fl (rs_score s)) \<or> rs_score s \<in> {33 / 100, 66 / 100})"

definition signals_ok :: "agent_db \<Rightarrow> bool" where
  "signals_ok st \<longleftrightarrow> distinct (map signal_key (ad_signals st)) \<and> list_all stored_ok (ad_signals st)"

lemma hundredths:
  assumes "0 \<le> x"
  obtains k :: int where "to_fixed 2 x = of_int k / 100" "cents (to_fixed 2 x)"
proof -
  have "to_fixed 2 x = of_int \<lfloor>x * 100 + 1/2\<rfloor> / 100" using assms by (simp add: to_fixed_def)
  moreover have "cents (of_int k / 100)" if "0 \<le> k" for k :: int
  proof -
    have "\<lfloor>(of_int k :: rat) + 1/2\<rfloor> = k" by (simp add: floor_eq_iff)
    then show ?thesis using that by (simp add: cents_def to_fixed_def)
  qed
  moreover have "0 \<le> \<lfloor>x * 100 + 1/2\<rfloor>" using assms by simp
  ultimately show ?thesis using that by metis
qed

lemma band_edges:
  "to_fixed 2 (lit 66 100) = 66 / 100" "to_fixed 2 (lit 33 100) = 33 / 100" "fl (65 / 100) < lit 66 100" "fl (32 / 100) < lit 33 100"
  by code_simp+

lemma edge_lit: "fl (66 / 100) = lit 66 100" "fl (33 / 100) = lit 33 100"
  by (simp_all add: lit_def)

text \<open>Rounding to hundredths moves a score at most to the edge of its band.\<close>

lemma below_edge:
  assumes "0 \<le> x" "x < e" "to_fixed 2 e = of_int (k + 1) / 100" "to_fixed 2 x \<noteq> of_int (k + 1) / 100" "fl (of_int k / 100) < e"
  shows "fl (to_fixed 2 x) < e"
proof -
  obtain j :: int where j: "to_fixed 2 x = of_int j / 100" using hundredths [OF assms(1)] by metis
  have "to_fixed 2 x \<le> to_fixed 2 e" using assms(1,2) by (intro to_fixed_mono) simp_all
  then have "j \<le> k" using assms(3,4) j by (simp add: divide_le_cancel)
  then have "fl (to_fixed 2 x) \<le> fl (of_int k / 100)" unfolding j by (intro fl_mono) (simp add: divide_right_mono)
  then show ?thesis using assms(5) by simp
qed

lemma above_edge: "0 \<le> e \<Longrightarrow> e \<le> x \<Longrightarrow> to_fixed 2 e = q \<Longrightarrow> fl q = e \<Longrightarrow> e \<le> fl (to_fixed 2 x)"
  using fl_mono [OF to_fixed_mono [of e x 2]] by simp

lemma severity_rounded:
  assumes "0 \<le> x" "to_fixed 2 x \<noteq> 66 / 100" "to_fixed 2 x \<noteq> 33 / 100"
  shows "severity_for (fl (to_fixed 2 x)) = severity_for x"
proof -
  let ?y = "fl (to_fixed 2 x)"
  have "x < lit 66 100 \<Longrightarrow> ?y < lit 66 100" using assms band_edges by (intro below_edge [of x _ 65]) simp_all
  moreover have "lit 66 100 \<le> x \<Longrightarrow> lit 66 100 \<le> ?y" using edge_lit band_edges lit_nonneg [of 66 100] by (intro above_edge) simp_all
  moreover have "x < lit 33 100 \<Longrightarrow> ?y < lit 33 100" using assms band_edges by (intro below_edge [of x _ 32]) simp_all
  moreover have "lit 33 100 \<le> x \<Longrightarrow> lit 33 100 \<le> ?y" using edge_lit band_edges lit_nonneg [of 33 100] by (intro above_edge) simp_all
  ultimately have "(lit 66 100 \<le> ?y) = (lit 66 100 \<le> x)" "(lit 33 100 \<le> ?y) = (lit 33 100 \<le> x)" by (meson not_le)+
  then show ?thesis by (simp add: severity_for_def)
qed

lemma to_fixed_le_1: "0 \<le> x \<Longrightarrow> x \<le> 1 \<Longrightarrow> to_fixed 2 x \<le> 1"
proof -
  assume "0 \<le> x" "x \<le> 1"
  then have "to_fixed 2 x \<le> to_fixed 2 1" by (intro to_fixed_mono)
  also have "to_fixed 2 1 = (1 :: rat)" by code_simp
  finally show ?thesis .
qed

lemma stored_row_ok:
  assumes "a \<in> set agent_keys" "0 \<le> x" "x \<le> 1" "rs_agent s = a" "rs_score s = to_fixed 2 x" "rs_severity s = severity_for x"
  shows "stored_ok s"
proof -
  have "cents (to_fixed 2 x)" using hundredths [OF assms(2)] by metis
  moreover have "rs_severity s = severity_for (fl (rs_score s)) \<or> rs_score s \<in> {33 / 100, 66 / 100}"
    unfolding assms(5,6) using severity_rounded [OF assms(2)] by (metis insert_iff)
  ultimately show ?thesis using assms(1-5) to_fixed_nonneg [OF assms(2), of 2] to_fixed_le_1 [OF assms(2,3)]
    by (simp add: stored_ok_def)
qed

lemma upsert_cases:
  obtains (fresh) r where "upsert_signal now tid y a x sev m rows = rows @ [r]" "signal_key r = (tid, y, a)"
      "(tid, y, a) \<notin> signal_key ` set rows" "rs_agent r = a" "rs_score r = to_fixed 2 x" "rs_severity r = sev"
      "rs_summary r = m"
  | (known) f where "upsert_signal now tid y a x sev m rows = update_by signal_key (tid, y, a) f rows"
      "\<And>s. signal_key (f s) = (tid, y, a)" "\<And>s. rs_agent (f s) = a" "\<And>s. rs_score (f s) = to_fixed 2 x"
      "\<And>s. rs_severity (f s) = sev" "\<And>s. rs_summary (f s) = m"
proof (cases "find_by signal_key (tid, y, a) rows")
  case None
  then have n: "(tid, y, a) \<notin> signal_key ` set rows" by (simp add: find_by_None)
  show ?thesis
    by (intro fresh [of "\<lparr>rs_taxpayer = tid, rs_year = y, rs_agent = a, rs_score = to_fixed 2 x, rs_severity = sev,
        rs_summary = m, rs_created = now, rs_computed = now\<rparr>"])
      (simp_all only: n not_False_eq_True, simp_all add: upsert_signal_def Let_def None, simp_all add: signal_key_def)
next
  case (Some old)
  then show ?thesis
    by (intro known [of "\<lambda>s. \<lparr>rs_taxpayer = tid, rs_year = y, rs_agent = a, rs_score = to_fixed 2 x, rs_severity = sev,
        rs_summary = m, rs_created = now, rs_computed = now\<rparr>\<lparr>rs_created := rs_created s\<rparr>"])
      (simp_all add: upsert_signal_def Let_def, simp_all add: signal_key_def)
qed

lemma update_keeps_keys: "(\<And>s. key (f s) = k) \<Longrightarrow> map key (update_by key k f rows) = map key rows"
  by (simp add: update_by_def)

text \<open>What an upsert does: it keeps the keys distinct and in place, and touches no other row.\<close>

lemma upsert_ok:
  assumes "distinct (map signal_key rows)" "list_all stored_ok rows" "a \<in> set agent_keys" "0 \<le> x" "x \<le> 1"
  shows "distinct (map signal_key (upsert_signal now tid y a x (severity_for x) m rows)) \<and>
    list_all stored_ok (upsert_signal now tid y a x (severity_for x) m rows)"
proof (cases rule: upsert_cases [of now tid y a x "severity_for x" m rows])
  case (fresh r)
  have "stored_ok r" using stored_row_ok [OF assms(3-5)] fresh by blast
  then show ?thesis using fresh assms by simp
next
  case (known f)
  have "stored_ok (f s)" for s using stored_row_ok [OF assms(3-5)] known by blast
  then have "list_all stored_ok (update_by signal_key (tid, y, a) f rows)"
    using assms(2) by (auto simp: update_by_def list_all_iff)
  then show ?thesis unfolding known(1) update_keeps_keys [of signal_key f, OF known(2)] using assms(1) by simp
qed

lemma upsert_keys:
  "set (map signal_key rows) \<subseteq> set (map signal_key (upsert_signal now tid y a x sev m rows))"
proof (cases rule: upsert_cases [of now tid y a x sev m rows])
  case (known f)
  show ?thesis unfolding known(1) update_keeps_keys [of signal_key f, OF known(2)] by simp
qed auto

lemma upsert_other:
  assumes "s \<in> set rows" "signal_key s \<noteq> (tid, y, a)"
  shows "s \<in> set (upsert_signal now tid y a x sev m rows)"
proof (cases rule: upsert_cases [of now tid y a x sev m rows])
  case (known f)
  show ?thesis unfolding known(1) update_by_def using assms by (force simp: image_iff)
qed (use assms in auto)

lemma upsert_all:
  assumes "list_all Q rows" "\<And>s. rs_summary s = m \<Longrightarrow> Q s"
  shows "list_all Q (upsert_signal now tid y a x sev m rows)"
proof (cases rule: upsert_cases [of now tid y a x sev m rows])
  case (fresh r)
  then show ?thesis using assms by simp
next
  case (known f)
  then show ?thesis using assms by (auto simp: update_by_def list_all_iff)
qed

lemma upsert_elsewhere:
  assumes "tid \<noteq> t"
  shows "filter (\<lambda>s. rs_taxpayer s = t) (upsert_signal now tid y a x sev m rows) = filter (\<lambda>s. rs_taxpayer s = t) rows"
proof (cases rule: upsert_cases [of now tid y a x sev m rows])
  case (fresh r)
  then show ?thesis using assms by (auto simp: signal_key_def)
next
  case (known f)
  have "rs_taxpayer (f s) = tid" for s using known(2) [of s] by (simp add: signal_key_def)
  then have "filter (\<lambda>s. rs_taxpayer s = t) (update_by signal_key (tid, y, a) f rows) = filter (\<lambda>s. rs_taxpayer s = t) rows"
    using assms by (induction rows) (auto simp: update_by_def signal_key_def)
  then show ?thesis using known(1) by simp
qed

lemma foldl_inv: "I a \<Longrightarrow> (\<And>a x. x \<in> set xs \<Longrightarrow> I a \<Longrightarrow> I (g a x)) \<Longrightarrow> I (foldl g a xs)"
  by (induction xs arbitrary: a) auto

text \<open>What every single store keeps, the run keeps.\<close>

lemma run_signals_inv:
  assumes "I (ad_signals st)"
    "\<And>p sg ctx rows. p \<in> set (build_profiles (ae_provider_name env) ids year (ad_db st)) \<Longrightarrow> sg \<in> set (fired (ae_log10 env) ctx p) \<Longrightarrow>
      I rows \<Longrightarrow> I (store_signal (ae_now env) year p rows sg)"
  shows "I (ad_signals (snd (run_agents env ids year st)))"
proof -
  let ?ps = "build_profiles (ae_provider_name env) ids year (ad_db st)"
  let ?ctx = "context_of (fst (active_config (td_config (ad_db st)))) ?ps"
  have "ad_signals (snd (run_agents env ids year st)) = foldl (store_profile env ?ctx year) (ad_signals st) ?ps"
    by (simp add: run_agents_def Let_def split_beta)
  moreover have "I (foldl (store_profile env ?ctx year) (ad_signals st) ?ps)"
  proof (rule foldl_inv [of I])
    fix rows p
    assume p: "p \<in> set ?ps" "I rows"
    show "I (store_profile env ?ctx year rows p)"
      unfolding store_profile_def by (rule foldl_inv [of I]) (use p assms(2) in auto)
  qed (rule assms(1))
  ultimately show ?thesis by simp
qed

lemma run_agents_db:
  "ad_db (snd (run_agents env ids year st)) = snd (fuse_signals year
     (scores_of env (context_of (fst (active_config (td_config (ad_db st))))
        (build_profiles (ae_provider_name env) ids year (ad_db st))) (build_profiles (ae_provider_name env) ids year (ad_db st)))
     ((ad_db st)\<lparr>td_config := snd (active_config (td_config (ad_db st))),
        td_people := persist_sectors (build_profiles (ae_provider_name env) ids year (ad_db st)) (td_people (ad_db st))\<rparr>))"
  by (simp add: run_agents_def Let_def split_beta)

text \<open>An upload leaves the state, seeds the configuration, or stores a document with its signal.\<close>

lemma add_document_cases:
  obtains (refused) "snd (add_document now cid up pasted staff st) = st"
  | (overflow) "snd (add_document now cid up pasted staff st) =
      st\<lparr>ad_db := (ad_db st)\<lparr>td_config := snd (active_config (td_config (ad_db st)))\<rparr>\<rparr>"
  | (stored) d kase rc cgt where "snd (add_document now cid up pasted staff st) =
      st\<lparr>ad_db := (ad_db st)\<lparr>td_config := snd (active_config (td_config (ad_db st)))\<rparr>,
        ad_documents := ad_documents st @ [d], ad_signals := document_signal now kase rc cgt (ad_signals st)\<rparr>"
proof (cases "find_by tc_id cid (td_cases (ad_db st))")
  case None
  then show ?thesis by (intro refused) (simp add: add_document_def)
next
  case (Some kase)
  note k = Some
  show ?thesis
  proof (cases "(up = None \<and> \<not> truthy pasted) \<or> extract_text up pasted = None \<or> fst (the (extract_text up pasted)) = []")
    case True
    have "snd (add_document now cid up pasted staff st) = st"
    proof (cases "up = None \<and> \<not> truthy pasted")
      case False
      with True consider "extract_text up pasted = None" | src where "extract_text up pasted = Some ([], src)" by force
      then show ?thesis using False by cases (simp_all only: add_document_def k option.case prod.case if_False if_True snd_conv simp_thms)
    next
      case True
      then have c: "(up = None \<and> \<not> truthy pasted) = True" by simp
      show ?thesis unfolding add_document_def k option.case c if_True snd_conv ..
    qed
    then show ?thesis by (rule refused)
  next
    case False
    obtain t src where x: "extract_text up pasted = Some (t, src)"
      using False by (cases "extract_text up pasted") auto
    have t: "t \<noteq> []" "(up = None \<and> \<not> truthy pasted) = False" using False by (simp_all only: x option.sel fst_conv) simp_all
    obtain cfg rows where c: "active_config (td_config (ad_db st)) = (cfg, rows)" by (cases "active_config (td_config (ad_db st))")
    let ?ex = "extract_financials t"
    let ?rc = "reconcile ?ex (fl (tc_observed kase))"
    let ?cgt = "compute_cgt ?ex (sc_value cfg CgtRate)"
    show ?thesis
    proof (cases "document_fits ?ex ?rc ?cgt")
      case True
      show ?thesis
        by (rule stored [where d = "document_of cid up t src ?ex ?rc ?cgt staff" and kase = kase and rc = ?rc and cgt = ?cgt])
          (simp only: add_document_def k x t c True option.case prod.case Let_def if_False not_True_eq_False snd_conv)
    next
      case False
      show ?thesis
        by (rule overflow) (simp only: add_document_def k x t c False option.case prod.case Let_def if_False if_True not_False_eq_True snd_conv)
    qed
  qed
qed

subsection \<open>The books stay sound\<close>

definition books_ok :: "agent_db \<Rightarrow> bool" where
  "books_ok st \<longleftrightarrow> signals_ok st \<and> cases_ok (ad_db st)"

lemma cases_ok_config:
  assumes "cases_ok db"
  shows "cases_ok (db\<lparr>td_config := snd (active_config (td_config db))\<rparr>)"
  using cases_ok_later(1,2) [OF assms] assms by (simp add: cases_ok_def)

lemma cases_ok_people: "cases_ok (db\<lparr>td_people := ps\<rparr>) = cases_ok db"
  by (simp add: cases_ok_def)

lemma store_signal_ok:
  assumes "distinct (map signal_key rows) \<and> list_all stored_ok rows" "signal_ok sg"
  shows "distinct (map signal_key (store_signal now year p rows sg)) \<and> list_all stored_ok (store_signal now year p rows sg)"
  using upsert_ok [of rows "sg_key sg" "sg_score sg"] assms
  by (simp add: store_signal_def signal_ok_def clamp01_id)

lemma run_agents_ok:
  assumes "books_ok st"
  shows "books_ok (snd (run_agents env ids year st))"
proof -
  have "distinct (map signal_key (ad_signals (snd (run_agents env ids year st)))) \<and>
      list_all stored_ok (ad_signals (snd (run_agents env ids year st)))"
    by (rule run_signals_inv) (use assms store_signal_ok fired_ok in \<open>auto simp: books_ok_def signals_ok_def\<close>)
  moreover have "cases_ok (ad_db (snd (run_agents env ids year st)))"
    unfolding run_agents_db using assms by (intro fuse_signals_ok) (simp add: books_ok_def cases_ok_people cases_ok_config)
  ultimately show ?thesis by (simp add: books_ok_def signals_ok_def)
qed

lemma document_signal_ok:
  assumes "distinct (map signal_key rows) \<and> list_all stored_ok rows"
  shows "distinct (map signal_key (document_signal now c rc cgt rows)) \<and> list_all stored_ok (document_signal now c rc cgt rows)"
proof -
  have "0 \<le> max (score_reconciliation rc) (if cgt \<noteq> None then lit 6 10 else 0)"
    "max (score_reconciliation rc) (if cgt \<noteq> None then lit 6 10 else 0) \<le> 1"
    using lit_0_1 [of 6 10] by (auto simp: score_reconciliation_def le_max_iff_disj)
  then show ?thesis using assms upsert_ok [of rows "''document''"] by (simp add: document_signal_def Let_def agent_keys_def)
qed

lemma add_document_ok:
  assumes "books_ok st"
  shows "books_ok (snd (add_document now cid up pasted staff st))"
proof (cases rule: add_document_cases [of now cid up pasted staff st])
  case (stored d kase rc cgt)
  show ?thesis using assms document_signal_ok cases_ok_config by (simp add: stored books_ok_def signals_ok_def)
qed (use assms cases_ok_config in \<open>simp_all add: books_ok_def signals_ok_def\<close>)

lemma exec_agent_ok: "books_ok st \<Longrightarrow> books_ok (snd (exec_agent c st))"
  by (cases c) (simp_all add: run_agents_ok add_document_ok)

interpretation agent_books: service exec_agent books_ok
  by unfold_locales (rule exec_agent_ok)

definition keeps_keys :: "agent_db \<Rightarrow> agent_db \<Rightarrow> bool" where
  "keeps_keys st st' \<longleftrightarrow> set (map signal_key (ad_signals st)) \<subseteq> set (map signal_key (ad_signals st'))"

lemma exec_agent_keys: "keeps_keys st0 st \<Longrightarrow> keeps_keys st0 (snd (exec_agent c st))"
proof (cases c)
  case (RunAgents env ids year)
  assume a: "keeps_keys st0 st"
  have "set (map signal_key (ad_signals st0)) \<subseteq> set (map signal_key (ad_signals (snd (run_agents env ids year st))))"
    by (rule run_signals_inv) (use a in \<open>simp add: keeps_keys_def\<close>, unfold store_signal_def, rule order_trans [OF _ upsert_keys])
  then show ?thesis using RunAgents by (simp add: keeps_keys_def)
next
  case (AddDocument now cid up pasted staff)
  assume a: "keeps_keys st0 st"
  have "set (map signal_key rows) \<subseteq> set (map signal_key (document_signal now k rc cgt rows))" for k rc cgt rows
    unfolding document_signal_def Let_def using upsert_keys by (simp del: set_map)
  then have "keeps_keys st (snd (add_document now cid up pasted staff st))"
    by (cases rule: add_document_cases [of now cid up pasted staff st]) (simp_all add: keeps_keys_def del: set_map)
  then show ?thesis using a AddDocument by (auto simp: keeps_keys_def)
qed

interpretation agent_keys_kept: service exec_agent "keeps_keys st0" for st0
  by unfold_locales (rule exec_agent_keys)

text \<open>
  C14. The books of the agents stay sound under any sequence of runs and uploaded documents, whatever the
  profiles, the clock, the logarithm and the text of a document: one signal per taxpayer, year and agent,
  its score a number of hundredths from zero to one, its severity that of the score up to rounding at a
  band's edge, and the cases as sound as before. A signal once raised is never withdrawn: its key stays.
\<close>

theorem agent_books_stay_sound:
  assumes "books_ok st"
  shows "books_ok (run_ops exec_agent cs st) \<and> keeps_keys st (run_ops exec_agent cs st)"
  using agent_books.run_inv [OF assms] agent_keys_kept.run_inv [of st st] by (simp add: keeps_keys_def)

subsection \<open>Stale verdicts\<close>

text \<open>No agent raises anything for a taxpayer: not reportable any more, or nothing left to find.\<close>

definition quiet :: "agent_env \<Rightarrow> string list \<Rightarrow> nat \<Rightarrow> agent_db \<Rightarrow> string \<Rightarrow> bool" where
  "quiet env ids year st t = (let profiles = build_profiles (ae_provider_name env) ids year (ad_db st);
       ctx = context_of (fst (active_config (td_config (ad_db st)))) profiles
     in list_all (\<lambda>p. fired (ae_log10 env) ctx p = []) (filter (\<lambda>p. pf_taxpayer p = t) profiles))"

lemma quiet_scores: "quiet env ids year st t \<Longrightarrow> scores_of env (context_of (fst (active_config (td_config (ad_db st))))
    (build_profiles (ae_provider_name env) ids year (ad_db st))) (build_profiles (ae_provider_name env) ids year (ad_db st)) t = []"
  by (auto simp: quiet_def scores_of_def Let_def list_all_iff)

lemma quiet_fuse:
  "signals t = [] \<Longrightarrow> filter (\<lambda>c. tc_taxpayer c = t) (td_cases (snd (fuse_signals year signals db))) = filter (\<lambda>c. tc_taxpayer c = t) (td_cases db)"
proof -
  assume q: "signals t = []"
  have "filter (\<lambda>c. tc_taxpayer c = t) (map (\<lambda>c. if tc_year c = year \<and> signals (tc_taxpayer c) \<noteq> [] then fuse_case signals c else c) cs) =
      filter (\<lambda>c. tc_taxpayer c = t) cs" for cs
    using q by (induction cs) (auto simp: fuse_case_def Let_def)
  then show ?thesis by (simp add: fuse_signals_def Let_def)
qed

text \<open>
  A run never takes a verdict back. When no agent raises anything for a taxpayer (the records were
  corrected, or the taxpayer is not reportable any more), all signals of earlier runs and of documents stay
  as they are, with their old scores, and the cases keep the agents' score and the risk level that were
  computed from them.
\<close>

theorem stale_verdicts_stay:
  assumes "quiet env ids year st t"
  shows "filter (\<lambda>s. rs_taxpayer s = t) (ad_signals (snd (run_agents env ids year st))) =
      filter (\<lambda>s. rs_taxpayer s = t) (ad_signals st) \<and>
    filter (\<lambda>c. tc_taxpayer c = t) (td_cases (ad_db (snd (run_agents env ids year st)))) =
      filter (\<lambda>c. tc_taxpayer c = t) (td_cases (ad_db st))"
proof
  let ?ps = "build_profiles (ae_provider_name env) ids year (ad_db st)"
  let ?ctx = "context_of (fst (active_config (td_config (ad_db st)))) ?ps"
  let ?own = "filter (\<lambda>s. rs_taxpayer s = t)"
  have one: "?own (store_profile env ?ctx year rows p) = ?own rows" if "p \<in> set ?ps" for rows p
  proof (cases "pf_taxpayer p = t")
    case True
    then have "fired (ae_log10 env) ?ctx p = []" using assms that by (auto simp: quiet_def Let_def list_all_iff)
    then show ?thesis by (simp add: store_profile_def)
  next
    case False
    show ?thesis unfolding store_profile_def
      by (rule foldl_inv [of "\<lambda>r. ?own r = ?own rows"]) (simp_all add: store_signal_def upsert_elsewhere [OF False])
  qed
  have "?own (foldl (store_profile env ?ctx year) (ad_signals st) ?ps) = ?own (ad_signals st)"
    by (rule foldl_inv [of "\<lambda>r. ?own r = ?own (ad_signals st)"]) (simp_all add: one)
  then show "?own (ad_signals (snd (run_agents env ids year st))) = ?own (ad_signals st)"
    by (simp add: run_agents_def Let_def split_beta)
  show "filter (\<lambda>c. tc_taxpayer c = t) (td_cases (ad_db (snd (run_agents env ids year st)))) =
      filter (\<lambda>c. tc_taxpayer c = t) (td_cases (ad_db st))"
    unfolding run_agents_db by (subst quiet_fuse [where t = t]) (rule quiet_scores [OF assms], simp)
qed

subsection \<open>One BVN on several accounts\<close>

text \<open>
  What the encryption of the columns promises: every stored ciphertext is a different one, since each
  value is sealed with a fresh random nonce, and the text has no white space.
\<close>

definition sealed_columns :: "scored_record list \<Rightarrow> bool" where
  "sealed_columns rs \<longleftrightarrow> distinct (filter (\<lambda>b. b \<noteq> []) (map (\<lambda>r. trim (or_blank (d_bvn r))) rs))"

lemma add_name_lengths:
  "bvn \<notin> fst ` set acc \<Longrightarrow> add_name bvn nm acc = acc @ [(bvn, [nm])]"
  by (induction acc) auto

lemma sealed_single:
  assumes "distinct (filter (\<lambda>b. b \<noteq> []) (map (\<lambda>r. trim (or_blank (pr_bvn r))) rs))"
    "\<And>r. r \<in> set rs \<Longrightarrow> trim (or_blank (pr_bvn r)) \<notin> fst ` set acc" "list_all (\<lambda>(b, ns). length ns = 1) acc"
  shows "list_all (\<lambda>(b, ns). length ns = 1) (names_by_bvn rs acc)"
  using assms
proof (induction rs arbitrary: acc)
  case (Cons r rs)
  let ?b = "trim (or_blank (pr_bvn r))" and ?n = "normalize_name (pr_account_name r)"
  show ?case
  proof (cases "?b = [] \<or> ?n = []")
    case True
    have "list_all (\<lambda>(b, ns). length ns = 1) (names_by_bvn rs acc)"
      using Cons.prems by (intro Cons.IH) (auto split: if_splits)
    then show ?thesis using True by (simp add: Let_def)
  next
    case False
    have a: "add_name ?b ?n acc = acc @ [(?b, [?n])]" using Cons.prems(2) by (intro add_name_lengths) simp
    have "trim (or_blank (pr_bvn r')) \<noteq> ?b" if "r' \<in> set rs" for r'
      using Cons.prems(1) False that by (auto simp: image_iff)
    then have "list_all (\<lambda>(b, ns). length ns = 1) (names_by_bvn rs (acc @ [(?b, [?n])]))"
      using Cons.prems False by (intro Cons.IH) auto
    then show ?thesis using False a by (simp add: Let_def)
  qed
qed simp

lemma sealed_no_conflict:
  assumes "distinct (filter (\<lambda>b. b \<noteq> []) (map (\<lambda>r. trim (or_blank (pr_bvn r))) rs))"
  shows "shared_bvn_conflicts rs = []"
  using sealed_single [OF assms, of "[]"] by (auto simp: shared_bvn_conflicts_def filter_empty_conv list_all_iff)

lemma sealed_profile:
  assumes "sealed_columns (td_records db)" "p \<in> set (build_profiles nm ids year db)"
  shows "shared_bvn_conflicts (pf_records p) = []"
proof -
  obtain x where p: "p = profile_of nm year db x" using assms(2) by (auto simp: build_profiles_def)
  let ?f = "\<lambda>r. d_period_year r = year \<and> d_taxpayer r = Some (tp_id x)"
  have "distinct (filter (\<lambda>b. b \<noteq> []) (map (\<lambda>r. trim (or_blank (d_bvn r))) (filter ?f rs)))"
    if "distinct (filter (\<lambda>b. b \<noteq> []) (map (\<lambda>r. trim (or_blank (d_bvn r))) rs))" for rs
    using that by (induction rs) auto
  from this [OF assms(1) [unfolded sealed_columns_def]] show ?thesis
    unfolding p by (intro sealed_no_conflict) (simp add: profile_of_def profile_record_of_def comp_def Let_def)
qed

definition names_concern :: "signal_summary \<Rightarrow> bool" where
  "names_concern m = (case m of AgentNote (MatchShared n ns) \<Rightarrow> True | _ \<Rightarrow> False)"

lemma no_concern:
  "analyze_pattern ctx p = Some sg \<Longrightarrow> \<not> names_concern (AgentNote (sg_summary sg))"
  "analyze_sector ctx p = Some sg \<Longrightarrow> \<not> names_concern (AgentNote (sg_summary sg))"
  "analyze_behaviour p = Some sg \<Longrightarrow> \<not> names_concern (AgentNote (sg_summary sg))"
  "analyze_predictive log10 p = Some sg \<Longrightarrow> \<not> names_concern (AgentNote (sg_summary sg))"
  by (auto simp: analyze_pattern_def analyze_sector_def analyze_behaviour_def analyze_predictive_def Let_def split_beta signal_def
      names_concern_def pattern_summary_def behaviour_summary_def split: if_splits)

lemma matching_no_concern:
  "shared_bvn_conflicts (pf_records p) = [] \<Longrightarrow> analyze_matching p = Some sg \<Longrightarrow> \<not> names_concern (AgentNote (sg_summary sg))"
  by (auto simp: analyze_matching_def matching_summary_def Let_def signal_def names_concern_def split: if_splits)

lemma fired_no_concern:
  assumes "shared_bvn_conflicts (pf_records p) = []" "sg \<in> set (fired log10 ctx p)"
  shows "\<not> names_concern (AgentNote (sg_summary sg))"
  using assms no_concern matching_no_concern
  by (auto simp: fired_def fleet_def analyze_document_def split: option.splits dest!: sym [of "Some _"])


subsection \<open>Instances\<close>

definition demo_agent_env :: agent_env where
  "demo_agent_env = \<lparr>ae_now = 7, ae_log10 = (\<lambda>x. 6), ae_provider_name = (\<lambda>p. None)\<rparr>"

text \<open>Two accounts of one taxpayer, the holders named differently, with the BVN column as given.\<close>

definition bvn_record :: "string \<Rightarrow> string \<Rightarrow> scored_record" where
  "bvn_record sealed name = blank_record\<lparr>d_bvn := Some sealed, d_account_name := Some name, d_match_confidence := Some 1,
     d_total_inflow := Some (Fin 60000001)\<rparr>"

definition bvn_book :: "string \<Rightarrow> string \<Rightarrow> agent_db" where
  "bvn_book b1 b2 = \<lparr>ad_db = (small_db 0 [])\<lparr>td_records := [bvn_record b1 ''Ola Omar'', bvn_record b2 ''Omar Bala'']\<rparr>,
     ad_signals = [], ad_documents = []\<rparr>"

lemma demo_names:
  "names_by_bvn [r\<lparr>pr_bvn := Some ''222'', pr_account_name := Some ''Ola Omar''\<rparr>, q\<lparr>pr_bvn := Some ''222'', pr_account_name := Some ''Omar Bala''\<rparr>] []
     = [(''222'', [''ola omar'', ''omar bala''])]"
  "names_by_bvn [q\<lparr>pr_bvn := Some ''222'', pr_account_name := Some ''Omar Bala''\<rparr>, r\<lparr>pr_bvn := Some ''222'', pr_account_name := Some ''Ola Omar''\<rparr>] []
     = [(''222'', [''omar bala'', ''ola omar''])]"
proof -
  have t: "trim ''222'' = ''222''" by code_simp
  show "names_by_bvn [r\<lparr>pr_bvn := Some ''222'', pr_account_name := Some ''Ola Omar''\<rparr>, q\<lparr>pr_bvn := Some ''222'', pr_account_name := Some ''Omar Bala''\<rparr>] []
     = [(''222'', [''ola omar'', ''omar bala''])]"
    "names_by_bvn [q\<lparr>pr_bvn := Some ''222'', pr_account_name := Some ''Omar Bala''\<rparr>, r\<lparr>pr_bvn := Some ''222'', pr_account_name := Some ''Ola Omar''\<rparr>] []
     = [(''222'', [''omar bala'', ''ola omar''])]"
    by (simp_all add: or_blank_def t omar_names Let_def)
qed

text \<open>
  Whether two differently named holders of one BVN are a concern depends on the order in which their
  accounts come from the database: with Ola Omar first the names are found to differ, with Omar Bala first they
  are taken for spelling variants, as the greedy pairing of their words is not symmetric.
\<close>

theorem concern_depends_on_order:
  "shared_bvn_conflicts [r\<lparr>pr_bvn := Some ''222'', pr_account_name := Some ''Ola Omar''\<rparr>, q\<lparr>pr_bvn := Some ''222'', pr_account_name := Some ''Omar Bala''\<rparr>]
     = [(''222'', [''ola omar'', ''omar bala''])] \<and>
   shared_bvn_conflicts [q\<lparr>pr_bvn := Some ''222'', pr_account_name := Some ''Omar Bala''\<rparr>, r\<lparr>pr_bvn := Some ''222'', pr_account_name := Some ''Ola Omar''\<rparr>] = []"
proof -
  have "(1/4 :: rat) < lit 7 10" "\<not> (3/4 :: rat) < lit 7 10" by code_simp+
  then show ?thesis unfolding shared_bvn_conflicts_def demo_names by (simp add: omar_similarity)
qed


definition stale_book :: agent_db where
  "stale_book = (bvn_book ''a'' ''b'')\<lparr>ad_signals := [\<lparr>rs_taxpayer = ''t1'', rs_year = 2026, rs_agent = ''pattern'', rs_score = 9 / 10,
     rs_severity = SevHigh, rs_summary = DocumentNote NoFigure None, rs_created = 1, rs_computed = 1\<rparr>]\<rparr>"

theorem stale_verdicts_stay_witness:
  "filter (\<lambda>s. rs_taxpayer s = ''t1'') (ad_signals (snd (run_agents demo_agent_env [] 2026 stale_book))) =
      filter (\<lambda>s. rs_taxpayer s = ''t1'') (ad_signals stale_book) \<and>
    filter (\<lambda>c. tc_taxpayer c = ''t1'') (td_cases (ad_db (snd (run_agents demo_agent_env [] 2026 stale_book)))) =
      filter (\<lambda>c. tc_taxpayer c = ''t1'') (td_cases (ad_db stale_book))"
  by (rule stale_verdicts_stay) (simp add: quiet_def build_profiles_def)

lemma bvn_book_ok: "books_ok (bvn_book b c)"
  by (simp add: books_ok_def signals_ok_def bvn_book_def cases_ok_def small_db_def stat_ok_def one_case_def)

theorem agent_books_stay_sound_witness:
  "books_ok (run_ops exec_agent [RunAgents demo_agent_env [''t1''] 2026, AddDocument 8 ''c1'' None (Some ''Revenue 5'') None]
      (bvn_book ''a'' ''b'')) \<and>
    keeps_keys (bvn_book ''a'' ''b'') (run_ops exec_agent [RunAgents demo_agent_env [''t1''] 2026,
      AddDocument 8 ''c1'' None (Some ''Revenue 5'') None] (bvn_book ''a'' ''b''))"
  by (rule agent_books_stay_sound) (rule bvn_book_ok)

end
