(* ===== verification/Assessment.thy ===== *)
theory Assessment
  imports JsDate JsParse "HOL-Library.Multiset"
begin

text \<open>
  The aptitude assessment, \<open>backend/src/modules/assessment/\<close>: a candidate signs in with an access code, gets
  one sitting of five minutes with ten questions drawn and shuffled for it, fills in personal details and
  answers, and submits or runs out of time; administrators keep the questions and read the marks. The
  database is a record of tables, whose primary and unique keys refuse a second row. Random choices come in
  as arguments: the numbers by which the database sorts for \<open>ORDER BY random()\<close>, the draws of the shuffles,
  the bytes of new codes. A session is what the verification of its signature yields, None for a token that
  does not verify.
\<close>

subsection \<open>Rules\<close>

definition exam_duration :: time where "exam_duration = 5 * 60 * 1000"

definition topic_quota :: "(string \<times> nat) list" where
  "topic_quota = [(''TAX'', 4), (''WORD'', 2), (''EXCEL'', 2), (''CYBERSECURITY'', 2)]"

definition questions_per_attempt :: nat where "questions_per_attempt = sum_list (map snd topic_quota)"

definition part1_weight :: rat where "part1_weight = 50"

definition part2_weight :: rat where "part2_weight = 50"

definition pass_mark :: rat where "pass_mark = 50"

definition non_empty :: "string \<Rightarrow> bool" where "non_empty v \<longleftrightarrow> trim v \<noteq> []"

text \<open>One at sign, no blanks, and in what follows it a point with something on both sides.\<close>

definition email_like :: "string \<Rightarrow> bool" where
  "email_like s \<longleftrightarrow> \<not> list_ex is_ws s \<and>
     (case split_on (CHR 0x40) s of [l, d] \<Rightarrow> l \<noteq> [] \<and> CHR ''.'' \<in> set (butlast (tl d)) | _ \<Rightarrow> False)"

definition part1_fields :: "(string \<times> (string \<Rightarrow> bool)) list" where
  "part1_fields = [(''fullName'', \<lambda>v. non_empty v \<and> 2 \<le> length (trim v)), (''staffNumber'', non_empty), (''staffCadre'', non_empty),
     (''email'', \<lambda>v. email_like (trim v)), (''group'', non_empty), (''department'', non_empty), (''unitTaxOffice'', non_empty)]"

definition filled_fields :: "(string \<rightharpoonup> string) \<Rightarrow> nat" where
  "filled_fields part1 = length (filter (\<lambda>(key, valid). valid (case part1 key of None \<Rightarrow> [] | Some v \<Rightarrow> v)) part1_fields)"

definition score_part1 :: "(string \<rightharpoonup> string) \<Rightarrow> rat" where
  "score_part1 part1 = fmul (fdiv (of_nat (filled_fields part1)) (of_nat (length part1_fields))) part1_weight"

text \<open>\<open>Math.round(n * 100) / 100\<close>\<close>

definition round2 :: "rat \<Rightarrow> rat" where "round2 n = fdiv (of_int \<lfloor>fmul n 100 + 1/2\<rfloor>) 100"

subsection \<open>Shuffling\<close>

text \<open>\<open>Math.floor(Math.random() * (i + 1))\<close> is a draw of at most \<open>i\<close>.\<close>

definition swap_at :: "nat \<Rightarrow> nat \<Rightarrow> 'a list \<Rightarrow> 'a list" where
  "swap_at i j xs = xs[i := xs ! j, j := xs ! i]"

primrec shuffle_loop :: "(nat \<Rightarrow> nat) \<Rightarrow> nat \<Rightarrow> 'a list \<Rightarrow> 'a list" where
  "shuffle_loop draw 0 xs = xs"
| "shuffle_loop draw (Suc i) xs = shuffle_loop draw i (swap_at (Suc i) (min (Suc i) (draw (Suc i))) xs)"

definition shuffle :: "(nat \<Rightarrow> nat) \<Rightarrow> 'a list \<Rightarrow> 'a list" where
  "shuffle draw xs = shuffle_loop draw (length xs - 1) xs"

definition index_of :: "nat list \<Rightarrow> int \<Rightarrow> int" where
  "index_of xs c = (let i = length (takeWhile (\<lambda>x. int x \<noteq> c) xs) in if i < length xs then int i else -1)"

definition shuffle_options :: "(nat \<Rightarrow> nat) \<Rightarrow> string list \<Rightarrow> int \<Rightarrow> string list \<times> int" where
  "shuffle_options draw opts c = (let idx = shuffle draw [0..<length opts] in (map (\<lambda>i. opts ! i) idx, index_of idx c))"

definition code_alphabet :: string where "code_alphabet = ''ABCDEFGHJKMNPQRSTUVWXYZ23456789''"

text \<open>The six random bytes of a code.\<close>

definition gen_code :: "nat list \<Rightarrow> string" where
  "gen_code bytes = ''FD-'' @ map (\<lambda>b. code_alphabet ! (b mod length code_alphabet)) (take 6 bytes)"

subsection \<open>Tables\<close>

datatype attempt_status = InProgress | Submitted | Expired

record attempt_question =
  aq_id :: string
  aq_topic :: string
  aq_title :: "string option"
  aq_stem :: string
  aq_options :: "string list"
  aq_correct :: int
  aq_competency :: "string option"
  aq_case :: bool
  aq_chosen :: "int option"

record attempt =
  at_id :: string
  at_participant :: string
  at_started :: time
  at_expires :: time
  at_submitted :: "time option"
  at_status :: attempt_status
  at_part1 :: "string \<rightharpoonup> string"
  at_questions :: "attempt_question list"
  at_score1 :: "rat option"
  at_score2 :: "rat option"
  at_total :: "rat option"

record bank_question =
  bq_id :: string
  bq_topic :: string
  bq_title :: "string option"
  bq_stem :: string
  bq_options :: "string list"
  bq_correct :: int
  bq_competency :: "string option"
  bq_case :: bool
  bq_active :: bool

record participant =
  pt_id :: string
  pt_code :: string
  pt_label :: "string option"

record exam_admin =
  xa_id :: string
  xa_name :: string
  xa_hash :: string

record exam_db =
  ex_attempts :: "attempt list"
  ex_bank :: "bank_question list"
  ex_participants :: "participant list"
  ex_admins :: "exam_admin list"

datatype session_kind = CandidateKind | AdminKind

record exam_session =
  xs_kind :: session_kind
  xs_sub :: string
  xs_exp :: int

datatype exam_error = BadCode | NoSession | WrongSession | AttemptMissing | TimeElapsed | ForeignQuestion | NoQuestions
  | BadLogin | BadTopic | NoStem | BadOptions | BadCorrect | NoUniqueCode | QuestionMissing | RowExists

text \<open>
  What a request brings from outside: the clock, the random number of each row of each query, the draws of each
  shuffle, the bytes for the codes, identifiers of new rows.
\<close>

record exam_env =
  ev_now :: time
  ev_random :: "nat \<Rightarrow> nat \<Rightarrow> rat"
  ev_draw :: "nat \<Rightarrow> nat \<Rightarrow> nat"
  ev_bytes :: "nat \<Rightarrow> nat \<Rightarrow> nat list"
  ev_new :: "nat \<Rightarrow> string"

subsection \<open>Sittings\<close>

definition random_order :: "exam_env \<Rightarrow> nat \<Rightarrow> 'a list \<Rightarrow> 'a list" where
  "random_order env k rows = map snd (sort_key fst (zip (map (ev_random env k) [0..<length rows]) rows))"

definition draw_topic :: "exam_env \<Rightarrow> bank_question list \<Rightarrow> nat \<times> string \<times> nat \<Rightarrow> bank_question list" where
  "draw_topic env bank kq = (case kq of (k, topic, quota) \<Rightarrow>
     take quota (random_order env k (filter (\<lambda>q. bq_active q \<and> bq_topic q = topic) bank)))"

definition draw_quota :: "exam_env \<Rightarrow> bank_question list \<Rightarrow> bank_question list" where
  "draw_quota env bank = concat (map (draw_topic env bank) (filter (\<lambda>(k, t, quota). 0 < quota) (zip [0..<length topic_quota] topic_quota)))"

definition backfill :: "exam_env \<Rightarrow> bank_question list \<Rightarrow> bank_question list \<Rightarrow> bank_question list" where
  "backfill env bank picked = (if length picked < questions_per_attempt
     then picked @ take (questions_per_attempt - length picked) (random_order env (length topic_quota)
       (filter (\<lambda>q. bq_active q \<and> bq_id q \<notin> set (map bq_id picked)) bank))
     else picked)"

definition attempt_question_of :: "(nat \<Rightarrow> nat) \<Rightarrow> bank_question \<Rightarrow> attempt_question" where
  "attempt_question_of draw q = (case shuffle_options draw (bq_options q) (bq_correct q) of (opts, c) \<Rightarrow>
     \<lparr>aq_id = bq_id q, aq_topic = bq_topic q, aq_title = bq_title q, aq_stem = bq_stem q, aq_options = opts, aq_correct = c,
       aq_competency = bq_competency q, aq_case = bq_case q, aq_chosen = None\<rparr>)"

definition drawn_questions :: "exam_env \<Rightarrow> bank_question list \<Rightarrow> attempt_question list" where
  "drawn_questions env bank = (let rows = shuffle (ev_draw env 0) (backfill env bank (draw_quota env bank))
     in map (\<lambda>(k, q). attempt_question_of (ev_draw env (Suc k)) q) (zip [0..<length rows] rows))"

definition create_attempt :: "exam_env \<Rightarrow> string \<Rightarrow> exam_db \<Rightarrow> (exam_error, attempt, exam_db) outcome" where
  "create_attempt env pid db = (let qs = drawn_questions env (ex_bank db) in
     if qs = [] then (Inl NoQuestions, db)
     else if find_by at_id (ev_new env 0) (ex_attempts db) \<noteq> None \<or> find_by at_participant pid (ex_attempts db) \<noteq> None then (Inl RowExists, db)
     else (let a = \<lparr>at_id = ev_new env 0, at_participant = pid, at_started = ev_now env, at_expires = ev_now env + exam_duration,
         at_submitted = None, at_status = InProgress, at_part1 = Map.empty, at_questions = qs,
         at_score1 = None, at_score2 = None, at_total = None\<rparr>
       in (Inr a, db\<lparr>ex_attempts := ex_attempts db @ [a]\<rparr>)))"

definition answered_right :: "attempt_question \<Rightarrow> bool" where
  "answered_right q \<longleftrightarrow> aq_chosen q \<noteq> None \<and> aq_chosen q = Some (aq_correct q)"

definition right_answers :: "attempt_question list \<Rightarrow> nat" where
  "right_answers qs = length (filter answered_right qs)"

definition finalize :: "time \<Rightarrow> attempt_status \<Rightarrow> attempt \<Rightarrow> attempt" where
  "finalize now status a = (let s1 = round2 (score_part1 (at_part1 a));
     s2 = round2 (fmul (fdiv (of_nat (right_answers (at_questions a))) (of_nat questions_per_attempt)) part2_weight)
     in a\<lparr>at_status := status, at_submitted := Some now, at_score1 := Some s1, at_score2 := Some s2,
          at_total := Some (round2 (fadd s1 s2))\<rparr>)"

definition put_attempt :: "attempt \<Rightarrow> exam_db \<Rightarrow> exam_db" where
  "put_attempt a db = db\<lparr>ex_attempts := update_first at_id (at_id a) (\<lambda>_. a) (ex_attempts db)\<rparr>"

definition finalize_if_expired :: "time \<Rightarrow> attempt \<Rightarrow> attempt" where
  "finalize_if_expired now a = (if at_status a = InProgress \<and> at_expires a \<le> now then finalize now Expired a else a)"

record shown_question =
  sq_id :: string
  sq_topic :: string
  sq_stem :: string
  sq_options :: "string list"
  sq_case :: bool
  sq_chosen :: "int option"

record candidate_view =
  vw_attempt :: string
  vw_status :: attempt_status
  vw_now :: time
  vw_expires :: time
  vw_remaining :: time
  vw_part1 :: "string \<rightharpoonup> string"
  vw_questions :: "shown_question list"
  vw_submitted :: bool

definition shown_question_of :: "attempt_question \<Rightarrow> shown_question" where
  "shown_question_of q = \<lparr>sq_id = aq_id q, sq_topic = aq_topic q, sq_stem = aq_stem q, sq_options = aq_options q,
     sq_case = aq_case q, sq_chosen = aq_chosen q\<rparr>"

definition candidate_state :: "time \<Rightarrow> attempt \<Rightarrow> candidate_view" where
  "candidate_state now a = (let finalized = at_status a \<noteq> InProgress in
     \<lparr>vw_attempt = at_id a, vw_status = at_status a, vw_now = now, vw_expires = at_expires a,
      vw_remaining = (if finalized then 0 else max 0 (at_expires a - now)), vw_part1 = at_part1 a,
      vw_questions = (if finalized then [] else map shown_question_of (at_questions a)), vw_submitted = finalized\<rparr>)"

definition verify_session :: "session_kind \<Rightarrow> time \<Rightarrow> exam_session option \<Rightarrow> exam_error + string" where
  "verify_session kind now tok = (case tok of None \<Rightarrow> Inl NoSession
     | Some s \<Rightarrow> if xs_exp s \<le> now div 1000 then Inl NoSession
         else if xs_kind s \<noteq> kind then Inl WrongSession else Inr (xs_sub s))"

definition require_attempt :: "string \<Rightarrow> exam_db \<Rightarrow> exam_error + attempt" where
  "require_attempt k db = (case find_by at_id k (ex_attempts db) of None \<Rightarrow> Inl AttemptMissing | Some a \<Rightarrow> Inr a)"

definition candidate_login :: "exam_env \<Rightarrow> string \<Rightarrow> exam_db \<Rightarrow> (exam_error, exam_session \<times> candidate_view, exam_db) outcome" where
  "candidate_login env code db = (case find_by pt_code (upper (trim code)) (ex_participants db) of
     None \<Rightarrow> (Inl BadCode, db)
   | Some p \<Rightarrow>
       (case (case find_by at_participant (pt_id p) (ex_attempts db) of
           None \<Rightarrow> create_attempt env (pt_id p) db
         | Some a \<Rightarrow> (let b = finalize_if_expired (ev_now env) a in (Inr b, put_attempt b db))) of
         (Inl e, db') \<Rightarrow> (Inl e, db')
       | (Inr a, db') \<Rightarrow> (Inr (\<lparr>xs_kind = CandidateKind, xs_sub = at_id a, xs_exp = ev_now env div 1000 + 45 * 60\<rparr>,
           candidate_state (ev_now env) a), db')))"

definition get_state :: "exam_env \<Rightarrow> string \<Rightarrow> exam_db \<Rightarrow> (exam_error, candidate_view, exam_db) outcome" where
  "get_state env k db = (case require_attempt k db of Inl e \<Rightarrow> (Inl e, db)
     | Inr a \<Rightarrow> (let b = finalize_if_expired (ev_now env) a in (Inr (candidate_state (ev_now env) b), put_attempt b db)))"

definition assert_active :: "exam_env \<Rightarrow> string \<Rightarrow> exam_db \<Rightarrow> (exam_error, attempt, exam_db) outcome" where
  "assert_active env k db = (case require_attempt k db of Inl e \<Rightarrow> (Inl e, db)
     | Inr a \<Rightarrow> (let b = finalize_if_expired (ev_now env) a in
         if at_status b \<noteq> InProgress then (Inl TimeElapsed, put_attempt b db) else (Inr b, put_attempt b db)))"

definition save_part1 :: "exam_env \<Rightarrow> string \<Rightarrow> (string \<times> string) list \<Rightarrow> exam_db \<Rightarrow> (exam_error, candidate_view, exam_db) outcome" where
  "save_part1 env k details db = (case assert_active env k db of (Inl e, db') \<Rightarrow> (Inl e, db')
     | (Inr a, db') \<Rightarrow> (let b = a\<lparr>at_part1 := at_part1 a ++ map_of details\<rparr> in
         (Inr (candidate_state (ev_now env) b), put_attempt b db')))"

definition choose_option :: "int \<Rightarrow> attempt_question \<Rightarrow> attempt_question" where
  "choose_option i q = q\<lparr>aq_chosen := (if 0 \<le> i \<and> i < int (length (aq_options q)) then Some i else aq_chosen q)\<rparr>"

definition save_answer :: "exam_env \<Rightarrow> string \<Rightarrow> string \<Rightarrow> int \<Rightarrow> exam_db \<Rightarrow> (exam_error, candidate_view, exam_db) outcome" where
  "save_answer env k qid i db = (case assert_active env k db of (Inl e, db') \<Rightarrow> (Inl e, db')
     | (Inr a, db') \<Rightarrow> (let qs = update_by aq_id qid (choose_option i) (at_questions a) in
         if \<not> list_ex (\<lambda>q. aq_id q = qid) qs then (Inl ForeignQuestion, db')
         else (let b = a\<lparr>at_questions := qs\<rparr> in (Inr (candidate_state (ev_now env) b), put_attempt b db'))))"

definition submit :: "exam_env \<Rightarrow> string \<Rightarrow> exam_db \<Rightarrow> (exam_error, candidate_view, exam_db) outcome" where
  "submit env k db = (case require_attempt k db of Inl e \<Rightarrow> (Inl e, db)
     | Inr a \<Rightarrow> if at_status a \<noteq> InProgress then (Inr (candidate_state (ev_now env) a), db)
         else (let b = finalize (ev_now env) Submitted a in (Inr (candidate_state (ev_now env) b), put_attempt b db)))"

subsection \<open>Administration\<close>

definition admin_login :: "(string \<Rightarrow> string \<Rightarrow> bool) \<Rightarrow> exam_env \<Rightarrow> string \<Rightarrow> string \<Rightarrow> exam_db \<Rightarrow> exam_error + exam_session" where
  "admin_login bcrypt env name pw db = (case find_by xa_name (trim name) (ex_admins db) of None \<Rightarrow> Inl BadLogin
     | Some a \<Rightarrow> if bcrypt pw (xa_hash a) then Inr \<lparr>xs_kind = AdminKind, xs_sub = xa_id a, xs_exp = ev_now env div 1000 + 12 * 3600\<rparr>
         else Inl BadLogin)"

record question_dto =
  qd_topic :: string
  qd_title :: "string option"
  qd_stem :: string
  qd_options :: "string list"
  qd_correct :: int
  qd_competency :: "string option"
  qd_case :: bool
  qd_active :: "bool option"

text \<open>
  At the start the administrator of the environment is created or gets the password of the environment, and
  an empty bank is filled with the questions of the seed file, whose rows are given.
\<close>

definition ensure_admin :: "(string \<Rightarrow> string \<Rightarrow> bool) \<Rightarrow> (string \<Rightarrow> string) \<Rightarrow> exam_env \<Rightarrow> string option \<Rightarrow> string option \<Rightarrow> exam_db \<Rightarrow> exam_db" where
  "ensure_admin bcrypt hash env user pw db = (let name = trim (if truthy user then the user else ''admin'') in
     case find_by xa_name name (ex_admins db) of
       None \<Rightarrow> db\<lparr>ex_admins := ex_admins db @ [\<lparr>xa_id = ev_new env 0, xa_name = name, xa_hash = hash (if truthy pw then the pw else ''Assess@1234'')\<rparr>]\<rparr>
     | Some a \<Rightarrow> if truthy pw \<and> \<not> bcrypt (the pw) (xa_hash a)
         then db\<lparr>ex_admins := update_first xa_id (xa_id a) (\<lambda>b. b\<lparr>xa_hash := hash (the pw)\<rparr>) (ex_admins db)\<rparr> else db)"

definition ensure_bank :: "bank_question list \<Rightarrow> exam_db \<Rightarrow> exam_db" where
  "ensure_bank seed db = (if ex_bank db = [] then db\<lparr>ex_bank := map (\<lambda>q. q\<lparr>bq_active := True\<rparr>) seed\<rparr> else db)"

text \<open>An empty installation without a password in its environment is opened by the one of the source.\<close>

lemma default_admin_signs_in:
  assumes "ex_admins db = []" "bcrypt ''Assess@1234'' (hash ''Assess@1234'')" "\<not> truthy user" "\<not> truthy pw"
  shows "\<exists>s. admin_login bcrypt env ''admin'' ''Assess@1234'' (ensure_admin bcrypt hash env user pw db) = Inr s"
proof -
  have "trim ''admin'' = ''admin''" by (simp add: trim_def is_ws_def ws_chars_def)
  then show ?thesis using assms by (simp add: admin_login_def ensure_admin_def)
qed

definition trimmed_if_given :: "string option \<Rightarrow> string option" where
  "trimmed_if_given s = (case s of None \<Rightarrow> None | Some t \<Rightarrow> if t = [] then None else Some (trim t))"

definition normalize_question :: "string \<Rightarrow> question_dto \<Rightarrow> exam_error + bank_question" where
  "normalize_question k d = (let topic = upper (qd_topic d); stem = trim (qd_stem d); opts = map trim (qd_options d) in
     if topic \<notin> set [''EXCEL'', ''WORD'', ''CYBERSECURITY'', ''TAX''] then Inl BadTopic
     else if stem = [] then Inl NoStem
     else if length opts \<noteq> 4 \<or> list_ex (\<lambda>t. t = []) opts then Inl BadOptions
     else if qd_correct d < 0 \<or> 3 < qd_correct d then Inl BadCorrect
     else Inr \<lparr>bq_id = k, bq_topic = topic, bq_title = trimmed_if_given (qd_title d), bq_stem = stem, bq_options = opts,
       bq_correct = qd_correct d, bq_competency = trimmed_if_given (qd_competency d), bq_case = qd_case d,
       bq_active = (case qd_active d of None \<Rightarrow> True | Some b \<Rightarrow> b)\<rparr>)"

definition create_question :: "exam_env \<Rightarrow> question_dto \<Rightarrow> exam_db \<Rightarrow> (exam_error, string, exam_db) outcome" where
  "create_question env d db = (case normalize_question (ev_new env 0) d of Inl e \<Rightarrow> (Inl e, db)
     | Inr q \<Rightarrow> if find_by bq_id (bq_id q) (ex_bank db) \<noteq> None then (Inl RowExists, db)
         else (Inr (bq_id q), db\<lparr>ex_bank := ex_bank db @ [q]\<rparr>))"

definition update_question :: "string \<Rightarrow> question_dto \<Rightarrow> exam_db \<Rightarrow> (exam_error, unit, exam_db) outcome" where
  "update_question k d db = (case normalize_question k d of Inl e \<Rightarrow> (Inl e, db)
     | Inr q \<Rightarrow> if find_by bq_id k (ex_bank db) = None then (Inl QuestionMissing, db)
         else (Inr (), db\<lparr>ex_bank := update_by bq_id k (\<lambda>_. q) (ex_bank db)\<rparr>))"

definition set_question_active :: "string \<Rightarrow> bool \<Rightarrow> exam_db \<Rightarrow> (exam_error, unit, exam_db) outcome" where
  "set_question_active k b db = (if find_by bq_id k (ex_bank db) = None then (Inl QuestionMissing, db)
     else (Inr (), db\<lparr>ex_bank := update_by bq_id k (\<lambda>q. q\<lparr>bq_active := b\<rparr>) (ex_bank db)\<rparr>))"

text \<open>Up to eight codes are tried.\<close>

definition unique_code :: "(nat \<Rightarrow> nat list) \<Rightarrow> participant list \<Rightarrow> string option" where
  "unique_code bytes ps = find (\<lambda>code. find_by pt_code code ps = None) (map (\<lambda>i. gen_code (bytes i)) [0..<8])"

definition participant_labels :: "nat option \<Rightarrow> string list option \<Rightarrow> string option list" where
  "participant_labels num labels = (case labels of
     Some (l # ls) \<Rightarrow> map (\<lambda>l. if trim l = [] then None else Some (trim l)) (l # ls)
   | _ \<Rightarrow> replicate (max 1 (case num of None \<Rightarrow> 1 | Some n \<Rightarrow> n)) None)"

text \<open>The rows are inserted one by one; when no code is found the earlier ones stay.\<close>

fun add_participants :: "exam_env \<Rightarrow> nat \<Rightarrow> string option list \<Rightarrow> participant list \<Rightarrow> exam_error option \<times> participant list" where
  "add_participants env k [] ps = (None, ps)"
| "add_participants env k (l # ls) ps = (case unique_code (ev_bytes env k) ps of None \<Rightarrow> (Some NoUniqueCode, ps)
     | Some code \<Rightarrow> if find_by pt_id (ev_new env k) ps \<noteq> None then (Some RowExists, ps)
         else add_participants env (Suc k) ls (ps @ [\<lparr>pt_id = ev_new env k, pt_code = code, pt_label = l\<rparr>]))"

definition create_participants :: "exam_env \<Rightarrow> nat option \<Rightarrow> string list option \<Rightarrow> exam_db \<Rightarrow>
    (exam_error, (string \<times> string option) list, exam_db) outcome" where
  "create_participants env num labels db =
     (let (err, ps) = add_participants env 0 (participant_labels num labels) (ex_participants db);
          db' = db\<lparr>ex_participants := ps\<rparr>
      in case err of Some e \<Rightarrow> (Inl e, db')
       | None \<Rightarrow> (Inr (map (\<lambda>p. (pt_code p, pt_label p)) (drop (length (ex_participants db)) ps)), db'))"

definition num_or_zero :: "rat option \<Rightarrow> rat" where
  "num_or_zero v = (case v of None \<Rightarrow> 0 | Some x \<Rightarrow> x)"

record result_row =
  rr_attempt :: string
  rr_status :: attempt_status
  rr_name :: "string option"
  rr_score1 :: rat
  rr_score2 :: rat
  rr_total :: rat
  rr_passed :: bool

definition result_row_of :: "attempt \<Rightarrow> result_row" where
  "result_row_of a = \<lparr>rr_attempt = at_id a, rr_status = at_status a, rr_name = at_part1 a ''fullName'',
     rr_score1 = num_or_zero (at_score1 a), rr_score2 = num_or_zero (at_score2 a), rr_total = num_or_zero (at_total a),
     rr_passed = (pass_mark \<le> num_or_zero (at_total a))\<rparr>"

text \<open>The list is read as it stands: a sitting that ran out is not closed by it. Newest first.\<close>

definition list_results :: "exam_db \<Rightarrow> result_row list" where
  "list_results db = map result_row_of (rev (sort_key at_started (filter (\<lambda>a. find_by pt_id (at_participant a) (ex_participants db) \<noteq> None) (ex_attempts db))))"

record result_detail =
  rd_row :: result_row
  rd_code :: "string option"
  rd_correct :: nat
  rd_questions :: "(attempt_question \<times> bool) list"

definition get_result :: "exam_env \<Rightarrow> string \<Rightarrow> exam_db \<Rightarrow> (exam_error, result_detail, exam_db) outcome" where
  "get_result env k db = (case require_attempt k db of Inl e \<Rightarrow> (Inl e, db)
     | Inr a \<Rightarrow> (let b = finalize_if_expired (ev_now env) a in
         (Inr \<lparr>rd_row = result_row_of b, rd_code = map_option pt_code (find_by pt_id (at_participant b) (ex_participants db)),
           rd_correct = right_answers (at_questions b), rd_questions = map (\<lambda>q. (q, answered_right q)) (at_questions b)\<rparr>,
          put_attempt b db)))"

record exam_stats =
  es_participants :: nat
  es_attempts :: nat
  es_completed :: nat
  es_passed :: nat
  es_active :: nat

definition stats :: "exam_db \<Rightarrow> exam_stats" where
  "stats db = \<lparr>es_participants = length (ex_participants db), es_attempts = length (ex_attempts db),
     es_completed = length (filter (\<lambda>a. at_status a \<noteq> InProgress) (ex_attempts db)),
     es_passed = length (filter (\<lambda>a. case at_total a of None \<Rightarrow> False | Some t \<Rightarrow> pass_mark \<le> t) (ex_attempts db)),
     es_active = length (filter bq_active (ex_bank db))\<rparr>"

subsection \<open>Requests\<close>

datatype exam_op =
    CandidateLogin exam_env string
  | ViewState exam_env "exam_session option"
  | SavePart1 exam_env "exam_session option" "(string \<times> string) list"
  | SaveAnswer exam_env "exam_session option" string int
  | Submit exam_env "exam_session option"
  | AddParticipants exam_env "exam_session option" "nat option" "string list option"
  | AddQuestion exam_env "exam_session option" question_dto
  | EditQuestion exam_env "exam_session option" string question_dto
  | SetActive exam_env "exam_session option" string bool
  | ViewResult exam_env "exam_session option" string

datatype exam_reply = LoggedIn exam_session candidate_view | ViewOf candidate_view | ForAdmin

definition as_candidate :: "exam_env \<Rightarrow> exam_session option \<Rightarrow> (string \<Rightarrow> exam_db \<Rightarrow> (exam_error, candidate_view, exam_db) outcome) \<Rightarrow>
    exam_db \<Rightarrow> (exam_error, exam_reply, exam_db) outcome" where
  "as_candidate env tok f db = (case verify_session CandidateKind (ev_now env) tok of Inl e \<Rightarrow> (Inl e, db)
     | Inr k \<Rightarrow> (map_sum id ViewOf (fst (f k db)), snd (f k db)))"

definition as_admin :: "exam_env \<Rightarrow> exam_session option \<Rightarrow> (exam_db \<Rightarrow> (exam_error, 'r, exam_db) outcome) \<Rightarrow>
    exam_db \<Rightarrow> (exam_error, exam_reply, exam_db) outcome" where
  "as_admin env tok f db = (case verify_session AdminKind (ev_now env) tok of Inl e \<Rightarrow> (Inl e, db)
     | Inr k \<Rightarrow> (map_sum id (\<lambda>_. ForAdmin) (fst (f db)), snd (f db)))"

fun exec_exam :: "exam_op \<Rightarrow> exam_db \<Rightarrow> (exam_error, exam_reply, exam_db) outcome" where
  "exec_exam (CandidateLogin env code) db = (let (r, db') = candidate_login env code db in (map_sum id (\<lambda>(s, v). LoggedIn s v) r, db'))"
| "exec_exam (ViewState env tok) db = as_candidate env tok (get_state env) db"
| "exec_exam (SavePart1 env tok details) db = as_candidate env tok (\<lambda>k. save_part1 env k details) db"
| "exec_exam (SaveAnswer env tok qid i) db = as_candidate env tok (\<lambda>k. save_answer env k qid i) db"
| "exec_exam (Submit env tok) db = as_candidate env tok (submit env) db"
| "exec_exam (AddParticipants env tok num labels) db = as_admin env tok (create_participants env num labels) db"
| "exec_exam (AddQuestion env tok d) db = as_admin env tok (create_question env d) db"
| "exec_exam (EditQuestion env tok k d) db = as_admin env tok (update_question k d) db"
| "exec_exam (SetActive env tok k b) db = as_admin env tok (set_question_active k b) db"
| "exec_exam (ViewResult env tok k) db = as_admin env tok (get_result env k) db"

subsection \<open>Shuffles permute\<close>

lemma swap_at_mset: "i < length xs \<Longrightarrow> j < length xs \<Longrightarrow> mset (swap_at i j xs) = mset xs"
  by (simp add: swap_at_def mset_swap)

lemma swap_at_length [simp]: "length (swap_at i j xs) = length xs"
  by (simp add: swap_at_def)

lemma swap_at_map: "i < length xs \<Longrightarrow> j < length xs \<Longrightarrow> swap_at i j (map f xs) = map f (swap_at i j xs)"
  by (simp add: swap_at_def map_update)

lemma shuffle_loop_mset: "i < length xs \<Longrightarrow> mset (shuffle_loop draw i xs) = mset xs"
  by (induction i arbitrary: xs) (simp_all add: swap_at_mset)

lemma shuffle_loop_map: "i < length xs \<Longrightarrow> shuffle_loop draw i (map f xs) = map f (shuffle_loop draw i xs)"
  by (induction i arbitrary: xs) (simp_all add: swap_at_map)

lemma shuffle_mset [simp]: "mset (shuffle draw xs) = mset xs"
  by (cases xs) (simp_all add: shuffle_def shuffle_loop_mset)

lemma shuffle_map: "shuffle draw (map f xs) = map f (shuffle draw xs)"
  by (cases xs) (simp_all only: shuffle_def length_map shuffle_loop_map list.map length_Cons, simp_all add: shuffle_def shuffle_loop_map [of _ "x # y" for x y, simplified])

lemma shuffle_length [simp]: "length (shuffle draw xs) = length xs"
  by (metis shuffle_mset size_mset)

lemma shuffle_set [simp]: "set (shuffle draw xs) = set xs"
  by (metis shuffle_mset set_mset_mset)

lemma shuffle_distinct [simp]: "distinct (shuffle draw xs) = distinct xs"
  by (metis shuffle_mset mset_eq_imp_distinct_iff)

lemma sort_key_map: "sort_key f (map g xs) = map g (sort_key (\<lambda>x. f (g x)) xs)"
proof -
  have i: "insort_key f (g x) (map g ys) = map g (insort_key (\<lambda>x. f (g x)) x ys)" for x ys
    by (induction ys) simp_all
  show ?thesis by (induction xs) (simp_all add: i)
qed

lemma random_order_mset [simp]: "mset (random_order env k rows) = mset rows"
proof -
  let ?z = "zip (map (ev_random env k) [0..<length rows]) rows"
  have "mset (random_order env k rows) = image_mset snd (mset ?z)" by (simp add: random_order_def)
  also have "\<dots> = mset (map snd ?z)" by (rule mset_map [symmetric])
  finally show ?thesis by simp
qed

lemma random_order_map: "random_order env k (map f rows) = map f (random_order env k rows)"
proof -
  have "zip (map (ev_random env k) [0..<length rows]) (map f rows) = map (map_prod id f) (zip (map (ev_random env k) [0..<length rows]) rows)"
    by (simp add: zip_map2 map_prod_def)
  then show ?thesis by (simp add: random_order_def sort_key_map split_beta comp_def)
qed

lemma random_order_set [simp]: "set (random_order env k rows) = set rows"
  by (metis random_order_mset set_mset_mset)

lemma random_order_length [simp]: "length (random_order env k rows) = length rows"
  by (metis random_order_mset size_mset)

lemma random_order_distinct: "distinct (map f rows) \<Longrightarrow> distinct (map f (random_order env k rows))"
  by (metis mset_eq_imp_distinct_iff mset_map random_order_mset)

lemma index_of_nth: "distinct xs \<Longrightarrow> i < length xs \<Longrightarrow> index_of xs (int (xs ! i)) = int i"
proof -
  assume a: "distinct xs" "i < length xs"
  have "length (takeWhile (\<lambda>x. int x \<noteq> int (xs ! i)) xs) = i"
    using a by (subst takeWhile_eq_take_P_nth [where n = i]) (auto simp: nth_eq_iff_index_eq)
  then show ?thesis using a(2) by (simp add: index_of_def)
qed

lemma shuffle_options_length [simp]: "length (fst (shuffle_options draw opts c)) = length opts"
  by (simp add: shuffle_options_def Let_def)

text \<open>The marked option is the same text before and after.\<close>

lemma shuffle_options_key:
  assumes "0 \<le> c" "c < int (length opts)" and s: "shuffle_options draw opts c = (opts', c')"
  shows "mset opts' = mset opts" "0 \<le> c'" "c' < int (length opts)" "opts' ! nat c' = opts ! nat c"
proof -
  let ?idx = "shuffle draw [0..<length opts]"
  have "nat c \<in> set ?idx" using assms by auto
  then obtain i where i: "i < length ?idx" "?idx ! i = nat c" by (metis in_set_conv_nth)
  have "index_of ?idx (int (?idx ! i)) = int i" by (rule index_of_nth) (use i in simp_all)
  then have "c' = int i" "opts' = map (\<lambda>i. opts ! i) ?idx" using s i(2) assms(1) by (auto simp: shuffle_options_def Let_def)
  moreover have "mset (map (\<lambda>i. opts ! i) ?idx) = mset opts"
    by (metis map_nth mset_map shuffle_mset)
  ultimately show "mset opts' = mset opts" "0 \<le> c'" "c' < int (length opts)" "opts' ! nat c' = opts ! nat c"
    using i by simp_all
qed

subsection \<open>The tables stay sound\<close>

text \<open>
  The marks of a sitting: half a point share for each field, five points for each right answer, each rounded
  to hundredths, and their sum.
\<close>

definition marks_of :: "attempt \<Rightarrow> rat \<times> rat \<times> rat" where
  "marks_of a = (let s1 = round2 (score_part1 (at_part1 a));
     s2 = round2 (fmul (fdiv (of_nat (right_answers (at_questions a))) (of_nat questions_per_attempt)) part2_weight)
     in (s1, s2, round2 (fadd s1 s2)))"

definition chosen_ok :: "attempt_question \<Rightarrow> bool" where
  "chosen_ok q \<longleftrightarrow> (case aq_chosen q of None \<Rightarrow> True | Some i \<Rightarrow> 0 \<le> i \<and> i < int (length (aq_options q)))"

definition attempt_ok :: "attempt \<Rightarrow> bool" where
  "attempt_ok a \<longleftrightarrow> at_expires a = at_started a + exam_duration \<and> length (at_questions a) \<le> questions_per_attempt \<and>
     list_all chosen_ok (at_questions a) \<and> distinct (map aq_id (at_questions a)) \<and>
     (if at_status a = InProgress then at_submitted a = None \<and> at_score1 a = None \<and> at_score2 a = None \<and> at_total a = None
      else at_submitted a \<noteq> None \<and> (case marks_of a of (s1, s2, t) \<Rightarrow> at_score1 a = Some s1 \<and> at_score2 a = Some s2 \<and> at_total a = Some t))"

definition exam_ok :: "exam_db \<Rightarrow> bool" where
  "exam_ok db \<longleftrightarrow> distinct (map at_id (ex_attempts db)) \<and> distinct (map at_participant (ex_attempts db)) \<and>
     list_all attempt_ok (ex_attempts db) \<and> distinct (map bq_id (ex_bank db)) \<and>
     distinct (map pt_id (ex_participants db)) \<and> distinct (map pt_code (ex_participants db))"

text \<open>
  What a request does to one sitting: nothing; or, before the deadline and while it is open, a change of the
  answers; or it is marked and closed.
\<close>

inductive sitting_step :: "time \<Rightarrow> attempt \<Rightarrow> attempt \<Rightarrow> bool" where
  sitting_kept: "sitting_step now a a"
| sitting_saved: "at_status a = InProgress \<Longrightarrow> now < at_expires a \<Longrightarrow> sitting_step now a (a\<lparr>at_part1 := p\<rparr>)"
| sitting_answered: "at_status a = InProgress \<Longrightarrow> now < at_expires a \<Longrightarrow>
    sitting_step now a (a\<lparr>at_questions := update_by aq_id qid (choose_option i) (at_questions a)\<rparr>)"
| sitting_closed: "at_status a = InProgress \<Longrightarrow> s \<noteq> InProgress \<Longrightarrow> sitting_step now a (finalize now s a)"

lemma finalize_fields [simp]:
  "at_id (finalize now s a) = at_id a" "at_participant (finalize now s a) = at_participant a"
  "at_started (finalize now s a) = at_started a" "at_expires (finalize now s a) = at_expires a"
  "at_part1 (finalize now s a) = at_part1 a" "at_questions (finalize now s a) = at_questions a"
  "at_status (finalize now s a) = s" "at_submitted (finalize now s a) = Some now"
  by (simp_all add: finalize_def Let_def)

lemma finalize_marks: "(case marks_of a of (s1, s2, t) \<Rightarrow>
    at_score1 (finalize now s a) = Some s1 \<and> at_score2 (finalize now s a) = Some s2 \<and> at_total (finalize now s a) = Some t)"
  by (simp add: finalize_def marks_of_def Let_def)

lemma marks_finalize [simp]: "marks_of (finalize now s a) = marks_of a"
  by (simp add: marks_of_def Let_def)

lemma sitting_step_frame:
  assumes "sitting_step now a b"
  shows "at_id b = at_id a" "at_participant b = at_participant a" "at_started b = at_started a" "at_expires b = at_expires a"
    and "at_status a \<noteq> InProgress \<Longrightarrow> b = a"
    and "at_expires a \<le> now \<Longrightarrow> at_part1 b = at_part1 a \<and> at_questions b = at_questions a"
  using assms by (cases; simp)+

lemma choose_option_frame [simp]:
  "aq_id (choose_option i q) = aq_id q" "aq_options (choose_option i q) = aq_options q" "aq_correct (choose_option i q) = aq_correct q"
  by (simp_all add: choose_option_def)

lemma choose_option_ok: "chosen_ok q \<Longrightarrow> chosen_ok (choose_option i q)"
  by (auto simp: chosen_ok_def choose_option_def split: option.splits)

lemma sitting_step_ok: "sitting_step now a b \<Longrightarrow> attempt_ok a \<Longrightarrow> attempt_ok b"
proof (induction rule: sitting_step.induct)
  case (sitting_answered a now qid i)
  have "map aq_id (update_by aq_id qid (choose_option i) (at_questions a)) = map aq_id (at_questions a)"
    by (rule keys_update_by) simp
  moreover have "list_all chosen_ok (at_questions a) \<Longrightarrow> list_all chosen_ok (update_by aq_id qid (choose_option i) (at_questions a))"
    by (auto simp: list_all_iff update_by_def choose_option_ok)
  ultimately show ?case using sitting_answered by (simp add: attempt_ok_def)
next
  case (sitting_closed a s now)
  then show ?case using finalize_marks [of now s a] by (simp add: attempt_ok_def split: prod.split)
next
  case (sitting_saved a now p)
  then show ?case by (simp add: attempt_ok_def)
qed

text \<open>A request changes one sitting at most, by such a step, or adds one.\<close>

inductive exam_step :: "time \<Rightarrow> exam_db \<Rightarrow> exam_db \<Rightarrow> bool" where
  exam_put: "a \<in> set (ex_attempts db) \<Longrightarrow> sitting_step now a b \<Longrightarrow> exam_step now db (put_attempt b db)"
| exam_new: "attempt_ok a \<Longrightarrow> at_id a \<notin> at_id ` set (ex_attempts db) \<Longrightarrow> at_participant a \<notin> at_participant ` set (ex_attempts db) \<Longrightarrow>
    exam_step now db (db\<lparr>ex_attempts := ex_attempts db @ [a]\<rparr>)"
| exam_other: "ex_attempts db' = ex_attempts db \<Longrightarrow> distinct (map bq_id (ex_bank db')) \<Longrightarrow> distinct (map pt_id (ex_participants db')) \<Longrightarrow>
    distinct (map pt_code (ex_participants db')) \<Longrightarrow> exam_step now db db'"

lemma update_first_in:
  assumes "distinct (map key rows)" "r \<in> set rows" "key r = key r'"
  shows "map key (update_first key (key r') (\<lambda>_. r') rows) = map key rows"
    and "set (update_first key (key r') (\<lambda>_. r') rows) = insert r' (set rows - {r})"
  using assms by (induction rows) (auto split: if_splits simp: image_iff)

lemma find_in: "exam_ok db \<Longrightarrow> a \<in> set (ex_attempts db) \<Longrightarrow> find_by at_id (at_id a) (ex_attempts db) = Some a"
  by (simp add: exam_ok_def find_distinct)

lemma update_first_participants:
  assumes "distinct (map at_id as)" "a \<in> set as" "at_id b = at_id a" "at_participant b = at_participant a"
  shows "map at_participant (update_first at_id (at_id b) (\<lambda>_. b) as) = map at_participant as"
  using assms by (induction as) (auto simp: image_iff)

lemma exam_step_ok:
  assumes "exam_step now db db'" "exam_ok db"
  shows "exam_ok db'"
  using assms(1)
proof cases
  case (exam_put a b)
  have i: "at_id a = at_id b" "at_participant b = at_participant a" using sitting_step_frame [OF exam_put(3)] by simp_all
  have d: "distinct (map at_id (ex_attempts db))" using assms(2) by (simp add: exam_ok_def)
  have "attempt_ok b" using exam_put assms(2) sitting_step_ok by (auto simp: exam_ok_def list_all_iff)
  then show ?thesis
    using assms(2) update_first_in [OF d exam_put(2) i(1)] update_first_participants [OF d exam_put(2) i(1) [symmetric] i(2)] exam_put(1)
    by (auto simp: exam_ok_def put_attempt_def list_all_iff)
next
  case (exam_new a)
  then show ?thesis using assms(2) by (auto simp: exam_ok_def)
next
  case exam_other
  then show ?thesis using assms(2) by (simp add: exam_ok_def)
qed

text \<open>Seen from one sitting.\<close>

lemma exam_step_sitting:
  assumes "exam_step now db db'" "exam_ok db" "find_by at_id k (ex_attempts db) = Some a"
  shows "\<exists>b. find_by at_id k (ex_attempts db') = Some b \<and> sitting_step now a b"
  using assms(1)
proof cases
  case (exam_put c b)
  have i: "at_id b = at_id c" using sitting_step_frame [OF exam_put(3)] by simp
  have f: "find_by at_id (at_id c) (ex_attempts db) = Some c" by (rule find_in) (use assms exam_put in simp_all)
  have u: "find_by at_id k (update_first at_id (at_id b) (\<lambda>_. b) as) =
      (if k = at_id b then map_option (\<lambda>_. b) (find_by at_id k as) else find_by at_id k as)" for as
    by (induction as) auto
  have "find_by at_id k (ex_attempts db') = (if k = at_id b then map_option (\<lambda>_. b) (find_by at_id k (ex_attempts db)) else Some a)"
    using assms(3) exam_put(1) u by (simp add: put_attempt_def)
  then show ?thesis using assms(3) exam_put(3) f i sitting_kept by (cases "k = at_id b") auto
next
  case (exam_new c)
  then show ?thesis using assms(3) sitting_kept by (auto simp: find_by_append)
next
  case exam_other
  then show ?thesis using assms(3) sitting_kept by auto
qed

subsection \<open>What is drawn\<close>

lemma draw_topic_set: "q \<in> set (draw_topic env bank (k, t, n)) \<Longrightarrow> q \<in> set bank \<and> bq_active q \<and> bq_topic q = t"
  by (auto simp: draw_topic_def dest: in_set_takeD)

lemma random_order_distinct_rows [simp]: "distinct (random_order env k rows) = distinct rows"
  by (metis mset_eq_imp_distinct_iff random_order_mset)

lemma draw_topics_distinct:
  "distinct bank \<Longrightarrow> distinct (map (\<lambda>(k, t, n). t) kqs) \<Longrightarrow> distinct (concat (map (draw_topic env bank) kqs))"
proof (induction kqs)
  case (Cons kq kqs)
  obtain k t n where kq: "kq = (k, t, n)" by (cases kq)
  have "distinct (draw_topic env bank kq)" using Cons.prems by (simp add: kq draw_topic_def)
  moreover have "set (draw_topic env bank kq) \<inter> set (concat (map (draw_topic env bank) kqs)) = {}"
    using Cons.prems(2) by (fastforce simp: kq image_iff dest!: draw_topic_set)
  ultimately show ?case using Cons by (simp add: kq)
qed simp

lemma topics_distinct: "distinct (map (\<lambda>(k, t, n). t) (filter (\<lambda>(k, t, quota). 0 < quota) (zip [0..<length topic_quota] topic_quota)))"
  by (simp add: topic_quota_def upt_rec)

lemma draw_quota_distinct: "distinct bank \<Longrightarrow> distinct (draw_quota env bank)"
  unfolding draw_quota_def by (intro draw_topics_distinct topics_distinct)

lemma draw_quota_set: "q \<in> set (draw_quota env bank) \<Longrightarrow> q \<in> set bank \<and> bq_active q"
  by (auto simp: draw_quota_def dest!: draw_topic_set)

lemma questions_per_attempt_10 [simp]: "questions_per_attempt = 10"
  by (simp add: questions_per_attempt_def topic_quota_def)

lemma draw_quota_length: "length (draw_quota env bank) \<le> 10"
  by (simp add: draw_quota_def topic_quota_def upt_rec draw_topic_def)

lemma backfill_set: "q \<in> set (backfill env bank (draw_quota env bank)) \<Longrightarrow> q \<in> set bank \<and> bq_active q"
  by (auto simp: backfill_def dest: in_set_takeD draw_quota_set split: if_splits)

lemma backfill_distinct: "distinct bank \<Longrightarrow> distinct (backfill env bank (draw_quota env bank))"
  by (auto simp: backfill_def draw_quota_distinct dest: in_set_takeD)

lemma length_filter_except:
  assumes "distinct (map key xs)" "distinct ps" "set ps \<subseteq> set (filter P xs)"
  shows "length (filter (\<lambda>x. P x \<and> key x \<notin> set (map key ps)) xs) + length ps = length (filter P xs)"
proof -
  have inj: "inj_on key (set xs)" and d: "distinct xs" using assms(1) by (simp_all add: distinct_map)
  have "{x \<in> set xs. P x \<and> key x \<notin> set (map key ps)} = {x \<in> set xs. P x} - set ps"
    using assms(3) inj by (auto simp: inj_on_def)
  then have s: "set (filter (\<lambda>x. P x \<and> key x \<notin> set (map key ps)) xs) = set (filter P xs) - set ps" by auto
  have "length (filter (\<lambda>x. P x \<and> key x \<notin> set (map key ps)) xs) = card (set (filter P xs) - set ps)"
    using d by (subst s [symmetric]) (rule distinct_card [symmetric], simp)
  also have "\<dots> = length (filter P xs) - length ps"
    using d assms by (subst card_Diff_subset) (simp_all only: distinct_card distinct_filter finite_set)
  moreover have "length ps \<le> length (filter P xs)"
    using d assms by (metis card_mono distinct_card distinct_filter finite_set)
  ultimately show ?thesis by simp
qed

lemma backfill_length:
  assumes "distinct (map bq_id bank)"
  shows "length (backfill env bank (draw_quota env bank)) = min 10 (length (filter bq_active bank))"
proof -
  let ?p = "draw_quota env bank"
  have "distinct bank" using assms by (simp add: distinct_map)
  then have "length (filter (\<lambda>q. bq_active q \<and> bq_id q \<notin> set (map bq_id ?p)) bank) + length ?p = length (filter bq_active bank)"
    by (intro length_filter_except assms draw_quota_distinct) (auto dest: draw_quota_set)
  then show ?thesis using draw_quota_length [of env bank] by (auto simp: backfill_def min_def)
qed

lemma attempt_question_of_frame [simp]:
  "aq_id (attempt_question_of draw q) = bq_id q" "aq_chosen (attempt_question_of draw q) = None"
  "aq_stem (attempt_question_of draw q) = bq_stem q"
  by (simp_all add: attempt_question_of_def split: prod.split)

lemma map_zip_snd: "length ks = length xs \<Longrightarrow> map (\<lambda>z. g (snd z)) (zip ks xs) = map g xs"
  by (induction ks xs rule: list_induct2) simp_all

lemma drawn_ids: "map aq_id (drawn_questions env bank) = map bq_id (shuffle (ev_draw env 0) (backfill env bank (draw_quota env bank)))"
  by (simp add: drawn_questions_def Let_def comp_def case_prod_beta map_zip_snd)

lemma drawn_length: "distinct (map bq_id bank) \<Longrightarrow> length (drawn_questions env bank) = min 10 (length (filter bq_active bank))"
  by (simp add: drawn_questions_def Let_def backfill_length)

lemma drawn_distinct: "distinct (map bq_id bank) \<Longrightarrow> distinct (map aq_id (drawn_questions env bank))"
proof -
  assume a: "distinct (map bq_id bank)"
  then have "inj_on bq_id (set bank)" by (simp add: distinct_map)
  then have "inj_on bq_id (set (backfill env bank (draw_quota env bank)))"
    by (rule inj_on_subset) (auto dest: backfill_set)
  moreover have "distinct (backfill env bank (draw_quota env bank))"
    by (rule backfill_distinct) (use a in \<open>simp add: distinct_map\<close>)
  ultimately show ?thesis by (simp only: drawn_ids distinct_map shuffle_distinct shuffle_set simp_thms)
qed

lemma drawn_from_bank:
  assumes "q \<in> set (drawn_questions env bank)"
  shows "\<exists>b draw. b \<in> set bank \<and> bq_active b \<and> q = attempt_question_of draw b"
proof -
  let ?rows = "shuffle (ev_draw env 0) (backfill env bank (draw_quota env bank))"
  obtain k b where kb: "(k, b) \<in> set (zip [0..<length ?rows] ?rows)" "q = attempt_question_of (ev_draw env (Suc k)) b"
    using assms by (auto simp: drawn_questions_def Let_def)
  then have "b \<in> set ?rows" by (meson set_zip_rightD)
  then have "b \<in> set (backfill env bank (draw_quota env bank))" by simp
  then have "b \<in> set bank \<and> bq_active b" by (rule backfill_set)
  then show ?thesis using kb(2) by blast
qed

subsection \<open>Every request is a step\<close>

fun exam_time :: "exam_op \<Rightarrow> time" where
  "exam_time (CandidateLogin env _) = ev_now env"
| "exam_time (ViewState env _) = ev_now env"
| "exam_time (SavePart1 env _ _) = ev_now env"
| "exam_time (SaveAnswer env _ _ _) = ev_now env"
| "exam_time (Submit env _) = ev_now env"
| "exam_time (AddParticipants env _ _ _) = ev_now env"
| "exam_time (AddQuestion env _ _) = ev_now env"
| "exam_time (EditQuestion env _ _ _) = ev_now env"
| "exam_time (SetActive env _ _ _) = ev_now env"
| "exam_time (ViewResult env _ _) = ev_now env"

lemma put_same: "find_by at_id (at_id a) (ex_attempts db) = Some a \<Longrightarrow> put_attempt a db = db"
proof -
  have "find_by at_id k as = Some a \<Longrightarrow> update_first at_id k (\<lambda>_. a) as = as" for k as
    by (induction as) (auto split: if_splits)
  then show "find_by at_id (at_id a) (ex_attempts db) = Some a \<Longrightarrow> put_attempt a db = db" by (simp add: put_attempt_def)
qed

lemma expired_step: "sitting_step now a (finalize_if_expired now a)"
  by (auto simp: finalize_if_expired_def intro: sitting_step.intros)

lemma exam_step_refl: "exam_ok db \<Longrightarrow> exam_step now db db"
  by (rule exam_other) (simp_all add: exam_ok_def)

lemma require_attempt_in: "require_attempt k db = Inr a \<Longrightarrow> a \<in> set (ex_attempts db) \<and> at_id a = k"
  by (auto simp: require_attempt_def split: option.splits dest: find_by_Some)

lemma assert_active_cases:
  assumes "exam_ok db"
  obtains (refused) e where "assert_active env k db = (Inl e, db)"
  | (elapsed) a where "a \<in> set (ex_attempts db)"
      "assert_active env k db = (Inl TimeElapsed, put_attempt (finalize_if_expired (ev_now env) a) db)"
  | (active) a where "a \<in> set (ex_attempts db)" "at_id a = k" "assert_active env k db = (Inr a, db)" "at_status a = InProgress"
      "ev_now env < at_expires a"
proof (cases "require_attempt k db")
  case (Inl e)
  then show ?thesis using refused by (simp add: assert_active_def)
next
  case (Inr a)
  then have a: "a \<in> set (ex_attempts db)" "at_id a = k" using require_attempt_in by auto
  show ?thesis
  proof (cases "at_status (finalize_if_expired (ev_now env) a) = InProgress")
    case True
    then have "finalize_if_expired (ev_now env) a = a" "at_status a = InProgress" "ev_now env < at_expires a"
      by (auto simp: finalize_if_expired_def split: if_splits)
    moreover have "put_attempt a db = db" using a assms find_in put_same by blast
    ultimately show ?thesis using active [OF a] Inr by (simp add: assert_active_def)
  next
    case False
    then show ?thesis using elapsed [OF a(1)] Inr by (simp add: assert_active_def)
  qed
qed

lemma created_ok:
  assumes "exam_ok db" "create_attempt env pid db = (Inr a, db')"
  shows "exam_step now db db'"
proof -
  have bank: "distinct (map bq_id (ex_bank db))" using assms(1) by (simp add: exam_ok_def)
  have "list_all chosen_ok (drawn_questions env (ex_bank db))"
    by (auto simp: list_all_iff chosen_ok_def dest: drawn_from_bank)
  then have "attempt_ok a"
    using assms(2) drawn_length [OF bank] drawn_distinct [OF bank]
    by (auto simp: create_attempt_def Let_def attempt_ok_def split: if_splits)
  then show ?thesis using assms(2) by (auto simp: create_attempt_def Let_def find_by_None split: if_splits intro!: exam_new)
qed

lemma create_attempt_err: "create_attempt env pid db = (Inl e, db') \<Longrightarrow> db' = db"
  by (auto simp: create_attempt_def Let_def split: if_splits)

lemma login_step:
  assumes "exam_ok db"
  shows "exam_step (ev_now env) db (snd (candidate_login env code db))"
proof (cases "find_by pt_code (upper (trim code)) (ex_participants db)")
  case None
  then show ?thesis using assms by (simp add: candidate_login_def exam_step_refl)
next
  case (Some p)
  show ?thesis
  proof (cases "find_by at_participant (pt_id p) (ex_attempts db)")
    case None
    obtain r db' where c: "create_attempt env (pt_id p) db = (r, db')" by (cases "create_attempt env (pt_id p) db")
    have "exam_step (ev_now env) db db'"
    proof (cases r)
      case (Inl e)
      then have "db' = db" using c create_attempt_err by blast
      then show ?thesis using exam_step_refl [OF assms] by simp
    qed (use c created_ok [OF assms] in blast)
    then show ?thesis using Some None c by (cases r) (simp_all add: candidate_login_def)
  next
    case (Some a)
    then have "a \<in> set (ex_attempts db)" by (auto dest: find_by_Some)
    then show ?thesis using \<open>find_by pt_code _ _ = Some p\<close> Some exam_put [OF _ expired_step]
      by (simp add: candidate_login_def Let_def)
  qed
qed

lemma state_step: "exam_ok db \<Longrightarrow> exam_step (ev_now env) db (snd (get_state env k db))"
  by (auto simp: get_state_def Let_def exam_step_refl split: sum.split intro: exam_put [OF _ expired_step] dest: require_attempt_in)

lemma result_step: "exam_ok db \<Longrightarrow> exam_step (ev_now env) db (snd (get_result env k db))"
  by (auto simp: get_result_def Let_def exam_step_refl split: sum.split intro: exam_put [OF _ expired_step] dest: require_attempt_in)

lemma submit_step: "exam_ok db \<Longrightarrow> exam_step (ev_now env) db (snd (submit env k db))"
  by (auto simp: submit_def Let_def exam_step_refl split: sum.split intro!: exam_put sitting_closed dest: require_attempt_in)

lemma part1_step:
  assumes "exam_ok db"
  shows "exam_step (ev_now env) db (snd (save_part1 env k details db))"
  using assms
proof (cases rule: assert_active_cases [where env = env and k = k])
  case (active a)
  then show ?thesis by (auto simp: save_part1_def Let_def intro!: exam_put sitting_saved)
qed (simp_all add: save_part1_def assms exam_step_refl exam_put [OF _ expired_step])

lemma answer_step:
  assumes "exam_ok db"
  shows "exam_step (ev_now env) db (snd (save_answer env k qid i db))"
  using assms
proof (cases rule: assert_active_cases [where env = env and k = k])
  case (active a)
  then show ?thesis by (auto simp: save_answer_def Let_def assms exam_step_refl intro!: exam_put sitting_answered)
qed (simp_all add: save_answer_def assms exam_step_refl exam_put [OF _ expired_step])

lemma add_participants_distinct:
  "distinct (map pt_id ps) \<Longrightarrow> distinct (map pt_code ps) \<Longrightarrow>
   distinct (map pt_id (snd (add_participants env k ls ps))) \<and> distinct (map pt_code (snd (add_participants env k ls ps)))"
proof (induction env k ls ps rule: add_participants.induct)
  case (2 env k l ls ps)
  show ?case
  proof (cases "unique_code (ev_bytes env k) ps")
    case (Some code)
    then have "find_by pt_code code ps = None" by (auto simp: unique_code_def dest: find_Some_pred)
    then show ?thesis using 2 Some by (auto simp: find_by_None)
  qed (use 2 in simp)
qed simp

lemma participants_step: "exam_ok db \<Longrightarrow> exam_step now db (snd (create_participants env num labels db))"
  using add_participants_distinct [of "ex_participants db" env 0 "participant_labels num labels"]
  by (auto simp: create_participants_def Let_def split_beta exam_ok_def split: option.split intro!: exam_other)

lemma create_question_step: "exam_ok db \<Longrightarrow> exam_step now db (snd (create_question env d db))"
  by (auto simp: create_question_def exam_ok_def find_by_None split: sum.split intro!: exam_other)

lemma normalize_question_id: "normalize_question k d = Inr q \<Longrightarrow> bq_id q = k"
  by (auto simp: normalize_question_def Let_def split: if_splits)

lemma update_question_step:
  assumes "exam_ok db"
  shows "exam_step now db (snd (update_question k d db))"
proof (cases "normalize_question k d")
  case (Inr q)
  then have "bq_id q = k" by (rule normalize_question_id)
  then have "map bq_id (update_by bq_id k (\<lambda>_. q) bank) = map bq_id bank" for bank
    by (induction bank) (auto simp: update_by_def)
  then show ?thesis using assms Inr by (auto simp: update_question_def exam_ok_def intro!: exam_other)
qed (simp add: update_question_def assms exam_step_refl)

lemma set_active_step: "exam_ok db \<Longrightarrow> exam_step now db (snd (set_question_active k b db))"
  by (auto simp: set_question_active_def exam_ok_def keys_update_by intro!: exam_other)

lemma as_candidate_step:
  "exam_ok db \<Longrightarrow> (\<And>k. exam_step now db (snd (f k db))) \<Longrightarrow> exam_step now db (snd (as_candidate env tok f db))"
  by (simp add: as_candidate_def exam_step_refl split: sum.split)

lemma as_admin_step:
  "exam_ok db \<Longrightarrow> exam_step now db (snd (f db)) \<Longrightarrow> exam_step now db (snd (as_admin env tok f db))"
  by (simp add: as_admin_def exam_step_refl split: sum.split)

lemma exec_exam_step: "exam_ok db \<Longrightarrow> exam_step (exam_time op) db (snd (exec_exam op db))"
  by (cases op) (simp_all add: split_beta as_candidate_step as_admin_step login_step state_step part1_step answer_step submit_step
    participants_step create_question_step update_question_step set_active_step result_step)

interpretation exam: service exec_exam exam_ok
  by unfold_locales (rule exam_step_ok [OF exec_exam_step])

declare exec_exam.simps [simp del]

lemma run_sitting:
  assumes "exam_ok db" "find_by at_id k (ex_attempts db) = Some a"
  shows "\<exists>b. find_by at_id k (ex_attempts (run_ops exec_exam ops db)) = Some b \<and> at_participant b = at_participant a \<and>
    at_started b = at_started a \<and> at_expires b = at_expires a \<and> (at_status a \<noteq> InProgress \<longrightarrow> b = a) \<and>
    (list_all (\<lambda>op. at_expires a \<le> exam_time op) ops \<longrightarrow> at_part1 b = at_part1 a \<and> at_questions b = at_questions a)"
  using assms
proof (induction ops arbitrary: db a)
  case (Cons op ops)
  let ?db = "snd (exec_exam op db)"
  obtain c where c: "find_by at_id k (ex_attempts ?db) = Some c" "sitting_step (exam_time op) a c"
    using exam_step_sitting [OF exec_exam_step [OF Cons.prems(1)] Cons.prems] by blast
  note f = sitting_step_frame [OF c(2)]
  obtain b where "find_by at_id k (ex_attempts (run_ops exec_exam ops ?db)) = Some b" "at_participant b = at_participant c"
    "at_started b = at_started c" "at_expires b = at_expires c" "at_status c \<noteq> InProgress \<longrightarrow> b = c"
    "list_all (\<lambda>op. at_expires c \<le> exam_time op) ops \<longrightarrow> at_part1 b = at_part1 c \<and> at_questions b = at_questions c"
    using Cons.IH [OF exam.exec_inv [OF Cons.prems(1)] c(1)] by blast
  then show ?case using f by auto
qed simp

subsection \<open>What candidates see\<close>

text \<open>The data without the answer key and without marks.\<close>

definition hide_key :: "attempt_question \<Rightarrow> attempt_question" where "hide_key q = q\<lparr>aq_correct := 0\<rparr>"

definition hide_attempt :: "attempt \<Rightarrow> attempt" where
  "hide_attempt a = a\<lparr>at_questions := map hide_key (at_questions a), at_score1 := None, at_score2 := None, at_total := None\<rparr>"

definition hide_bank :: "bank_question \<Rightarrow> bank_question" where "hide_bank q = q\<lparr>bq_correct := 0\<rparr>"

definition hide_db :: "exam_db \<Rightarrow> exam_db" where
  "hide_db db = db\<lparr>ex_attempts := map hide_attempt (ex_attempts db), ex_bank := map hide_bank (ex_bank db)\<rparr>"

fun transcript :: "exam_op list \<Rightarrow> exam_db \<Rightarrow> (exam_error + exam_reply) list" where
  "transcript [] db = []"
| "transcript (op # ops) db = fst (exec_exam op db) # transcript ops (snd (exec_exam op db))"

lemma hide_key_simps [simp]:
  "hide_key (hide_key q) = hide_key q" "aq_id (hide_key q) = aq_id q" "hide_key (choose_option i (hide_key q)) = hide_key (choose_option i q)"
  "shown_question_of (hide_key q) = shown_question_of q"
  by (simp_all add: hide_key_def choose_option_def shown_question_of_def)

lemma hide_attempt_simps [simp]:
  "hide_attempt (hide_attempt a) = hide_attempt a" "at_id (hide_attempt a) = at_id a" "at_participant (hide_attempt a) = at_participant a"
  "at_status (hide_attempt a) = at_status a" "at_expires (hide_attempt a) = at_expires a" "at_part1 (hide_attempt a) = at_part1 a"
  "at_questions (hide_attempt a) = map hide_key (at_questions a)"
  "candidate_state now (hide_attempt a) = candidate_state now a"
  "hide_attempt (finalize now s (hide_attempt a)) = hide_attempt (finalize now s a)"
  by (simp_all add: hide_attempt_def candidate_state_def finalize_def Let_def comp_def)

lemma same_candidate_state: "hide_attempt a = hide_attempt b \<Longrightarrow> candidate_state now a = candidate_state now b"
  by (metis hide_attempt_simps(8))

lemma hide_expired [simp]: "hide_attempt (finalize_if_expired now (hide_attempt a)) = hide_attempt (finalize_if_expired now a)"
  by (simp add: finalize_if_expired_def)

lemma hide_expired_state [simp]:
  "candidate_state now (finalize_if_expired now (hide_attempt a)) = candidate_state now (finalize_if_expired now a)"
  by (rule same_candidate_state) simp

lemma expired_id [simp]: "at_id (finalize_if_expired now a) = at_id a"
  by (simp add: finalize_if_expired_def)

lemma expired_status [simp]: "at_status (finalize_if_expired now (hide_attempt a)) = at_status (finalize_if_expired now a)"
  by (simp add: finalize_if_expired_def)

lemma finalize_state [simp]: "candidate_state now (finalize n s (hide_attempt a)) = candidate_state now (finalize n s a)"
  by (rule same_candidate_state) simp

lemma hide_bank_simps [simp]:
  "hide_bank (hide_bank q) = hide_bank q" "bq_id (hide_bank q) = bq_id q" "bq_topic (hide_bank q) = bq_topic q" "bq_active (hide_bank q) = bq_active q"
  by (simp_all add: hide_bank_def)

lemma hide_db_simps [simp]:
  "hide_db (hide_db db) = hide_db db" "ex_attempts (hide_db db) = map hide_attempt (ex_attempts db)"
  "ex_bank (hide_db db) = map hide_bank (ex_bank db)" "ex_participants (hide_db db) = ex_participants db"
  by (simp_all add: hide_db_def comp_def)

lemma find_map: "(\<And>r. key (f r) = key r) \<Longrightarrow> find_by key k (map f rows) = map_option f (find_by key k rows)"
  by (induction rows) simp_all

lemma hide_put: "hide_db (put_attempt b db) = put_attempt (hide_attempt b) (hide_db db)"
proof -
  have "map hide_attempt (update_first at_id k (\<lambda>_. b) as) = update_first at_id k (\<lambda>_. hide_attempt b) (map hide_attempt as)" for k as
    by (induction as) simp_all
  then show ?thesis by (simp add: put_attempt_def hide_db_def)
qed

lemma hide_attempt_question: "hide_key (attempt_question_of draw (hide_bank q)) = hide_key (attempt_question_of draw q)"
  by (simp add: attempt_question_of_def hide_bank_def hide_key_def shuffle_options_def Let_def)

lemma hide_draw_topic: "draw_topic env (map hide_bank bank) = (\<lambda>kq. map hide_bank (draw_topic env bank kq))"
  by (rule ext) (simp add: draw_topic_def filter_map comp_def random_order_map take_map split: prod.split)

lemma hide_draw_quota: "draw_quota env (map hide_bank bank) = map hide_bank (draw_quota env bank)"
  by (simp add: draw_quota_def map_concat comp_def hide_draw_topic)

lemma hide_backfill: "backfill env (map hide_bank bank) (map hide_bank ps) = map hide_bank (backfill env bank ps)"
  by (simp add: backfill_def filter_map comp_def random_order_map take_map image_image)

lemma hide_drawn: "map hide_key (drawn_questions env (map hide_bank bank)) = map hide_key (drawn_questions env bank)"
proof -
  have "map (\<lambda>z. hide_key (attempt_question_of (d (fst z)) (snd z))) (zip ks (map hide_bank rows)) =
      map (\<lambda>z. hide_key (attempt_question_of (d (fst z)) (snd z))) (zip ks rows)" if "length ks = length rows" for ks rows and d :: "nat \<Rightarrow> nat \<Rightarrow> nat"
    using that by (induction ks rows rule: list_induct2) (simp_all add: hide_attempt_question)
  from this [of _ _ "\<lambda>k. ev_draw env (Suc k)"] show ?thesis
    by (simp add: drawn_questions_def Let_def hide_draw_quota hide_backfill shuffle_map comp_def case_prod_beta)
qed

text \<open>A request that neither shows nor uses what is hidden.\<close>

definition key_blind :: "(exam_db \<Rightarrow> (exam_error, 'r, exam_db) outcome) \<Rightarrow> bool" where
  "key_blind f \<longleftrightarrow> (\<forall>db. fst (f (hide_db db)) = fst (f db) \<and> hide_db (snd (f (hide_db db))) = hide_db (snd (f db)))"

lemma create_blind:
  obtains (none) e where "create_attempt env pid db = (Inl e, db)" "create_attempt env pid (hide_db db) = (Inl e, hide_db db)"
  | (some) a b where "create_attempt env pid db = (Inr a, db\<lparr>ex_attempts := ex_attempts db @ [a]\<rparr>)"
      "create_attempt env pid (hide_db db) = (Inr b, hide_db db\<lparr>ex_attempts := ex_attempts (hide_db db) @ [b]\<rparr>)" "hide_attempt a = hide_attempt b" "at_id a = at_id b"
proof -
  have e: "drawn_questions env (map hide_bank (ex_bank db)) = [] \<longleftrightarrow> drawn_questions env (ex_bank db) = []"
    by (metis hide_drawn map_is_Nil_conv)
  show thesis
  proof (cases "drawn_questions env (ex_bank db) = [] \<or> find_by at_id (ev_new env 0) (ex_attempts db) \<noteq> None \<or>
      find_by at_participant pid (ex_attempts db) \<noteq> None")
    case True
    then show thesis using e by (auto simp: create_attempt_def Let_def find_map intro: none)
  next
    case False
    define new where "new = (\<lambda>qs. \<lparr>at_id = ev_new env 0, at_participant = pid, at_started = ev_now env, at_expires = ev_now env + exam_duration,
      at_submitted = None, at_status = InProgress, at_part1 = Map.empty, at_questions = qs,
      at_score1 = None, at_score2 = None, at_total = None\<rparr>)"
    have "hide_attempt (new (drawn_questions env (ex_bank db))) = hide_attempt (new (drawn_questions env (map hide_bank (ex_bank db))))"
      by (simp add: new_def hide_attempt_def hide_drawn)
    then show thesis
      using some [of "new (drawn_questions env (ex_bank db))" "new (drawn_questions env (map hide_bank (ex_bank db)))"] False e
      by (simp add: create_attempt_def Let_def find_map new_def)
  qed
qed

lemma hide_append: "hide_db (db\<lparr>ex_attempts := ex_attempts db @ [a]\<rparr>) = (hide_db db)\<lparr>ex_attempts := map hide_attempt (ex_attempts db) @ [hide_attempt a]\<rparr>"
  by (simp add: hide_db_def)

lemma login_blind: "key_blind (candidate_login env code)"
  unfolding key_blind_def
proof
  fix db
  show "fst (candidate_login env code (hide_db db)) = fst (candidate_login env code db) \<and>
      hide_db (snd (candidate_login env code (hide_db db))) = hide_db (snd (candidate_login env code db))"
  proof (cases "find_by pt_code (upper (trim code)) (ex_participants db)")
    case None
    then show ?thesis by (simp add: candidate_login_def)
  next
    case (Some p)
    show ?thesis
    proof (cases "find_by at_participant (pt_id p) (ex_attempts db)")
      case None
      show ?thesis
      proof (cases rule: create_blind [of env "pt_id p" db])
        case (none e)
        then show ?thesis using Some None by (simp add: candidate_login_def find_map)
      next
        case (some a b)
        then show ?thesis using Some None
          by (simp add: candidate_login_def find_map hide_append same_candidate_state [OF some(3)]) (simp add: hide_db_def comp_def)
      qed
    next
      case (Some a)
      then show ?thesis using \<open>find_by pt_code _ _ = Some p\<close>
        by (simp add: candidate_login_def find_map Let_def hide_put)
    qed
  qed
qed


lemma require_hide: "require_attempt k (hide_db db) = map_sum id hide_attempt (require_attempt k db)"
  by (simp add: require_attempt_def find_map split: option.split)

lemma state_blind: "key_blind (get_state env k)"
  by (auto simp: key_blind_def get_state_def require_hide Let_def hide_put split: sum.split)

lemma submit_blind: "key_blind (submit env k)"
  by (auto simp: key_blind_def submit_def require_hide Let_def hide_put split: sum.split)

lemma active_blind:
  obtains (refused) e db' db'' where "assert_active env k db = (Inl e, db')" "assert_active env k (hide_db db) = (Inl e, db'')" "hide_db db'' = hide_db db'"
  | (active) a db' db'' where "assert_active env k db = (Inr a, db')" "assert_active env k (hide_db db) = (Inr (hide_attempt a), db'')"
      "hide_db db'' = hide_db db'"
proof (cases "require_attempt k db")
  case (Inl e)
  then show thesis by (intro refused [of e db "hide_db db"]) (simp_all add: assert_active_def require_hide)
next
  case (Inr a)
  show thesis
  proof (cases "at_status (finalize_if_expired (ev_now env) a) = InProgress")
    case True
    then have "finalize_if_expired (ev_now env) a = a" "finalize_if_expired (ev_now env) (hide_attempt a) = hide_attempt a"
      by (auto simp: finalize_if_expired_def split: if_splits)
    then show thesis using Inr True
      by (intro active [of a "put_attempt a db" "put_attempt (hide_attempt a) (hide_db db)"]) (simp_all add: assert_active_def require_hide hide_put Let_def)
  next
    case False
    then show thesis using Inr
      by (intro refused [of TimeElapsed "put_attempt (finalize_if_expired (ev_now env) a) db"
          "put_attempt (finalize_if_expired (ev_now env) (hide_attempt a)) (hide_db db)"])
        (simp_all add: assert_active_def require_hide hide_put)
  qed
qed

lemma put_hide: "hide_db db' = hide_db db \<Longrightarrow> hide_attempt b' = hide_attempt b \<Longrightarrow> hide_db (put_attempt b' db') = hide_db (put_attempt b db)"
  by (simp add: hide_put)

lemma part1_blind: "key_blind (save_part1 env k details)"
  unfolding key_blind_def
proof
  fix db
  have h: "hide_attempt (hide_attempt a\<lparr>at_part1 := p\<rparr>) = hide_attempt (a\<lparr>at_part1 := p\<rparr>)" for a p
    by (simp add: hide_attempt_def comp_def)
  show "fst (save_part1 env k details (hide_db db)) = fst (save_part1 env k details db) \<and>
      hide_db (snd (save_part1 env k details (hide_db db))) = hide_db (snd (save_part1 env k details db))"
  proof (cases rule: active_blind [of env k db])
    case (active a db' db'')
    then show ?thesis using same_candidate_state [OF h] put_hide [OF active(3) h] by (simp add: save_part1_def Let_def)
  qed (simp add: save_part1_def)
qed

lemma answer_blind: "key_blind (save_answer env k qid i)"
  unfolding key_blind_def
proof
  fix db
  have u: "map hide_key (update_by aq_id qid (choose_option i) (map hide_key qs)) = map hide_key (update_by aq_id qid (choose_option i) qs)" for qs
    by (simp add: update_by_def)
  have h: "hide_attempt (hide_attempt a\<lparr>at_questions := update_by aq_id qid (choose_option i) (map hide_key (at_questions a))\<rparr>) =
      hide_attempt (a\<lparr>at_questions := update_by aq_id qid (choose_option i) (at_questions a)\<rparr>)" for a
    by (simp add: hide_attempt_def u)
  have e: "list_ex (\<lambda>q. aq_id q = qid) (update_by aq_id qid (choose_option i) (map hide_key qs)) =
      list_ex (\<lambda>q. aq_id q = qid) (update_by aq_id qid (choose_option i) qs)" for qs
    by (induction qs) (simp_all add: update_by_def)
  show "fst (save_answer env k qid i (hide_db db)) = fst (save_answer env k qid i db) \<and>
      hide_db (snd (save_answer env k qid i (hide_db db))) = hide_db (snd (save_answer env k qid i db))"
  proof (cases rule: active_blind [of env k db])
    case (active a db' db'')
    let ?qs = "update_by aq_id qid (choose_option i) (at_questions a)"
    let ?qs' = "update_by aq_id qid (choose_option i) (map hide_key (at_questions a))"
    have "save_answer env k qid i db = (if \<not> list_ex (\<lambda>q. aq_id q = qid) ?qs then (Inl ForeignQuestion, db')
        else (Inr (candidate_state (ev_now env) (a\<lparr>at_questions := ?qs\<rparr>)), put_attempt (a\<lparr>at_questions := ?qs\<rparr>) db'))"
      "save_answer env k qid i (hide_db db) = (if \<not> list_ex (\<lambda>q. aq_id q = qid) ?qs' then (Inl ForeignQuestion, db'')
        else (Inr (candidate_state (ev_now env) (hide_attempt a\<lparr>at_questions := ?qs'\<rparr>)), put_attempt (hide_attempt a\<lparr>at_questions := ?qs'\<rparr>) db''))"
      by (simp_all only: save_answer_def active Let_def prod.case sum.case hide_attempt_simps)
    then show ?thesis using active(3) put_hide [OF active(3) h [of a]] same_candidate_state [OF h [of a]] e [of "at_questions a"]
      by (simp only: fst_conv snd_conv split: if_split) simp
  qed (simp add: save_answer_def)
qed

lemma as_candidate_blind: "(\<And>k. key_blind (f k)) \<Longrightarrow> key_blind (as_candidate env tok f)"
  by (simp add: key_blind_def as_candidate_def split: sum.split)

lemma as_admin_blind:
  assumes "\<And>db. map_sum id (\<lambda>_. ()) (fst (f (hide_db db))) = map_sum id (\<lambda>_. ()) (fst (f db))"
    and "\<And>db. hide_db (snd (f (hide_db db))) = hide_db (snd (f db))"
  shows "key_blind (as_admin env tok f)"
proof -
  have c: "map_sum id (\<lambda>_. ForAdmin) r = map_sum id (\<lambda>_. ForAdmin) s" if "map_sum id (\<lambda>_. ()) r = map_sum id (\<lambda>_. ()) s" for r s
    using that by (cases r; cases s) simp_all
  show ?thesis unfolding key_blind_def
  proof
    fix db
    show "fst (as_admin env tok f (hide_db db)) = fst (as_admin env tok f db) \<and>
        hide_db (snd (as_admin env tok f (hide_db db))) = hide_db (snd (as_admin env tok f db))"
      using c [OF assms(1)] assms(2) by (cases "verify_session AdminKind (ev_now env) tok") (simp_all add: as_admin_def)
  qed
qed


lemma hide_frame: "hide_db (db\<lparr>ex_participants := ps\<rparr>) = (hide_db db)\<lparr>ex_participants := ps\<rparr>"
    "hide_db (db\<lparr>ex_bank := qs\<rparr>) = (hide_db db)\<lparr>ex_bank := map hide_bank qs\<rparr>"
  by (simp_all add: hide_db_def)

lemma participants_blind: "key_blind (as_admin env tok (create_participants env num labels))"
  by (rule as_admin_blind) (simp_all add: create_participants_def Let_def split_beta hide_frame split: option.split)

lemma create_question_blind: "key_blind (as_admin env tok (create_question env d))"
  by (rule as_admin_blind) (auto simp: create_question_def find_map hide_frame comp_def split: sum.split)

lemma update_question_blind: "key_blind (as_admin env tok (update_question k d))"
proof (rule as_admin_blind)
  have u: "map hide_bank (update_by bq_id k (\<lambda>_. q) (map hide_bank bank)) = map hide_bank (update_by bq_id k (\<lambda>_. q) bank)" for q bank
    by (simp add: update_by_def)
  show "map_sum id (\<lambda>_. ()) (fst (update_question k d (hide_db db))) = map_sum id (\<lambda>_. ()) (fst (update_question k d db))"
      "hide_db (snd (update_question k d (hide_db db))) = hide_db (snd (update_question k d db))" for db
    by (auto simp: update_question_def find_map hide_frame u split: sum.split)
qed

lemma set_active_blind: "key_blind (as_admin env tok (set_question_active k b))"
proof (rule as_admin_blind)
  have u: "map hide_bank (update_by bq_id k (\<lambda>q. q\<lparr>bq_active := b\<rparr>) (map hide_bank bank)) = map hide_bank (update_by bq_id k (\<lambda>q. q\<lparr>bq_active := b\<rparr>) bank)" for bank
    by (simp add: update_by_def hide_bank_def)
  show "map_sum id (\<lambda>_. ()) (fst (set_question_active k b (hide_db db))) = map_sum id (\<lambda>_. ()) (fst (set_question_active k b db))"
      "hide_db (snd (set_question_active k b (hide_db db))) = hide_db (snd (set_question_active k b db))" for db
    by (auto simp: set_question_active_def find_map hide_frame u)
qed

lemma result_blind: "key_blind (as_admin env tok (get_result env k))"
  by (rule as_admin_blind) (auto simp: get_result_def require_hide Let_def hide_put split: sum.split)

lemma exec_exam_funs:
  "exec_exam (ViewState env tok) = as_candidate env tok (get_state env)"
  "exec_exam (SavePart1 env tok details) = as_candidate env tok (\<lambda>k. save_part1 env k details)"
  "exec_exam (SaveAnswer env tok qid i) = as_candidate env tok (\<lambda>k. save_answer env k qid i)"
  "exec_exam (Submit env tok) = as_candidate env tok (submit env)"
  "exec_exam (AddParticipants env tok num labels) = as_admin env tok (create_participants env num labels)"
  "exec_exam (AddQuestion env tok d) = as_admin env tok (create_question env d)"
  "exec_exam (EditQuestion env tok k d) = as_admin env tok (update_question k d)"
  "exec_exam (SetActive env tok k b) = as_admin env tok (set_question_active k b)"
  "exec_exam (ViewResult env tok k) = as_admin env tok (get_result env k)"
  by (rule ext, simp add: exec_exam.simps)+

lemma exec_blind: "key_blind (exec_exam op)"
proof (cases op)
  case (CandidateLogin env code)
  then show ?thesis using login_blind [of env code] by (simp add: key_blind_def exec_exam.simps split_beta)
qed (simp_all add: exec_exam_funs state_blind part1_blind answer_blind submit_blind participants_blind create_question_blind
  update_question_blind set_active_blind result_blind as_candidate_blind)

lemma transcript_hide: "transcript ops (hide_db db) = transcript ops db"
proof (induction ops arbitrary: db)
  case (Cons op ops)
  have b: "fst (exec_exam op (hide_db db)) = fst (exec_exam op db)"
      "hide_db (snd (exec_exam op (hide_db db))) = hide_db (snd (exec_exam op db))"
    using exec_blind [of op] by (simp_all add: key_blind_def)
  have "transcript ops (snd (exec_exam op (hide_db db))) = transcript ops (snd (exec_exam op db))"
    using Cons.IH by (metis b(2))
  then show ?case by (simp add: b(1))
qed simp

subsection \<open>Marks\<close>

lemma fl_near:
  assumes "0 \<le> x" "x \<le> 100000"
  shows "\<bar>fl x - x\<bar> \<le> 1/1000000" and "0 \<le> fl x"
proof -
  show "\<bar>fl x - x\<bar> \<le> 1/1000000"
  proof (cases "x = 0")
    case False
    then have "\<bar>fl x - x\<bar> \<le> x / 2 ^ 53" using assms by (intro fl_error) simp
    also have "\<dots> \<le> 1/1000000" using assms(2) by simp
    finally show ?thesis .
  qed simp
  show "0 \<le> fl x" using assms(1) by (rule fl_nonneg)
qed

lemma round2_near:
  assumes "0 \<le> x" "x \<le> 1000" "\<bar>x * 100 - of_int m\<bar> \<le> 9/20"
  shows "round2 x = fl (of_int m / 100)"
proof -
  have "\<bar>fl (x * 100) - x * 100\<bar> \<le> 1/1000000" using assms by (intro fl_near) simp_all
  then have "\<bar>fl (x * 100) - of_int m\<bar> < 1/2" using assms(3) by linarith
  then have "\<lfloor>fl (x * 100) + 1/2\<rfloor> = m" by linarith
  then show ?thesis by (simp add: round2_def fops)
qed

lemma share_near:
  assumes "0 \<le> a" "a \<le> 1"
  shows "\<bar>fl (fl a * 50) - a * 50\<bar> \<le> 1/10000" and "0 \<le> fl (fl a * 50)" and "fl (fl a * 50) \<le> 50"
proof -
  have a: "\<bar>fl a - a\<bar> \<le> 1/1000000" "0 \<le> fl a" "fl a \<le> 1" using assms fl_near [of a] fl_le_1 by simp_all
  then have f: "\<bar>fl (fl a * 50) - fl a * 50\<bar> \<le> 1/1000000" "0 \<le> fl (fl a * 50)" by (intro fl_near; simp)+
  then show "\<bar>fl (fl a * 50) - a * 50\<bar> \<le> 1/10000" "0 \<le> fl (fl a * 50)" using a by linarith+
  have "fl (fl a * 50) \<le> fl 50" using a by (intro fl_mono) simp
  also have "fl 50 = 50" using fl_of_int [of 50] by simp
  finally show "fl (fl a * 50) \<le> 50" .
qed

text \<open>The hundredths of points for a number of filled fields.\<close>

definition part1_hundredths :: "nat \<Rightarrow> int" where "part1_hundredths n = (10000 * int n + 7) div 14"

lemma part1_hundredths_near:
  assumes "n \<le> 7"
  shows "\<bar>of_nat n / 7 * 5000 - of_int (part1_hundredths n)\<bar> \<le> (3/7 :: rat)" and "0 \<le> part1_hundredths n" and "part1_hundredths n \<le> 5000"
proof -
  consider "n = 0" | "n = 1" | "n = 2" | "n = 3" | "n = 4" | "n = 5" | "n = 6" | "n = 7" using assms by linarith
  then show "\<bar>of_nat n / 7 * 5000 - of_int (part1_hundredths n)\<bar> \<le> (3/7 :: rat)" "0 \<le> part1_hundredths n" "part1_hundredths n \<le> 5000"
    by (cases; simp add: part1_hundredths_def)+
qed

lemma filled_le: "filled_fields p \<le> 7"
proof -
  have "filled_fields p \<le> length part1_fields" unfolding filled_fields_def by (rule length_filter_le)
  then show ?thesis by (simp add: part1_fields_def)
qed

lemma right_le: "right_answers qs \<le> length qs"
  by (simp add: right_answers_def)

lemma marks_exact:
  assumes "length (at_questions a) \<le> 10"
  shows "marks_of a = (fl (of_int (part1_hundredths (filled_fields (at_part1 a))) / 100), of_nat (5 * right_answers (at_questions a)),
    fl (of_int (part1_hundredths (filled_fields (at_part1 a)) + 500 * int (right_answers (at_questions a))) / 100))"
proof -
  let ?n = "filled_fields (at_part1 a)" and ?r = "right_answers (at_questions a)"
  let ?m = "part1_hundredths ?n"
  have n: "?n \<le> 7" and r: "?r \<le> 10" using filled_le [of "at_part1 a"] right_le [of "at_questions a"] assms by simp_all
  let ?p = "fl (fl (of_nat ?n / 7) * 50)" and ?q = "fl (fl (of_nat ?r / 10) * 50)"
  have p: "\<bar>?p - of_nat ?n / 7 * 50\<bar> \<le> 1/10000" "0 \<le> ?p" "?p \<le> 50" using n by (intro share_near; simp)+
  have q: "\<bar>?q - of_nat ?r / 10 * 50\<bar> \<le> 1/10000" "0 \<le> ?q" "?q \<le> 50" using r by (intro share_near; simp)+
  note m = part1_hundredths_near [OF n]
  have "score_part1 (at_part1 a) = ?p" by (simp add: score_part1_def part1_fields_def part1_weight_def fops)
  moreover have "round2 ?p = fl (of_int ?m / 100)" using p m(1) by (intro round2_near; linarith)
  ultimately have s1: "round2 (score_part1 (at_part1 a)) = fl (of_int ?m / 100)" by simp
  have i: "(of_int (500 * int ?r) :: rat) = 500 * of_nat ?r" by simp
  have "round2 ?q = fl (of_int (500 * int ?r) / 100)" using q by (intro round2_near; simp only: i; linarith)
  moreover have "fl (of_int (500 * int ?r) / 100) = of_nat (5 * ?r)" using fl_of_int [of "int (5 * ?r)"] r by simp
  ultimately have s2: "round2 (fmul (fdiv (of_nat ?r) (of_nat questions_per_attempt)) part2_weight) = of_nat (5 * ?r)"
    by (simp add: part2_weight_def fops)
  let ?x = "fl (of_int ?m / 100)" and ?y = "of_nat (5 * ?r) :: rat"
  have mq: "0 \<le> (of_int ?m :: rat)" "(of_int ?m :: rat) \<le> 5000" using m(2,3) by simp_all
  then have x: "\<bar>?x - of_int ?m / 100\<bar> \<le> 1/1000000" "0 \<le> ?x" by (intro fl_near; simp)+
  have y: "0 \<le> ?y" "?y \<le> 50" using r by simp_all
  have y': "0 \<le> ?y" "?y \<le> 50" "?y = 5 * of_nat ?r" using y by simp_all
  have i': "(of_int (?m + 500 * int ?r) :: rat) = of_int ?m + 500 * of_nat ?r" by simp
  have z: "\<bar>fl (?x + ?y) - (?x + ?y)\<bar> \<le> 1/1000000" "0 \<le> fl (?x + ?y)" by (intro fl_near; use x y mq in linarith)+
  have "round2 (fl (?x + ?y)) = fl (of_int (?m + 500 * int ?r) / 100)"
    using x y' z mq by (intro round2_near; simp only: i'; linarith)
  then show ?thesis by (simp only: marks_of_def Let_def s1 s2 fadd_def)
qed

lemma passing:
  assumes "0 \<le> t" "t \<le> 10000"
  shows "50 \<le> fl (of_int t / 100) \<longleftrightarrow> 5000 \<le> t"
proof
  assume "5000 \<le> t"
  then have "fl 50 \<le> fl (of_int t / 100)" by (intro fl_mono) simp
  then show "50 \<le> fl (of_int t / 100)" using fl_of_int [of 50] by simp
next
  assume h: "50 \<le> fl (of_int t / 100)"
  show "5000 \<le> t"
  proof (rule ccontr)
    assume n: "\<not> 5000 \<le> t"
    have "\<bar>fl (of_int t / 100) - of_int t / 100\<bar> \<le> (1/1000000 :: rat)"
      by (rule fl_near(1)) (use assms in simp_all)
    moreover have "(of_int t :: rat) \<le> 4999" using n by linarith
    ultimately show False using h by linarith
  qed
qed

subsection \<open>Properties\<close>

text \<open>What a candidate is asked comes from the active questions, no question twice, ten if there are as many.\<close>

lemma drawn_sitting:
  assumes "exam_ok db" "create_attempt env pid db = (Inr a, db')" "q \<in> set (at_questions a)"
  shows "\<exists>b. b \<in> set (ex_bank db) \<and> bq_active b \<and> aq_id q = bq_id b \<and> aq_stem q = bq_stem b \<and>
    length (at_questions a) = min 10 (length (filter bq_active (ex_bank db))) \<and> distinct (map aq_id (at_questions a)) \<and>
    (0 \<le> bq_correct b \<and> bq_correct b < int (length (bq_options b)) \<longrightarrow>
      mset (aq_options q) = mset (bq_options b) \<and> aq_options q ! nat (aq_correct q) = bq_options b ! nat (bq_correct b))"
proof -
  have bank: "distinct (map bq_id (ex_bank db))" using assms(1) by (simp add: exam_ok_def)
  have qs: "at_questions a = drawn_questions env (ex_bank db)"
    using assms(2) by (auto simp: create_attempt_def Let_def split: if_splits)
  obtain b draw where b: "b \<in> set (ex_bank db)" "bq_active b" "q = attempt_question_of draw b"
    using drawn_from_bank assms(3) unfolding qs by blast
  obtain opts c where s: "shuffle_options draw (bq_options b) (bq_correct b) = (opts, c)"
    by (cases "shuffle_options draw (bq_options b) (bq_correct b)")
  then have "aq_options q = opts" "aq_correct q = c" using b(3) by (simp_all add: attempt_question_of_def)
  then show ?thesis using b drawn_length [OF bank] drawn_distinct [OF bank] shuffle_options_key [OF _ _ s] unfolding qs by auto
qed

text \<open>
  C22. Whatever requests follow, in whatever order and from whomever, a sitting keeps its candidate, its start
  and its deadline of five minutes: signing in again never restarts it. Once it is closed nothing in it
  changes any more, its marks included, and once the deadline has passed no answer and no detail changes,
  whether or not anybody has closed it.
\<close>

theorem sitting_is_final:
  assumes "exam_ok db" "find_by at_id k (ex_attempts db) = Some a"
  shows "\<exists>b. find_by at_id k (ex_attempts (run_ops exec_exam ops db)) = Some b \<and> at_participant b = at_participant a \<and>
    at_started b = at_started a \<and> at_expires b = at_started a + exam_duration \<and>
    (if at_status a = InProgress
     then (if list_all (\<lambda>op. at_expires a \<le> exam_time op) ops then at_part1 b = at_part1 a \<and> at_questions b = at_questions a else True)
     else b = a)"
proof -
  have "attempt_ok a" using assms by (auto simp: exam_ok_def list_all_iff dest: find_by_Some)
  then show ?thesis using run_sitting [OF assms, of ops] by (auto simp: attempt_ok_def)
qed

definition demo_env :: "time \<Rightarrow> exam_env" where
  "demo_env now = \<lparr>ev_now = now, ev_random = (\<lambda>k i. of_nat (3 - i)), ev_draw = (\<lambda>k i. 0), ev_bytes = (\<lambda>k i. [0, 1, 2, 3, 4, 5]),
     ev_new = (\<lambda>k. ''a'')\<rparr>"

definition demo_question :: "string \<Rightarrow> int \<Rightarrow> bank_question" where
  "demo_question k c = \<lparr>bq_id = k, bq_topic = ''TAX'', bq_title = None, bq_stem = ''s'', bq_options = [''1'', ''2'', ''3'', ''4''],
     bq_correct = c, bq_competency = None, bq_case = False, bq_active = True\<rparr>"

definition demo_exam :: "int \<Rightarrow> exam_db" where
  "demo_exam c = \<lparr>ex_attempts = [], ex_bank = [demo_question ''q'' c], ex_participants = [\<lparr>pt_id = ''p'', pt_code = ''C'', pt_label = None\<rparr>],
     ex_admins = []\<rparr>"

definition demo_token :: "exam_session option" where
  "demo_token = Some \<lparr>xs_kind = CandidateKind, xs_sub = ''a'', xs_exp = 2700\<rparr>"

definition demo_ops :: "exam_op list" where
  "demo_ops = [CandidateLogin (demo_env 0) ''c'', SaveAnswer (demo_env 1000) demo_token ''q'' 0, Submit (demo_env 2000) demo_token]"

lemma demo_exam_ok: "exam_ok (demo_exam c)"
  by (simp add: exam_ok_def demo_exam_def)

theorem sitting_is_final_witness:
  "let db = run_ops exec_exam (take 2 demo_ops) (demo_exam 1) in exam_ok db \<and>
   (case find_by at_id ''a'' (ex_attempts db) of None \<Rightarrow> False | Some a \<Rightarrow>
     \<exists>b. find_by at_id ''a'' (ex_attempts (run_ops exec_exam [SaveAnswer (demo_env 300000) demo_token ''q'' 3] db)) = Some b \<and> at_questions b = at_questions a)"
proof -
  let ?db = "run_ops exec_exam (take 2 demo_ops) (demo_exam 1)"
  have ok: "exam_ok ?db" by (rule exam.run_inv [OF demo_exam_ok])
  have e: "map_option (\<lambda>a. (at_status a, at_expires a)) (find_by at_id ''a'' (ex_attempts ?db)) = Some (InProgress, 300000)"
    by code_simp
  then obtain a where a: "find_by at_id ''a'' (ex_attempts ?db) = Some a" "at_status a = InProgress" "at_expires a = 300000" by auto
  show ?thesis using sitting_is_final [OF ok a(1), of "[SaveAnswer (demo_env 300000) demo_token ''q'' 3]"] ok a
    by (auto simp: Let_def demo_env_def)
qed

text \<open>
  C23. Candidates learn nothing of the answer key: if two databases differ only in which options are right and
  in marks already given, every request of every candidate and administrator gets the same reply in both,
  as far as candidates see it, whatever was asked before. Marks are never shown to them.
\<close>

theorem candidates_learn_nothing:
  assumes "hide_db db = hide_db db'"
  shows "transcript ops db = transcript ops db'"
  using transcript_hide [of ops db] transcript_hide [of ops db'] by (simp add: assms)

theorem candidates_learn_nothing_witness:
  "demo_exam 1 \<noteq> demo_exam 2 \<and> transcript demo_ops (demo_exam 1) = transcript demo_ops (demo_exam 2)"
proof -
  have "hide_db (demo_exam 1) = hide_db (demo_exam 2)" by (simp add: hide_db_def demo_exam_def demo_question_def hide_bank_def)
  then have "transcript demo_ops (demo_exam 1) = transcript demo_ops (demo_exam 2)" by (rule candidates_learn_nothing)
  then show ?thesis by (simp add: demo_exam_def demo_question_def)
qed

text \<open>
  C24. The marks of every closed sitting are right to the hundredth, though they are computed on doubles: five
  points for each right answer, for the details the nearest hundredth of fifty times the share of valid
  fields, and the sum of both; a candidate passes exactly with 5000 hundredths or more, of at most 10000.
\<close>

theorem marks_are_right:
  assumes "exam_ok db" "b \<in> set (ex_attempts (run_ops exec_exam ops db))" "at_status b \<noteq> InProgress"
  shows "let n = part1_hundredths (filled_fields (at_part1 b)); r = right_answers (at_questions b) in
    at_score1 b = Some (fl (of_int n / 100)) \<and> at_score2 b = Some (of_nat (5 * r)) \<and>
    at_total b = Some (fl (of_int (n + 500 * int r) / 100)) \<and>
    0 \<le> n + 500 * int r \<and> n + 500 * int r \<le> 10000 \<and> (rr_passed (result_row_of b) \<longleftrightarrow> 5000 \<le> n + 500 * int r)"
proof -
  let ?n = "part1_hundredths (filled_fields (at_part1 b))" and ?r = "right_answers (at_questions b)"
  have "attempt_ok b" using exam.run_inv [OF assms(1), of ops] assms(2) by (auto simp: exam_ok_def list_all_iff)
  then have l: "length (at_questions b) \<le> 10"
    and m: "case marks_of b of (s1, s2, t) \<Rightarrow> at_score1 b = Some s1 \<and> at_score2 b = Some s2 \<and> at_total b = Some t"
    using assms(3) by (simp_all add: attempt_ok_def)
  have s: "at_score1 b = Some (fl (of_int ?n / 100))" "at_score2 b = Some (of_nat (5 * ?r))"
      "at_total b = Some (fl (of_int (?n + 500 * int ?r) / 100))"
    using m marks_exact [OF l] by simp_all
  have b: "0 \<le> ?n + 500 * int ?r" "?n + 500 * int ?r \<le> 10000"
    using part1_hundredths_near [OF filled_le [of "at_part1 b"]] right_le [of "at_questions b"] l by linarith+
  let ?t = "?n + 500 * int ?r"
  have "50 \<le> fl (of_int ?t / 100) \<longleftrightarrow> 5000 \<le> ?t" by (rule passing) (use b in simp_all)
  then show ?thesis using s b by (simp add: Let_def result_row_of_def num_or_zero_def pass_mark_def)
qed

theorem marks_are_right_witness:
  "let db = run_ops exec_exam demo_ops (demo_exam 1) in exam_ok (demo_exam 1) \<and>
   map (\<lambda>b. (at_status b, at_score2 b)) (ex_attempts db) = [(Submitted, Some 5)]"
proof -
  let ?db = "run_ops exec_exam demo_ops (demo_exam 1)"
  have e: "map (\<lambda>b. (at_status b, right_answers (at_questions b))) (ex_attempts ?db) = [(Submitted, 1)]" by code_simp
  then obtain b where b: "ex_attempts ?db = [b]" "at_status b = Submitted" "right_answers (at_questions b) = 1" by (auto simp: map_eq_Cons_conv)
  show ?thesis using marks_are_right [OF demo_exam_ok, of b demo_ops 1] b demo_exam_ok by (simp add: Let_def)
qed

end
