(* ===== verification/Registry.thy ===== *)
theory Registry
  imports Reportable
begin

text \<open>
  The register of taxpayers: \<open>backend/src/modules/taxpayers/taxpayers.service.ts\<close> with its CSV import and
  \<open>modules/identity/identity.service.ts\<close>, which finds the NIN that belongs to a BVN. The table has four unique
  columns beside its key: the blind indexes of NIN, BVN and TIN, and the company number; a statement that
  would give two rows the same value is refused. The cipher, the keyed hash and the identity provider are
  parameters; the audit entries of an operation are listed in order.
\<close>

subsection \<open>The table\<close>

datatype taxpayer_status = ActiveTaxpayer | InactiveTaxpayer | Blacklisted | Deceased

datatype llc_source = NameSuffix | ManualLlc

record registered = person +
  rp_nin_enc :: "string option"
  rp_bvn_enc :: "string option"
  rp_rc :: "string option"
  rp_status :: taxpayer_status
  rp_middle_name :: "string option"
  rp_phone :: "string option"
  rp_email :: "string option"
  rp_address :: "string option"
  rp_state :: "string option"
  rp_birth :: "time option"
  rp_llc_source :: "llc_source option"
  rp_verified_at :: "time option"
  rp_identity_source :: "string option"
  rp_paye_status :: "string option"
  rp_paye_number :: "string option"
  rp_paye_at :: "time option"
  rp_paye_source :: "string option"

datatype registry_audit =
    CreatedTaxpayer string | UpdatedTaxpayer string | ImportedTaxpayers nat nat nat
  | ResolveNotFound string string | Resolved string string | ResolvedBulk nat nat nat nat
  | RegisteredTaxNet string string bool | AutoRegistered nat
  | SyncedPaye nat nat nat | SetPaye string string | RegisteredPaye string string bool | AutoRegisteredPaye nat nat nat

record registry =
  rg_people :: "registered list"
  rg_records :: "scored_record list"
  rg_audit :: "registry_audit list"

datatype registry_error =
    TypeRequired | IdentifierRequired | TaxpayerMissing | KeyTaken | CsvTooShort
  | AlreadyHasNin | NoBvn | BvnUnreadable | ProviderFailed
  | AlreadyHasTin | TinTaken | NotCorporate | AlreadyPaye | BadPayeStatus | BodyNotArray

definition same_key :: "string option \<Rightarrow> string option \<Rightarrow> bool" where
  "same_key a b \<longleftrightarrow> a \<noteq> None \<and> a = b"

definition keys_collide :: "registered \<Rightarrow> registered \<Rightarrow> bool" where
  "keys_collide r s \<longleftrightarrow> same_key (tp_nin_index r) (tp_nin_index s) \<or> same_key (tp_bvn_index r) (tp_bvn_index s) \<or>
     same_key (tp_tin_index r) (tp_tin_index s) \<or> same_key (rp_rc r) (rp_rc s)"

definition can_store :: "registered \<Rightarrow> registered list \<Rightarrow> bool" where
  "can_store r rows \<longleftrightarrow> \<not> list_ex (\<lambda>s. tp_id s \<noteq> tp_id r \<and> keys_collide r s) rows"

definition insert_person :: "registered \<Rightarrow> registered list \<Rightarrow> registry_error + registered list" where
  "insert_person r rows = (if list_ex (\<lambda>s. tp_id s = tp_id r) rows \<or> \<not> can_store r rows then Inl KeyTaken else Inr (rows @ [r]))"

definition update_person :: "string \<Rightarrow> (registered \<Rightarrow> registered) \<Rightarrow> registered list \<Rightarrow> registry_error + registered list" where
  "update_person k f rows = (case find_by tp_id k rows of None \<Rightarrow> Inl TaxpayerMissing
     | Some r \<Rightarrow> if can_store (f r) rows then Inr (update_first tp_id k f rows) else Inl KeyTaken)"

definition blank_person :: "string \<Rightarrow> registered" where
  "blank_person k = \<lparr>tp_id = k, tp_nin_index = None, tp_tin_index = None, tp_tin_enc = None, tp_bvn_index = None, tp_business_name = None,
     tp_first_name = None, tp_last_name = None, tp_sector = None, tp_business_type = None, tx_type = Individual, tx_limited = False,
     tx_risk_score = 100, tx_risk_level = Low, tx_risk_at = None, rp_nin_enc = None, rp_bvn_enc = None, rp_rc = None,
     rp_status = ActiveTaxpayer, rp_middle_name = None, rp_phone = None, rp_email = None, rp_address = None, rp_state = None, rp_birth = None,
     rp_llc_source = None, rp_verified_at = None, rp_identity_source = None, rp_paye_status = Some ''UNKNOWN'', rp_paye_number = None,
     rp_paye_at = None, rp_paye_source = None\<rparr>"

subsection \<open>Creating and changing\<close>

definition derive_llc :: "string option \<Rightarrow> bool option \<Rightarrow> registered \<Rightarrow> registered" where
  "derive_llc name flag r = (case flag of Some b \<Rightarrow> r\<lparr>tx_limited := b, rp_llc_source := Some ManualLlc\<rparr>
     | None \<Rightarrow> if is_llc_name name then r\<lparr>tx_limited := True, rp_llc_source := Some NameSuffix\<rparr> else r)"

definition encode_identifiers :: "ingest_env \<Rightarrow> string option \<Rightarrow> string option \<Rightarrow> string option \<Rightarrow> registered \<Rightarrow> registered" where
  "encode_identifiers env nin bvn tin r = r\<lparr>
     rp_nin_enc := encrypt_field env nin, tp_nin_index := blind_index env nin,
     rp_bvn_enc := encrypt_field env bvn, tp_bvn_index := blind_index env bvn,
     tp_tin_enc := encrypt_field env tin, tp_tin_index := blind_index env tin\<rparr>"

text \<open>In the body of a change, None is an absent member; the TIN may also be present and null.\<close>

record taxpayer_dto =
  td_type :: "taxpayer_type option"
  td_status :: "taxpayer_status option"
  td_nin :: "string option"
  td_bvn :: "string option"
  td_tin :: "string option option"
  td_rc :: "string option"
  td_first :: "string option"
  td_last :: "string option"
  td_middle :: "string option"
  td_business :: "string option"
  td_phone :: "string option"
  td_email :: "string option"
  td_address :: "string option"
  td_state :: "string option"
  td_limited :: "bool option"

definition given_tin :: "taxpayer_dto \<Rightarrow> string option" where
  "given_tin d = (case td_tin d of None \<Rightarrow> None | Some t \<Rightarrow> t)"

definition new_person :: "ingest_env \<Rightarrow> string \<Rightarrow> taxpayer_type \<Rightarrow> taxpayer_dto \<Rightarrow> registered" where
  "new_person env k ty d = derive_llc (td_business d) (td_limited d)
     ((encode_identifiers env (td_nin d) (td_bvn d) (given_tin d) (blank_person k))\<lparr>rp_rc := or_null (td_rc d), tx_type := ty,
        rp_status := (case td_status d of None \<Rightarrow> ActiveTaxpayer | Some s \<Rightarrow> s), tp_first_name := td_first d, tp_last_name := td_last d,
        rp_middle_name := td_middle d, tp_business_name := td_business d, rp_phone := td_phone d, rp_email := td_email d,
        rp_address := td_address d, rp_state := td_state d\<rparr>)"

definition log_audit :: "registry_audit \<Rightarrow> registry \<Rightarrow> registry" where
  "log_audit e st = st\<lparr>rg_audit := rg_audit st @ [e]\<rparr>"

definition create_taxpayer :: "ingest_env \<Rightarrow> string \<Rightarrow> taxpayer_dto \<Rightarrow> registry \<Rightarrow> (registry_error, registered, registry) outcome" where
  "create_taxpayer env k d st = (case td_type d of None \<Rightarrow> (Inl TypeRequired, st)
     | Some ty \<Rightarrow>
         if \<not> truthy (td_nin d) \<and> \<not> truthy (td_rc d) then (Inl IdentifierRequired, st)
         else (let r = new_person env k ty d in
           case insert_person r (rg_people st) of Inl e \<Rightarrow> (Inl e, st)
           | Inr rows \<Rightarrow> (Inr r, log_audit (CreatedTaxpayer k) (st\<lparr>rg_people := rows\<rparr>))))"

definition keep_or :: "'a option \<Rightarrow> 'a option \<Rightarrow> 'a option" where
  "keep_or given old = (case given of None \<Rightarrow> old | Some v \<Rightarrow> Some v)"

definition changed_person :: "ingest_env \<Rightarrow> taxpayer_dto \<Rightarrow> registered \<Rightarrow> registered" where
  "changed_person env d r = (let s = r\<lparr>tp_first_name := keep_or (td_first d) (tp_first_name r), tp_last_name := keep_or (td_last d) (tp_last_name r),
       rp_middle_name := keep_or (td_middle d) (rp_middle_name r), tp_business_name := keep_or (td_business d) (tp_business_name r),
       rp_phone := keep_or (td_phone d) (rp_phone r), rp_email := keep_or (td_email d) (rp_email r),
       rp_address := keep_or (td_address d) (rp_address r), rp_state := keep_or (td_state d) (rp_state r),
       rp_status := (case td_status d of None \<Rightarrow> rp_status r | Some v \<Rightarrow> v)\<rparr>;
     t = (case td_tin d of None \<Rightarrow> s | Some tin \<Rightarrow> s\<lparr>tp_tin_enc := encrypt_field env tin, tp_tin_index := blind_index env tin\<rparr>)
     in derive_llc (keep_or (td_business d) (tp_business_name r)) (td_limited d) t)"

definition update_taxpayer :: "ingest_env \<Rightarrow> string \<Rightarrow> taxpayer_dto \<Rightarrow> registry \<Rightarrow> (registry_error, unit, registry) outcome" where
  "update_taxpayer env k d st = (case update_person k (changed_person env d) (rg_people st) of Inl e \<Rightarrow> (Inl e, st)
     | Inr rows \<Rightarrow> (Inr (), log_audit (UpdatedTaxpayer k) (st\<lparr>rg_people := rows\<rparr>)))"

subsection \<open>Import\<close>

text \<open>The import has a reader of its own: lines at line feeds, cells at commas, one quote dropped at either end.\<close>

definition strip_quotes :: "string \<Rightarrow> string" where
  "strip_quotes s = (let t = (if s \<noteq> [] \<and> hd s = CHR 0x22 then tl s else s) in
     if t \<noteq> [] \<and> last t = CHR 0x22 then butlast t else t)"

definition import_lines :: "string \<Rightarrow> string list" where
  "import_lines s = filter (\<lambda>l. l \<noteq> []) (map trim (split_on (CHR 0x0A) (trim s)))"

definition import_row_of :: "string list \<Rightarrow> string \<Rightarrow> string \<rightharpoonup> string" where
  "import_row_of headers l = (let values = map (\<lambda>v. strip_quotes (trim v)) (split_on (CHR '','') l) in
     map_of (rev (map (\<lambda>i. (headers ! i, if i < length values then values ! i else [])) [0..<length headers])))"

datatype import_error = MissingIdentifier nat | InvalidType nat string | StoreRefused nat

definition taxpayer_type_of :: "string \<Rightarrow> taxpayer_type option" where
  "taxpayer_type_of s = (if s = ''INDIVIDUAL'' then Some Individual else if s = ''CORPORATE'' then Some Corporate
     else if s = ''GOVERNMENT'' then Some Government else None)"

definition imported_person :: "ingest_env \<Rightarrow> (string \<rightharpoonup> string) \<Rightarrow> taxpayer_type \<Rightarrow> registered \<Rightarrow> registered" where
  "imported_person env row ty r = derive_llc (or_null (row ''businessname'')) None
     ((encode_identifiers env (row ''nin'') None (row ''tin'') r)\<lparr>rp_rc := or_null (row ''cacrcnumber''), tx_type := ty,
        tp_first_name := or_null (row ''firstname''), tp_last_name := or_null (row ''lastname''), tp_business_name := or_null (row ''businessname''),
        rp_phone := or_null (row ''phone''), rp_email := or_null (row ''email''), rp_state := or_null (row ''stateofresidence'')\<rparr>)"

definition import_match :: "ingest_env \<Rightarrow> (string \<rightharpoonup> string) \<Rightarrow> registered list \<Rightarrow> registered option" where
  "import_match env row rows = find (\<lambda>r. same_key (blind_index env (row ''nin'')) (tp_nin_index r) \<or>
     (truthy (row ''cacrcnumber'') \<and> rp_rc r = row ''cacrcnumber'')) rows"

record import_result =
  im_created :: nat
  im_updated :: nat
  im_skipped :: nat
  im_errors :: "import_error list"

text \<open>One row; the number is its line in the file without blank lines.\<close>

definition import_row :: "ingest_env \<Rightarrow> (nat \<Rightarrow> string) \<Rightarrow> nat \<Rightarrow> (string \<rightharpoonup> string) \<Rightarrow> registered list \<times> import_result \<Rightarrow> registered list \<times> import_result" where
  "import_row env new n row acc = (case acc of (rows, res) \<Rightarrow>
     (let skip = (\<lambda>e. (rows, res\<lparr>im_skipped := Suc (im_skipped res), im_errors := im_errors res @ [e]\<rparr>));
          given = (if truthy (row ''type'') then the (row ''type'') else ''INDIVIDUAL'')
      in if \<not> truthy (row ''nin'') \<and> \<not> truthy (row ''cacrcnumber'') then skip (MissingIdentifier n)
         else case taxpayer_type_of (upper given) of None \<Rightarrow> skip (InvalidType n given)
         | Some ty \<Rightarrow>
             (case import_match env row rows of
                Some r \<Rightarrow> (case update_person (tp_id r) (imported_person env row ty) rows of Inl e \<Rightarrow> skip (StoreRefused n)
                    | Inr rows' \<Rightarrow> (rows', res\<lparr>im_updated := Suc (im_updated res)\<rparr>))
              | None \<Rightarrow> (case insert_person (imported_person env row ty (blank_person (new n))) rows of Inl e \<Rightarrow> skip (StoreRefused n)
                    | Inr rows' \<Rightarrow> (rows', res\<lparr>im_created := Suc (im_created res)\<rparr>)))))"

definition import_rows :: "ingest_env \<Rightarrow> (nat \<Rightarrow> string) \<Rightarrow> (nat \<times> (string \<rightharpoonup> string)) list \<Rightarrow> registered list \<times> import_result \<Rightarrow> registered list \<times> import_result" where
  "import_rows env new rows acc = foldl (\<lambda>acc (n, row). import_row env new n row acc) acc rows"

definition import_csv :: "ingest_env \<Rightarrow> (nat \<Rightarrow> string) \<Rightarrow> string \<Rightarrow> registry \<Rightarrow> (registry_error, import_result, registry) outcome" where
  "import_csv env new s st = (let lines = import_lines s in
     if length lines < 2 then (Inl CsvTooShort, st)
     else (let headers = map (\<lambda>h. lower (trim h)) (split_on (CHR '','') (hd lines));
               rows = map (\<lambda>i. (i + 2, import_row_of headers (tl lines ! i))) [0..<length (tl lines)];
               (people, res) = import_rows env new rows (rg_people st, \<lparr>im_created = 0, im_updated = 0, im_skipped = 0, im_errors = []\<rparr>)
           in (Inr (res\<lparr>im_errors := take 50 (im_errors res)\<rparr>),
               log_audit (ImportedTaxpayers (im_created res) (im_updated res) (im_skipped res)) (st\<lparr>rg_people := people\<rparr>))))"

subsection \<open>Identity\<close>

record identity_match =
  id_not_found :: bool
  id_nin :: "string option"
  id_first :: "string option"
  id_last :: "string option"
  id_birth :: "time option"
  id_state :: "string option"
  id_source :: string

text \<open>What the bridge answers for a BVN; None when the call throws.\<close>

type_synonym identity_provider = "string \<Rightarrow> identity_match option"

definition enrich :: "string option \<Rightarrow> string option \<Rightarrow> string option" where
  "enrich found old = (if truthy found \<and> \<not> truthy old then found else old)"

definition resolved_person :: "ingest_env \<Rightarrow> time \<Rightarrow> identity_match \<Rightarrow> registered \<Rightarrow> registered" where
  "resolved_person env now mt r = r\<lparr>rp_nin_enc := encrypt_field env (id_nin mt), tp_nin_index := blind_index env (id_nin mt),
     rp_verified_at := Some now, rp_identity_source := Some (id_source mt),
     tp_first_name := enrich (id_first mt) (tp_first_name r), tp_last_name := enrich (id_last mt) (tp_last_name r),
     rp_birth := (if rp_birth r = None then id_birth mt else rp_birth r), rp_state := enrich (id_state mt) (rp_state r)\<rparr>"

text \<open>The result says whether the NIN was found and linked.\<close>

definition resolve_one :: "ingest_env \<Rightarrow> identity_provider \<Rightarrow> time \<Rightarrow> string \<Rightarrow> registry \<Rightarrow> (registry_error, bool, registry) outcome" where
  "resolve_one env bridge now k st = (case find_by tp_id k (rg_people st) of None \<Rightarrow> (Inl TaxpayerMissing, st)
     | Some r \<Rightarrow>
         if truthy (tp_nin_index r) then (Inl AlreadyHasNin, st)
         else if \<not> truthy (rp_bvn_enc r) then (Inl NoBvn, st)
         else (let bvn = decrypt_field env (rp_bvn_enc r) in
           if \<not> truthy bvn then (Inl BvnUnreadable, st)
           else (case bridge (the bvn) of None \<Rightarrow> (Inl ProviderFailed, st)
             | Some mt \<Rightarrow>
                 if id_not_found mt \<or> \<not> truthy (id_nin mt) then (Inr False, log_audit (ResolveNotFound k (id_source mt)) st)
                 else if list_ex (\<lambda>s. tp_nin_index s = blind_index env (id_nin mt) \<and> tp_id s \<noteq> k) (rg_people st) then (Inr False, st)
                 else (case update_person k (resolved_person env now mt) (rg_people st) of Inl e \<Rightarrow> (Inl e, st)
                   | Inr rows \<Rightarrow> (Inr True, log_audit (Resolved k (id_source mt)) (st\<lparr>rg_people := rows\<rparr>))))))"

record bulk_result =
  bk_first :: nat
  bk_second :: nat
  bk_failed :: nat

fun resolve_loop :: "ingest_env \<Rightarrow> identity_provider \<Rightarrow> time \<Rightarrow> string list \<Rightarrow> bulk_result \<Rightarrow> registry \<Rightarrow> bulk_result \<times> registry" where
  "resolve_loop env bridge now [] res st = (res, st)"
| "resolve_loop env bridge now (k # ks) res st = (case resolve_one env bridge now k st of
     (Inr True, st') \<Rightarrow> resolve_loop env bridge now ks (res\<lparr>bk_first := Suc (bk_first res)\<rparr>) st'
   | (Inr False, st') \<Rightarrow> resolve_loop env bridge now ks (res\<lparr>bk_second := Suc (bk_second res)\<rparr>) st'
   | (Inl _, st') \<Rightarrow> resolve_loop env bridge now ks (res\<lparr>bk_failed := Suc (bk_failed res)\<rparr>) st')"

text \<open>An empty list of ids and a limit of zero do not restrict.\<close>

definition scoped :: "string list option \<Rightarrow> string \<Rightarrow> bool" where
  "scoped ids k = (case ids of Some (i # is) \<Rightarrow> k \<in> set (i # is) | _ \<Rightarrow> True)"

definition capped :: "nat option \<Rightarrow> 'a list \<Rightarrow> 'a list" where
  "capped limit xs = (case limit of Some n \<Rightarrow> if 0 < n then take n xs else xs | None \<Rightarrow> xs)"

definition resolve_bulk :: "ingest_env \<Rightarrow> identity_provider \<Rightarrow> time \<Rightarrow> string list option \<Rightarrow> nat option \<Rightarrow> registry \<Rightarrow>
    (registry_error, nat \<times> bulk_result, registry) outcome" where
  "resolve_bulk env bridge now ids limit st =
     (let ks = capped limit (map tp_id (filter (\<lambda>r. tp_bvn_index r \<noteq> None \<and> tp_nin_index r = None \<and> scoped ids (tp_id r)) (rg_people st)));
          (res, st') = resolve_loop env bridge now ks \<lparr>bk_first = 0, bk_second = 0, bk_failed = 0\<rparr> st
      in (Inr (length ks, res), log_audit (ResolvedBulk (length ks) (bk_first res) (bk_second res) (bk_failed res)) st'))"

subsection \<open>Sound tables\<close>

text \<open>An index belongs to the identifier that is stored sealed beside it.\<close>

definition sealed_pair :: "ingest_env \<Rightarrow> string option \<Rightarrow> string option \<Rightarrow> bool" where
  "sealed_pair env enc idx \<longleftrightarrow> (case (enc, idx) of (None, None) \<Rightarrow> True
     | (Some e, Some i) \<Rightarrow> (case i_open env e of None \<Rightarrow> False | Some p \<Rightarrow> i = i_hmac env (trim p)) | _ \<Rightarrow> False)"

definition sealed :: "ingest_env \<Rightarrow> registered \<Rightarrow> bool" where
  "sealed env r \<longleftrightarrow> sealed_pair env (rp_nin_enc r) (tp_nin_index r) \<and> sealed_pair env (rp_bvn_enc r) (tp_bvn_index r) \<and>
     sealed_pair env (tp_tin_enc r) (tp_tin_index r)"

definition rows_ok :: "ingest_env \<Rightarrow> registered list \<Rightarrow> bool" where
  "rows_ok env rows \<longleftrightarrow> distinct (map tp_id rows) \<and> list_all (\<lambda>r. can_store r rows) rows \<and> list_all (sealed env) rows"

definition registry_ok :: "ingest_env \<Rightarrow> registry \<Rightarrow> bool" where
  "registry_ok env st \<longleftrightarrow> rows_ok env (rg_people st)"

text \<open>What is sealed can be opened again.\<close>

definition cipher_ok :: "ingest_env \<Rightarrow> bool" where
  "cipher_ok env \<longleftrightarrow> (\<forall>x. i_open env (i_seal env x) = Some x)"

lemma sealed_fresh: "cipher_ok env \<Longrightarrow> sealed_pair env (encrypt_field env v) (blind_index env v)"
  by (simp add: sealed_pair_def encrypt_field_def blind_index_def cipher_ok_def)

lemma sealed_none [simp]: "sealed_pair env None None"
  by (simp add: sealed_pair_def)

lemma collide_sym: "keys_collide r s \<longleftrightarrow> keys_collide s r"
  unfolding keys_collide_def same_key_def by metis

text \<open>A change of other columns than the identifiers.\<close>

definition same_keys :: "registered \<Rightarrow> registered \<Rightarrow> bool" where
  "same_keys r s \<longleftrightarrow> tp_id s = tp_id r \<and> tp_nin_index s = tp_nin_index r \<and> tp_bvn_index s = tp_bvn_index r \<and>
     tp_tin_index s = tp_tin_index r \<and> rp_rc s = rp_rc r \<and> rp_nin_enc s = rp_nin_enc r \<and> rp_bvn_enc s = rp_bvn_enc r \<and>
     tp_tin_enc s = tp_tin_enc r"

lemma update_first_split:
  assumes "find_by key k rows = Some r"
  obtains xs ys where "rows = xs @ r # ys" "update_first key k f rows = xs @ f r # ys" "key r = k"
proof -
  have "\<exists>xs ys. rows = xs @ r # ys \<and> update_first key k f rows = xs @ f r # ys \<and> key r = k"
    using assms
  proof (induction rows)
    case (Cons a rows)
    show ?case
    proof (cases "key a = k")
      case True
      then have "a # rows = [] @ r # rows" "update_first key k f (a # rows) = [] @ f r # rows" "key r = k" using Cons.prems by simp_all
      then show ?thesis by blast
    next
      case False
      then obtain xs ys where "rows = xs @ r # ys" "update_first key k f rows = xs @ f r # ys" "key r = k" using Cons by auto
      then have "a # rows = (a # xs) @ r # ys \<and> update_first key k f (a # rows) = (a # xs) @ f r # ys \<and> key r = k" using False by simp
      then show ?thesis by blast
    qed
  qed simp
  then show thesis using that by blast
qed

lemma rows_ok_update:
  assumes "rows_ok env rows" "find_by tp_id k rows = Some r" "tp_id (f r) = tp_id r" "can_store (f r) rows" "sealed env (f r)"
  shows "rows_ok env (update_first tp_id k f rows)"
proof -
  obtain xs ys where s: "rows = xs @ r # ys" "update_first tp_id k f rows = xs @ f r # ys" "tp_id r = k"
    using assms(2) by (rule update_first_split)
  show ?thesis
    using assms(1,3,4,5) unfolding s(2) unfolding s(1) rows_ok_def can_store_def list_ex_iff list_all_iff
    by (auto simp: collide_sym) (metis UnI1 UnI2)+
qed

lemma rows_ok_insert: "rows_ok env rows \<Longrightarrow> insert_person r rows = Inr rows' \<Longrightarrow> sealed env r \<Longrightarrow> rows_ok env rows'"
  by (auto simp: insert_person_def rows_ok_def can_store_def list_ex_iff list_all_iff collide_sym split: if_splits) (blast+)

lemma update_person_ok:
  assumes "rows_ok env rows" "update_person k f rows = Inr rows'" "\<And>r. tp_id (f r) = tp_id r" "\<And>r. sealed env r \<Longrightarrow> sealed env (f r)"
  shows "rows_ok env rows'"
proof -
  obtain r where r: "find_by tp_id k rows = Some r" "can_store (f r) rows" "rows' = update_first tp_id k f rows"
    using assms(2) by (auto simp: update_person_def split: option.splits if_splits)
  have "sealed env r" using r(1) assms(1) by (auto simp: rows_ok_def list_all_iff dest: find_by_Some)
  then show ?thesis unfolding r(3) by (intro rows_ok_update [where r = r] assms r)
qed

lemma derive_llc_frame [simp]:
  "tp_id (derive_llc n b r) = tp_id r" "sealed env (derive_llc n b r) = sealed env r"
  "rp_bvn_enc (derive_llc n b r) = rp_bvn_enc r" "tp_bvn_index (derive_llc n b r) = tp_bvn_index r"
  "tp_tin_enc (derive_llc n b r) = tp_tin_enc r" "tp_tin_index (derive_llc n b r) = tp_tin_index r"
  by (auto simp: derive_llc_def sealed_def split: option.split)

lemma changed_person_id [simp]: "tp_id (changed_person env d r) = tp_id r"
  by (simp add: changed_person_def Let_def split: option.split)

lemma changed_person_sealed: "cipher_ok env \<Longrightarrow> sealed env r \<Longrightarrow> sealed env (changed_person env d r)"
  unfolding changed_person_def Let_def derive_llc_frame by (auto simp: sealed_def sealed_fresh split: option.split)

lemma imported_person_frame [simp]:
  "tp_id (imported_person env row ty r) = tp_id r"
  "rp_bvn_enc (imported_person env row ty r) = None" "tp_bvn_index (imported_person env row ty r) = None"
  "tp_tin_enc (imported_person env row ty r) = encrypt_field env (row ''tin'')"
  "tp_tin_index (imported_person env row ty r) = blind_index env (row ''tin'')"
  by (simp_all add: imported_person_def encode_identifiers_def encrypt_field_def blind_index_def)

lemma imported_person_sealed: "cipher_ok env \<Longrightarrow> sealed env (imported_person env row ty r)"
  unfolding imported_person_def derive_llc_frame by (simp add: encode_identifiers_def sealed_def sealed_fresh)

lemma resolved_person_frame [simp]: "tp_id (resolved_person env now mt r) = tp_id r"
  by (simp add: resolved_person_def)

lemma resolved_person_sealed: "cipher_ok env \<Longrightarrow> sealed env r \<Longrightarrow> sealed env (resolved_person env now mt r)"
  by (simp add: resolved_person_def sealed_def sealed_fresh)

lemma log_audit_frame [simp]: "rg_people (log_audit e st) = rg_people st" "rg_records (log_audit e st) = rg_records st"
  by (simp_all add: log_audit_def)

lemma new_person_sealed: "cipher_ok env \<Longrightarrow> sealed env (new_person env k ty d)"
  unfolding new_person_def derive_llc_frame by (simp add: encode_identifiers_def sealed_def sealed_fresh)

lemma create_ok: "cipher_ok env \<Longrightarrow> registry_ok env st \<Longrightarrow> registry_ok env (snd (create_taxpayer env k d st))"
  by (auto simp: create_taxpayer_def registry_ok_def Let_def new_person_sealed split: option.split sum.split intro: rows_ok_insert)

lemma update_ok: "cipher_ok env \<Longrightarrow> registry_ok env st \<Longrightarrow> registry_ok env (snd (update_taxpayer env k d st))"
  by (auto simp: update_taxpayer_def registry_ok_def changed_person_sealed split: sum.split intro: update_person_ok)

lemma resolve_one_ok: "cipher_ok env \<Longrightarrow> registry_ok env st \<Longrightarrow> registry_ok env (snd (resolve_one env bridge now k st))"
  by (auto simp: resolve_one_def registry_ok_def Let_def resolved_person_sealed split: option.split sum.split intro: update_person_ok)

lemma resolve_loop_ok: "cipher_ok env \<Longrightarrow> registry_ok env st \<Longrightarrow> registry_ok env (snd (resolve_loop env bridge now ks res st))"
proof (induction ks arbitrary: res st)
  case (Cons k ks)
  obtain r st' where r: "resolve_one env bridge now k st = (r, st')" by (cases "resolve_one env bridge now k st")
  then have "registry_ok env st'" using resolve_one_ok [OF Cons.prems, of bridge now k] by simp
  then show ?case using Cons.IH [OF Cons.prems(1)] r by (auto split: sum.split bool.split)
qed simp

lemma resolve_bulk_ok: "cipher_ok env \<Longrightarrow> registry_ok env st \<Longrightarrow> registry_ok env (snd (resolve_bulk env bridge now ids limit st))"
  using resolve_loop_ok by (simp add: resolve_bulk_def Let_def split_beta registry_ok_def)

text \<open>One row of an import: nothing, a changed taxpayer or a new one.\<close>

lemma import_row_cases:
  obtains (skipped) res' where "import_row env new n row (rows, res) = (rows, res')"
  | (changed) r ty rows' res' where "import_match env row rows = Some r" "update_person (tp_id r) (imported_person env row ty) rows = Inr rows'"
      "import_row env new n row (rows, res) = (rows', res')"
  | (added) ty rows' res' where "insert_person (imported_person env row ty (blank_person (new n))) rows = Inr rows'"
      "import_row env new n row (rows, res) = (rows', res')"
proof (cases "\<not> truthy (row ''nin'') \<and> \<not> truthy (row ''cacrcnumber'')")
  case True
  then show thesis by (intro skipped) (simp add: import_row_def Let_def)
next
  case ids: False
  show thesis
  proof (cases "taxpayer_type_of (upper (if truthy (row ''type'') then the (row ''type'') else ''INDIVIDUAL''))")
    case None
    then show thesis using ids
      by (intro skipped [of "res\<lparr>im_skipped := Suc (im_skipped res), im_errors := im_errors res @ [InvalidType n
          (if truthy (row ''type'') then the (row ''type'') else ''INDIVIDUAL'')]\<rparr>"]) (auto simp: import_row_def Let_def)
  next
    case ty: (Some ty)
    let ?skip = "res\<lparr>im_skipped := Suc (im_skipped res), im_errors := im_errors res @ [StoreRefused n]\<rparr>"
    have e: "import_row env new n row (rows, res) = (case import_match env row rows of
        Some r \<Rightarrow> (case update_person (tp_id r) (imported_person env row ty) rows of Inl e \<Rightarrow> (rows, ?skip)
          | Inr rows' \<Rightarrow> (rows', res\<lparr>im_updated := Suc (im_updated res)\<rparr>))
      | None \<Rightarrow> (case insert_person (imported_person env row ty (blank_person (new n))) rows of Inl e \<Rightarrow> (rows, ?skip)
          | Inr rows' \<Rightarrow> (rows', res\<lparr>im_created := Suc (im_created res)\<rparr>)))"
      unfolding import_row_def Let_def prod.case ty using ids by (simp only: if_False option.case)
    show thesis
    proof (cases "import_match env row rows")
      case None
      then show thesis using e skipped [of ?skip] added
        by (cases "insert_person (imported_person env row ty (blank_person (new n))) rows") simp_all
    next
      case (Some r)
      then show thesis using e skipped [of ?skip] changed [of r]
        by (cases "update_person (tp_id r) (imported_person env row ty) rows") simp_all
    qed
  qed
qed

lemma import_row_ok: "cipher_ok env \<Longrightarrow> rows_ok env rows \<Longrightarrow> rows_ok env (fst (import_row env new n row (rows, res)))"
proof (cases rule: import_row_cases [of env new n row rows res])
  case (changed r ty rows' res')
  assume c: "cipher_ok env" and r: "rows_ok env rows"
  show ?thesis using update_person_ok [OF r changed(2)] imported_person_sealed [OF c] changed(3) by simp
next
  case (added ty rows' res')
  assume c: "cipher_ok env" and r: "rows_ok env rows"
  show ?thesis using rows_ok_insert [OF r added(1) imported_person_sealed [OF c]] added(2) by simp
qed simp

lemma import_rows_keep:
  assumes "P rows" and "\<And>n row rows res. P rows \<Longrightarrow> P (fst (import_row env new n row (rows, res)))"
  shows "P (fst (import_rows env new nrows (rows, res)))"
  using assms(1)
proof (induction nrows arbitrary: rows res)
  case (Cons a nrows)
  obtain rows' res' where r: "import_row env new (fst a) (snd a) (rows, res) = (rows', res')"
    by (cases "import_row env new (fst a) (snd a) (rows, res)")
  then have "P rows'" using assms(2) [OF Cons.prems, of "fst a" "snd a" res] by simp
  then show ?case using Cons.IH [of rows' res'] r by (simp add: import_rows_def split_beta)
qed (simp add: import_rows_def)

lemma import_csv_people:
  obtains (unchanged) "rg_people (snd (import_csv env new s st)) = rg_people st"
  | (rows) nrows res where "rg_people (snd (import_csv env new s st)) = fst (import_rows env new nrows (rg_people st, res))"
proof (cases "length (import_lines s) < 2")
  case True
  then show thesis by (intro unchanged) (simp add: import_csv_def Let_def)
next
  case False
  then show thesis by (intro rows) (simp add: import_csv_def Let_def split_beta)
qed

lemma import_csv_ok: "cipher_ok env \<Longrightarrow> registry_ok env st \<Longrightarrow> registry_ok env (snd (import_csv env new s st))"
proof (cases rule: import_csv_people [of env new s st])
  case (rows nrows res)
  assume c: "cipher_ok env" and r: "registry_ok env st"
  show ?thesis using rows import_rows_keep [where P = "rows_ok env", OF _ import_row_ok [OF c]] r by (simp add: registry_ok_def)
qed (simp add: registry_ok_def)


subsection \<open>What an import does to the taxpayers it touches\<close>

definition bvn_gone :: "registered \<Rightarrow> bool" where
  "bvn_gone r \<longleftrightarrow> rp_bvn_enc r = None \<and> tp_bvn_index r = None"

lemma find_insert_person: "insert_person p rows = Inr rows' \<Longrightarrow> find_by tp_id k rows = Some r \<Longrightarrow> find_by tp_id k rows' = Some r"
  by (auto simp: insert_person_def find_by_append split: if_splits)

lemma find_update_person:
  assumes "update_person k f rows = Inr rows'" "\<And>r. tp_id (f r) = tp_id r" "find_by tp_id k' rows = Some r"
  shows "find_by tp_id k' rows' = Some (if k' = k then f r else r)"
  using assms find_update_first [of tp_id f k' k rows] by (auto simp: update_person_def split: option.splits if_splits)


definition sample_person :: registered where
  "sample_person = (encode_identifiers demo_env (Some ''7'') (Some ''8'') (Some ''9'') (blank_person ''t''))\<lparr>tp_first_name := Some ''Ada''\<rparr>"

definition sample_registry :: registry where
  "sample_registry = \<lparr>rg_people = [sample_person], rg_records = [], rg_audit = []\<rparr>"

definition sample_import :: string where "sample_import = ''nin,firstname'' @ [CHR 0x0A] @ ''7,Ada''"


end
