(* ===== verification/TaxNet.thy ===== *)
theory TaxNet
  imports Registry
begin

text \<open>
  The tax net, \<open>backend/src/modules/tax-net/tax-net.service.ts\<close>, and the registration of employers,
  \<open>modules/paye/paye.service.ts\<close> with \<open>paye-registration.provider.ts\<close>: who is captured, the comparative report, the
  assignment of tax numbers one by one and in bulk, the push of PAYE states by a partner. Together with the
  operations of the register they form one service over the table of taxpayers.
\<close>

subsection \<open>The report\<close>

datatype net_status = Captured | Unverified | Invisible

definition classify :: "registered \<Rightarrow> net_status" where
  "classify r = (if tx_type r = Corporate then (if truthy (rp_rc r) then Captured else Unverified)
     else if truthy (tp_tin_index r) then Captured else if truthy (tp_nin_index r) then Unverified else Invisible)"

record net_row =
  nr_id :: string
  nr_type :: taxpayer_type
  nr_state :: taxpayer_status
  nr_name :: string
  nr_rc :: "string option"
  nr_has_tin :: bool
  nr_has_nin :: bool
  nr_has_bvn :: bool
  nr_region :: "string option"
  nr_sector :: "string option"
  nr_net :: net_status
  nr_inflow :: rat
  nr_records :: nat
  nr_paye :: string
  nr_paye_number :: "string option"
  nr_gap :: bool
  nr_providers :: "string list"

text \<open>The sum is exact in the database and becomes a double here.\<close>

definition observed_inflow :: "nat option \<Rightarrow> string \<Rightarrow> scored_record list \<Rightarrow> rat" where
  "observed_inflow year tid rs = (case sql_sum (map (\<lambda>r. stored_amount (d_total_inflow r)) (filter (counted year tid) rs)) of
     None \<Rightarrow> 0 | Some x \<Rightarrow> fl x)"

definition provider_names :: "(string \<times> string) list \<Rightarrow> nat option \<Rightarrow> string \<Rightarrow> scored_record list \<Rightarrow> string list" where
  "provider_names provs year tid rs = remdups (filter (\<lambda>n. n \<noteq> []) (concat (map (\<lambda>r.
     if d_taxpayer r = Some tid \<and> (case year of None \<Rightarrow> True | Some y \<Rightarrow> d_period_year r = y)
     then (case map_of provs (d_provider r) of None \<Rightarrow> [] | Some n \<Rightarrow> [n]) else []) rs)))"

definition dash :: string where "dash = [CHR 0x2D]"

text \<open>The name of the source is a long dash when there is none; here it is \<open>dash\<close>.\<close>

definition net_name :: "registered \<Rightarrow> string" where
  "net_name r = (if tx_type r = Corporate then (case tp_business_name r of None \<Rightarrow> dash | Some n \<Rightarrow> n)
     else (let n = join '' '' (map the (filter truthy [tp_first_name r, tp_last_name r])) in if n = [] then dash else n))"

definition net_row_of :: "(string \<times> string) list \<Rightarrow> nat option \<Rightarrow> scored_record list \<Rightarrow> registered \<Rightarrow> net_row" where
  "net_row_of provs year rs r = (let inflow = observed_inflow year (tp_id r) rs;
     status = (case rp_paye_status r of None \<Rightarrow> ''UNKNOWN'' | Some s \<Rightarrow> s)
     in \<lparr>nr_id = tp_id r, nr_type = tx_type r, nr_state = rp_status r, nr_name = net_name r, nr_rc = rp_rc r,
         nr_has_tin = truthy (tp_tin_index r), nr_has_nin = truthy (tp_nin_index r), nr_has_bvn = truthy (tp_bvn_index r),
         nr_region = rp_state r, nr_sector = tp_sector r, nr_net = classify r, nr_inflow = inflow,
         nr_records = length (filter (counted year (tp_id r)) rs), nr_paye = status, nr_paye_number = rp_paye_number r,
         nr_gap = (tx_type r = Corporate \<and> 0 < inflow \<and> status \<noteq> ''REGISTERED''), nr_providers = provider_names provs year (tp_id r) rs\<rparr>)"

record net_report =
  rt_count :: "net_status \<Rightarrow> nat"
  rt_inflow :: "net_status \<Rightarrow> rat"
  rt_taxpayers :: nat
  rt_coverage :: int
  rt_gap_count :: nat
  rt_gap_inflow :: rat
  rt_rows :: "net_row list"
  rt_total :: nat
  rt_page :: nat
  rt_limit :: nat

definition net_sum :: "net_row list \<Rightarrow> rat" where
  "net_sum xs = foldl (\<lambda>s x. fadd s (nr_inflow x)) 0 xs"

definition net_report :: "(stat_field \<Rightarrow> rat) \<Rightarrow> (string \<times> string) list \<Rightarrow> net_status option \<Rightarrow> taxpayer_type option \<Rightarrow> bool \<Rightarrow>
    nat option \<Rightarrow> nat option \<Rightarrow> nat option \<Rightarrow> registry \<Rightarrow> net_report" where
  "net_report cfg provs status ty gap year page lmt st =
     (let pg = max 1 (case page of None \<Rightarrow> 1 | Some n \<Rightarrow> n);
          n = min 200 (max 1 (case lmt of None \<Rightarrow> 50 | Some k \<Rightarrow> k));
          ids = reportable_ids cfg year (rg_records st) (map person.truncate (rg_people st));
          rows = map (net_row_of provs year (rg_records st)) (filter (\<lambda>r. tp_id r \<in> set ids) (rg_people st));
          chosen = sort_key (\<lambda>x. - nr_inflow x) (filter (\<lambda>x. (case status of None \<Rightarrow> True | Some s \<Rightarrow> nr_net x = s) \<and>
            (case ty of None \<Rightarrow> True | Some t \<Rightarrow> nr_type x = t) \<and> (if gap then nr_gap x else True)) rows);
          gaps = filter nr_gap rows;
          captured = length (filter (\<lambda>x. nr_net x = Captured) rows)
      in \<lparr>rt_count = (\<lambda>s. length (filter (\<lambda>x. nr_net x = s) rows)), rt_inflow = (\<lambda>s. net_sum (filter (\<lambda>x. nr_net x = s) rows)),
          rt_taxpayers = length rows,
          rt_coverage = (if rows = [] then 0 else \<lfloor>fmul (fdiv (of_nat captured) (of_nat (length rows))) 100 + 1/2\<rfloor>),
          rt_gap_count = length gaps, rt_gap_inflow = net_sum gaps,
          rt_rows = take n (drop ((pg - 1) * n) chosen), rt_total = length chosen, rt_page = pg, rt_limit = n\<rparr>)"

subsection \<open>Assigning tax numbers\<close>

definition tin_number :: "nat \<Rightarrow> string" where
  "tin_number n = pad_zeros 9 (200000000 + n) @ ''-0001''"

text \<open>The next number is one more than the number of taxpayers that have one.\<close>

definition generate_tin :: "registered list \<Rightarrow> string" where
  "generate_tin rows = tin_number (length (filter (\<lambda>r. tp_tin_index r \<noteq> None) rows) + 1)"

definition tin_for :: "string option \<Rightarrow> registered list \<Rightarrow> string" where
  "tin_for given rows = (if truthy given \<and> trim (the given) \<noteq> [] then trim (the given) else generate_tin rows)"

definition with_tin :: "ingest_env \<Rightarrow> string \<Rightarrow> registered \<Rightarrow> registered" where
  "with_tin env tin r = r\<lparr>tp_tin_enc := encrypt_field env (Some tin), tp_tin_index := blind_index env (Some tin), rp_status := ActiveTaxpayer\<rparr>"

definition register_tin :: "ingest_env \<Rightarrow> string \<Rightarrow> string option \<Rightarrow> registry \<Rightarrow> (registry_error, string \<times> net_status, registry) outcome" where
  "register_tin env k given st = (case find_by tp_id k (rg_people st) of None \<Rightarrow> (Inl TaxpayerMissing, st)
     | Some r \<Rightarrow>
         if truthy (tp_tin_index r) then (Inl AlreadyHasTin, st)
         else (let tin = tin_for given (rg_people st) in
           if list_ex (\<lambda>s. tp_tin_index s = blind_index env (Some tin)) (rg_people st) then (Inl TinTaken, st)
           else (case update_person k (with_tin env tin) (rg_people st) of Inl e \<Rightarrow> (Inl e, st)
             | Inr rows \<Rightarrow> (Inr (tin, Captured), log_audit (RegisteredTaxNet k tin (truthy given)) (st\<lparr>rg_people := rows\<rparr>)))))"

definition record_total :: "string \<Rightarrow> scored_record list \<Rightarrow> rat" where
  "record_total tid rs = (case sql_sum (map (\<lambda>r. stored_amount (d_total_inflow r)) (filter (\<lambda>r. d_taxpayer r = Some tid) rs)) of
     None \<Rightarrow> 0 | Some x \<Rightarrow> fl x)"

definition auto_cap :: "nat option \<Rightarrow> nat" where
  "auto_cap limit = min 5000 (max 1 (case limit of None \<Rightarrow> 1000 | Some n \<Rightarrow> if 0 < n then n else 1000))"

definition tin_candidates :: "string list option \<Rightarrow> rat option \<Rightarrow> nat option \<Rightarrow> registry \<Rightarrow> string list" where
  "tin_candidates ids least limit st =
     (let gated = (case least of None \<Rightarrow> False | Some m \<Rightarrow> 0 < m);
          ks = map tp_id (filter (\<lambda>r. tx_type r = Individual \<and> tp_tin_index r = None \<and> scoped ids (tp_id r)) (rg_people st));
          taken = take (if gated then auto_cap limit * 4 else auto_cap limit) ks
      in take (auto_cap limit) (if gated then filter (\<lambda>k. the least \<le> record_total k (rg_records st)) taken else taken))"

fun register_loop :: "ingest_env \<Rightarrow> string list \<Rightarrow> (string \<times> string) list \<Rightarrow> registry \<Rightarrow> (string \<times> string) list \<times> registry" where
  "register_loop env [] got st = (got, st)"
| "register_loop env (k # ks) got st = (case register_tin env k None st of
     (Inl _, st') \<Rightarrow> register_loop env ks got st' | (Inr (tin, _), st') \<Rightarrow> register_loop env ks (got @ [(k, tin)]) st')"

definition auto_register :: "ingest_env \<Rightarrow> string list option \<Rightarrow> rat option \<Rightarrow> nat option \<Rightarrow> registry \<Rightarrow>
    (registry_error, nat \<times> (string \<times> string) list, registry) outcome" where
  "auto_register env ids least limit st = (let ks = tin_candidates ids least limit st; (got, st') = register_loop env ks [] st
     in (Inr (length ks, got), log_audit (AutoRegistered (length got)) st'))"

subsection \<open>PAYE\<close>

text \<open>A member of a pushed record: a text, a truth value or a number given by its text. Null counts as absent.\<close>

datatype paye_value = PvText string | PvBool bool | PvNumber string

type_synonym paye_row = "string \<rightharpoonup> paye_value"

fun paye_text :: "paye_value \<Rightarrow> string" where
  "paye_text (PvText s) = s" | "paye_text (PvBool b) = (if b then ''true'' else ''false'')" | "paye_text (PvNumber s) = s"

fun first_given :: "string list \<Rightarrow> paye_row \<Rightarrow> paye_value option" where
  "first_given [] row = None"
| "first_given (k # ks) row = (case row k of None \<Rightarrow> first_given ks row | Some v \<Rightarrow> Some v)"

definition paye_str :: "paye_value option \<Rightarrow> string option" where
  "paye_str v = (case v of None \<Rightarrow> None | Some w \<Rightarrow> if trim (paye_text w) = [] then None else Some (trim (paye_text w)))"

definition paye_bool :: "paye_value \<Rightarrow> bool" where
  "paye_bool v \<longleftrightarrow> v = PvBool True \<or> v = PvText ''true'' \<or> v = PvNumber ''1'' \<or> v = PvText ''1'' \<or> v = PvText ''REGISTERED''"

datatype paye_row_error = NeedsKey nat | NoMatch nat

record paye_result =
  py_matched :: nat
  py_updated :: nat
  py_unmatched :: nat
  py_errors :: "paye_row_error list"

definition paye_match :: "ingest_env \<Rightarrow> string option \<Rightarrow> string option \<Rightarrow> registered list \<Rightarrow> registered option" where
  "paye_match env rc tin rows = find (\<lambda>r. (rc \<noteq> None \<and> rp_rc r = rc) \<or> (tin \<noteq> None \<and> tp_tin_index r = blind_index env tin)) rows"

definition with_paye :: "string \<Rightarrow> string option \<Rightarrow> time \<Rightarrow> string \<Rightarrow> registered \<Rightarrow> registered" where
  "with_paye status number now source r = r\<lparr>rp_paye_status := Some status, rp_paye_number := keep_or number (rp_paye_number r),
     rp_paye_at := Some now, rp_paye_source := Some source\<rparr>"

definition paye_rc :: "paye_row \<Rightarrow> string option" where
  "paye_rc row = paye_str (first_given [''rcNumber'', ''cacRcNumber'', ''taxpayerCacRcNumber''] row)"

definition paye_tin :: "paye_row \<Rightarrow> string option" where
  "paye_tin row = paye_str (first_given [''tin'', ''taxpayerTin''] row)"

definition paye_number :: "paye_row \<Rightarrow> string option" where
  "paye_number row = paye_str (first_given [''payeRegNumber'', ''payeNumber'', ''employerRegNumber''] row)"

definition paye_registered :: "paye_row \<Rightarrow> bool" where
  "paye_registered row = (case row ''registered'' of Some v \<Rightarrow> paye_bool v | None \<Rightarrow> paye_number row \<noteq> None)"

definition paye_row_step :: "ingest_env \<Rightarrow> time \<Rightarrow> bool \<Rightarrow> nat \<Rightarrow> paye_row \<Rightarrow> registered list \<times> paye_result \<Rightarrow> registered list \<times> paye_result" where
  "paye_row_step env now dry n row acc = (case acc of (rows, res) \<Rightarrow>
     if paye_rc row = None \<and> paye_tin row = None then (rows, res\<lparr>py_unmatched := Suc (py_unmatched res), py_errors := py_errors res @ [NeedsKey n]\<rparr>)
     else (case paye_match env (paye_rc row) (paye_tin row) rows of
         None \<Rightarrow> (rows, res\<lparr>py_unmatched := Suc (py_unmatched res), py_errors := py_errors res @ [NoMatch n]\<rparr>)
       | Some r \<Rightarrow> if dry then (rows, res\<lparr>py_matched := Suc (py_matched res)\<rparr>)
           else (update_first tp_id (tp_id r) (with_paye (if paye_registered row then ''REGISTERED'' else ''NOT_REGISTERED'')
                   (paye_number row) now ''TAX_APP_SYNC'') rows,
                 res\<lparr>py_matched := Suc (py_matched res), py_updated := Suc (py_updated res)\<rparr>)))"

definition process_paye :: "ingest_env \<Rightarrow> time \<Rightarrow> bool \<Rightarrow> paye_row list option \<Rightarrow> registry \<Rightarrow> (registry_error, nat \<times> paye_result, registry) outcome" where
  "process_paye env now dry body st = (case body of None \<Rightarrow> (Inl BodyNotArray, st)
     | Some rows \<Rightarrow>
         (let (people, res) = foldl (\<lambda>acc (n, row). paye_row_step env now dry n row acc)
              (rg_people st, \<lparr>py_matched = 0, py_updated = 0, py_unmatched = 0, py_errors = []\<rparr>) (zip [1..<length rows + 1] rows);
              st' = st\<lparr>rg_people := people\<rparr>
          in (Inr (length rows, res\<lparr>py_errors := take 50 (py_errors res)\<rparr>),
              if dry then st' else log_audit (SyncedPaye (py_matched res) (py_updated res) (py_unmatched res)) st')))"

definition set_paye :: "time \<Rightarrow> string \<Rightarrow> string option \<Rightarrow> string option \<Rightarrow> registry \<Rightarrow> (registry_error, unit, registry) outcome" where
  "set_paye now k status number st = (let s = upper (case status of None \<Rightarrow> [] | Some x \<Rightarrow> x) in
     if s \<notin> set [''REGISTERED'', ''NOT_REGISTERED'', ''UNKNOWN''] then (Inl BadPayeStatus, st)
     else (case update_person k (with_paye s number now ''MANUAL'') (rg_people st) of Inl e \<Rightarrow> (Inl e, st)
       | Inr rows \<Rightarrow> (Inr (), log_audit (SetPaye k s) (st\<lparr>rg_people := rows\<rparr>))))"

text \<open>
  The registration itself is made by a provider that gets id, business name, company number and tax number
  and returns the number and whether it is official; None when it throws. The default one makes up a number.
\<close>

type_synonym paye_provider = "string \<Rightarrow> string option \<Rightarrow> string option \<Rightarrow> string option \<Rightarrow> (string \<times> bool) option"

definition mock_paye :: paye_provider where
  "mock_paye k business rc tin = Some (''PAYE-PROV-'' @ upper (take 8 (filter (\<lambda>c. c \<noteq> CHR ''-'') k)), False)"

definition register_paye :: "ingest_env \<Rightarrow> paye_provider \<Rightarrow> time \<Rightarrow> string \<Rightarrow> registry \<Rightarrow> (registry_error, string, registry) outcome" where
  "register_paye env prov now k st = (case find_by tp_id k (rg_people st) of None \<Rightarrow> (Inl TaxpayerMissing, st)
     | Some r \<Rightarrow>
         if tx_type r \<noteq> Corporate then (Inl NotCorporate, st)
         else if rp_paye_status r = Some ''REGISTERED'' then (Inl AlreadyPaye, st)
         else (case prov k (tp_business_name r) (rp_rc r) (decrypt_field env (tp_tin_enc r)) of None \<Rightarrow> (Inl ProviderFailed, st)
           | Some (number, official) \<Rightarrow>
               (case update_person k (with_paye ''REGISTERED'' (Some number) now (if official then ''TAX_APP_SYNC'' else ''MANUAL'')) (rg_people st) of
                  Inl e \<Rightarrow> (Inl e, st)
                | Inr rows \<Rightarrow> (Inr number, log_audit (RegisteredPaye k number official) (st\<lparr>rg_people := rows\<rparr>)))))"

text \<open>A null state does not satisfy the negated comparison of the query.\<close>

definition paye_candidates :: "string list option \<Rightarrow> rat option \<Rightarrow> nat option \<Rightarrow> registry \<Rightarrow> string list" where
  "paye_candidates ids least limit st =
     (let m = (case least of None \<Rightarrow> 0 | Some x \<Rightarrow> if 0 < x then x else 0);
          ks = map tp_id (filter (\<lambda>r. tx_type r = Corporate \<and> rp_paye_status r \<noteq> None \<and> rp_paye_status r \<noteq> Some ''REGISTERED'' \<and>
            scoped ids (tp_id r)) (rg_people st))
      in capped limit (filter (\<lambda>k. m < record_total k (rg_records st)) ks))"

fun paye_loop :: "ingest_env \<Rightarrow> paye_provider \<Rightarrow> time \<Rightarrow> string list \<Rightarrow> (string \<times> string) list \<times> nat \<Rightarrow> registry \<Rightarrow>
    ((string \<times> string) list \<times> nat) \<times> registry" where
  "paye_loop env prov now [] res st = (res, st)"
| "paye_loop env prov now (k # ks) res st = (case register_paye env prov now k st of
     (Inl _, st') \<Rightarrow> paye_loop env prov now ks (fst res, Suc (snd res)) st'
   | (Inr number, st') \<Rightarrow> paye_loop env prov now ks (fst res @ [(k, number)], snd res) st')"

definition auto_register_paye :: "ingest_env \<Rightarrow> paye_provider \<Rightarrow> time \<Rightarrow> string list option \<Rightarrow> rat option \<Rightarrow> nat option \<Rightarrow> registry \<Rightarrow>
    (registry_error, nat \<times> (string \<times> string) list \<times> nat, registry) outcome" where
  "auto_register_paye env prov now ids least limit st =
     (let ks = paye_candidates ids least limit st; (res, st') = paye_loop env prov now ks ([], 0) st
      in (Inr (length ks, res), log_audit (AutoRegisteredPaye (length (fst res)) (snd res) (length ks)) st'))"

subsection \<open>Operations\<close>

datatype registry_op =
    CreateTaxpayer string taxpayer_dto
  | UpdateTaxpayer string taxpayer_dto
  | ImportCsv "nat \<Rightarrow> string" string
  | ResolveOne identity_provider time string
  | ResolveBulk identity_provider time "string list option" "nat option"
  | RegisterTin string "string option"
  | AutoRegister "string list option" "rat option" "nat option"
  | PushPaye time bool "paye_row list option"
  | SetPayeState time string "string option" "string option"
  | RegisterPaye paye_provider time string
  | AutoRegisterPaye paye_provider time "string list option" "rat option" "nat option"

fun exec_registry :: "ingest_env \<Rightarrow> registry_op \<Rightarrow> registry \<Rightarrow> (registry_error, unit, registry) outcome" where
  "exec_registry env (CreateTaxpayer k d) st = forget (create_taxpayer env k d st)"
| "exec_registry env (UpdateTaxpayer k d) st = forget (update_taxpayer env k d st)"
| "exec_registry env (ImportCsv new s) st = forget (import_csv env new s st)"
| "exec_registry env (ResolveOne bridge now k) st = forget (resolve_one env bridge now k st)"
| "exec_registry env (ResolveBulk bridge now ids limit) st = forget (resolve_bulk env bridge now ids limit st)"
| "exec_registry env (RegisterTin k given) st = forget (register_tin env k given st)"
| "exec_registry env (AutoRegister ids least limit) st = forget (auto_register env ids least limit st)"
| "exec_registry env (PushPaye now dry body) st = forget (process_paye env now dry body st)"
| "exec_registry env (SetPayeState now k s number) st = forget (set_paye now k s number st)"
| "exec_registry env (RegisterPaye prov now k) st = forget (register_paye env prov now k st)"
| "exec_registry env (AutoRegisterPaye prov now ids least limit) st = forget (auto_register_paye env prov now ids least limit st)"


subsection \<open>The register stays sound\<close>

lemma with_tin_frame [simp]: "tp_id (with_tin env tin r) = tp_id r"
  by (simp add: with_tin_def)

lemma with_tin_sealed: "cipher_ok env \<Longrightarrow> sealed env r \<Longrightarrow> sealed env (with_tin env tin r)"
  by (simp add: with_tin_def sealed_def sealed_fresh)

lemma with_paye_frame [simp]: "tp_id (with_paye s n now src r) = tp_id r" "sealed env (with_paye s n now src r) = sealed env r"
    "keys_collide (with_paye s n now src r) q = keys_collide r q"
  by (simp_all add: with_paye_def sealed_def keys_collide_def)

lemma register_tin_ok: "cipher_ok env \<Longrightarrow> registry_ok env st \<Longrightarrow> registry_ok env (snd (register_tin env k given st))"
  by (auto simp: register_tin_def registry_ok_def Let_def with_tin_sealed split: option.split sum.split intro: update_person_ok)

lemma register_loop_ok: "cipher_ok env \<Longrightarrow> registry_ok env st \<Longrightarrow> registry_ok env (snd (register_loop env ks got st))"
proof (induction ks arbitrary: got st)
  case (Cons k ks)
  obtain r st' where r: "register_tin env k None st = (r, st')" by (cases "register_tin env k None st")
  then have "registry_ok env st'" using register_tin_ok [OF Cons.prems, of k None] by simp
  then show ?case using Cons.IH [OF Cons.prems(1)] r by (auto split: sum.split prod.split)
qed simp

lemma set_paye_ok: "registry_ok env st \<Longrightarrow> registry_ok env (snd (set_paye now k s n st))"
  by (auto simp: set_paye_def registry_ok_def Let_def split: sum.split intro: update_person_ok)

lemma register_paye_ok: "registry_ok env st \<Longrightarrow> registry_ok env (snd (register_paye env prov now k st))"
  by (auto simp: register_paye_def registry_ok_def split: option.split sum.split intro: update_person_ok)

lemma paye_loop_ok: "registry_ok env st \<Longrightarrow> registry_ok env (snd (paye_loop env prov now ks res st))"
proof (induction ks arbitrary: res st)
  case (Cons k ks)
  obtain r st' where r: "register_paye env prov now k st = (r, st')" by (cases "register_paye env prov now k st")
  then have "registry_ok env st'" using register_paye_ok [OF Cons.prems, of prov now k] by simp
  then show ?case using Cons.IH r by (auto split: sum.split)
qed simp

lemma paye_row_cases:
  obtains (kept) res' where "paye_row_step env now dry n row (rows, res) = (rows, res')"
  | (pushed) r s num res' where "r \<in> set rows" "paye_row_step env now dry n row (rows, res) =
      (update_first tp_id (tp_id r) (with_paye s num now ''TAX_APP_SYNC'') rows, res')" "\<not> dry"
proof -
  show thesis
  proof (cases "(paye_rc row = None \<and> paye_tin row = None) \<or> dry \<or> paye_match env (paye_rc row) (paye_tin row) rows = None")
    case True
    then have "fst (paye_row_step env now dry n row (rows, res)) = rows" by (auto simp: paye_row_step_def split: option.split)
    then show thesis using kept [of "snd (paye_row_step env now dry n row (rows, res))"] by (metis prod.collapse)
  next
    case False
    then obtain r where r: "paye_match env (paye_rc row) (paye_tin row) rows = Some r" by blast
    then have "r \<in> set rows" by (auto simp: paye_match_def dest: find_Some_pred)
    moreover have "paye_row_step env now dry n row (rows, res) =
        (update_first tp_id (tp_id r) (with_paye (if paye_registered row then ''REGISTERED'' else ''NOT_REGISTERED'')
           (paye_number row) now ''TAX_APP_SYNC'') rows,
         res\<lparr>py_matched := Suc (py_matched res), py_updated := Suc (py_updated res)\<rparr>)"
      using False r by (auto simp: paye_row_step_def)
    ultimately show thesis using False pushed by blast
  qed
qed

lemma paye_rows_keep:
  assumes "P rows" and "\<And>r s num rows. P rows \<Longrightarrow> r \<in> set rows \<Longrightarrow> P (update_first tp_id (tp_id r) (with_paye s num now ''TAX_APP_SYNC'') rows)"
  shows "P (fst (foldl (\<lambda>acc (n, row). paye_row_step env now dry n row acc) (rows, res) nrows))"
  using assms(1)
proof (induction nrows arbitrary: rows res)
  case (Cons a nrows)
  obtain rows' res' where s: "paye_row_step env now dry (fst a) (snd a) (rows, res) = (rows', res')"
    by (cases "paye_row_step env now dry (fst a) (snd a) (rows, res)")
  have "P rows'"
    by (cases rule: paye_row_cases [of env now dry "fst a" "snd a" rows res]) (use s Cons.prems assms(2) in auto)
  then show ?case using Cons.IH [of rows' res'] s by (simp add: split_beta)
qed simp

lemma process_paye_ok: "registry_ok env st \<Longrightarrow> registry_ok env (snd (process_paye env now dry body st))"
proof (cases body)
  case (Some rows)
  assume a: "registry_ok env st"
  have u: "rows_ok env (update_first tp_id (tp_id r) (with_paye s num now ''TAX_APP_SYNC'') ps)" if "rows_ok env ps" "r \<in> set ps" for r s num ps
  proof -
    have f: "find_by tp_id (tp_id r) ps = Some r" using that by (auto simp: rows_ok_def intro: find_distinct)
    show ?thesis
      by (rule rows_ok_update [OF that(1) f]) (use that in \<open>auto simp: rows_ok_def list_all_iff can_store_def list_ex_iff\<close>)
  qed
  show ?thesis using paye_rows_keep [where P = "rows_ok env", OF _ u] a Some
    by (auto simp: process_paye_def Let_def split_beta registry_ok_def)
qed (simp add: process_paye_def)

lemma exec_registry_ok: "cipher_ok env \<Longrightarrow> registry_ok env st \<Longrightarrow> registry_ok env (snd (exec_registry env op st))"
proof (cases op)
  case (AutoRegister ids least limit)
  assume "cipher_ok env" "registry_ok env st"
  then show ?thesis using AutoRegister register_loop_ok [of env st] by (simp add: auto_register_def Let_def split_beta registry_ok_def)
next
  case (AutoRegisterPaye prov now ids least limit)
  assume "registry_ok env st"
  then show ?thesis using AutoRegisterPaye paye_loop_ok [of env st] by (simp add: auto_register_paye_def Let_def split_beta registry_ok_def)
qed (simp_all add: create_ok update_ok import_csv_ok resolve_one_ok resolve_bulk_ok register_tin_ok process_paye_ok set_paye_ok register_paye_ok)

interpretation register: service "exec_registry env" "\<lambda>st. cipher_ok env \<and> registry_ok env st" for env
  by unfold_locales (simp add: exec_registry_ok)

text \<open>
  C25. Under any operations of the register, the import, the identity bridge, the tax net and the PAYE service
  the table stays sound: no two taxpayers share a NIN, BVN, TIN or company number, and every index is the
  keyed hash of the identifier that is stored sealed beside it, without one there is no index.
\<close>

theorem register_stays_sound:
  assumes "cipher_ok env" "registry_ok env st" "run_ops (exec_registry env) ops st = st'" "r \<in> set (rg_people st')" "s \<in> set (rg_people st')"
  shows "(if tp_id r = tp_id s then r = s else \<not> keys_collide r s) \<and> sealed env r"
proof -
  have "rows_ok env (rg_people st')" using register.run_inv [of env st ops] assms by (simp add: registry_ok_def)
  then show ?thesis using assms(4,5)
    by (auto simp: rows_ok_def list_all_iff can_store_def list_ex_iff distinct_map inj_on_def)
qed

theorem register_stays_sound_witness:
  "cipher_ok demo_env \<and> registry_ok demo_env sample_registry \<and>
   list_all (sealed demo_env) (rg_people (run_ops (exec_registry demo_env) [ImportCsv (\<lambda>n. ''n'') sample_import, RegisterTin ''t'' None] sample_registry))"
proof -
  have c: "cipher_ok demo_env" by (simp add: cipher_ok_def demo_env_def)
  have "rows_ok demo_env [sample_person]"
    unfolding sample_person_def rows_ok_def using c by (simp add: can_store_def sealed_def encode_identifiers_def sealed_fresh)
  then have r: "registry_ok demo_env sample_registry" by (simp add: registry_ok_def sample_registry_def)
  have "sealed demo_env x" if "x \<in> set (rg_people (run_ops (exec_registry demo_env) ops sample_registry))" for x ops
    using register_stays_sound [OF c r refl that that] by simp
  then show ?thesis using c r unfolding list_all_iff by blast
qed


subsection \<open>Automatic tax numbers\<close>

definition holders_of_tin :: "registered list \<Rightarrow> nat" where
  "holders_of_tin rows = length (filter (\<lambda>r. tp_tin_index r \<noteq> None) rows)"

definition number_held :: "ingest_env \<Rightarrow> nat \<Rightarrow> registered list \<Rightarrow> bool" where
  "number_held env m rows \<longleftrightarrow> list_ex (\<lambda>s. tp_tin_index s = blind_index env (Some (tin_number m))) rows"

definition next_number_held :: "ingest_env \<Rightarrow> registered list \<Rightarrow> bool" where
  "next_number_held env rows \<longleftrightarrow> number_held env (holders_of_tin rows + 1) rows"

lemma generate_tin_number: "generate_tin rows = tin_number (holders_of_tin rows + 1)"
  by (simp add: generate_tin_def holders_of_tin_def)

definition tin_cell :: "registered \<Rightarrow> string \<times> string option \<times> string option" where
  "tin_cell r = (tp_id r, tp_tin_enc r, tp_tin_index r)"

lemma same_cells:
  assumes "map tin_cell rows = map tin_cell rows'"
  shows "holders_of_tin rows = holders_of_tin rows'" "number_held env m rows = number_held env m rows'"
proof -
  have l: "holders_of_tin qs = length (filter (\<lambda>(k, e, i). i \<noteq> None) (map tin_cell qs))" for qs
    by (simp add: holders_of_tin_def filter_map comp_def tin_cell_def)
  have e: "number_held env m qs = list_ex (\<lambda>(k, e, i). i = blind_index env (Some (tin_number m))) (map tin_cell qs)" for qs
    by (simp add: number_held_def list_ex_iff tin_cell_def)
  show "holders_of_tin rows = holders_of_tin rows'" "number_held env m rows = number_held env m rows'"
    by (simp_all only: l e assms)
qed

lemma update_person_cells:
  "update_person k f rows = Inr rows' \<Longrightarrow> (\<And>r. tin_cell (f r) = tin_cell r) \<Longrightarrow> map tin_cell rows' = map tin_cell rows"
  by (auto simp: update_person_def map_update_first split: option.splits if_splits)

lemma with_paye_cell [simp]: "tin_cell (with_paye s n now src r) = tin_cell r"
  by (simp add: with_paye_def tin_cell_def)

lemma resolved_cell [simp]: "tin_cell (resolved_person env now mt r) = tin_cell r"
  by (simp add: resolved_person_def tin_cell_def)

lemma resolve_one_cells: "map tin_cell (rg_people (snd (resolve_one env bridge now k st))) = map tin_cell (rg_people st)"
  by (auto simp: resolve_one_def Let_def split: option.split sum.split intro: update_person_cells)

lemma resolve_loop_cells: "map tin_cell (rg_people (snd (resolve_loop env bridge now ks res st))) = map tin_cell (rg_people st)"
proof (induction ks arbitrary: res st)
  case (Cons k ks)
  obtain r st' where r: "resolve_one env bridge now k st = (r, st')" by (cases "resolve_one env bridge now k st")
  then have "map tin_cell (rg_people st') = map tin_cell (rg_people st)" using resolve_one_cells [of env bridge now k st] by simp
  then show ?case using Cons.IH r by (auto split: sum.split bool.split)
qed simp

lemma register_paye_cells: "map tin_cell (rg_people (snd (register_paye env prov now k st))) = map tin_cell (rg_people st)"
  by (auto simp: register_paye_def split: option.split sum.split intro: update_person_cells)

lemma paye_loop_cells: "map tin_cell (rg_people (snd (paye_loop env prov now ks res st))) = map tin_cell (rg_people st)"
proof (induction ks arbitrary: res st)
  case (Cons k ks)
  obtain r st' where r: "register_paye env prov now k st = (r, st')" by (cases "register_paye env prov now k st")
  then have "map tin_cell (rg_people st') = map tin_cell (rg_people st)" using register_paye_cells [of env prov now k st] by simp
  then show ?case using Cons.IH r by (auto split: sum.split)
qed simp

lemma process_paye_cells: "map tin_cell (rg_people (snd (process_paye env now dry body st))) = map tin_cell (rg_people st)"
proof (cases body)
  case (Some rows)
  have "map tin_cell (fst (foldl (\<lambda>acc (n, row). paye_row_step env now dry n row acc) (rg_people st, res) nrows)) = map tin_cell (rg_people st)" for res nrows
    by (rule paye_rows_keep [where P = "\<lambda>ps. map tin_cell ps = map tin_cell (rg_people st)"]) (simp_all add: map_update_first)
  then show ?thesis by (cases dry) (simp_all add: process_paye_def Some Let_def split_beta)
qed (simp add: process_paye_def)

text \<open>Operations that leave tax numbers alone or make them up.\<close>

fun automatic :: "registry_op \<Rightarrow> bool" where
  "automatic (RegisterTin k given) \<longleftrightarrow> \<not> truthy given \<or> trim (the given) = []"
| "automatic (CreateTaxpayer _ _) \<longleftrightarrow> False"
| "automatic (UpdateTaxpayer _ _) \<longleftrightarrow> False"
| "automatic (ImportCsv _ _) \<longleftrightarrow> False"
| "automatic _ \<longleftrightarrow> True"

lemma register_tin_stuck:
  assumes "next_number_held env (rg_people st)" "\<not> truthy given \<or> trim (the given) = []"
  shows "snd (register_tin env k given st) = st \<and> (\<forall>x. fst (register_tin env k given st) \<noteq> Inr x)"
proof -
  have "tin_for given (rg_people st) = tin_number (holders_of_tin (rg_people st) + 1)"
    using assms(2) by (auto simp: tin_for_def generate_tin_number)
  then show ?thesis using assms(1)
    by (simp add: register_tin_def Let_def next_number_held_def number_held_def split: option.split)
qed

lemma register_loop_stuck: "next_number_held env (rg_people st) \<Longrightarrow> register_loop env ks got st = (got, st)"
proof (induction ks)
  case (Cons k ks)
  obtain r st' where r: "register_tin env k None st = (r, st')" by (cases "register_tin env k None st")
  then have "st' = st" "\<forall>x. r \<noteq> Inr x" using register_tin_stuck [OF Cons.prems, of None k] by simp_all
  then show ?case using Cons r by (cases r) auto
qed simp

lemma automatic_cells:
  assumes "next_number_held env (rg_people st)" "automatic op"
  shows "map tin_cell (rg_people (snd (exec_registry env op st))) = map tin_cell (rg_people st)"
proof (cases op)
  case (RegisterTin k given)
  then show ?thesis using register_tin_stuck [OF assms(1), of given k] assms(2) by simp
next
  case (AutoRegister ids least limit)
  then show ?thesis by (simp add: auto_register_def Let_def split_beta register_loop_stuck [OF assms(1)])
next
  case (ResolveBulk bridge now ids limit)
  then show ?thesis using resolve_loop_cells by (simp add: resolve_bulk_def Let_def split_beta)
next
  case (AutoRegisterPaye prov now ids least limit)
  then show ?thesis using paye_loop_cells by (simp add: auto_register_paye_def Let_def split_beta)
next
  case (SetPayeState now k s n)
  then show ?thesis by (auto simp: set_paye_def Let_def split: sum.split intro: update_person_cells)
qed (use assms(2) in \<open>simp_all add: resolve_one_cells register_paye_cells process_paye_cells\<close>)

text \<open>
  C26. Automatic tax numbers count the taxpayers that have one. Once the number after the count belongs to
  somebody, which a changed or erased tax number brings about, no automatic registration, single or in
  bulk, gives anybody a number any more, however often it is tried: only a number typed in by hand or a
  change of another taxpayer's number ends this.
\<close>

theorem auto_registration_stuck:
  assumes "next_number_held env (rg_people st)" "list_all automatic ops"
  shows "map tin_cell (rg_people (run_ops (exec_registry env) ops st)) = map tin_cell (rg_people st)"
  using assms
proof (induction ops arbitrary: st)
  case (Cons op ops)
  let ?st = "snd (exec_registry env op st)"
  have c: "map tin_cell (rg_people ?st) = map tin_cell (rg_people st)" using automatic_cells Cons.prems by simp
  then have "next_number_held env (rg_people ?st)" using Cons.prems(1) by (simp add: next_number_held_def same_cells [OF c])
  then show ?case using Cons c by simp
qed simp

definition three_people :: registry where
  "three_people = \<lparr>rg_people = map blank_person [''a'', ''b'', ''c''], rg_records = [], rg_audit = []\<rparr>"

definition no_change :: taxpayer_dto where
  "no_change = \<lparr>td_type = None, td_status = None, td_nin = None, td_bvn = None, td_tin = None, td_rc = None, td_first = None, td_last = None,
     td_middle = None, td_business = None, td_phone = None, td_email = None, td_address = None, td_state = None, td_limited = None\<rparr>"

lemma parse_pad_zeros: "parse_dec (pad_zeros w n) = n"
  by (simp add: pad_zeros_def Let_def parse_dec_zeros)

lemma tin_number_inject [simp]: "tin_number m = tin_number n \<longleftrightarrow> m = n"
proof
  assume "tin_number m = tin_number n"
  then have "pad_zeros 9 (200000000 + m) = pad_zeros 9 (200000000 + n)" by (simp add: tin_number_def)
  then show "m = n" by (metis parse_pad_zeros add_left_cancel)
qed simp

lemma tin_number_plain: "tin_number n \<noteq> []" "trim (tin_number n) = tin_number n"
proof -
  have d: "\<not> is_ws c" if "c \<in> set (dec_str m)" for c m
    using that all_digits_dec_str [of m] by (auto simp: all_digits_def list_all_iff digit_not_ws)
  have z: "\<not> is_ws (CHR ''0'')" "\<not> is_ws (CHR ''1'')" "\<not> is_ws (CHR ''-'')" by (simp_all add: is_ws_def ws_chars_def)
  have "\<forall>c \<in> set (tin_number n). \<not> is_ws c" using d z by (auto simp: tin_number_def pad_zeros_def Let_def)
  then show "trim (tin_number n) = tin_number n" by (rule trim_no_ws)
qed (simp add: tin_number_def)

lemma demo_index: "blind_index demo_env (Some (tin_number n)) = Some (rev (tin_number n))"
    "encrypt_field demo_env (Some (tin_number n)) = Some (tin_number n)"
    "blind_index demo_env None = None" "encrypt_field demo_env None = None"
  by (simp_all add: blind_index_def encrypt_field_def demo_env_def tin_number_plain)

text \<open>Two are registered, the number of the first is cleared: then nobody can be registered automatically.\<close>

definition stuck_registry :: registry where
  "stuck_registry = run_ops (exec_registry demo_env)
     [RegisterTin ''a'' None, RegisterTin ''b'' None, UpdateTaxpayer ''a'' (no_change\<lparr>td_tin := Some None\<rparr>)] three_people"

theorem auto_registration_stuck_witness:
  "map (\<lambda>r. tp_tin_index r \<noteq> None) (rg_people stuck_registry) = [False, True, False] \<and>
   map tin_cell (rg_people (run_ops (exec_registry demo_env) [AutoRegister None None None, RegisterTin ''c'' None] stuck_registry)) =
     map tin_cell (rg_people stuck_registry)"
proof -
  have "rg_people stuck_registry = [blank_person ''a'', with_tin demo_env (tin_number 2) (blank_person ''b''), blank_person ''c'']"
    by (simp add: stuck_registry_def three_people_def register_tin_def tin_for_def generate_tin_number holders_of_tin_def Let_def
      blank_person_def demo_index update_person_def can_store_def keys_collide_def same_key_def with_tin_def log_audit_def
      update_taxpayer_def no_change_def changed_person_def derive_llc_def keep_or_def is_llc_name_def)
  then have "map (\<lambda>r. tp_tin_index r \<noteq> None) (rg_people stuck_registry) = [False, True, False]"
      "next_number_held demo_env (rg_people stuck_registry)"
    by (simp_all add: blank_person_def with_tin_def demo_index next_number_held_def holders_of_tin_def number_held_def numeral_2_eq_2)
  then show ?thesis using auto_registration_stuck [of demo_env stuck_registry "[AutoRegister None None None, RegisterTin ''c'' None]"]
    by simp
qed


subsection \<open>When automatic registration works\<close>

text \<open>No number above the count is held, and different numbers have different indexes.\<close>

definition numbers_free :: "ingest_env \<Rightarrow> registered list \<Rightarrow> bool" where
  "numbers_free env rows \<longleftrightarrow> (\<forall>m. holders_of_tin rows < m \<longrightarrow> \<not> number_held env m rows)"

definition numbers_apart :: "ingest_env \<Rightarrow> bool" where
  "numbers_apart env \<longleftrightarrow> (\<forall>m n. i_hmac env (tin_number m) = i_hmac env (tin_number n) \<longrightarrow> m = n)"

lemma tin_number_index: "blind_index env (Some (tin_number n)) = Some (i_hmac env (tin_number n))"
  by (simp add: blind_index_def tin_number_plain)

lemma registry_people: "rg_people (st\<lparr>rg_people := rows\<rparr>) = rows"
  by simp

lemma register_next:
  assumes "cipher_ok env" "registry_ok env st" "numbers_free env (rg_people st)" "numbers_apart env"
    and r: "find_by tp_id k (rg_people st) = Some r" "tp_tin_index r = None"
  obtains st' where "register_tin env k None st = (Inr (tin_number (holders_of_tin (rg_people st) + 1), Captured), st')"
    "holders_of_tin (rg_people st') = holders_of_tin (rg_people st) + 1" "numbers_free env (rg_people st')"
    "\<And>k' q. k' \<noteq> k \<Longrightarrow> find_by tp_id k' (rg_people st') = find_by tp_id k' (rg_people st)"
proof -
  let ?rows = "rg_people st" and ?n = "holders_of_tin (rg_people st) + 1"
  let ?f = "with_tin env (tin_number ?n)"
  have free: "\<not> list_ex (\<lambda>s. tp_tin_index s = blind_index env (Some (tin_number ?n))) ?rows"
    using assms(3) by (simp add: numbers_free_def number_held_def)
  have ok: "rows_ok env ?rows" using assms(2) by (simp add: registry_ok_def)
  then have "can_store r ?rows" using r(1) by (auto simp: rows_ok_def list_all_iff dest: find_by_Some)
  then have "can_store (?f r) ?rows" using free
    by (auto simp: can_store_def list_ex_iff keys_collide_def same_key_def with_tin_def)
  then have reg: "register_tin env k None st =
      (Inr (tin_number ?n, Captured), log_audit (RegisteredTaxNet k (tin_number ?n) False) (st\<lparr>rg_people := update_first tp_id k ?f ?rows\<rparr>))"
    using r free by (simp add: register_tin_def tin_for_def generate_tin_number Let_def update_person_def)
  obtain xs ys where s: "?rows = xs @ r # ys" "update_first tp_id k ?f ?rows = xs @ ?f r # ys" "tp_id r = k"
    using r(1) by (rule update_first_split)
  have h: "holders_of_tin (xs @ ?f r # ys) = ?n" using s(1) r(2)
    by (simp add: holders_of_tin_def with_tin_def tin_number_index)
  have "\<not> number_held env m (xs @ ?f r # ys)" if "?n < m" for m
  proof -
    have "\<not> number_held env m ?rows" using assms(3) that by (simp add: numbers_free_def)
    moreover have "tp_tin_index (?f r) \<noteq> blind_index env (Some (tin_number m))"
      using assms(4) that by (auto simp: with_tin_def tin_number_index numbers_apart_def)
    ultimately show ?thesis unfolding s(1) by (simp add: number_held_def)
  qed
  then have f: "numbers_free env (xs @ ?f r # ys)" unfolding numbers_free_def h by blast
  show thesis
  proof (rule that [OF reg])
    show "holders_of_tin (rg_people (log_audit (RegisteredTaxNet k (tin_number ?n) False) (st\<lparr>rg_people := update_first tp_id k ?f ?rows\<rparr>))) = ?n"
      using h by (simp only: log_audit_frame registry_people s(2))
    show "numbers_free env (rg_people (log_audit (RegisteredTaxNet k (tin_number ?n) False) (st\<lparr>rg_people := update_first tp_id k ?f ?rows\<rparr>)))"
      using f by (simp only: log_audit_frame registry_people s(2))
  qed (simp add: find_update_first)
qed

lemma register_loop_numbers:
  assumes "cipher_ok env" "registry_ok env st" "numbers_free env (rg_people st)" "numbers_apart env" "distinct ks"
    and "list_all (\<lambda>k. case find_by tp_id k (rg_people st) of None \<Rightarrow> False | Some r \<Rightarrow> tp_tin_index r = None) ks"
  shows "fst (register_loop env ks got st) =
    got @ zip ks (map (\<lambda>i. tin_number (holders_of_tin (rg_people st) + 1 + i)) [0..<length ks])"
  using assms(2,3,5,6)
proof (induction ks arbitrary: got st)
  case (Cons k ks)
  obtain r where r: "find_by tp_id k (rg_people st) = Some r" "tp_tin_index r = None" using Cons.prems(4) by (auto split: option.splits)
  obtain st' where st': "register_tin env k None st = (Inr (tin_number (holders_of_tin (rg_people st) + 1), Captured), st')"
    "holders_of_tin (rg_people st') = holders_of_tin (rg_people st) + 1" "numbers_free env (rg_people st')"
    "\<And>k' q. k' \<noteq> k \<Longrightarrow> find_by tp_id k' (rg_people st') = find_by tp_id k' (rg_people st)"
    using register_next [OF assms(1) Cons.prems(1,2) assms(4) r] by blast
  have ok: "registry_ok env st'" using register_tin_ok [OF assms(1) Cons.prems(1), of k None] st'(1) by simp
  have others: "list_all (\<lambda>k. case find_by tp_id k (rg_people st') of None \<Rightarrow> False | Some r \<Rightarrow> tp_tin_index r = None) ks"
  proof -
    have "find_by tp_id j (rg_people st') = find_by tp_id j (rg_people st)" if "j \<in> set ks" for j
      by (rule st'(4)) (use that Cons.prems(3) in auto)
    then show ?thesis using Cons.prems(4) by (simp add: list_all_iff)
  qed
  have m: "map f [0..<Suc n] = f 0 # map (\<lambda>i. f (Suc i)) [0..<n]" for f :: "nat \<Rightarrow> string" and n
    by (simp add: upt_conv_Cons map_Suc_upt [symmetric] comp_def del: upt_Suc)
  show ?case using Cons.IH [OF ok st'(3) _ others, of "got @ [(k, tin_number (holders_of_tin (rg_people st) + 1))]"] Cons.prems(3)
    by (simp add: st'(1,2) m del: upt_Suc)
qed simp

text \<open>
  As long as no number above the count is in use, a run of the automatic registration gives every
  candidate a tax number of its own: consecutive numbers in the order of the table, none refused, and the
  reply lists exactly these.
\<close>

theorem auto_registration_numbers:
  assumes "cipher_ok env" "registry_ok env st" "numbers_free env (rg_people st)" "numbers_apart env"
    and "ks = tin_candidates ids least limit st"
  shows "fst (auto_register env ids least limit st) =
    Inr (length ks, zip ks (map (\<lambda>i. tin_number (holders_of_tin (rg_people st) + 1 + i)) [0..<length ks]))"
proof -
  let ?rows = "filter (\<lambda>r. tx_type r = Individual \<and> tp_tin_index r = None \<and> scoped ids (tp_id r)) (rg_people st)"
  have d: "distinct (map tp_id (rg_people st))" using assms(2) by (simp add: registry_ok_def rows_ok_def)
  then have dk: "distinct (map tp_id ?rows)" by (simp add: distinct_map_filter)
  have sub: "set ks \<subseteq> set (map tp_id ?rows)" and "distinct ks"
    using dk unfolding assms(5) tin_candidates_def Let_def by (auto split: if_splits dest!: in_set_takeD)
  moreover have "list_all (\<lambda>k. case find_by tp_id k (rg_people st) of None \<Rightarrow> False | Some r \<Rightarrow> tp_tin_index r = None) ks"
    using sub find_distinct [OF d] by (auto simp: list_all_iff subset_iff)
  ultimately show ?thesis using register_loop_numbers [OF assms(1-4), of ks "[]"]
    by (simp add: auto_register_def Let_def split_beta flip: assms(5))
qed

theorem auto_registration_numbers_witness:
  "fst (auto_register demo_env None None None three_people) =
    Inr (3, [(''a'', tin_number 1), (''b'', tin_number 2), (''c'', tin_number 3)])"
proof -
  have c: "cipher_ok demo_env" by (simp add: cipher_ok_def demo_env_def)
  have r: "registry_ok demo_env three_people"
    by (simp add: registry_ok_def three_people_def rows_ok_def can_store_def keys_collide_def same_key_def blank_person_def sealed_def)
  have h: "holders_of_tin (rg_people three_people) = 0" by (simp add: holders_of_tin_def three_people_def blank_person_def)
  have f: "numbers_free demo_env (rg_people three_people)"
    by (simp add: numbers_free_def number_held_def three_people_def blank_person_def tin_number_index)
  have a: "numbers_apart demo_env" by (simp add: numbers_apart_def demo_env_def)
  have k: "tin_candidates None None None three_people = [''a'', ''b'', ''c'']"
    by (simp add: tin_candidates_def three_people_def blank_person_def scoped_def auto_cap_def)
  show ?thesis using auto_registration_numbers [OF c r f a refl, of None None None] by (simp add: k h upt_rec eval_nat_numeral)
qed

subsection \<open>Employers\<close>

text \<open>A partner's push accounts for every row, and a dry run changes nothing.\<close>

lemma paye_row_counts:
  "paye_row_step env now dry n row (rows, res) = (rows', res') \<Longrightarrow>
   py_matched res' + py_unmatched res' = Suc (py_matched res + py_unmatched res) \<and>
   py_updated res' + (if dry then 0 else py_matched res) = py_updated res + (if dry then 0 else py_matched res')"
  by (auto simp: paye_row_step_def split: option.splits if_splits)

lemma paye_counts:
  "foldl (\<lambda>acc (n, row). paye_row_step env now dry n row acc) (rows, res) nrows = (rows', res') \<Longrightarrow>
   py_matched res' + py_unmatched res' = length nrows + py_matched res + py_unmatched res \<and>
   py_updated res' + (if dry then 0 else py_matched res) = py_updated res + (if dry then 0 else py_matched res')"
proof (induction nrows arbitrary: rows res)
  case (Cons a nrows)
  obtain rows1 res1 where s: "paye_row_step env now dry (fst a) (snd a) (rows, res) = (rows1, res1)"
    by (cases "paye_row_step env now dry (fst a) (snd a) (rows, res)")
  show ?case using Cons.IH [of rows1 res1] Cons.prems s paye_row_counts [OF s] by (cases dry) (simp_all add: split_beta)
qed simp

lemma push_accounts_for_rows:
  assumes "process_paye env now dry (Some rows) st = (Inr (n, res), st')"
  shows "n = length rows \<and> py_matched res + py_unmatched res = n \<and> py_updated res = (if dry then 0 else py_matched res)"
proof -
  let ?start = "\<lparr>py_matched = 0, py_updated = 0, py_unmatched = 0, py_errors = []\<rparr>"
  obtain ps r where f: "foldl (\<lambda>acc (n, row). paye_row_step env now dry n row acc) (rg_people st, ?start) (zip [1..<length rows + 1] rows) = (ps, r)"
    by (cases "foldl (\<lambda>acc (n, row). paye_row_step env now dry n row acc) (rg_people st, ?start) (zip [1..<length rows + 1] rows)")
  have "n = length rows" "res = r\<lparr>py_errors := take 50 (py_errors r)\<rparr>" using assms unfolding process_paye_def option.case f by (auto simp: Let_def)
  then show ?thesis using paye_counts [OF f] by (cases dry) (auto simp del: upt_Suc)
qed

lemma dry_push_changes_nothing: "snd (process_paye env now True body st) = st"
proof (cases body)
  case (Some rows)
  have "fst (foldl (\<lambda>acc (n, row). paye_row_step env now True n row acc) (ps, res) nrows) = ps" for ps res nrows
  proof (induction nrows arbitrary: res)
    case (Cons a nrows)
    obtain res1 where "paye_row_step env now True (fst a) (snd a) (ps, res) = (ps, res1)"
      by (cases rule: paye_row_cases [of env now True "fst a" "snd a" ps res]) auto
    then show ?case using Cons.IH [of res1] by (simp add: split_beta)
  qed simp
  then show ?thesis by (simp add: process_paye_def Some Let_def split_beta)
qed (simp add: process_paye_def)

text \<open>
  A company without a company number is told to be captured when it gets a tax number, but stays unverified
  for the report, which looks at the company number alone.
\<close>

lemma company_stays_unverified:
  assumes "find_by tp_id k (rg_people st) = Some r" "tx_type r = Corporate" "\<not> truthy (rp_rc r)"
    and "register_tin env k given st = (Inr (tin, net), st')"
  shows "net = Captured \<and> (\<exists>r'. find_by tp_id k (rg_people st') = Some r' \<and> classify r' = Unverified)"
proof -
  obtain rows where u: "update_person k (with_tin env (tin_for given (rg_people st))) (rg_people st) = Inr rows" "rg_people st' = rows" "net = Captured"
    using assms(1,4) by (auto simp: register_tin_def Let_def split: if_splits sum.splits)
  have "find_by tp_id k rows = Some (with_tin env (tin_for given (rg_people st)) r)"
    using find_update_person [OF u(1) _ assms(1)] by simp
  then show ?thesis using u assms(2,3) by (simp add: classify_def with_tin_def)
qed

end
