(* ===== verification/ByteText.thy ===== *)
theory ByteText
  imports Prelude
begin

text \<open>
  Bytes as text, as Node's \<open>Buffer\<close> has it for the services that store ciphertext and keys
  (\<open>backend/src/common/services/crypto.service.ts\<close>, \<open>key-provider.ts\<close>, \<open>kms.ts\<close>): Base64 in both directions and
  the UTF-8 form of a text. A byte is a character with its code. Reading Base64 skips the characters that
  are no digits and stops at the first equals sign; both alphabets are read, the classic one is written.
\<close>

subsection \<open>Base64\<close>

definition b64_char :: "nat \<Rightarrow> char" where
  "b64_char n = char_of (if n < 26 then n + 65 else if n < 52 then n + 71 else if n < 62 then n - 4 else if n = 62 then 43 else 47)"

definition b64_value :: "char \<Rightarrow> nat option" where
  "b64_value c = (let n = (of_char c :: nat) in
     if 65 \<le> n \<and> n \<le> 90 then Some (n - 65) else if 97 \<le> n \<and> n \<le> 122 then Some (n - 71)
     else if 48 \<le> n \<and> n \<le> 57 then Some (n + 4) else if n = 43 \<or> n = 45 then Some 62 else if n = 47 \<or> n = 95 then Some 63 else None)"

text \<open>Groups of three bytes are written with four digits of six bits; what is left over is padded.\<close>

fun b64_groups :: "nat list \<Rightarrow> string" where
  "b64_groups [] = []"
| "b64_groups [x] = [b64_char (x div 4), b64_char (x mod 4 * 16), CHR ''='', CHR ''='']"
| "b64_groups [x, y] = [b64_char (x div 4), b64_char (x mod 4 * 16 + y div 16), b64_char (y mod 16 * 4), CHR ''='']"
| "b64_groups (x # y # z # bs) =
     [b64_char (x div 4), b64_char (x mod 4 * 16 + y div 16), b64_char (y mod 16 * 4 + z div 64), b64_char (z mod 64)] @ b64_groups bs"

definition to_base64 :: "string \<Rightarrow> string" where
  "to_base64 s = b64_groups (map of_char s)"

fun b64_bytes :: "nat list \<Rightarrow> nat list" where
  "b64_bytes (a # b # c # d # r) = [a * 4 + b div 16, b mod 16 * 16 + c div 4, c mod 4 * 64 + d] @ b64_bytes r"
| "b64_bytes [a, b, c] = [a * 4 + b div 16, b mod 16 * 16 + c div 4]"
| "b64_bytes [a, b] = [a * 4 + b div 16]"
| "b64_bytes _ = []"

definition from_base64 :: "string \<Rightarrow> string" where
  "from_base64 s = map char_of (b64_bytes (map (the \<circ> b64_value) (filter (\<lambda>c. b64_value c \<noteq> None) (takeWhile (\<lambda>c. c \<noteq> CHR ''='') s))))"

lemma b64_digit:
  assumes "n < 64"
  shows "b64_value (b64_char n) = Some n" "b64_char n \<noteq> CHR ''=''" "b64_char n \<noteq> CHR ''.''"
proof -
  have m: "of_char (char_of k :: char) = k" if "k < 256" for k :: nat using that by simp
  have v: "of_char (b64_char n) = (if n < 26 then n + 65 else if n < 52 then n + 71 else if n < 62 then n - 4 else if n = 62 then 43 else 47)"
    unfolding b64_char_def by (rule m) (use assms in auto)
  show "b64_value (b64_char n) = Some n" unfolding b64_value_def v Let_def using assms by auto
  have "of_char (b64_char n) \<noteq> (61::nat)" "of_char (b64_char n) \<noteq> (46::nat)" unfolding v using assms by auto
  then show "b64_char n \<noteq> CHR ''=''" "b64_char n \<noteq> CHR ''.''" by auto
qed

definition b64_read :: "string \<Rightarrow> nat list" where
  "b64_read s = map (the \<circ> b64_value) (filter (\<lambda>c. b64_value c \<noteq> None) (takeWhile (\<lambda>c. c \<noteq> CHR ''='') s))"

lemma b64_read_digit [simp]: "n < 64 \<Longrightarrow> b64_read (b64_char n # s) = n # b64_read s"
  by (simp add: b64_read_def b64_digit)

lemma b64_read_end [simp]: "b64_read (CHR ''='' # s) = []" "b64_read [] = []"
  by (simp_all add: b64_read_def)

lemma b64_read_groups:
  "\<forall>b \<in> set bs. b < 256 \<Longrightarrow> b64_bytes (b64_read (b64_groups bs)) = bs"
proof (induction bs rule: b64_groups.induct)
  case (2 x)
  then have "x div 4 < 64" "x mod 4 * 16 < 64" by auto
  then show ?case by simp
next
  case (3 x y)
  then have "x div 4 < 64" "x mod 4 * 16 + y div 16 < 64" "y mod 16 * 4 < 64" by auto
  moreover have "x div 4 * 4 + (x mod 4 * 16 + y div 16) div 16 = x" "(x mod 4 * 16 + y div 16) mod 16 * 16 + y mod 16 * 4 div 4 = y"
    using 3 by auto
  ultimately show ?case by simp
next
  case (4 x y z bs)
  then have d: "x div 4 < 64" "x mod 4 * 16 + y div 16 < 64" "y mod 16 * 4 + z div 64 < 64" "z mod 64 < 64" by auto
  have "x div 4 * 4 + (x mod 4 * 16 + y div 16) div 16 = x" using 4 by auto
  moreover have "(x mod 4 * 16 + y div 16) mod 16 * 16 + (y mod 16 * 4 + z div 64) div 4 = y" using 4 by auto
  moreover have "(y mod 16 * 4 + z div 64) mod 4 * 64 + z mod 64 = z" using 4 by auto
  ultimately show ?case using 4 d by simp
qed simp

lemma base64_roundtrip [simp]: "from_base64 (to_base64 s) = s"
proof -
  have "\<forall>b \<in> set (map of_char s). b < (256::nat)" by auto
  then have "b64_bytes (b64_read (b64_groups (map of_char s))) = map of_char s" by (rule b64_read_groups)
  then show ?thesis unfolding from_base64_def to_base64_def b64_read_def [symmetric] by (simp add: comp_def)
qed

lemma b64_groups_no_dot: "\<forall>b \<in> set bs. b < 256 \<Longrightarrow> CHR ''.'' \<notin> set (b64_groups bs)"
proof (induction bs rule: b64_groups.induct)
  case (2 x)
  then have "x div 4 < 64" "x mod 4 * 16 < 64" by auto
  then show ?case using b64_digit(3) [THEN not_sym] by simp
next
  case (3 x y)
  then have "x div 4 < 64" "x mod 4 * 16 + y div 16 < 64" "y mod 16 * 4 < 64" by auto
  then show ?case using b64_digit(3) [THEN not_sym] by simp
next
  case (4 x y z bs)
  then have "x div 4 < 64" "x mod 4 * 16 + y div 16 < 64" "y mod 16 * 4 + z div 64 < 64" "z mod 64 < 64" by auto
  then show ?case using 4 b64_digit(3) [THEN not_sym] by simp
qed simp

lemma base64_no_dot [simp]: "CHR ''.'' \<notin> set (to_base64 s)"
  unfolding to_base64_def by (rule b64_groups_no_dot) auto

subsection \<open>UTF-8\<close>

text \<open>
  The texts of this development are those of Latin-1, whose characters take one or two bytes. Bytes that
  form no such character are read as the substitute, which stands for every character beyond Latin-1.
\<close>

definition substitute :: char where "substitute = CHR 0x1A"

definition utf8_bytes :: "char \<Rightarrow> string" where
  "utf8_bytes c = (let n = (of_char c :: nat) in if n < 128 then [c] else [char_of (192 + n div 64), char_of (128 + n mod 64)])"

definition utf8_encode :: "string \<Rightarrow> string" where
  "utf8_encode s = concat (map utf8_bytes s)"

fun utf8_decode :: "string \<Rightarrow> string" where
  "utf8_decode [] = []"
| "utf8_decode [c] = (if (of_char c :: nat) < 128 then [c] else [substitute])"
| "utf8_decode (c # d # s) = (if (of_char c :: nat) < 128 then c # utf8_decode (d # s)
     else if (of_char c = (194::nat) \<or> of_char c = (195::nat)) \<and> 128 \<le> (of_char d :: nat) \<and> (of_char d :: nat) < 192
     then char_of (of_char c mod 4 * 64 + (of_char d - 128) :: nat) # utf8_decode s
     else substitute # utf8_decode (d # s))"

lemma utf8_decode_plain: "(of_char c :: nat) < 128 \<Longrightarrow> utf8_decode (c # s) = c # utf8_decode s"
  by (cases s) auto

lemma utf8_roundtrip [simp]: "utf8_decode (utf8_encode s) = s"
proof (induction s)
  case (Cons c s)
  let ?n = "of_char c :: nat"
  show ?case
  proof (cases "?n < 128")
    case True
    then show ?thesis using Cons by (simp add: utf8_encode_def utf8_bytes_def utf8_decode_plain)
  next
    case False
    have lt: "?n < 256" by simp
    have m: "of_char (char_of k :: char) = k" if "k < 256" for k :: nat using that by simp
    have a: "of_char (char_of (192 + ?n div 64) :: char) = 192 + ?n div 64" by (rule m) (use lt in linarith)
    have b: "of_char (char_of (128 + ?n mod 64) :: char) = 128 + ?n mod 64" by (rule m) (use mod_less_divisor [of 64 ?n] in linarith)
    have d: "?n div 64 = 2 \<or> ?n div 64 = 3" using False lt by linarith
    then have q: "(192 + ?n div 64) mod 4 * 64 + (128 + ?n mod 64 - 128) = ?n" using div_mult_mod_eq [of ?n 64] by (elim disjE) simp_all
    have r: "192 + ?n div 64 = 194 \<or> 192 + ?n div 64 = 195" "\<not> 192 + ?n div 64 < 128" "128 \<le> 128 + ?n mod 64" "128 + ?n mod 64 < 192"
      using d mod_less_divisor [of 64 ?n] by linarith+
    have "utf8_decode (char_of (192 + ?n div 64) # char_of (128 + ?n mod 64) # utf8_encode s) = char_of ?n # utf8_decode (utf8_encode s)"
      unfolding utf8_decode.simps a b q using r by (simp only: if_True if_False simp_thms)
    then show ?thesis using Cons False by (simp add: utf8_encode_def utf8_bytes_def Let_def)
  qed
qed (simp add: utf8_encode_def)

lemma utf8_ascii: "list_all (\<lambda>c. (of_char c :: nat) < 128) s \<Longrightarrow> utf8_encode s = s"
  by (induction s) (auto simp: utf8_encode_def utf8_bytes_def)

end
