(* ===== verification/Keys.thy ===== *)
theory Keys
  imports TaxNet ByteText
begin

text \<open>
  The keys of the stored identifiers: \<open>backend/src/common/services/key-provider.ts\<close> (the ring of keys, from the
  environment or unwrapped by a key service), \<open>kms.ts\<close> (the local key service), \<open>crypto.service.ts\<close> (the sealed
  form of a value, its reading under any key of the ring, the change to the active key, the age of the keys)
  and the migration \<open>reencryptPii\<close> of \<open>modules/governance/governance.service.ts\<close>. AES-GCM, the keyed hash and
  the plain hash are parameters, and so are the random nonces.
\<close>

subsection \<open>State\<close>

text \<open>The creation time of a key is None when its date is not readable.\<close>

record managed_key =
  mk_id :: string
  mk_key :: string
  mk_created :: "time option"

record key_ring =
  kr_keys :: "managed_key list"
  kr_active :: string

record primitives =
  pr_seal :: "string \<Rightarrow> string \<Rightarrow> string \<Rightarrow> string \<times> string"
  pr_open :: "string \<Rightarrow> string \<Rightarrow> string \<Rightarrow> string \<Rightarrow> string option"
  pr_hmac :: "string \<Rightarrow> string \<Rightarrow> string"
  pr_sha :: "string \<Rightarrow> string"

record key_env =
  ke_vars :: "string \<rightharpoonup> string"
  ke_date :: "string \<Rightarrow> time option"
  ke_start :: time

datatype key_error =
    KeyRequired | EnvironmentNotLoaded string | BadKeyLength string | NoActiveKey | NoWrappedKey | UnknownKms
  | KmsNotWired string | NoLocalKek | BadKekLength | MalformedWrap | UnwrapRefused | IndexKeyRequired | BadIndexKey

subsection \<open>The ring of keys\<close>

text \<open>An empty variable counts as absent.\<close>

definition env_var :: "key_env \<Rightarrow> string \<Rightarrow> string option" where
  "env_var env v = (if truthy (ke_vars env v) then ke_vars env v else None)"

definition in_production :: "key_env \<Rightarrow> bool" where
  "in_production env \<longleftrightarrow> ke_vars env ''NODE_ENV'' = Some ''production''"

definition found_keys :: "key_env \<Rightarrow> string \<Rightarrow> (string \<times> string) list" where
  "found_keys env base = filter (\<lambda>(i, v). env_var env v \<noteq> None)
     ((''1'', base) # map (\<lambda>n. (dec_str n, base @ ''_'' @ dec_str n)) [2..<21])"

definition created_at :: "key_env \<Rightarrow> string \<Rightarrow> time option" where
  "created_at env v = (case env_var env (v @ ''_CREATED'') of None \<Rightarrow> Some (ke_start env) | Some s \<Rightarrow> ke_date env s)"

definition highest_id :: "string list \<Rightarrow> string" where
  "highest_id ids = hd (sort_key (\<lambda>i. - int (parse_dec i)) ids)"

definition pick_active :: "string option \<Rightarrow> string list \<Rightarrow> string" where
  "pick_active wanted ids = (case wanted of Some i \<Rightarrow> if i \<in> set ids then i else highest_id ids | None \<Rightarrow> highest_id ids)"

definition environment_loaded :: "key_env \<Rightarrow> string \<Rightarrow> key_error + string" where
  "environment_loaded env v = (case env_var env ''JWT_SECRET'' of None \<Rightarrow> Inl (EnvironmentNotLoaded v) | Some s \<Rightarrow> Inr s)"

fun load_keys :: "key_env \<Rightarrow> (string \<times> string) list \<Rightarrow> key_error + managed_key list" where
  "load_keys env [] = Inr []"
| "load_keys env ((i, v) # fs) = (let key = from_base64 (the (env_var env v)) in
     if length key \<noteq> 32 then Inl (BadKeyLength v)
     else (case load_keys env fs of Inl e \<Rightarrow> Inl e | Inr ks \<Rightarrow> Inr (\<lparr>mk_id = i, mk_key = key, mk_created = created_at env v\<rparr> # ks)))"

definition env_ring :: "primitives \<Rightarrow> key_env \<Rightarrow> key_error + key_ring" where
  "env_ring pr env = (let found = found_keys env ''PII_ENC_KEY'' in
     if found = [] then
       (if in_production env then Inl KeyRequired
        else (case environment_loaded env ''PII_ENC_KEY'' of Inl e \<Rightarrow> Inl e
          | Inr s \<Rightarrow> Inr \<lparr>kr_keys = [\<lparr>mk_id = ''dev'', mk_key = pr_sha pr (''pii-enc:'' @ s), mk_created = Some (ke_start env)\<rparr>],
              kr_active = ''dev''\<rparr>))
     else (case load_keys env found of Inl e \<Rightarrow> Inl e
       | Inr ks \<Rightarrow> Inr \<lparr>kr_keys = ks, kr_active = pick_active (env_var env ''PII_ENC_ACTIVE_KEY_ID'') (map fst found)\<rparr>))"

subsection \<open>Wrapped keys\<close>

text \<open>The vendors of key services are named in the code, but none is connected.\<close>

datatype kms = LocalKms | VendorKms string

definition resolve_kms :: "string \<Rightarrow> key_error + kms" where
  "resolve_kms name = (let s = lower name in
     if s = ''local'' then Inr LocalKms else if s = ''aws'' \<or> s = ''gcp'' \<or> s = ''azure'' then Inr (VendorKms s)
     else if s = ''pkcs11'' \<or> s = ''hsm'' then Inr (VendorKms ''pkcs11'') else Inl UnknownKms)"

definition local_unwrap :: "primitives \<Rightarrow> key_env \<Rightarrow> string \<Rightarrow> key_error + string" where
  "local_unwrap pr env w = (let parts = split_on (CHR ''.'') (utf8_decode (from_base64 w)) in
     if length parts \<noteq> 4 \<or> hd parts \<noteq> ''v1'' then Inl MalformedWrap
     else (case env_var env ''PII_KMS_LOCAL_KEK'' of None \<Rightarrow> Inl NoLocalKek
       | Some raw \<Rightarrow> if length (from_base64 raw) \<noteq> 32 then Inl BadKekLength
           else (case pr_open pr (from_base64 raw) (from_base64 (parts ! 1)) (from_base64 (parts ! 2)) (from_base64 (parts ! 3)) of
                None \<Rightarrow> Inl UnwrapRefused | Some key \<Rightarrow> Inr key)))"

definition local_wrap :: "primitives \<Rightarrow> string \<Rightarrow> string \<Rightarrow> string \<Rightarrow> string" where
  "local_wrap pr iv kek key = (let (tag, ct) = pr_seal pr kek iv key in
     to_base64 (utf8_encode (join ''.'' [''v1'', to_base64 iv, to_base64 tag, to_base64 ct])))"

definition kms_unwrap :: "primitives \<Rightarrow> key_env \<Rightarrow> kms \<Rightarrow> string \<Rightarrow> key_error + string" where
  "kms_unwrap pr env k w = (case k of LocalKms \<Rightarrow> local_unwrap pr env w | VendorKms v \<Rightarrow> Inl (KmsNotWired v))"

fun unwrap_keys :: "primitives \<Rightarrow> key_env \<Rightarrow> kms \<Rightarrow> (string \<times> string) list \<Rightarrow> key_error + managed_key list" where
  "unwrap_keys pr env k [] = Inr []"
| "unwrap_keys pr env k ((i, v) # fs) = (case kms_unwrap pr env k (the (env_var env v)) of Inl e \<Rightarrow> Inl e
     | Inr key \<Rightarrow> if length key \<noteq> 32 then Inl (BadKeyLength i)
         else (case unwrap_keys pr env k fs of Inl e \<Rightarrow> Inl e
           | Inr ks \<Rightarrow> Inr (\<lparr>mk_id = i, mk_key = key, mk_created = created_at env v\<rparr> # ks)))"

definition kms_ring :: "primitives \<Rightarrow> key_env \<Rightarrow> kms \<Rightarrow> key_error + key_ring" where
  "kms_ring pr env k = (let found = found_keys env ''PII_WRAPPED_DEK'' in
     if found = [] then Inl NoWrappedKey
     else (case unwrap_keys pr env k found of Inl e \<Rightarrow> Inl e
       | Inr ks \<Rightarrow> Inr \<lparr>kr_keys = ks, kr_active = pick_active (env_var env ''PII_ENC_ACTIVE_KEY_ID'') (map fst found)\<rparr>))"

definition select_ring :: "primitives \<Rightarrow> key_env \<Rightarrow> key_error + key_ring" where
  "select_ring pr env = (case env_var env ''PII_KMS_PROVIDER'' of None \<Rightarrow> env_ring pr env
     | Some name \<Rightarrow> (case resolve_kms name of Inl e \<Rightarrow> Inl e | Inr k \<Rightarrow> kms_ring pr env k))"

definition load_index_key :: "primitives \<Rightarrow> key_env \<Rightarrow> key_error + string" where
  "load_index_key pr env = (case env_var env ''PII_INDEX_KEY'' of
     Some raw \<Rightarrow> if length (from_base64 raw) \<noteq> 32 then Inl BadIndexKey else Inr (from_base64 raw)
   | None \<Rightarrow> if in_production env then Inl IndexKeyRequired
       else (case environment_loaded env ''PII_INDEX_KEY'' of Inl e \<Rightarrow> Inl e | Inr s \<Rightarrow> Inr (pr_sha pr (''pii-index:'' @ s))))"

definition boot_crypto :: "primitives \<Rightarrow> key_env \<Rightarrow> key_error + (key_ring \<times> string)" where
  "boot_crypto pr env = (case select_ring pr env of Inl e \<Rightarrow> Inl e
     | Inr ring \<Rightarrow> (case load_index_key pr env of Inl e \<Rightarrow> Inl e | Inr k \<Rightarrow> Inr (ring, k)))"

subsection \<open>Sealed values\<close>

definition key_by_id :: "key_ring \<Rightarrow> string \<Rightarrow> managed_key option" where
  "key_by_id ring i = find_by mk_id i (kr_keys ring)"

definition active_key :: "key_ring \<Rightarrow> key_error + managed_key" where
  "active_key ring = (case key_by_id ring (kr_active ring) of None \<Rightarrow> Inl NoActiveKey | Some k \<Rightarrow> Inr k)"

definition encrypt_pii :: "primitives \<Rightarrow> key_ring \<Rightarrow> string \<Rightarrow> string option \<Rightarrow> key_error + string option" where
  "encrypt_pii pr ring iv v = (if \<not> truthy v then Inr None
     else (case active_key ring of Inl e \<Rightarrow> Inl e
       | Inr k \<Rightarrow> (let (tag, ct) = pr_seal pr (mk_key k) iv (utf8_encode (the v)) in
           Inr (Some (join ''.'' [''v2'', mk_id k, to_base64 iv, to_base64 tag, to_base64 ct])))))"

definition gcm_decrypt :: "primitives \<Rightarrow> string \<Rightarrow> string \<Rightarrow> string \<Rightarrow> string \<Rightarrow> string option" where
  "gcm_decrypt pr key iv tag ct = map_option utf8_decode (pr_open pr key (from_base64 iv) (from_base64 tag) (from_base64 ct))"

text \<open>What has the form of no sealed value is taken for plain text.\<close>

definition decrypt_pii :: "primitives \<Rightarrow> key_ring \<Rightarrow> string option \<Rightarrow> key_error + string option" where
  "decrypt_pii pr ring v = (if \<not> truthy v then Inr None
     else (let parts = split_on (CHR ''.'') (the v) in
       if length parts = 5 \<and> hd parts = ''v2'' then
         (case key_by_id ring (parts ! 1) of None \<Rightarrow> Inr None
          | Some k \<Rightarrow> Inr (gcm_decrypt pr (mk_key k) (parts ! 2) (parts ! 3) (parts ! 4)))
       else if length parts = 4 \<and> hd parts = ''v1'' then
         (case key_by_id ring ''1'' of Some k \<Rightarrow> Inr (gcm_decrypt pr (mk_key k) (parts ! 1) (parts ! 2) (parts ! 3))
          | None \<Rightarrow> (case key_by_id ring ''dev'' of Some k \<Rightarrow> Inr (gcm_decrypt pr (mk_key k) (parts ! 1) (parts ! 2) (parts ! 3))
            | None \<Rightarrow> (case active_key ring of Inl e \<Rightarrow> Inl e
              | Inr k \<Rightarrow> Inr (gcm_decrypt pr (mk_key k) (parts ! 1) (parts ! 2) (parts ! 3)))))
       else Inr v))"

definition needs_reencrypt :: "key_ring \<Rightarrow> string option \<Rightarrow> key_error + bool" where
  "needs_reencrypt ring v = (if \<not> truthy v then Inr False
     else (let parts = split_on (CHR ''.'') (the v) in
       if length parts = 5 \<and> hd parts = ''v2'' then
         (case active_key ring of Inl e \<Rightarrow> Inl e | Inr k \<Rightarrow> Inr (parts ! 1 \<noteq> mk_id k))
       else Inr (length parts = 4 \<and> hd parts = ''v1'')))"

definition reencrypt :: "primitives \<Rightarrow> key_ring \<Rightarrow> string \<Rightarrow> string option \<Rightarrow> key_error + string option" where
  "reencrypt pr ring iv v = (if \<not> truthy v then Inr v
     else (case needs_reencrypt ring v of Inl e \<Rightarrow> Inl e | Inr False \<Rightarrow> Inr v
       | Inr True \<Rightarrow> (case decrypt_pii pr ring v of Inl e \<Rightarrow> Inl e | Inr p \<Rightarrow> encrypt_pii pr ring iv p)))"

record rotation =
  ro_active :: string
  ro_count :: nat
  ro_age :: "int option"
  ro_due :: bool
  ro_keys :: "(string \<times> int option \<times> bool) list"

definition age_days :: "time \<Rightarrow> time option \<Rightarrow> int option" where
  "age_days now c = map_option (\<lambda>t. \<lfloor>fdiv (of_int (now - t)) 86400000\<rfloor>) c"

definition rotation_status :: "key_ring \<Rightarrow> time \<Rightarrow> int \<Rightarrow> key_error + rotation" where
  "rotation_status ring now most = (case active_key ring of Inl e \<Rightarrow> Inl e
     | Inr k \<Rightarrow> (let age = age_days now (mk_created k) in
         Inr \<lparr>ro_active = mk_id k, ro_count = length (kr_keys ring), ro_age = age,
           ro_due = (case age of None \<Rightarrow> False | Some a \<Rightarrow> most \<le> a),
           ro_keys = map (\<lambda>q. (mk_id q, age_days now (mk_created q), mk_id q = mk_id k)) (kr_keys ring)\<rparr>))"

definition index_of_value :: "primitives \<Rightarrow> string \<Rightarrow> string option \<Rightarrow> string option" where
  "index_of_value pr key v = (if \<not> truthy v then None else Some (pr_hmac pr key (trim (the v))))"

definition index_matches :: "string option \<Rightarrow> string option \<Rightarrow> bool" where
  "index_matches a b = (if \<not> truthy a \<or> \<not> truthy b \<or> length (the a) \<noteq> length (the b) then False else a = b)"


subsection \<open>The migration to the active key\<close>

text \<open>
  Rows are read in batches in the order of their ids and changed in place; \<open>nonce\<close> gives the random nonce for
  a column of a row. A call that throws leaves the rows changed so far.
\<close>

definition batch_rows :: nat where "batch_rows = 500"

fun patch_rows :: "(nat \<Rightarrow> 'r \<Rightarrow> key_error + 'r option) \<Rightarrow> nat \<Rightarrow> 'r list \<Rightarrow> 'r list \<times> nat \<times> key_error option" where
  "patch_rows f i [] = ([], 0, None)"
| "patch_rows f i (r # rs) = (case f i r of Inl e \<Rightarrow> (r # rs, 0, Some e)
     | Inr p \<Rightarrow> (case patch_rows f (Suc i) rs of (rs', n, e) \<Rightarrow>
         (case p of None \<Rightarrow> (r # rs', n, e) | Some r' \<Rightarrow> (r' # rs', Suc n, e))))"

function patch_batches :: "(nat \<Rightarrow> 'r \<Rightarrow> key_error + 'r option) \<Rightarrow> nat \<Rightarrow> 'r list \<Rightarrow> 'r list \<times> nat \<times> nat \<times> key_error option" where
  "patch_batches f i rows = (if rows = [] then ([], 0, 0, None)
     else (case patch_rows f i (take batch_rows rows) of
         (front, n, Some e) \<Rightarrow> (front @ drop batch_rows rows, 0, n, Some e)
       | (front, n, None) \<Rightarrow>
           if length rows < batch_rows then (front, length rows, n, None)
           else (case patch_batches f (i + batch_rows) (drop batch_rows rows) of
             (rest, seen, m, e) \<Rightarrow> (front @ rest, batch_rows + seen, n + m, e))))"
  by pat_completeness auto

termination
  by (relation "measure (\<lambda>(f, i, rows). length rows)") (auto simp: batch_rows_def)

declare patch_batches.simps [simp del]

text \<open>The columns of a row that were changed, with their new values.\<close>

definition patch_cell :: "primitives \<Rightarrow> key_ring \<Rightarrow> string \<Rightarrow> string option \<Rightarrow> key_error + string option option" where
  "patch_cell pr ring iv v = (case needs_reencrypt ring v of Inl e \<Rightarrow> Inl e | Inr False \<Rightarrow> Inr None
     | Inr True \<Rightarrow> (case reencrypt pr ring iv v of Inl e \<Rightarrow> Inl e | Inr w \<Rightarrow> Inr (Some w)))"

fun patch_cells :: "primitives \<Rightarrow> key_ring \<Rightarrow> (nat \<Rightarrow> string) \<Rightarrow> string option list \<Rightarrow> key_error + (string option list \<times> bool)" where
  "patch_cells pr ring iv [] = Inr ([], False)"
| "patch_cells pr ring iv (v # vs) = (case patch_cell pr ring (iv (length vs)) v of Inl e \<Rightarrow> Inl e
     | Inr p \<Rightarrow> (case patch_cells pr ring iv vs of Inl e \<Rightarrow> Inl e
       | Inr (ws, b) \<Rightarrow> Inr ((case p of None \<Rightarrow> v | Some w \<Rightarrow> w) # ws, p \<noteq> None \<or> b)))"

definition person_cells :: "registered \<Rightarrow> string option list" where
  "person_cells r = [rp_nin_enc r, rp_bvn_enc r, tp_tin_enc r]"

definition set_person_cells :: "string option list \<Rightarrow> registered \<Rightarrow> registered" where
  "set_person_cells vs r = r\<lparr>rp_nin_enc := vs ! 0, rp_bvn_enc := vs ! 1, tp_tin_enc := vs ! 2\<rparr>"

definition record_cells :: "scored_record \<Rightarrow> string option list" where
  "record_cells d = [d_account_number d, d_bvn d, d_nin d, d_phone d]"

definition set_record_cells :: "string option list \<Rightarrow> scored_record \<Rightarrow> scored_record" where
  "set_record_cells vs d = d\<lparr>d_account_number := vs ! 0, d_bvn := vs ! 1, d_nin := vs ! 2, d_phone := vs ! 3\<rparr>"

definition patch_row :: "primitives \<Rightarrow> key_ring \<Rightarrow> (nat \<Rightarrow> nat \<Rightarrow> string) \<Rightarrow> ('r \<Rightarrow> string option list) \<Rightarrow> (string option list \<Rightarrow> 'r \<Rightarrow> 'r) \<Rightarrow>
    nat \<Rightarrow> 'r \<Rightarrow> key_error + 'r option" where
  "patch_row pr ring nonce get put i r = (case patch_cells pr ring (nonce i) (get r) of Inl e \<Rightarrow> Inl e
     | Inr (vs, changed) \<Rightarrow> Inr (if changed then Some (put vs r) else None))"

record vault =
  va_people :: "registered list"
  va_records :: "scored_record list"
  va_audit :: "(string \<times> nat \<times> nat) list"

definition reencrypt_all :: "primitives \<Rightarrow> key_ring \<Rightarrow> (nat \<Rightarrow> nat \<Rightarrow> nat \<Rightarrow> string) \<Rightarrow> vault \<Rightarrow> (key_error, nat \<times> nat \<times> string, vault) outcome" where
  "reencrypt_all pr ring nonce st = (case patch_batches (patch_row pr ring (nonce 0) person_cells set_person_cells) 0 (va_people st) of
     (people, seen, n, Some e) \<Rightarrow> (Inl e, st\<lparr>va_people := people\<rparr>)
   | (people, seen, n, None) \<Rightarrow>
      (case patch_batches (patch_row pr ring (nonce 1) record_cells set_record_cells) 0 (va_records st) of
         (rs, seen', n', Some e) \<Rightarrow> (Inl e, st\<lparr>va_people := people, va_records := rs\<rparr>)
       | (rs, seen', n', None) \<Rightarrow> (case active_key ring of Inl e \<Rightarrow> (Inl e, st\<lparr>va_people := people, va_records := rs\<rparr>)
         | Inr k \<Rightarrow> (Inr (seen + seen', n + n', mk_id k),
             st\<lparr>va_people := people, va_records := rs, va_audit := va_audit st @ [(mk_id k, seen + seen', n + n')]\<rparr>))))"

subsection \<open>Reading what was sealed\<close>

text \<open>What the code relies on: an authentic ciphertext opens under its key and nonce.\<close>

definition gcm_ok :: "primitives \<Rightarrow> bool" where
  "gcm_ok pr \<longleftrightarrow> (\<forall>k iv p. pr_open pr k iv (fst (pr_seal pr k iv p)) (snd (pr_seal pr k iv p)) = Some p)"

text \<open>The ids of a ring are distinct and hold no dot, and the active key is one of them.\<close>

definition ring_ok :: "key_ring \<Rightarrow> bool" where
  "ring_ok ring \<longleftrightarrow> distinct (map mk_id (kr_keys ring)) \<and> list_all (\<lambda>k. CHR ''.'' \<notin> set (mk_id k)) (kr_keys ring) \<and>
     key_by_id ring (kr_active ring) \<noteq> None"

text \<open>A later ring has every key of the earlier one under its id; a new one may be active.\<close>

definition keeps_keys :: "key_ring \<Rightarrow> key_ring \<Rightarrow> bool" where
  "keeps_keys ring ring' \<longleftrightarrow> list_all (\<lambda>k. map_option mk_key (key_by_id ring' (mk_id k)) = Some (mk_key k)) (kr_keys ring)"

definition sealed_text :: "primitives \<Rightarrow> managed_key \<Rightarrow> string \<Rightarrow> string \<Rightarrow> string" where
  "sealed_text pr k iv p = (let c = pr_seal pr (mk_key k) iv (utf8_encode p) in
     join ''.'' [''v2'', mk_id k, to_base64 iv, to_base64 (fst c), to_base64 (snd c)])"

lemma active_ok:
  assumes "ring_ok ring"
  obtains k where "active_key ring = Inr k" "key_by_id ring (mk_id k) = Some k" "k \<in> set (kr_keys ring)" "CHR ''.'' \<notin> set (mk_id k)" "mk_id k = kr_active ring"
proof -
  obtain k where k: "key_by_id ring (kr_active ring) = Some k" using assms by (auto simp: ring_ok_def)
  then have "mk_id k = kr_active ring" "k \<in> set (kr_keys ring)" by (auto simp: key_by_id_def dest: find_by_Some)
  then show thesis using k assms by (intro that [of k]) (auto simp: active_key_def ring_ok_def list_all_iff)
qed

lemma encrypt_active: "active_key ring = Inr k \<Longrightarrow> truthy (Some p) \<Longrightarrow> encrypt_pii pr ring iv (Some p) = Inr (Some (sealed_text pr k iv p))"
  by (simp add: encrypt_pii_def sealed_text_def Let_def split_beta)

lemma sealed_parts:
  "CHR ''.'' \<notin> set (mk_id k) \<Longrightarrow> split_on (CHR ''.'') (sealed_text pr k iv p) =
     [''v2'', mk_id k, to_base64 iv, to_base64 (fst (pr_seal pr (mk_key k) iv (utf8_encode p))), to_base64 (snd (pr_seal pr (mk_key k) iv (utf8_encode p)))]"
  unfolding sealed_text_def Let_def by (rule split_join) simp_all

lemma sealed_truthy: "truthy (Some (sealed_text pr k iv p))"
  by (simp add: sealed_text_def Let_def)

lemma decrypt_sealed:
  assumes "gcm_ok pr" "CHR ''.'' \<notin> set (mk_id k)" "map_option mk_key (key_by_id ring (mk_id k)) = Some (mk_key k)"
  shows "decrypt_pii pr ring (Some (sealed_text pr k iv p)) = Inr (Some p)"
  using assms sealed_truthy [of pr k iv p]
  by (auto simp: decrypt_pii_def sealed_parts gcm_decrypt_def gcm_ok_def split: option.splits)

lemma needs_sealed:
  assumes "active_key ring = Inr a" "CHR ''.'' \<notin> set (mk_id k)"
  shows "needs_reencrypt ring (Some (sealed_text pr k iv p)) = Inr (mk_id k \<noteq> mk_id a)"
  using assms sealed_truthy [of pr k iv p] by (simp add: needs_reencrypt_def sealed_parts)


text \<open>Keys as the environment or the key service yields them form a sound ring.\<close>

lemma dec_str_no_dot: "CHR ''.'' \<notin> set (dec_str n)"
  using all_digits_dec_str [of n] by (auto simp: all_digits_def list_all_iff is_digit_def)

lemma highest_in: "ids \<noteq> [] \<Longrightarrow> highest_id ids \<in> set ids"
  unfolding highest_id_def by (metis hd_in_set set_sort length_0_conv length_sort)

lemma pick_in: "ids \<noteq> [] \<Longrightarrow> pick_active w ids \<in> set ids"
  by (auto simp: pick_active_def highest_in split: option.split)

lemma found_ids: "distinct (map fst (found_keys env base))" "\<forall>i \<in> fst ` set (found_keys env base). CHR ''.'' \<notin> set i"
proof -
  define slots where "slots = (''1'', base) # map (\<lambda>n. (dec_str n, base @ ''_'' @ dec_str n)) [2..<21]"
  have one: "dec_str (Suc 0) = ''1''" by code_simp
  have e: "map fst slots = map dec_str (1 # [2..<21])" unfolding slots_def by (simp add: comp_def one del: upt_conv_Cons)
  have f: "found_keys env base = filter (\<lambda>(i, v). env_var env v \<noteq> None) slots" by (simp only: found_keys_def slots_def)
  have inj: "inj_on dec_str (set (1 # [2..<21]))" by (rule inj_onI) (metis parse_dec_str)
  have "distinct (1 # [2..<21 :: nat])" unfolding distinct.simps by (intro conjI distinct_upt) simp
  then have "distinct (map fst slots)" unfolding e distinct_map using inj by blast
  then show "distinct (map fst (found_keys env base))" unfolding f by (rule distinct_map_filter)
  show "\<forall>i \<in> fst ` set (found_keys env base). CHR ''.'' \<notin> set i"
  proof
    fix i assume "i \<in> fst ` set (found_keys env base)"
    then have "i \<in> set (map fst slots)" unfolding f set_map set_filter by blast
    then have "i \<in> dec_str ` set (1 # [2..<21])" by (simp only: e set_map)
    then show "CHR ''.'' \<notin> set i" by (rule imageE) (simp only: dec_str_no_dot not_False_eq_True)
  qed
qed

lemma load_keys_ids: "load_keys env fs = Inr ks \<Longrightarrow> map mk_id ks = map fst fs"
  by (induction env fs arbitrary: ks rule: load_keys.induct) (auto simp: Let_def split: if_splits sum.splits)

lemma unwrap_keys_ids: "unwrap_keys pr env k fs = Inr ks \<Longrightarrow> map mk_id ks = map fst fs"
  by (induction pr env k fs arbitrary: ks rule: unwrap_keys.induct) (auto split: if_splits sum.splits)

lemma loaded_ring_ok:
  assumes "map mk_id ks = map fst (found_keys env base)" "found_keys env base \<noteq> []"
  shows "ring_ok \<lparr>kr_keys = ks, kr_active = pick_active w (map fst (found_keys env base))\<rparr>"
proof -
  have "pick_active w (map fst (found_keys env base)) \<in> set (map mk_id ks)"
    unfolding assms(1) by (rule pick_in) (use assms(2) in simp)
  then have a: "find_by mk_id (pick_active w (map fst (found_keys env base))) ks \<noteq> None" by (simp add: find_by_None)
  have "list_all (\<lambda>i. CHR ''.'' \<notin> set i) (map mk_id ks)" unfolding assms(1) using found_ids(2) by (simp add: list_all_iff)
  then have "list_all (\<lambda>k. CHR ''.'' \<notin> set (mk_id k)) ks" by (simp add: list.pred_map comp_def)
  then show ?thesis using a found_ids(1) [of env base] assms(1) by (simp add: ring_ok_def key_by_id_def)
qed

lemma selected_ring_ok: "select_ring pr env = Inr ring \<Longrightarrow> ring_ok ring"
proof (cases "env_var env ''PII_KMS_PROVIDER''")
  case None
  assume s: "select_ring pr env = Inr ring"
  show ?thesis
  proof (cases "found_keys env ''PII_ENC_KEY'' = []")
    case True
    then show ?thesis using s None
      by (auto simp: select_ring_def env_ring_def environment_loaded_def ring_ok_def key_by_id_def split: if_splits option.splits)
  next
    case False
    then show ?thesis using s None
      by (auto simp: select_ring_def env_ring_def Let_def split: sum.splits intro!: loaded_ring_ok load_keys_ids)
  qed
next
  case (Some name)
  assume "select_ring pr env = Inr ring"
  then show ?thesis using Some
    by (auto simp: select_ring_def kms_ring_def Let_def split: sum.splits if_splits intro!: loaded_ring_ok unwrap_keys_ids)
qed

subsection \<open>Rotation\<close>

text \<open>
  C16. Rotation loses nothing: a value that was sealed under one ring is read back under every later ring that
  kept its keys, whichever key is active by then; re-encrypting it there gives a value that reads the same,
  is sealed under the active key and needs no further change.
\<close>

theorem rotation_keeps_values:
  assumes "gcm_ok pr" "ring_ok ring" "ring_ok ring'" "keeps_keys ring ring'"
    and "encrypt_pii pr ring iv v = Inr c"
  shows "decrypt_pii pr ring' c = Inr (if truthy v then v else None) \<and>
    (\<exists>c'. reencrypt pr ring' iv' c = Inr c' \<and> decrypt_pii pr ring' c' = decrypt_pii pr ring' c \<and> needs_reencrypt ring' c' = Inr False)"
proof (cases "truthy v")
  case False
  then have "c = None" using assms(5) by (simp add: encrypt_pii_def)
  then show ?thesis using False by (simp add: decrypt_pii_def reencrypt_def needs_reencrypt_def)
next
  case True
  then obtain p where p: "v = Some p" by (cases v) auto
  obtain k where k: "active_key ring = Inr k" "k \<in> set (kr_keys ring)" "CHR ''.'' \<notin> set (mk_id k)" using active_ok [OF assms(2)] by metis
  obtain a where a: "active_key ring' = Inr a" "key_by_id ring' (mk_id a) = Some a" "CHR ''.'' \<notin> set (mk_id a)" using active_ok [OF assms(3)] by metis
  have c: "c = Some (sealed_text pr k iv p)" using assms(5) encrypt_active [OF k(1)] True p by simp
  have "map_option mk_key (key_by_id ring' (mk_id k)) = Some (mk_key k)" using assms(4) k(2) by (simp add: keeps_keys_def list_all_iff)
  then have d: "decrypt_pii pr ring' c = Inr (Some p)" unfolding c by (rule decrypt_sealed [OF assms(1) k(3)])
  have n: "needs_reencrypt ring' c = Inr (mk_id k \<noteq> mk_id a)" unfolding c by (rule needs_sealed [OF a(1) k(3)])
  have tc: "truthy c" unfolding c by (rule sealed_truthy)
  show ?thesis
  proof (cases "mk_id k = mk_id a")
    case True
    then have "reencrypt pr ring' iv' c = Inr c" using n tc by (simp add: reencrypt_def)
    then show ?thesis using d n True p \<open>truthy v\<close> by simp
  next
    case False
    then have r: "reencrypt pr ring' iv' c = Inr (Some (sealed_text pr a iv' p))"
      using n tc d encrypt_active [OF a(1), of p pr iv'] True p by (simp add: reencrypt_def)
    have "decrypt_pii pr ring' (Some (sealed_text pr a iv' p)) = Inr (Some p)"
      by (rule decrypt_sealed [OF assms(1) a(3)]) (simp add: a(2))
    moreover have "needs_reencrypt ring' (Some (sealed_text pr a iv' p)) = Inr False" using needs_sealed [OF a(1) a(3)] by simp
    ultimately show ?thesis using r d p True by simp
  qed
qed

definition demo_primitives :: primitives where
  "demo_primitives = \<lparr>pr_seal = (\<lambda>k iv p. (k @ iv, rev p)),
     pr_open = (\<lambda>k iv tag c. if tag = k @ iv then Some (rev c) else None), pr_hmac = (\<lambda>k s. k @ s), pr_sha = id\<rparr>"

definition old_ring :: key_ring where
  "old_ring = \<lparr>kr_keys = [\<lparr>mk_id = ''1'', mk_key = ''k'', mk_created = Some 0\<rparr>], kr_active = ''1''\<rparr>"

definition new_ring :: key_ring where
  "new_ring = \<lparr>kr_keys = kr_keys old_ring @ [\<lparr>mk_id = ''2'', mk_key = ''l'', mk_created = Some 0\<rparr>], kr_active = ''2''\<rparr>"

theorem rotation_keeps_values_witness:
  "\<exists>c c'. encrypt_pii demo_primitives old_ring ''n'' (Some ''22'') = Inr c \<and> decrypt_pii demo_primitives new_ring c = Inr (Some ''22'') \<and>
     reencrypt demo_primitives new_ring ''m'' c = Inr c' \<and> c' \<noteq> c \<and> decrypt_pii demo_primitives new_ring c' = Inr (Some ''22'')"
proof -
  have g: "gcm_ok demo_primitives" by (simp add: gcm_ok_def demo_primitives_def)
  have o: "ring_ok old_ring" "ring_ok new_ring" "keeps_keys old_ring new_ring" by code_simp+
  have a: "active_key old_ring = Inr \<lparr>mk_id = ''1'', mk_key = ''k'', mk_created = Some 0\<rparr>"
    "active_key new_ring = Inr \<lparr>mk_id = ''2'', mk_key = ''l'', mk_created = Some 0\<rparr>"
    by (simp_all add: active_key_def key_by_id_def old_ring_def new_ring_def)
  obtain c where c: "encrypt_pii demo_primitives old_ring ''n'' (Some ''22'') = Inr c"
      "c = Some (sealed_text demo_primitives \<lparr>mk_id = ''1'', mk_key = ''k'', mk_created = Some 0\<rparr> ''n'' ''22'')"
    using encrypt_active [OF a(1), of "''22''"] by simp
  have n: "needs_reencrypt new_ring c = Inr True" unfolding c(2) by (subst needs_sealed [OF a(2)]) simp_all
  have r: "decrypt_pii demo_primitives new_ring c = Inr (Some ''22'') \<and>
    (\<exists>c'. reencrypt demo_primitives new_ring ''m'' c = Inr c' \<and> decrypt_pii demo_primitives new_ring c' = decrypt_pii demo_primitives new_ring c \<and> needs_reencrypt new_ring c' = Inr False)"
    by (rule rotation_keeps_values [OF g o c(1), of "''m''", simplified truthy.simps list.simps simp_thms if_True])
  then show ?thesis using c(1) n by (metis sum.inject(2))
qed


subsection \<open>The migration\<close>

lemma patch_rows_all:
  assumes "\<And>j r. r \<in> set rows \<Longrightarrow> \<exists>p. f j r = Inr p \<and> R r (case p of None \<Rightarrow> r | Some r' \<Rightarrow> r')"
  shows "\<exists>rows' n. patch_rows f i rows = (rows', n, None) \<and> list_all2 R rows rows'"
  using assms
proof (induction rows arbitrary: i)
  case (Cons r rs)
  obtain p where p: "f i r = Inr p" "R r (case p of None \<Rightarrow> r | Some r' \<Rightarrow> r')" using Cons.prems [of r i] by auto
  obtain rs' n where "patch_rows f (Suc i) rs = (rs', n, None)" "list_all2 R rs rs'" using Cons.IH [of "Suc i"] Cons.prems by auto
  then show ?case using p by (cases p) simp_all
qed simp

lemma patch_batches_all:
  assumes "\<And>j r. r \<in> set rows \<Longrightarrow> \<exists>p. f j r = Inr p \<and> R r (case p of None \<Rightarrow> r | Some r' \<Rightarrow> r')"
  shows "\<exists>rows' n. patch_batches f i rows = (rows', length rows, n, None) \<and> list_all2 R rows rows'"
  using assms
proof (induction f i rows rule: patch_batches.induct)
  case (1 f i rows)
  show ?case
  proof (cases "rows = []")
    case False
    obtain front n where a: "patch_rows f i (take batch_rows rows) = (front, n, None)" "list_all2 R (take batch_rows rows) front"
      using patch_rows_all [of "take batch_rows rows" f R i] 1(2) by (meson in_set_takeD)
    show ?thesis
    proof (cases "length rows < batch_rows")
      case True
      then show ?thesis using a False by (simp add: patch_batches.simps [of f i rows])
    next
      case small: False
      obtain rest m where b: "patch_batches f (i + batch_rows) (drop batch_rows rows) = (rest, length rows - batch_rows, m, None)"
        "list_all2 R (drop batch_rows rows) rest"
        using 1(1) [OF False a(1) [symmetric] refl refl small] 1(2) by (metis in_set_dropD length_drop)
      have "list_all2 R (take batch_rows rows @ drop batch_rows rows) (front @ rest)" using a(2) b(2) by (rule list_all2_appendI)
      then show ?thesis using a(1) b(1) False small by (simp add: patch_batches.simps [of f i rows])
    qed
  qed (simp add: patch_batches.simps)
qed

text \<open>The counterpart for a migration that finds nothing to do.\<close>

lemma patch_rows_idle: "(\<And>j r. r \<in> set rows \<Longrightarrow> f j r = Inr None) \<Longrightarrow> patch_rows f i rows = (rows, 0, None)"
  by (induction rows arbitrary: i) auto

lemma patch_batches_idle: "(\<And>j r. r \<in> set rows \<Longrightarrow> f j r = Inr None) \<Longrightarrow> patch_batches f i rows = (rows, length rows, 0, None)"
proof (induction f i rows rule: patch_batches.induct)
  case (1 f i rows)
  show ?case
  proof (cases "rows = []")
    case False
    have a: "patch_rows f i (take batch_rows rows) = (take batch_rows rows, 0, None)"
      by (rule patch_rows_idle) (use 1(2) in \<open>auto dest: in_set_takeD\<close>)
    show ?thesis
    proof (cases "length rows < batch_rows")
      case True
      then show ?thesis using a False by (simp add: patch_batches.simps [of f i rows])
    next
      case small: False
      have "patch_batches f (i + batch_rows) (drop batch_rows rows) = (drop batch_rows rows, length (drop batch_rows rows), 0, None)"
        by (rule 1(1) [OF False a [symmetric] refl refl small]) (use 1(2) in \<open>auto dest: in_set_dropD\<close>)
      then show ?thesis using a False small by (simp add: patch_batches.simps [of f i rows])
    qed
  qed (simp add: patch_batches.simps)
qed

text \<open>What a column holds afterwards: the same value, sealed under the active key, or nothing.\<close>

definition cell_moved :: "primitives \<Rightarrow> key_ring \<Rightarrow> string option \<Rightarrow> string option \<Rightarrow> bool" where
  "cell_moved pr ring v w \<longleftrightarrow> (case decrypt_pii pr ring v of Inl e \<Rightarrow> False
     | Inr p \<Rightarrow> if needs_reencrypt ring v = Inr False then w = v
         else if truthy p then needs_reencrypt ring w = Inr False \<and> decrypt_pii pr ring w = Inr p else w = None)"

lemma decrypt_total: "ring_ok ring \<Longrightarrow> \<exists>p. decrypt_pii pr ring v = Inr p"
  by (auto simp: decrypt_pii_def Let_def elim!: active_ok split: option.split)

lemma needs_total: "ring_ok ring \<Longrightarrow> \<exists>b. needs_reencrypt ring v = Inr b"
  by (auto simp: needs_reencrypt_def Let_def elim!: active_ok)

lemma patch_cell_moves:
  assumes "gcm_ok pr" "ring_ok ring"
  shows "\<exists>p. patch_cell pr ring iv v = Inr p \<and> cell_moved pr ring v (case p of None \<Rightarrow> v | Some w \<Rightarrow> w)"
proof -
  obtain a where a: "active_key ring = Inr a" "key_by_id ring (mk_id a) = Some a" "CHR ''.'' \<notin> set (mk_id a)" using active_ok [OF assms(2)] by metis
  obtain q where q: "decrypt_pii pr ring v = Inr q" using decrypt_total [OF assms(2)] by blast
  obtain b where b: "needs_reencrypt ring v = Inr b" using needs_total [OF assms(2)] by blast
  show ?thesis
  proof (cases b)
    case False
    then show ?thesis using b q by (simp add: patch_cell_def cell_moved_def)
  next
    case True
    then have tv: "truthy v" using b by (auto simp: needs_reencrypt_def split: if_splits)
    show ?thesis
    proof (cases "truthy q")
      case False
      then show ?thesis using b q tv True by (simp add: patch_cell_def reencrypt_def cell_moved_def encrypt_pii_def)
    next
      case tq: True
      then obtain p where p: "q = Some p" by (cases q) auto
      have "patch_cell pr ring iv v = Inr (Some (Some (sealed_text pr a iv p)))"
        using b q tv True tq p encrypt_active [OF a(1)] by (simp add: patch_cell_def reencrypt_def)
      moreover have "decrypt_pii pr ring (Some (sealed_text pr a iv p)) = Inr (Some p)"
        by (rule decrypt_sealed [OF assms(1) a(3)]) (simp add: a(2))
      moreover have "needs_reencrypt ring (Some (sealed_text pr a iv p)) = Inr False" using needs_sealed [OF a(1) a(3)] by simp
      ultimately show ?thesis using b q True tq p by (simp add: cell_moved_def)
    qed
  qed
qed

lemma patch_cells_move:
  assumes "gcm_ok pr" "ring_ok ring"
  shows "\<exists>ws b. patch_cells pr ring iv vs = Inr (ws, b) \<and> list_all2 (cell_moved pr ring) vs ws \<and> (b \<or> ws = vs)"
proof (induction vs)
  case (Cons v vs)
  obtain p where "patch_cell pr ring (iv (length vs)) v = Inr p" "cell_moved pr ring v (case p of None \<Rightarrow> v | Some w \<Rightarrow> w)"
    using patch_cell_moves [OF assms] by blast
  moreover obtain ws b where "patch_cells pr ring iv vs = Inr (ws, b)" "list_all2 (cell_moved pr ring) vs ws" "b \<or> ws = vs"
    using Cons by blast
  ultimately show ?case by (cases p) auto
qed (auto intro: exI [of _ False])

lemma patch_row_moves:
  assumes "gcm_ok pr" "ring_ok ring" "\<And>vs. length vs = length (get r) \<Longrightarrow> get (put vs r) = vs"
    and "put (get r) r = r"
  shows "\<exists>p. patch_row pr ring nonce get put i r = Inr p \<and>
    (let r' = (case p of None \<Rightarrow> r | Some q \<Rightarrow> q) in list_all2 (cell_moved pr ring) (get r) (get r') \<and> r' = put (get r') r)"
proof -
  obtain ws b where w: "patch_cells pr ring (nonce i) (get r) = Inr (ws, b)" "list_all2 (cell_moved pr ring) (get r) ws" "b \<or> ws = get r"
    using patch_cells_move [OF assms(1,2)] by metis
  have "get (put ws r) = ws" by (rule assms(3)) (use list_all2_lengthD [OF w(2)] in simp)
  then show ?thesis using w assms(4) by (cases b) (auto simp: patch_row_def Let_def)
qed


definition row_moved :: "primitives \<Rightarrow> key_ring \<Rightarrow> ('r \<Rightarrow> string option list) \<Rightarrow> (string option list \<Rightarrow> 'r \<Rightarrow> 'r) \<Rightarrow> 'r \<Rightarrow> 'r \<Rightarrow> bool" where
  "row_moved pr ring get put r r' \<longleftrightarrow> list_all2 (cell_moved pr ring) (get r) (get r') \<and> r' = put (get r') r"

lemma person_cells_put: "length vs = length (person_cells r) \<Longrightarrow> person_cells (set_person_cells vs r) = vs" "set_person_cells (person_cells r) r = r"
  by (auto simp: person_cells_def set_person_cells_def length_Suc_conv numeral_3_eq_3)

lemma record_cells_put: "length vs = length (record_cells d) \<Longrightarrow> record_cells (set_record_cells vs d) = vs" "set_record_cells (record_cells d) d = d"
  by (auto simp: record_cells_def set_record_cells_def length_Suc_conv numeral_eq_Suc)

lemma migration_moves:
  assumes "gcm_ok pr" "ring_ok ring"
  obtains people rs n where
    "reencrypt_all pr ring nonce st = (Inr (length (va_people st) + length (va_records st), n, kr_active ring),
       st\<lparr>va_people := people, va_records := rs,
         va_audit := va_audit st @ [(kr_active ring, length (va_people st) + length (va_records st), n)]\<rparr>)"
    "list_all2 (row_moved pr ring person_cells set_person_cells) (va_people st) people"
    "list_all2 (row_moved pr ring record_cells set_record_cells) (va_records st) rs"
proof -
  obtain a where a: "active_key ring = Inr a" "mk_id a = kr_active ring" using active_ok [OF assms(2)] by metis
  have moves: "\<exists>p. patch_row pr ring nn person_cells set_person_cells j r = Inr p \<and>
      row_moved pr ring person_cells set_person_cells r (case p of None \<Rightarrow> r | Some r' \<Rightarrow> r')"
    "\<exists>p. patch_row pr ring nn record_cells set_record_cells j d = Inr p \<and>
      row_moved pr ring record_cells set_record_cells d (case p of None \<Rightarrow> d | Some r' \<Rightarrow> r')" for nn j r d
    using patch_row_moves [OF assms, of person_cells r set_person_cells nn j] patch_row_moves [OF assms, of record_cells d set_record_cells nn j]
    by (simp_all add: person_cells_put record_cells_put row_moved_def Let_def)
  have "\<exists>rows' n. patch_batches (patch_row pr ring (nonce 0) person_cells set_person_cells) 0 (va_people st) = (rows', length (va_people st), n, None) \<and>
      list_all2 (row_moved pr ring person_cells set_person_cells) (va_people st) rows'"
    by (rule patch_batches_all) (rule moves(1))
  then obtain people n where p: "patch_batches (patch_row pr ring (nonce 0) person_cells set_person_cells) 0 (va_people st) = (people, length (va_people st), n, None)"
    "list_all2 (row_moved pr ring person_cells set_person_cells) (va_people st) people" by blast
  have "\<exists>rows' n. patch_batches (patch_row pr ring (nonce 1) record_cells set_record_cells) 0 (va_records st) = (rows', length (va_records st), n, None) \<and>
      list_all2 (row_moved pr ring record_cells set_record_cells) (va_records st) rows'"
    by (rule patch_batches_all) (rule moves(2))
  then obtain rs m where d: "patch_batches (patch_row pr ring (nonce 1) record_cells set_record_cells) 0 (va_records st) = (rs, length (va_records st), m, None)"
    "list_all2 (row_moved pr ring record_cells set_record_cells) (va_records st) rs" by blast
  show thesis by (rule that [OF _ p(2) d(2), of "n + m"]) (simp add: reencrypt_all_def p(1) d(1) [unfolded One_nat_def] a)
qed

definition readable :: "primitives \<Rightarrow> key_ring \<Rightarrow> string option \<Rightarrow> bool" where
  "readable pr ring v \<longleftrightarrow> (if truthy v then (case decrypt_pii pr ring v of Inl e \<Rightarrow> False | Inr p \<Rightarrow> truthy p) else True)"

definition all_readable :: "primitives \<Rightarrow> key_ring \<Rightarrow> vault \<Rightarrow> bool" where
  "all_readable pr ring st \<longleftrightarrow> list_all (\<lambda>r. list_all (readable pr ring) (person_cells r)) (va_people st) \<and>
     list_all (\<lambda>d. list_all (readable pr ring) (record_cells d)) (va_records st)"

definition all_active :: "key_ring \<Rightarrow> vault \<Rightarrow> bool" where
  "all_active ring st \<longleftrightarrow> list_all (\<lambda>r. list_all (\<lambda>v. needs_reencrypt ring v = Inr False) (person_cells r)) (va_people st) \<and>
     list_all (\<lambda>d. list_all (\<lambda>v. needs_reencrypt ring v = Inr False) (record_cells d)) (va_records st)"

definition stored_values :: "primitives \<Rightarrow> key_ring \<Rightarrow> vault \<Rightarrow> (key_error + string option) list list \<times> (key_error + string option) list list" where
  "stored_values pr ring st = (map (\<lambda>r. map (decrypt_pii pr ring) (person_cells r)) (va_people st),
     map (\<lambda>d. map (decrypt_pii pr ring) (record_cells d)) (va_records st))"

definition other_columns :: "vault \<Rightarrow> registered list \<times> scored_record list" where
  "other_columns st = (map (set_person_cells [None, None, None]) (va_people st), map (set_record_cells [None, None, None, None]) (va_records st))"

lemma cell_moved_readable:
  assumes "cell_moved pr ring v w" "readable pr ring v" "ring_ok ring"
  shows "decrypt_pii pr ring w = decrypt_pii pr ring v" "needs_reencrypt ring w = Inr False"
proof -
  obtain p where p: "decrypt_pii pr ring v = Inr p" using decrypt_total [OF assms(3)] by blast
  obtain b where b: "needs_reencrypt ring v = Inr b" using needs_total [OF assms(3)] by blast
  have "truthy v" if b using b that by (auto simp: needs_reencrypt_def split: if_splits)
  then show "decrypt_pii pr ring w = decrypt_pii pr ring v" "needs_reencrypt ring w = Inr False"
    using assms(1,2) p b by (cases b; simp add: cell_moved_def readable_def)+
qed

lemma cells_moved_readable:
  assumes "list_all2 (cell_moved pr ring) vs ws" "list_all (readable pr ring) vs" "ring_ok ring"
  shows "map (decrypt_pii pr ring) ws = map (decrypt_pii pr ring) vs" "list_all (\<lambda>v. needs_reencrypt ring v = Inr False) ws"
  using assms(1,2) cell_moved_readable [OF _ _ assms(3)] by (induction rule: list_all2_induct) auto

lemma rows_moved_readable:
  assumes "list_all2 (row_moved pr ring get put) rows rows'" "list_all (\<lambda>r. list_all (readable pr ring) (get r)) rows" "ring_ok ring"
  shows "map (\<lambda>r. map (decrypt_pii pr ring) (get r)) rows' = map (\<lambda>r. map (decrypt_pii pr ring) (get r)) rows"
    "list_all (\<lambda>r. list_all (\<lambda>v. needs_reencrypt ring v = Inr False) (get r)) rows'"
  using assms(1,2) cells_moved_readable [OF _ _ assms(3)] by (induction rule: list_all2_induct) (auto simp: row_moved_def)

lemma rows_moved_frame:
  assumes "list_all2 (row_moved pr ring get put) rows rows'" "\<And>r vs. put ws (put vs r) = put ws r"
  shows "map (put ws) rows' = map (put ws) rows"
  using assms(1) by (induction rule: list_all2_induct) (auto simp: row_moved_def, metis assms(2))

lemma patch_cells_idle: "list_all (\<lambda>v. needs_reencrypt ring v = Inr False) vs \<Longrightarrow> patch_cells pr ring iv vs = Inr (vs, False)"
  by (induction vs) (auto simp: patch_cell_def)

lemma migration_idle:
  assumes "ring_ok ring" "all_active ring st"
  shows "reencrypt_all pr ring nonce st = (Inr (length (va_people st) + length (va_records st), 0, kr_active ring),
    st\<lparr>va_audit := va_audit st @ [(kr_active ring, length (va_people st) + length (va_records st), 0)]\<rparr>)"
proof -
  obtain a where a: "active_key ring = Inr a" "mk_id a = kr_active ring" using active_ok [OF assms(1)] by metis
  have "patch_batches (patch_row pr ring (nonce 0) person_cells set_person_cells) 0 (va_people st) = (va_people st, length (va_people st), 0, None)"
    by (rule patch_batches_idle) (use assms(2) in \<open>auto simp: patch_row_def all_active_def list_all_iff [of _ "va_people st"] patch_cells_idle\<close>)
  moreover have "patch_batches (patch_row pr ring (nonce 1) record_cells set_record_cells) 0 (va_records st) = (va_records st, length (va_records st), 0, None)"
    by (rule patch_batches_idle) (use assms(2) in \<open>auto simp: patch_row_def all_active_def list_all_iff [of _ "va_records st"] patch_cells_idle\<close>)
  ultimately show ?thesis by (simp add: reencrypt_all_def a)
qed


definition key_one :: managed_key where "key_one = \<lparr>mk_id = ''1'', mk_key = ''k'', mk_created = Some 0\<rparr>"

definition demo_vault :: vault where
  "demo_vault = \<lparr>va_people = [(blank_person ''t'')\<lparr>rp_bvn_enc := Some (sealed_text demo_primitives key_one ''n'' ''22''), tp_bvn_index := Some ''i''\<rparr>],
     va_records = [], va_audit = []\<rparr>"

lemma demo_gcm: "gcm_ok demo_primitives"
  by (simp add: gcm_ok_def demo_primitives_def)

lemma demo_seal_needs: "needs_reencrypt new_ring (Some (sealed_text demo_primitives key_one ''n'' ''22'')) = Inr True"
  by (subst needs_sealed [where a = "\<lparr>mk_id = ''2'', mk_key = ''l'', mk_created = Some 0\<rparr>"])
    (simp_all add: active_key_def key_by_id_def new_ring_def old_ring_def key_one_def)


text \<open>
  C18. An identifier that cannot be read, because its key is no longer in the ring or its ciphertext was
  altered, does not stop the migration: the column is set to null, so that even the old key or a backup of
  it cannot bring the value back, while its index stays and goes on claiming the value.
\<close>

theorem migration_erases_unreadable:
  assumes "gcm_ok pr" "ring_ok ring" "i < length (va_people st)"
    and "needs_reencrypt ring (rp_bvn_enc (va_people st ! i)) = Inr True" "decrypt_pii pr ring (rp_bvn_enc (va_people st ! i)) = Inr None"
    and "reencrypt_all pr ring nonce st = (out, st')"
  shows "rp_bvn_enc (va_people st' ! i) = None \<and> tp_bvn_index (va_people st' ! i) = tp_bvn_index (va_people st ! i) \<and>
    (\<exists>n. out = Inr (length (va_people st) + length (va_records st), n, kr_active ring))"
proof -
  obtain people rs n where m: "reencrypt_all pr ring nonce st = (Inr (length (va_people st) + length (va_records st), n, kr_active ring),
       st\<lparr>va_people := people, va_records := rs,
         va_audit := va_audit st @ [(kr_active ring, length (va_people st) + length (va_records st), n)]\<rparr>)"
    and p: "list_all2 (row_moved pr ring person_cells set_person_cells) (va_people st) people" using migration_moves [OF assms(1,2)] by metis
  have st': "va_people st' = people" "out = Inr (length (va_people st) + length (va_records st), n, kr_active ring)" using m assms(6) by auto
  have "row_moved pr ring person_cells set_person_cells (va_people st ! i) (people ! i)" using p assms(3) by (rule list_all2_nthD)
  then have "cell_moved pr ring (rp_bvn_enc (va_people st ! i)) (rp_bvn_enc (people ! i))"
      "people ! i = set_person_cells (person_cells (people ! i)) (va_people st ! i)"
    by (simp_all add: row_moved_def person_cells_def)
  moreover have "tp_bvn_index (set_person_cells vs r) = tp_bvn_index r" for vs r by (simp add: set_person_cells_def)
  ultimately have "rp_bvn_enc (people ! i) = None" "tp_bvn_index (people ! i) = tp_bvn_index (va_people st ! i)"
    using assms(4,5) by (simp add: cell_moved_def, metis)
  then show ?thesis using st' by simp
qed


definition lost_ring :: key_ring where
  "lost_ring = \<lparr>kr_keys = [\<lparr>mk_id = ''2'', mk_key = ''l'', mk_created = Some 0\<rparr>], kr_active = ''2''\<rparr>"

theorem migration_erases_unreadable_witness:
  "\<exists>st'. snd (reencrypt_all demo_primitives lost_ring (\<lambda>_ _ _. ''m'') demo_vault) = st' \<and> rp_bvn_enc (va_people demo_vault ! 0) \<noteq> None \<and>
     rp_bvn_enc (va_people st' ! 0) = None \<and> tp_bvn_index (va_people st' ! 0) = Some ''i''"
proof -
  have r: "ring_ok lost_ring" by code_simp
  have v: "rp_bvn_enc (va_people demo_vault ! 0) = Some (sealed_text demo_primitives key_one ''n'' ''22'')" "0 < length (va_people demo_vault)"
      "tp_bvn_index (va_people demo_vault ! 0) = Some ''i''" by (simp_all add: demo_vault_def)
  have k: "CHR ''.'' \<notin> set (mk_id key_one)" by (simp add: key_one_def)
  have "needs_reencrypt lost_ring (rp_bvn_enc (va_people demo_vault ! 0)) = Inr True"
    unfolding v(1) by (subst needs_sealed [OF _ k, where a = "\<lparr>mk_id = ''2'', mk_key = ''l'', mk_created = Some 0\<rparr>"])
      (simp_all add: active_key_def key_by_id_def lost_ring_def key_one_def)
  moreover have "decrypt_pii demo_primitives lost_ring (rp_bvn_enc (va_people demo_vault ! 0)) = Inr None"
    unfolding v(1) using sealed_truthy [of demo_primitives key_one "''n''" "''22''"]
    by (simp add: decrypt_pii_def sealed_parts [OF k]) (simp add: key_by_id_def lost_ring_def key_one_def)
  ultimately show ?thesis
    using migration_erases_unreadable [OF demo_gcm r v(2) _ _ prod.collapse [symmetric], of "\<lambda>_ _ _. ''m''"] v by simp
qed

subsection \<open>The parameters of the other theories\<close>



subsection \<open>Wrapped keys come back\<close>

lemma wrap_roundtrip:
  assumes "gcm_ok pr" "length kek = 32" "ke_vars env ''PII_KMS_LOCAL_KEK'' = Some (to_base64 kek)"
  shows "local_unwrap pr env (local_wrap pr iv kek key) = Inr key"
proof -
  have s: "split_on (CHR ''.'') (join ''.'' [''v1'', to_base64 iv, to_base64 (fst (pr_seal pr kek iv key)), to_base64 (snd (pr_seal pr kek iv key))]) =
      [''v1'', to_base64 iv, to_base64 (fst (pr_seal pr kek iv key)), to_base64 (snd (pr_seal pr kek iv key))]"
    by (rule split_join) simp_all
  have "to_base64 kek \<noteq> []" using assms(2) base64_roundtrip [of kek] by (auto simp: from_base64_def)
  then have "env_var env ''PII_KMS_LOCAL_KEK'' = Some (to_base64 kek)" using assms(3) by (simp add: env_var_def)
  then show ?thesis using assms(1,2)
    unfolding local_unwrap_def local_wrap_def Let_def split_beta base64_roundtrip utf8_roundtrip s by (simp add: gcm_ok_def)
qed

text \<open>A key whose creation date is not readable is never due.\<close>

lemma unreadable_date_never_due:
  "active_key ring = Inr k \<Longrightarrow> mk_created k = None \<Longrightarrow> \<exists>ro. rotation_status ring now most = Inr ro \<and> \<not> ro_due ro"
  by (simp add: rotation_status_def age_days_def Let_def)

lemma equal_index_same_value: "index_matches a b \<longleftrightarrow> truthy a \<and> a = b"
  by (auto simp: index_matches_def)

end
