(* ===== verification/Pseudonym.thy ===== *)
theory Pseudonym
  imports JsParse
begin

text \<open>
  What the assistant sends to the language model: \<open>backend/src/modules/iris/llm/pseudonymizer.ts\<close> (names are
  replaced by tokens and put back in the reply), \<open>llm/redaction.ts\<close> (numbers of identifiers, accounts and
  phones are masked) and the loop of a turn in \<open>orchestrator/iris.orchestrator.ts\<close>. The recogniser of names in
  running text, the model and the tools are parameters.
\<close>

subsection \<open>Values\<close>

text \<open>A JSON value; numbers, truth values and null are kept as their text.\<close>

datatype jvalue = JText string | JList "jvalue list" | JObj "(string \<times> jvalue) list" | JOther string

definition member :: "string \<Rightarrow> (string \<times> jvalue) list \<Rightarrow> jvalue option" where
  "member k fs = map_of fs k"

definition thinking_block :: "(string \<times> jvalue) list \<Rightarrow> bool" where
  "thinking_block fs \<longleftrightarrow> member ''type'' fs = Some (JText ''thinking'') \<or> member ''type'' fs = Some (JText ''redacted_thinking'')"

subsection \<open>Masking numbers\<close>

text \<open>The mask is the bullet, which takes the place of a control character of Latin-1 here.\<close>

definition bullet :: char where "bullet = CHR 0x95"

definition mask_digits :: "string \<Rightarrow> nat \<Rightarrow> string" where
  "mask_digits s keep = (if length s \<le> keep then replicate (length s) bullet
     else replicate (length s - keep) bullet @ drop (length s - keep) s)"

definition word_char :: "char \<Rightarrow> bool" where
  "word_char c \<longleftrightarrow> is_alpha c \<or> is_digit c \<or> c = CHR ''_''"

text \<open>A boundary lies between a word character and none, before, between or after.\<close>

definition edge :: "char option \<Rightarrow> string \<Rightarrow> bool" where
  "edge prev s \<longleftrightarrow> ((case prev of None \<Rightarrow> False | Some c \<Rightarrow> word_char c) \<noteq> (case s of [] \<Rightarrow> False | c # r \<Rightarrow> word_char c))"

definition digits_at :: "nat \<Rightarrow> string \<Rightarrow> bool" where
  "digits_at n s \<longleftrightarrow> n \<le> length s \<and> list_all is_digit (take n s)"

text \<open>The length of the match at the start of a text, after the character \<open>prev\<close>.\<close>

type_synonym matcher = "char option \<Rightarrow> string \<Rightarrow> nat option"

definition closes :: "string \<Rightarrow> nat \<Rightarrow> bool" where
  "closes s n \<longleftrightarrow> edge (Some (s ! (n - 1))) (drop n s)"

definition match_number :: "nat \<Rightarrow> matcher" where
  "match_number n prev s = (if edge prev s \<and> digits_at n s \<and> closes s n then Some n else None)"

definition match_phone :: matcher where
  "match_phone prev s = (if \<not> edge prev s then None
     else if starts_with ''+234'' s \<and> digits_at 10 (drop 4 s) \<and> closes s 14 then Some 14
     else if starts_with ''234'' s \<and> digits_at 10 (drop 3 s) \<and> closes s 13 then Some 13
     else if starts_with ''0'' s \<and> digits_at 10 (drop 1 s) \<and> closes s 11 then Some 11 else None)"

text \<open>All matches from left to right, as a global replacement makes them; no match is empty.\<close>

function replace_matches :: "matcher \<Rightarrow> nat \<Rightarrow> char option \<Rightarrow> string \<Rightarrow> string" where
  "replace_matches f keep prev [] = []"
| "replace_matches f keep prev (c # s) = (case f prev (c # s) of
     Some (Suc n) \<Rightarrow> mask_digits (take (Suc n) (c # s)) keep @ replace_matches f keep (Some (last (take (Suc n) (c # s)))) (drop n s)
   | _ \<Rightarrow> c # replace_matches f keep (Some c) s)"
  by pat_completeness auto

termination by (relation "measure (\<lambda>(f, keep, prev, s). length s)") auto

definition redact_pii :: "string \<Rightarrow> string" where
  "redact_pii s = replace_matches (match_number 10) 3 None (replace_matches (match_number 11) 3 None (replace_matches match_phone 4 None s))"

subsection \<open>Names and tokens\<close>

definition name_keys :: "string list" where
  "name_keys = [''taxpayer'', ''taxpayername'', ''name'', ''businessname'', ''firstname'', ''lastname'', ''middlename'', ''provider'',
     ''providername'', ''assignedto'', ''contactname'']"

record pseudonyms =
  ps_tokens :: "(string \<times> string) list"
  ps_names :: "(string \<times> string) list"
  ps_seq :: nat

definition no_names :: pseudonyms where "no_names = \<lparr>ps_tokens = [], ps_names = [], ps_seq = 0\<rparr>"

definition token :: "nat \<Rightarrow> string" where "token n = ''[[NAME_'' @ dec_str n @ '']]''"

definition is_token :: "string \<Rightarrow> bool" where
  "is_token s \<longleftrightarrow> 9 < length s \<and> take 7 s = ''[[NAME_'' \<and> drop (length s - 2) s = '']]'' \<and>
     list_all is_digit (take (length s - 9) (drop 7 s))"

definition register_name :: "string \<Rightarrow> pseudonyms \<Rightarrow> pseudonyms" where
  "register_name name ps = (let real = trim name in
     if length real < 2 \<or> is_token real then ps
     else if map_of (ps_tokens ps) (lower real) \<noteq> None then ps
     else (let t = token (Suc (ps_seq ps)) in
       \<lparr>ps_tokens = ps_tokens ps @ [(lower real, t)], ps_names = ps_names ps @ [(t, real)], ps_seq = Suc (ps_seq ps)\<rparr>))"

text \<open>The recogniser lists the organisations and the people of a text.\<close>

type_synonym recogniser = "string \<Rightarrow> string list"

definition scan_text :: "recogniser \<Rightarrow> string \<Rightarrow> pseudonyms \<Rightarrow> pseudonyms" where
  "scan_text ner s ps = (if s = [] \<or> 20000 < length s then ps else fold register_name (ner s) ps)"

definition names_here :: "string option \<Rightarrow> bool" where
  "names_here hint \<longleftrightarrow> (case hint of None \<Rightarrow> False | Some k \<Rightarrow> lower k \<in> set name_keys)"

fun scan_value :: "recogniser \<Rightarrow> string option \<Rightarrow> jvalue \<Rightarrow> pseudonyms \<Rightarrow> pseudonyms"
  and scan_list :: "recogniser \<Rightarrow> string option \<Rightarrow> jvalue list \<Rightarrow> pseudonyms \<Rightarrow> pseudonyms"
  and scan_members :: "recogniser \<Rightarrow> (string \<times> jvalue) list \<Rightarrow> pseudonyms \<Rightarrow> pseudonyms" where
  "scan_value ner hint (JText s) ps = (if names_here hint then register_name s ps else scan_text ner s ps)"
| "scan_value ner hint (JList vs) ps = scan_list ner hint vs ps"
| "scan_value ner hint (JObj fs) ps = scan_members ner fs ps"
| "scan_value ner hint (JOther s) ps = ps"
| "scan_list ner hint [] ps = ps"
| "scan_list ner hint (v # vs) ps = scan_list ner hint vs (scan_value ner hint v ps)"
| "scan_members ner [] ps = ps"
| "scan_members ner ((k, v) # fs) ps = scan_members ner fs (scan_value ner (Some k) v ps)"

text \<open>A replacement of every occurrence from left to right, of which \<open>begins\<close> tells the start.\<close>

definition begins_ci :: "string \<Rightarrow> string \<Rightarrow> bool" where
  "begins_ci p s \<longleftrightarrow> map upper_char (take (length p) s) = map upper_char p"

function replace_where :: "(string \<Rightarrow> string \<Rightarrow> bool) \<Rightarrow> string \<Rightarrow> string \<Rightarrow> string \<Rightarrow> string" where
  "replace_where begins p t [] = []"
| "replace_where begins p t (c # s) = (if p \<noteq> [] \<and> begins p (c # s) then t @ replace_where begins p t (drop (length p - 1) s)
     else c # replace_where begins p t s)"
  by pat_completeness auto

termination by (relation "measure (\<lambda>(begins, p, t, s). length s)") auto

definition by_length :: "(string \<times> string) list \<Rightarrow> (string \<times> string) list" where
  "by_length ts = sort_key (\<lambda>(n, t). - int (length n)) ts"

definition hide_names :: "pseudonyms \<Rightarrow> string \<Rightarrow> string" where
  "hide_names ps s = fold (\<lambda>(n, t). replace_where begins_ci n t) (by_length (ps_tokens ps)) s"

definition apply_text :: "pseudonyms \<Rightarrow> string \<Rightarrow> string" where
  "apply_text ps s = (if s = [] then s else redact_pii (hide_names ps s))"

text \<open>Texts are changed everywhere but in blocks of reasoning, which are signed.\<close>

fun map_texts :: "(string \<Rightarrow> string) \<Rightarrow> jvalue \<Rightarrow> jvalue"
  and map_members :: "(string \<Rightarrow> string) \<Rightarrow> (string \<times> jvalue) list \<Rightarrow> (string \<times> jvalue) list"
  and map_list :: "(string \<Rightarrow> string) \<Rightarrow> jvalue list \<Rightarrow> jvalue list" where
  "map_texts g (JText s) = JText (g s)"
| "map_texts g (JList vs) = JList (map_list g vs)"
| "map_texts g (JObj fs) = JObj (if thinking_block fs then fs else map_members g fs)"
| "map_texts g (JOther s) = JOther s"
| "map_members g [] = []"
| "map_members g ((k, v) # fs) = (k, map_texts g v) # map_members g fs"
| "map_list g [] = []"
| "map_list g (v # vs) = map_texts g v # map_list g vs"

definition apply_value :: "pseudonyms \<Rightarrow> jvalue \<Rightarrow> jvalue" where
  "apply_value ps = map_texts (apply_text ps)"

text \<open>Tokens are put back in the order in which they were given out.\<close>

definition restore :: "pseudonyms \<Rightarrow> string \<Rightarrow> string" where
  "restore ps s = fold (\<lambda>(t, n). replace_where starts_with t n) (ps_names ps) s"

definition restore_value :: "pseudonyms \<Rightarrow> jvalue \<Rightarrow> jvalue" where
  "restore_value ps = map_texts (restore ps)"

subsection \<open>A turn\<close>

text \<open>A message is its role with its content.\<close>

type_synonym chat = "(string \<times> jvalue) list"

record model_reply =
  mr_blocks :: "jvalue list"
  mr_tool_use :: bool

record tool_result =
  tr_content :: string
  tr_error :: bool
  tr_card :: "jvalue option"
  tr_raw :: "jvalue option"

text \<open>What answers a request and runs a tool; the number counts the requests. None when the call throws.\<close>

record assistant_env =
  ae_ner :: recogniser
  ae_model :: "nat \<Rightarrow> chat \<Rightarrow> model_reply option"
  ae_tool :: "nat \<Rightarrow> string \<Rightarrow> jvalue \<Rightarrow> tool_result"

text \<open>The trace pairs the messages of each request with what was sent for them.\<close>

record turn =
  tu_messages :: chat
  tu_names :: pseudonyms
  tu_trace :: "(chat \<times> chat) list"
  tu_cards :: "jvalue list"
  tu_reply :: string

definition message_value :: "string \<times> jvalue \<Rightarrow> jvalue" where
  "message_value m = JObj [(''role'', JText (fst m)), (''content'', snd m)]"

definition send_request :: "assistant_env \<Rightarrow> turn \<Rightarrow> turn \<times> chat" where
  "send_request env t = (let ps = scan_list (ae_ner env) None (map message_value (tu_messages t)) (tu_names t);
       sent = map (\<lambda>(r, c). (r, apply_value ps c)) (tu_messages t)
     in (t\<lparr>tu_names := ps, tu_trace := tu_trace t @ [(tu_messages t, sent)]\<rparr>, sent))"

definition block_text :: "string \<Rightarrow> (string \<times> jvalue) list \<Rightarrow> string" where
  "block_text k fs = (case member k fs of Some (JText s) \<Rightarrow> s | _ \<Rightarrow> [])"

definition text_blocks :: "jvalue list \<Rightarrow> string list" where
  "text_blocks bs = concat (map (\<lambda>b. case b of JObj fs \<Rightarrow> if member ''type'' fs = Some (JText ''text'') then [block_text ''text'' fs] else [] | _ \<Rightarrow> []) bs)"

definition tool_blocks :: "jvalue list \<Rightarrow> (string \<times> jvalue) list list" where
  "tool_blocks bs = concat (map (\<lambda>b. case b of JObj fs \<Rightarrow> if member ''type'' fs = Some (JText ''tool_use'') then [fs] else [] | _ \<Rightarrow> []) bs)"

definition add_reply :: "string \<Rightarrow> string \<Rightarrow> string" where
  "add_reply old new = (if new = [] then old else if old = [] then new else old @ [CHR 0x0A] @ new)"

definition tool_message :: "(string \<times> jvalue) list \<Rightarrow> tool_result \<Rightarrow> jvalue" where
  "tool_message fs r = JObj [(''type'', JText ''tool_result''), (''tool_use_id'', JText (block_text ''id'' fs)), (''content'', JText (tr_content r)),
     (''is_error'', JOther (if tr_error r then ''true'' else ''false''))]"

text \<open>The calls of one reply, in order; the restored input goes to the tool, the names in its result are learnt.\<close>

fun run_tools :: "assistant_env \<Rightarrow> nat \<Rightarrow> (string \<times> jvalue) list list \<Rightarrow> turn \<Rightarrow> jvalue list \<times> turn" where
  "run_tools env i [] t = ([], t)"
| "run_tools env i (fs # uses) t = (let input = restore_value (tu_names t) (case member ''input'' fs of None \<Rightarrow> JObj [] | Some v \<Rightarrow> v);
       r = ae_tool env i (block_text ''name'' fs) input;
       t1 = (case tr_raw r of None \<Rightarrow> t | Some v \<Rightarrow> t\<lparr>tu_names := scan_value (ae_ner env) None v (tu_names t)\<rparr>);
       t2 = (case tr_card r of None \<Rightarrow> t1 | Some c \<Rightarrow> t1\<lparr>tu_cards := tu_cards t1 @ [c]\<rparr>);
       (rest, t3) = run_tools env i uses t2
     in (tool_message fs r # rest, t3))"

text \<open>One request with its answer: whether the loop goes on, or None when the call throws.\<close>

definition turn_step :: "assistant_env \<Rightarrow> nat \<Rightarrow> turn \<Rightarrow> (bool \<times> turn) option" where
  "turn_step env i t = (case send_request env t of (t1, sent) \<Rightarrow>
     (case ae_model env i sent of None \<Rightarrow> None
      | Some a \<Rightarrow>
          (let ps = tu_names t1;
               t2 = t1\<lparr>tu_messages := tu_messages t1 @ [(''assistant'', JList (map (restore_value ps) (mr_blocks a)))],
                       tu_reply := add_reply (tu_reply t1) (concat (map (restore ps) (text_blocks (mr_blocks a))))\<rparr>
           in if \<not> mr_tool_use a then Some (False, t2)
              else (let (results, t3) = run_tools env i (tool_blocks (mr_blocks a)) t2
                in Some (True, t3\<lparr>tu_messages := tu_messages t3 @ [(''user'', JList results)]\<rparr>)))))"

definition max_iterations :: nat where "max_iterations = 6"

fun turn_loop :: "assistant_env \<Rightarrow> nat \<Rightarrow> nat \<Rightarrow> turn \<Rightarrow> turn option" where
  "turn_loop env i 0 t = Some t"
| "turn_loop env i (Suc n) t = (case turn_step env i t of None \<Rightarrow> None
     | Some (False, t') \<Rightarrow> Some t' | Some (True, t') \<Rightarrow> turn_loop env (Suc i) n t')"

definition strip_thinking :: "jvalue \<Rightarrow> jvalue" where
  "strip_thinking v = (case v of JList bs \<Rightarrow> JList (filter (\<lambda>b. case b of JObj fs \<Rightarrow> \<not> thinking_block fs | _ \<Rightarrow> True) bs) | _ \<Rightarrow> v)"

definition new_turn :: "chat \<Rightarrow> string \<Rightarrow> turn" where
  "new_turn history msg = \<lparr>tu_messages = history @ [(''user'', JText msg)], tu_names = no_names, tu_trace = [], tu_cards = [], tu_reply = []\<rparr>"

text \<open>What is kept of a turn: the reply, the messages without reasoning and the cards.\<close>

definition run_turn :: "assistant_env \<Rightarrow> chat \<Rightarrow> string \<Rightarrow> (string \<times> chat \<times> jvalue list) option" where
  "run_turn env history msg = map_option (\<lambda>t. (trim (tu_reply t), map (\<lambda>(r, c). (r, strip_thinking c)) (tu_messages t), tu_cards t))
     (turn_loop env 0 max_iterations (new_turn history msg))"


subsection \<open>Where a name occurs\<close>

fun occurs_ci :: "string \<Rightarrow> string \<Rightarrow> bool" where
  "occurs_ci p [] = (p = [])"
| "occurs_ci p (c # s) = (begins_ci p (c # s) \<or> occurs_ci p s)"

text \<open>
  Names that tokens and masks cannot produce by themselves: without brackets and bullets and with at least
  one character that no token has.
\<close>

definition token_letter :: "char \<Rightarrow> bool" where
  "token_letter c \<longleftrightarrow> is_digit (upper_char c) \<or> upper_char c \<in> set ''NAME_[]''"

definition hideable :: "string \<Rightarrow> bool" where
  "hideable p \<longleftrightarrow> 2 \<le> length p \<and> list_ex (\<lambda>c. \<not> token_letter c) p \<and> list_all (\<lambda>c. c \<noteq> CHR ''['' \<and> c \<noteq> CHR '']'' \<and> c \<noteq> bullet) p"

lemma begins_ci_Nil [simp]: "begins_ci [] s" "begins_ci p [] = (p = [])"
  by (auto simp: begins_ci_def)

lemma begins_ci_Cons [simp]: "begins_ci (a # p) (c # s) \<longleftrightarrow> upper_char c = upper_char a \<and> begins_ci p s"
  by (simp add: begins_ci_def)

lemma begins_ci_length: "begins_ci p s \<Longrightarrow> length p \<le> length s"
  unfolding begins_ci_def by (metis length_map length_take min.cobounded1)

lemma begins_ci_same: "map upper_char p = map upper_char q \<Longrightarrow> begins_ci p s = begins_ci q s"
  unfolding begins_ci_def by (metis length_map)

lemma occurs_ci_same:
  assumes "map upper_char p = map upper_char q"
  shows "occurs_ci p s = occurs_ci q s"
proof (induction s)
  case Nil
  show ?case using assms by (cases p; cases q) auto
next
  case (Cons c s)
  then show ?case using begins_ci_same [OF assms, of "c # s"] by simp
qed

lemma occurs_ci_self: "begins_ci p s \<Longrightarrow> occurs_ci p s"
  by (cases s) auto

lemma occurs_ci_append: "occurs_ci p s \<Longrightarrow> occurs_ci p (r @ s)"
  by (induction r) auto

lemma special_upper: "upper_char c = CHR ''['' \<longleftrightarrow> c = CHR ''[''" "upper_char c = CHR '']'' \<longleftrightarrow> c = CHR '']''" "upper_char c = bullet \<longleftrightarrow> c = bullet"
proof -
  have lt: "(of_char c :: nat) < 256" by simp
  have k: "upper_char c = d \<longleftrightarrow> (of_char (upper_char c) :: nat) = of_char d" for d by simp
  have "(of_char c - 32 :: nat) < 256" using lt by linarith
  then have m: "(of_char (char_of ((of_char c :: nat) - 32) :: char) :: nat) = of_char c - 32" by simp
  have u: "(of_char (upper_char c) :: nat) = (let n = of_char c in if (97 \<le> n \<and> n \<le> 122) \<or> (224 \<le> n \<and> n \<le> 254 \<and> n \<noteq> 247) then n - 32 else n)"
    unfolding upper_char_def Let_def using m by auto
  have i: "c = d \<longleftrightarrow> (of_char c :: nat) = of_char d" for d :: char by simp
  show "upper_char c = CHR ''['' \<longleftrightarrow> c = CHR ''[''" unfolding k u i [of "CHR ''[''"] Let_def by (simp; arith)
  show "upper_char c = CHR '']'' \<longleftrightarrow> c = CHR '']''" unfolding k u i [of "CHR '']''"] Let_def by (simp; arith)
  show "upper_char c = bullet \<longleftrightarrow> c = bullet" unfolding bullet_def k u i [of "CHR 0x95"] Let_def by (simp; arith)
qed

lemma hideable_chars:
  assumes "hideable p"
  shows "CHR ''['' \<notin> set p \<and> CHR '']'' \<notin> set p \<and> bullet \<notin> set p \<and> p \<noteq> []"
proof -
  have "list_all (\<lambda>c. c \<noteq> CHR ''['' \<and> c \<noteq> CHR '']'' \<and> c \<noteq> bullet) p" "2 \<le> length p" using assms unfolding hideable_def by blast+
  then show ?thesis unfolding list_all_iff by fastforce
qed

lemma token_letters: "list_all token_letter (token n)"
proof -
  have d: "is_digit c \<Longrightarrow> token_letter c" for c by (auto simp: token_letter_def upper_char_def is_digit_def Let_def)
  have "list_all token_letter ''[[NAME_''" "list_all token_letter '']]''" by (simp_all add: token_letter_def upper_char_def)
  then show ?thesis using d all_digits_dec_str [of n] by (auto simp: token_def all_digits_def list_all_iff)
qed

text \<open>An occurrence does not reach into a token.\<close>

lemma begins_in:
  assumes "begins_ci p (t @ r)" "length p \<le> length t" "list_all token_letter t" "hideable p"
  shows False
proof -
  obtain c where c: "c \<in> set p" "\<not> token_letter c" using assms(4) by (auto simp: hideable_def list_ex_iff)
  have "map upper_char (take (length p) t) = map upper_char p" using assms(1,2) by (simp add: begins_ci_def)
  then have "upper_char c \<in> upper_char ` set (take (length p) t)" using c(1) by (metis image_eqI set_map)
  then obtain d where "d \<in> set t" "upper_char d = upper_char c" by (metis imageE in_set_takeD)
  then show False using c(2) assms(3) by (auto simp: list_all_iff token_letter_def)
qed

lemma begins_over:
  assumes "begins_ci p (t @ r)" "length t < length p" "t \<noteq> []" "last t = CHR '']''" "hideable p"
  shows False
proof -
  have "take (length t) (map upper_char (take (length p) (t @ r))) = take (length t) (map upper_char p)"
    using assms(1) by (simp only: begins_ci_def)
  then have "map upper_char t = map upper_char (take (length t) p)" using assms(2) by (simp add: take_map)
  then have "last (map upper_char t) = last (map upper_char (take (length t) p))" by simp
  moreover have "take (length t) p \<noteq> []" using assms(2,3) by auto
  ultimately have "upper_char (last t) = upper_char (last (take (length t) p))" using assms(3) by (simp add: last_map)
  then have "last (take (length t) p) = CHR '']''" using assms(4) by (metis special_upper(2))
  moreover have "last (take (length t) p) \<in> set p" using \<open>take (length t) p \<noteq> []\<close> by (metis in_set_takeD last_in_set)
  ultimately show False using hideable_chars [OF assms(5)] by simp
qed

lemma occurs_after_token:
  assumes "occurs_ci p (t @ r)" "list_all token_letter t" "t = [] \<or> last t = CHR '']''" "hideable p"
  shows "occurs_ci p r"
  using assms(1-3)
proof (induction t)
  case (Cons c t)
  have "\<not> begins_ci p ((c # t) @ r)"
    using begins_in [of p "c # t" r] begins_over [of p "c # t" r] Cons.prems assms(4) by (metis list.distinct(1) not_le)
  then have "occurs_ci p (t @ r)" using Cons.prems(1) by simp
  moreover have "t = [] \<or> last t = CHR '']''" using Cons.prems(3) by (cases t) auto
  ultimately show ?case using Cons by simp
qed simp

text \<open>A replacement by tokens brings in no name, and takes away the one it is for.\<close>

lemma replace_cases:
  obtains (nil) "s = []" | (hit) c s' where "s = c # s'" "p \<noteq> []" "begins_ci p s" "length (drop (length p - 1) s') < length s"
      "replace_where begins_ci p t s = t @ replace_where begins_ci p t (drop (length p - 1) s')"
  | (miss) c s' where "s = c # s'" "p = [] \<or> \<not> begins_ci p s" "length s' < length s" "replace_where begins_ci p t s = c # replace_where begins_ci p t s'"
proof (cases s)
  case (Cons c s')
  show thesis by (cases "p \<noteq> [] \<and> begins_ci p s") (use Cons hit [of c s'] miss [of c s'] in auto)
qed (rule nil)

lemma begins_replaced:
  "begins_ci q (replace_where begins_ci p (token k) s) \<Longrightarrow> CHR ''['' \<notin> set q \<Longrightarrow> begins_ci q s"
proof (induction "length s" arbitrary: s q rule: less_induct)
  case less
  show ?case
  proof (cases rule: replace_cases [where s = s and p = p and t = "token k"])
    case (hit c s')
    have "upper_char (CHR ''['') = CHR ''[''" by (simp add: special_upper)
    then show ?thesis using less.prems hit(5) by (cases q) (auto simp: token_def, metis special_upper(1))
  next
    case (miss c s')
    then show ?thesis using less.prems less.hyps [of s'] by (cases q) auto
  qed (use less.prems in simp)
qed

lemma occurs_replaced:
  assumes "hideable q"
  shows "occurs_ci q (replace_where begins_ci p (token k) s) \<Longrightarrow> occurs_ci q s"
proof (induction "length s" arbitrary: s rule: less_induct)
  case less
  have b: "CHR ''['' \<notin> set q" using hideable_chars [OF assms] by simp
  show ?case
  proof (cases rule: replace_cases [where s = s and p = p and t = "token k"])
    case (hit c s')
    have "occurs_ci q (replace_where begins_ci p (token k) (drop (length p - 1) s'))"
      by (rule occurs_after_token [OF _ token_letters _ assms, of k]) (use less.prems hit(5) in \<open>simp_all add: token_def\<close>)
    then have "occurs_ci q (drop (length p - 1) s')" by (rule less.hyps [OF hit(4)])
    then show ?thesis using occurs_ci_append [of q "drop (length p - 1) s'" "take (length p - 1) s'"] hit(1) by simp
  next
    case (miss c s')
    then show ?thesis using less.prems less.hyps [of s'] begins_replaced [of q p k s] b by auto
  qed (use less.prems in simp)
qed

lemma replaced_gone:
  assumes "hideable p"
  shows "\<not> occurs_ci p (replace_where begins_ci p (token k) s)"
proof (induction "length s" arbitrary: s rule: less_induct)
  case less
  have b: "CHR ''['' \<notin> set p" "p \<noteq> []" using hideable_chars [OF assms] by simp_all
  show ?case
  proof (cases rule: replace_cases [where s = s and p = p and t = "token k"])
    case (hit c s')
    have "\<not> occurs_ci p (replace_where begins_ci p (token k) (drop (length p - 1) s'))" by (rule less.hyps [OF hit(4)])
    then have "\<not> occurs_ci p (token k @ replace_where begins_ci p (token k) (drop (length p - 1) s'))"
      using occurs_after_token [OF _ token_letters _ assms, of k] by (auto simp: token_def)
    then show ?thesis using hit(5) by simp
  next
    case (miss c s')
    then show ?thesis using less.hyps [of s'] begins_replaced [of p p k s] b by auto
  qed (use b in simp)
qed

lemma replace_same: "map upper_char p = map upper_char p' \<Longrightarrow> replace_where begins_ci p t s = replace_where begins_ci p' t s"
proof (induction "length s" arbitrary: s rule: less_induct)
  case less
  have l: "length p = length p'" using less.prems by (metis length_map)
  show ?case
    using less.hyps less.prems begins_ci_same [OF less.prems] l by (cases s) auto
qed

text \<open>Masks only put bullets in the place of characters.\<close>

definition masked :: "string \<Rightarrow> string \<Rightarrow> bool" where
  "masked s r \<longleftrightarrow> list_all2 (\<lambda>c d. d = c \<or> d = bullet) s r"

lemma mask_masked: "masked s (mask_digits s keep)"
proof -
  have k: "masked a (replicate (length a) bullet)" for a by (induction a) (auto simp: masked_def)
  have r: "masked a a" for a by (simp add: masked_def list_all2_refl)
  have "masked (take n s @ drop n s) (replicate (length (take n s)) bullet @ drop n s)" for n
    unfolding masked_def by (rule list_all2_appendI) (use k r in \<open>simp_all only: masked_def\<close>)
  from this [of "length s - keep"] show ?thesis using k [of s] by (simp add: mask_digits_def)
qed

lemma replace_matches_cases:
  obtains (nil) "s = []" | (hit) n where "f prev s = Some (Suc n)" "length (drop (Suc n) s) < length s"
      "replace_matches f keep prev s = mask_digits (take (Suc n) s) keep @ replace_matches f keep (Some (last (take (Suc n) s))) (drop (Suc n) s)"
  | (miss) c s' where "s = c # s'" "case f prev s of None \<Rightarrow> True | Some n \<Rightarrow> n = 0" "replace_matches f keep prev s = c # replace_matches f keep (Some c) s'"
proof (cases s)
  case (Cons c s')
  show thesis
  proof (cases "\<exists>n. f prev s = Some (Suc n)")
    case True
    then obtain n where "f prev s = Some (Suc n)" by blast
    then show thesis using hit [of n] Cons by simp
  next
    case False
    then have "case f prev s of None \<Rightarrow> True | Some n \<Rightarrow> n = 0" by (auto split: option.split) (metis not0_implies_Suc)
    then show thesis using miss [of c s'] Cons by (auto split: option.splits)
  qed
qed (rule nil)

lemma replace_matches_masked: "masked s (replace_matches f keep prev s)"
proof (induction "length s" arbitrary: s prev rule: less_induct)
  case less
  show ?case
  proof (cases rule: replace_matches_cases [where f = f and prev = prev and s = s and keep = keep])
    case (hit n)
    have "masked (take (Suc n) s @ drop (Suc n) s) (mask_digits (take (Suc n) s) keep @
        replace_matches f keep (Some (last (take (Suc n) s))) (drop (Suc n) s))"
      unfolding masked_def by (rule list_all2_appendI) (use mask_masked less.hyps [OF hit(2)] in \<open>simp_all only: masked_def\<close>)
    then show ?thesis using hit(3) by simp
  next
    case (miss c s')
    then show ?thesis using less.hyps [of s' "Some c"] by (simp add: masked_def)
  qed (simp add: masked_def)
qed

lemma masked_trans: "masked a b \<Longrightarrow> masked b c \<Longrightarrow> masked a c"
  unfolding masked_def
proof (induction a arbitrary: b c)
  case (Cons x a)
  then show ?case by (auto simp: list_all2_Cons1)
qed auto

lemma redact_masked: "masked s (redact_pii s)"
  unfolding redact_pii_def by (blast intro: masked_trans replace_matches_masked)

lemma masked_begins: "masked s r \<Longrightarrow> begins_ci q r \<Longrightarrow> bullet \<notin> set q \<Longrightarrow> begins_ci q s"
proof (induction q arbitrary: s r)
  case (Cons a q)
  then obtain d r' where r: "r = d # r'" by (cases r) auto
  then obtain c s' where s: "s = c # s'" using Cons.prems(1) by (cases s) (auto simp: masked_def)
  have "d \<noteq> bullet" using Cons.prems(2,3) r by (metis begins_ci_Cons list.set_intros(1) special_upper(3))
  then show ?case using Cons r s by (auto simp: masked_def)
qed simp

lemma masked_occurs: "masked s r \<Longrightarrow> occurs_ci q r \<Longrightarrow> bullet \<notin> set q \<Longrightarrow> occurs_ci q s"
proof (induction r arbitrary: s)
  case Nil
  then show ?case by (simp add: masked_def)
next
  case (Cons d r)
  then obtain c s' where s: "s = c # s'" by (cases s) (auto simp: masked_def)
  then have "masked s' r" using Cons.prems(1) by (simp add: masked_def)
  then show ?case using Cons masked_begins [OF Cons.prems(1)] s by auto
qed


subsection \<open>What leaves the house\<close>

text \<open>The texts under keys that hold names, and the texts outside blocks of reasoning.\<close>

fun named_texts :: "string option \<Rightarrow> jvalue \<Rightarrow> string list"
  and named_list :: "string option \<Rightarrow> jvalue list \<Rightarrow> string list"
  and named_members :: "(string \<times> jvalue) list \<Rightarrow> string list" where
  "named_texts hint (JText s) = (if names_here hint then [s] else [])"
| "named_texts hint (JList vs) = named_list hint vs"
| "named_texts hint (JObj fs) = named_members fs"
| "named_texts hint (JOther s) = []"
| "named_list hint [] = []"
| "named_list hint (v # vs) = named_texts hint v @ named_list hint vs"
| "named_members [] = []"
| "named_members ((k, v) # fs) = named_texts (Some k) v @ named_members fs"

fun texts_in :: "jvalue \<Rightarrow> string list"
  and texts_list :: "jvalue list \<Rightarrow> string list"
  and texts_members :: "(string \<times> jvalue) list \<Rightarrow> string list" where
  "texts_in (JText s) = [s]"
| "texts_in (JList vs) = texts_list vs"
| "texts_in (JObj fs) = (if thinking_block fs then [] else texts_members fs)"
| "texts_in (JOther s) = []"
| "texts_list [] = []"
| "texts_list (v # vs) = texts_in v @ texts_list vs"
| "texts_members [] = []"
| "texts_members ((k, v) # fs) = texts_in v @ texts_members fs"

lemma texts_mapped:
  "set (texts_in (map_texts g v)) \<subseteq> g ` set (texts_in v)"
  "set (texts_members (map_members g fs)) \<subseteq> g ` set (texts_members fs)"
  "set (texts_list (map_list g vs)) \<subseteq> g ` set (texts_list vs)"
  by (induction g v and g fs and g vs rule: map_texts_map_members_map_list.induct) auto

definition known :: "string \<Rightarrow> pseudonyms \<Rightarrow> bool" where
  "known n ps \<longleftrightarrow> lower (trim n) \<in> fst ` set (ps_tokens ps)"

definition tokens_ok :: "pseudonyms \<Rightarrow> bool" where
  "tokens_ok ps \<longleftrightarrow> list_all (\<lambda>(n, t). \<exists>k. t = token k) (ps_tokens ps)"

lemma register_keeps: "tokens_ok ps \<Longrightarrow> tokens_ok (register_name m ps)" "known n ps \<Longrightarrow> known n (register_name m ps)"
  by (auto simp: register_name_def tokens_ok_def known_def Let_def)

lemma register_known:
  assumes "hideable (trim n)"
  shows "known n (register_name n ps)"
proof -
  have "\<not> is_token (trim n)"
  proof
    assume t: "is_token (trim n)"
    then have "hd (take 7 (trim n)) = CHR ''[''" by (simp add: is_token_def)
    moreover have "trim n \<noteq> []" using hideable_chars [OF assms] by simp
    ultimately have "CHR ''['' \<in> set (trim n)" by (cases "trim n") auto
    then show False using hideable_chars [OF assms] by simp
  qed
  moreover have "\<not> length (trim n) < 2" using assms by (simp add: hideable_def)
  ultimately show ?thesis by (cases "map_of (ps_tokens ps) (lower (trim n))")
    (auto simp: register_name_def known_def Let_def dest: map_of_SomeD intro: rev_image_eqI)
qed

lemma fold_register_keeps: "tokens_ok ps \<Longrightarrow> tokens_ok (fold register_name ms ps)" "known n ps \<Longrightarrow> known n (fold register_name ms ps)"
  by (induction ms arbitrary: ps) (auto simp: register_keeps)

lemma scan_text_keeps: "tokens_ok ps \<Longrightarrow> tokens_ok (scan_text ner s ps)" "known n ps \<Longrightarrow> known n (scan_text ner s ps)"
  by (auto simp: scan_text_def fold_register_keeps)

lemma scan_keeps_tokens:
  "tokens_ok ps \<Longrightarrow> tokens_ok (scan_value ner hint v ps)"
  "tokens_ok ps \<Longrightarrow> tokens_ok (scan_list ner hint vs ps)"
  "tokens_ok ps \<Longrightarrow> tokens_ok (scan_members ner fs ps)"
  by (induction ner hint v ps and ner hint vs ps and ner fs ps rule: scan_value_scan_list_scan_members.induct) (auto simp: register_keeps scan_text_keeps)

lemma scan_keeps_known:
  "known n ps \<Longrightarrow> known n (scan_value ner hint v ps)"
  "known n ps \<Longrightarrow> known n (scan_list ner hint vs ps)"
  "known n ps \<Longrightarrow> known n (scan_members ner fs ps)"
  by (induction ner hint v ps and ner hint vs ps and ner fs ps rule: scan_value_scan_list_scan_members.induct) (auto simp: register_keeps scan_text_keeps)

lemma scan_known:
  "n \<in> set (named_texts hint v) \<Longrightarrow> hideable (trim n) \<Longrightarrow> known n (scan_value ner hint v ps)"
  "n \<in> set (named_list hint vs) \<Longrightarrow> hideable (trim n) \<Longrightarrow> known n (scan_list ner hint vs ps)"
  "n \<in> set (named_members fs) \<Longrightarrow> hideable (trim n) \<Longrightarrow> known n (scan_members ner fs ps)"
  by (induction ner hint v ps and ner hint vs ps and ner fs ps rule: scan_value_scan_list_scan_members.induct)
    (auto simp: register_known intro: scan_keeps_known split: if_splits)

lemma upper_lower_char [simp]: "upper_char (lower_char c) = upper_char c"
proof -
  have lt: "(of_char c :: nat) < 256" by simp
  let ?n = "of_char c :: nat"
  show ?thesis
  proof (cases "(65 \<le> ?n \<and> ?n \<le> 90) \<or> (192 \<le> ?n \<and> ?n \<le> 222 \<and> ?n \<noteq> 215)")
    case True
    have "?n + 32 < 256" using True by linarith
    then have l: "lower_char c = char_of (?n + 32)" "(of_char (char_of (?n + 32) :: char) :: nat) = ?n + 32"
      using True by (simp_all add: lower_char_def Let_def)
    have "upper_char (lower_char c) = char_of (?n + 32 - 32)" unfolding l(1) upper_char_def l(2) Let_def using True by auto
    moreover have "upper_char c = c" unfolding upper_char_def Let_def using True by auto
    ultimately show ?thesis by simp
  next
    case False
    then have "lower_char c = c" unfolding lower_char_def Let_def by (rule if_not_P)
    then show ?thesis by simp
  qed
qed

lemma map_upper_lower [simp]: "map upper_char (lower s) = map upper_char s"
  by (simp add: lower_def)

lemma hidden_stays: "list_all (\<lambda>(m, t). \<exists>k. t = token k) ts \<Longrightarrow> hideable q \<Longrightarrow> \<not> occurs_ci q s \<Longrightarrow> \<not> occurs_ci q (fold (\<lambda>(m, t). replace_where begins_ci m t) ts s)"
  by (induction ts arbitrary: s) (auto dest: occurs_replaced)

lemma hide_names_gone:
  assumes "tokens_ok ps" "known n ps" "hideable (trim n)"
  shows "\<not> occurs_ci (trim n) (hide_names ps s)"
proof -
  obtain t where "(lower (trim n), t) \<in> set (by_length (ps_tokens ps))" using assms(2) by (auto simp: known_def by_length_def)
  then obtain xs ys where l: "by_length (ps_tokens ps) = xs @ (lower (trim n), t) # ys" by (meson split_list)
  have a: "list_all (\<lambda>(m, t). \<exists>k. t = token k) (by_length (ps_tokens ps))" using assms(1) by (simp add: tokens_ok_def by_length_def list_all_iff)
  obtain k where k: "t = token k" using a unfolding l by auto
  define s1 where "s1 = fold (\<lambda>(m, t). replace_where begins_ci m t) xs s"
  have "\<not> occurs_ci (trim n) (replace_where begins_ci (trim n) (token k) s1)" by (rule replaced_gone [OF assms(3)])
  then have "\<not> occurs_ci (trim n) (replace_where begins_ci (lower (trim n)) t s1)"
    unfolding k using replace_same [of "lower (trim n)" "trim n"] by simp
  moreover have "list_all (\<lambda>(m, t). \<exists>k. t = token k) ys" using a unfolding l by simp
  ultimately show ?thesis using hidden_stays [OF _ assms(3)] by (simp add: hide_names_def l s1_def)
qed

lemma apply_text_gone:
  assumes "tokens_ok ps" "known n ps" "hideable (trim n)"
  shows "\<not> occurs_ci (trim n) (apply_text ps s)"
proof -
  have b: "bullet \<notin> set (trim n)" "trim n \<noteq> []" using hideable_chars [OF assms(3)] by simp_all
  have "\<not> occurs_ci (trim n) (redact_pii (hide_names ps s))"
    using masked_occurs [OF redact_masked _ b(1)] hide_names_gone [OF assms] by blast
  then show ?thesis using b(2) by (simp add: apply_text_def)
qed

lemma apply_value_gone:
  assumes "tokens_ok ps" "known n ps" "hideable (trim n)" "x \<in> set (texts_in (apply_value ps v))"
  shows "\<not> occurs_ci (trim n) x"
  using texts_mapped(1) [of "apply_text ps" v] assms(4) apply_text_gone [OF assms(1-3)] by (auto simp: apply_value_def)

text \<open>A request is clean when none of the names in its messages occurs in what was sent.\<close>

definition chat_names :: "chat \<Rightarrow> string list" where
  "chat_names ms = named_list None (map message_value ms)"

definition chat_texts :: "chat \<Rightarrow> string list" where
  "chat_texts ms = concat (map (\<lambda>m. texts_in (snd m)) ms)"

definition clean_request :: "chat \<Rightarrow> chat \<Rightarrow> bool" where
  "clean_request ms sent \<longleftrightarrow> list_all (\<lambda>n. list_all (\<lambda>x. \<not> occurs_ci (trim n) x) (chat_texts sent)) (filter (\<lambda>n. hideable (trim n)) (chat_names ms))"

definition turn_ok :: "turn \<Rightarrow> bool" where
  "turn_ok t \<longleftrightarrow> tokens_ok (tu_names t) \<and> list_all (\<lambda>(ms, sent). clean_request ms sent) (tu_trace t)"

lemma send_clean:
  assumes "turn_ok t" "send_request env t = (t', sent)"
  shows "turn_ok t'"
proof -
  define ps where "ps = scan_list (ae_ner env) None (map message_value (tu_messages t)) (tu_names t)"
  have k: "tokens_ok ps" using assms(1) unfolding ps_def turn_ok_def by (blast intro: scan_keeps_tokens)
  have "\<not> occurs_ci (trim n) x" if "n \<in> set (chat_names (tu_messages t))" "hideable (trim n)"
    "x \<in> set (chat_texts (map (\<lambda>(r, c). (r, apply_value ps c)) (tu_messages t)))" for n x
  proof -
    have "known n ps" unfolding ps_def using that(1,2) by (simp add: chat_names_def scan_known)
    then show ?thesis using apply_value_gone [OF k _ that(2)] that(3) by (auto simp: chat_texts_def)
  qed
  then have "clean_request (tu_messages t) (map (\<lambda>(r, c). (r, apply_value ps c)) (tu_messages t))" by (auto simp: clean_request_def list_all_iff)
  then show ?thesis using assms k by (auto simp: send_request_def Let_def turn_ok_def ps_def [symmetric])
qed

lemma run_tools_ok: "turn_ok t \<Longrightarrow> turn_ok (snd (run_tools env i uses t))"
proof (induction env i uses t rule: run_tools.induct)
  case (2 env i fs uses t)
  define input where "input = restore_value (tu_names t) (case member ''input'' fs of None \<Rightarrow> JObj [] | Some v \<Rightarrow> v)"
  define r where "r = ae_tool env i (block_text ''name'' fs) input"
  define t1 where "t1 = (case tr_raw r of None \<Rightarrow> t | Some v \<Rightarrow> t\<lparr>tu_names := scan_value (ae_ner env) None v (tu_names t)\<rparr>)"
  define t2 where "t2 = (case tr_card r of None \<Rightarrow> t1 | Some c \<Rightarrow> t1\<lparr>tu_cards := tu_cards t1 @ [c]\<rparr>)"
  have "turn_ok t1" using 2(2) by (auto simp: t1_def turn_ok_def scan_keeps_tokens split: option.split)
  then have "turn_ok t2" by (auto simp: t2_def turn_ok_def split: option.split)
  then have "turn_ok (snd (run_tools env i uses t2))" by (rule 2(1) [OF input_def r_def t1_def t2_def])
  moreover have "snd (run_tools env i (fs # uses) t) = snd (run_tools env i uses t2)"
    by (simp only: run_tools.simps(2) Let_def split_beta snd_conv t2_def t1_def r_def input_def)
  ultimately show ?case by (simp only:)
qed simp

lemma turn_step_ok: "turn_ok t \<Longrightarrow> turn_step env i t = Some (b, t') \<Longrightarrow> turn_ok t'"
proof -
  assume ok: "turn_ok t" and s: "turn_step env i t = Some (b, t')"
  obtain t1 sent where t1: "send_request env t = (t1, sent)" by (cases "send_request env t")
  then have k: "turn_ok t1" using send_clean [OF ok] by simp
  obtain a where a: "ae_model env i sent = Some a" using s t1 by (auto simp: turn_step_def split: option.splits)
  define t2 where "t2 = t1\<lparr>tu_messages := tu_messages t1 @ [(''assistant'', JList (map (restore_value (tu_names t1)) (mr_blocks a)))],
                       tu_reply := add_reply (tu_reply t1) (concat (map (restore (tu_names t1)) (text_blocks (mr_blocks a))))\<rparr>"
  have k2: "turn_ok t2" using k by (simp add: t2_def turn_ok_def)
  show ?thesis
  proof (cases "mr_tool_use a")
    case False
    then have "t' = t2" using s t1 a by (simp add: turn_step_def Let_def t2_def)
    then show ?thesis using k2 by simp
  next
    case True
    obtain results t3 where r: "run_tools env i (tool_blocks (mr_blocks a)) t2 = (results, t3)" by (cases "run_tools env i (tool_blocks (mr_blocks a)) t2")
    then have "turn_ok t3" using run_tools_ok [OF k2, of env i "tool_blocks (mr_blocks a)"] by simp
    moreover have "t' = t3\<lparr>tu_messages := tu_messages t3 @ [(''user'', JList results)]\<rparr>"
      using s t1 a True r by (simp add: turn_step_def Let_def t2_def [symmetric])
    ultimately show ?thesis by (simp add: turn_ok_def)
  qed
qed

lemma turn_loop_ok: "turn_ok t \<Longrightarrow> turn_loop env i n t = Some t' \<Longrightarrow> turn_ok t'"
  by (induction env i n t rule: turn_loop.induct) (auto split: option.splits prod.splits bool.splits dest: turn_step_ok)



text \<open>The names of the tools in the calls that a chat records.\<close>

definition tool_names :: "chat \<Rightarrow> string list" where
  "tool_names ms = concat (map (\<lambda>(r, c). case c of JList bs \<Rightarrow> map (block_text ''name'') (tool_blocks bs) | _ \<Rightarrow> []) ms)"

lemma named_member: "(k, JText n) \<in> set fs \<Longrightarrow> names_here (Some k) \<Longrightarrow> n \<in> set (named_members fs)"
  by (induction fs) auto

lemma named_in_list: "v \<in> set vs \<Longrightarrow> n \<in> set (named_texts hint v) \<Longrightarrow> n \<in> set (named_list hint vs)"
  by (induction vs) auto

lemma text_member: "(k, JText n) \<in> set fs \<Longrightarrow> n \<in> set (texts_members fs)"
  by (induction fs) auto

lemma text_in_list: "v \<in> set vs \<Longrightarrow> n \<in> set (texts_in v) \<Longrightarrow> n \<in> set (texts_list vs)"
  by (induction vs) auto

lemma tool_blocks_in: "fs \<in> set (tool_blocks bs) \<Longrightarrow> JObj fs \<in> set bs \<and> \<not> thinking_block fs"
  by (auto simp: tool_blocks_def thinking_block_def split: jvalue.splits if_splits)

lemma tool_nameE:
  assumes "n \<in> set (tool_names ms)" "n \<noteq> []"
  obtains r bs fs where "(r, JList bs) \<in> set ms" "JObj fs \<in> set bs" "\<not> thinking_block fs" "(''name'', JText n) \<in> set fs"
proof -
  obtain r bs fs where b: "(r, JList bs) \<in> set ms" "fs \<in> set (tool_blocks bs)" "n = block_text ''name'' fs"
    using assms(1) by (auto simp: tool_names_def split: jvalue.splits)
  have "member ''name'' fs = Some (JText n)" using b(3) assms(2) by (auto simp: block_text_def split: option.splits jvalue.splits)
  then have "(''name'', JText n) \<in> set fs" unfolding member_def by (rule map_of_SomeD)
  then show thesis using that b(1) tool_blocks_in [OF b(2)] by blast
qed

lemma names_here_name: "names_here (Some ''name'')"
  by (simp add: names_here_def name_keys_def lower_def lower_char_def)

lemma tool_name_named: "n \<in> set (tool_names ms) \<Longrightarrow> n \<noteq> [] \<Longrightarrow> n \<in> set (chat_names ms)"
proof (erule tool_nameE)
  fix r bs fs
  assume a: "(r, JList bs) \<in> set ms" "JObj fs \<in> set bs" "(''name'', JText n) \<in> set fs"
  have "n \<in> set (named_texts (Some ''content'') (JList bs))"
    using named_in_list [OF a(2), of n "Some ''content''"] named_member [OF a(3) names_here_name] by simp
  then have "n \<in> set (named_texts None (message_value (r, JList bs)))" by (simp add: message_value_def)
  moreover have "message_value (r, JList bs) \<in> set (map message_value ms)" using a(1) by force
  ultimately show "n \<in> set (chat_names ms)" unfolding chat_names_def by (intro named_in_list)
qed

lemma tool_name_text: "n \<in> set (tool_names ms) \<Longrightarrow> n \<noteq> [] \<Longrightarrow> n \<in> set (chat_texts ms)"
proof (erule tool_nameE)
  fix r bs fs
  assume a: "(r, JList bs) \<in> set ms" "JObj fs \<in> set bs" "\<not> thinking_block fs" "(''name'', JText n) \<in> set fs"
  have "n \<in> set (texts_in (JList bs))" using text_in_list [OF a(2), of n] text_member [OF a(4)] a(3) by simp
  then show "n \<in> set (chat_texts ms)" using a(1) by (force simp: chat_texts_def)
qed

lemma occurs_trim: "occurs_ci (trim s) s"
proof -
  define u where "u = dropWhile is_ws s"
  have u: "u = trim s @ rev (takeWhile is_ws (rev u))"
    unfolding trim_def u_def [symmetric] by (metis rev_append rev_rev_ident takeWhile_dropWhile_id)
  have "begins_ci (trim s) u" by (subst u) (simp add: begins_ci_def)
  then have "occurs_ci (trim s) (takeWhile is_ws s @ u)" by (intro occurs_ci_append occurs_ci_self)
  then show ?thesis by (simp add: u_def)
qed

text \<open>
  C21. A key named name also stands in the blocks by which the model calls a tool. So the name of the tool is
  taken for the name of a person and hidden: in every later request of the turn, and of all turns of the
  same conversation, no such call carries the name of the tool that was called.
\<close>

theorem tools_lose_their_names:
  assumes "turn_loop env 0 max_iterations (new_turn history msg) = Some t" "(ms, sent) \<in> set (tu_trace t)"
    and "n \<in> set (tool_names ms)" "hideable (trim n)"
  shows "n \<notin> set (tool_names sent)"
proof
  assume s: "n \<in> set (tool_names sent)"
  have "turn_ok (new_turn history msg)" by (simp add: turn_ok_def new_turn_def no_names_def tokens_ok_def)
  then have "turn_ok t" using assms(1) by (rule turn_loop_ok)
  then have c: "clean_request ms sent" using assms(2) by (auto simp: turn_ok_def list_all_iff)
  have "n \<noteq> []" using hideable_chars [OF assms(4)] by (auto simp: trim_def)
  then have "n \<in> set (chat_names ms)" "n \<in> set (chat_texts sent)" using tool_name_named [OF assms(3)] tool_name_text [OF s] by auto
  then have "\<not> occurs_ci (trim n) n" using c assms(4) by (auto simp: clean_request_def list_all_iff)
  then show False using occurs_trim by simp
qed

definition call_block :: jvalue where
  "call_block = JObj [(''type'', JText ''tool_use''), (''id'', JText ''t1''), (''name'', JText ''list_cases''),
     (''input'', JObj [(''taxpayer'', JText ''Ada Obi'')])]"

definition demo_history :: chat where "demo_history = [(''assistant'', JList [call_block])]"

definition demo_assistant :: assistant_env where
  "demo_assistant = \<lparr>ae_ner = (\<lambda>s. []), ae_model = (\<lambda>i chat. Some \<lparr>mr_blocks = [], mr_tool_use = False\<rparr>),
     ae_tool = (\<lambda>i n v. \<lparr>tr_content = [], tr_error = False, tr_card = None, tr_raw = None\<rparr>)\<rparr>"

lemma demo_run:
  obtains t sent where "turn_loop demo_assistant 0 max_iterations (new_turn demo_history ''Show'') = Some t"
    "(demo_history @ [(''user'', JText ''Show'')], sent) \<in> set (tu_trace t)"
proof -
  let ?t = "new_turn demo_history ''Show''"
  obtain t1 sent where s: "send_request demo_assistant ?t = (t1, sent)" by (cases "send_request demo_assistant ?t")
  then have m: "(demo_history @ [(''user'', JText ''Show'')], sent) \<in> set (tu_trace t1)" by (auto simp: send_request_def Let_def new_turn_def)
  obtain t where "turn_step demo_assistant 0 ?t = Some (False, t)" "tu_trace t = tu_trace t1"
    using s by (simp add: turn_step_def demo_assistant_def Let_def)
  moreover from this have "turn_loop demo_assistant 0 max_iterations ?t = Some t" by (simp add: max_iterations_def eval_nat_numeral)
  ultimately show thesis using m that by simp
qed

lemma demo_hideable: "hideable ''list_cases''" "hideable ''Ada Obi''"
proof -
  have "upper_char (CHR ''l'') = CHR ''L''" "upper_char (CHR ''d'') = CHR ''D''" by code_simp+
  then have "\<not> token_letter (CHR ''l'')" "\<not> token_letter (CHR ''d'')" by (simp_all add: token_letter_def is_digit_def)
  then show "hideable ''list_cases''" "hideable ''Ada Obi''" by (simp_all add: hideable_def bullet_def)
qed

lemma demo_trim: "trim ''list_cases'' = ''list_cases''" "trim ''Ada Obi'' = ''Ada Obi''"
  by (simp_all add: trim_def is_ws_def ws_chars_def)


theorem tools_lose_their_names_witness:
  "\<exists>t ms sent. turn_loop demo_assistant 0 max_iterations (new_turn demo_history ''Show'') = Some t \<and> (ms, sent) \<in> set (tu_trace t) \<and>
     tool_names ms = [''list_cases''] \<and> ''list_cases'' \<notin> set (tool_names sent)"
proof -
  obtain t sent where r: "turn_loop demo_assistant 0 max_iterations (new_turn demo_history ''Show'') = Some t"
    "(demo_history @ [(''user'', JText ''Show'')], sent) \<in> set (tu_trace t)" by (rule demo_run)
  have n: "tool_names (demo_history @ [(''user'', JText ''Show'')]) = [''list_cases'']"
    by (simp add: tool_names_def demo_history_def tool_blocks_def call_block_def member_def block_text_def)
  then have "''list_cases'' \<in> set (tool_names (demo_history @ [(''user'', JText ''Show'')]))" by simp
  then show ?thesis using tools_lose_their_names [OF r, of "''list_cases''"] r n demo_hideable demo_trim by auto
qed

text \<open>A token that is answered in one piece is put back; nothing else of a text changes.\<close>

lemma restore_nothing: "ps_names ps = [] \<Longrightarrow> restore ps s = s"
  by (simp add: restore_def)

end
