(* ===== verification/Spec2Isabelle.thy ===== *)
theory Spec2Isabelle
  imports IngestionValidators Integration Compliance Auth AgentRun Assessment Keys Pseudonym
begin

text \<open>
  A verification development for the backend of BizData (\<open>src/backend\<close>, NestJS and TypeScript over a
  PostgreSQL database), a tax-intelligence service of a Nigerian state. Financial institutions file returns on
  their customers' accounts; the service validates and stores them, finds taxpayers whose bank inflow exceeds
  what they declared, opens cases, serves demand notices, handles objections, and keeps an audit log of what
  its officers do. Source paths below are relative to \<open>src/backend/src/\<close>.

  \<^bold>\<open>The parts and how they interact.\<close> A return enters through the submission service, which hands every
  parsed file to the ingestion pipeline; the pipeline calls the row validator and the ingestion gate and writes
  records and taxpayers. The scan reads records, the statutory configuration and the reporting threshold, calls
  the detection engine, routes each case with the portfolios and writes the cases. The case service and the
  taxpayer integration API move the cases on; the agents profile the same taxpayers, store their signals and
  fuse them into the risk of the cases; documents of an objection raise signals too. The provider compliance
  turns missing submissions into penalties. Access to raw records and clear personal data is decided by
  assignments, one-time grants and elevations and is written to the audit log; the sign-in issues the sessions
  all of this rests on. The register of taxpayers, the tax net and the PAYE service keep the table the scan
  reads; the keys seal its identifiers; the assistant sends what the tools return to a language model. The
  aptitude assessment is a platform of its own with its own database.

  \<^bold>\<open>Conventions.\<close>
  \<^item> A \<open>number\<close> is a rational that every operation rounds to a double (\<open>fadd\<close>, \<open>fmul\<close> and so on in JsNumber);
    where not-a-number or an infinity can arise the type is \<open>jsnum\<close>. Rounding is to the nearest double, ties
    to even, without a bound on the exponent, as no amount of the program comes near the limits of the range.
    A \<open>Decimal(p, s)\<close> column refuses a value of more than \<open>p - s\<close> digits before the point (TaxDb).
  \<^item> A string is a \<open>string\<close> whose characters are code units up to 255; upper and lower case, blanks and
    NFKD are those of Latin-1.
  \<^item> A time is the \<open>int\<close> of milliseconds of UTC. The clock, random bytes and new identifiers come in as arguments.
  \<^item> A database table is a list of records in the order of insertion. A transaction that fails returns the
    tables unchanged, a failed statement outside a transaction keeps what was written before it.
  \<^item> An exception is the left side of a sum; an operation that changes state returns a pair of its result
    and the new state (\<open>outcome\<close> in Prelude). Error and reason texts are constructors where nothing reads them.
  \<^item> Loops are structural recursions or folds. The one loop over the calendar (\<open>addBusinessDays\<close>) is a
    \<open>partial_function\<close> and is proved to end. The square root runs over a fixed 54 bits, one more than
    the 53 of a double, which a lemma shows to be the nearest double.

  \<^bold>\<open>Foundations.\<close>
  \<^item> Prelude: lists as tables (lookup and update by key), strings, digits and decimal text, characters and
    blanks, and the three shared interfaces. \<open>lifecycle\<close> is a table of moves with a rank that every move raises;
    \<open>service\<close> is an operation that keeps an invariant, hence along every sequence of operations;
    \<open>tracked_service\<close> joins both: no object ever takes a state again that it left. They are interpreted for the
    portal and its multipart sessions, the statutory versions, the portfolios, the cases, the penalties, the grants,
    the agents, the register and the assessment.
  \<^item> JsNumber, JsParse, JsDate: doubles and their rounding (the locale \<open>rounding\<close>, interpreted for doubles),
    \<open>Number()\<close>, \<open>parseInt\<close>, \<open>parseFloat\<close>, comparison with not-a-number, and the calendar.

  \<^bold>\<open>Filing.\<close>
  \<^item> Periods, ReturnSchema, CsvText (\<open>modules/submissions/submission-parser.ts\<close>, \<open>spreadsheet-to-csv.ts\<close>, \<open>toCsv\<close> of
    \<open>modules/iris-upload/import-plan.ts\<close>): lenient dates, reporting periods and their bounds, the return template and
    \<open>validateRow\<close>, the header guard, CSV reading and writing. Shown: reading back what was written, and which rows
    pass, in terms of the documented rule of each column.
  \<^item> IngestionValidators (\<open>modules/submissions/ingestion-validators.ts\<close>, \<open>common/section29.ts\<close>): digits, check digits,
    balances; the check digit finds single-digit mistakes.
  \<^item> Ingestion (\<open>processRows\<close> of \<open>modules/submissions/submissions.service.ts\<close>): the all-or-nothing pass, the record
    built for each row, matching of taxpayers, deadlines in working days.
  \<^item> Submissions (the rest of that file): upload, JSON, multipart sessions, grants for a second filing, reprocessing;
    an invariant of all tables along any sequence of calls.

  \<^bold>\<open>Detection.\<close>
  \<^item> Statutory (\<open>modules/statutory/\<close>), DetectionEngine (\<open>modules/scan/detection-engine.ts\<close>), Reportable
    (\<open>common/services/reportable.service.ts\<close>), Portfolios (\<open>modules/portfolios/\<close>), TaxDb (the tables of
    \<open>prisma/schema.prisma\<close>), Scan (\<open>modules/scan/scan.service.ts\<close>). Shown: the versions of the law are numbered
    without gaps; the tax estimate computed on doubles is close to the exact marginal tax; monthly and
    quarterly filing lead to the same reportable taxpayers; the cache of that set as an inductive step relation
    over asks, answers and failures; every case of a scan is justified by the data.
  \<^item> NameMatch, AgentProfiles, Agents, Documents, AgentRun (\<open>modules/agents/\<close>, \<open>addDocument\<close> of
    \<open>modules/cases/cases.service.ts\<close>): similarity of names and dates of birth with the edit distance proved against an
    inductive specification, the six agents, the reading of figures from an objection's document, a run over the
    year with the stored signals, and the fusion into the cases.

  \<^item> Registry (\<open>modules/taxpayers/\<close>, \<open>modules/identity/\<close>), TaxNet (\<open>modules/tax-net/\<close>, \<open>modules/paye/\<close>): creation,
    change and import of taxpayers with the unique columns of their table, the NIN found for a BVN, the comparative
    report, tax numbers one by one and in bulk, employers. No two taxpayers share an identifier, whatever is called;
    when automatic numbers work and when they are stuck for good; what an import erases.

  \<^bold>\<open>Enforcement.\<close>
  \<^item> Cases (\<open>modules/cases/cases.service.ts\<close>), Integration (\<open>modules/integration/integration.service.ts\<close>): the table of
    moves, notice and demand, deadlines, objections, keys and tokens of partners. A case moves only forward, its
    row stays well formed, an objection is answered in time, the demand is right to the kobo.
  \<^item> Compliance (\<open>modules/providers/provider-compliance.service.ts\<close>): due dates, the state of every period, the
    penalty, its notice and the amount in words.

  \<^bold>\<open>Control.\<close>
  \<^item> AuditChain (\<open>common/services/audit.service.ts\<close>, \<open>modules/audit/audit.service.ts\<close>): the hashed text of an entry,
    the append and the verification. Tampering needs a collision; an honest log verifies.
  \<^item> Access (\<open>modules/access/\<close>, \<open>common/services/pii-access.service.ts\<close>, \<open>modules/pii/\<close>): assignments, grants, elevations,
    masks and the reveal of a field, with what was approved and shown on the audit record.
  \<^item> Totp, Auth (\<open>common/services/totp.ts\<close>, \<open>modules/auth/\<close>, \<open>common/strategies/\<close>): one-time codes, both sign-ins, passwords
    and reset links, recovery codes and step-up sessions.
  \<^item> ByteText, Keys (\<open>common/services/crypto.service.ts\<close>, \<open>key-provider.ts\<close>, \<open>kms.ts\<close>, \<open>reencryptPii\<close> of
    \<open>modules/governance/governance.service.ts\<close>): Base64 and UTF-8, the ring of keys from the environment or from
    wrapped keys, sealed values under any key of the ring, the migration to the active key. Rotation loses no
    value; the migration keeps what can be read and erases what cannot. This service implements the parameters
    that the other theories take for the cipher and the index.

  \<^bold>\<open>Assistant and assessment.\<close>
  \<^item> Pseudonym (\<open>modules/iris/llm/\<close>, \<open>modules/iris/orchestrator/iris.orchestrator.ts\<close>): what is sent to the language
    model in a turn. No registered name is sent, apart from those that tokens themselves spell; the names of
    tools are lost in the same way. A turn makes at most six requests, the fuel of its loop.
  \<^item> Assessment (\<open>modules/assessment/\<close>): sittings, marks, sessions, questions and codes. A sitting is final at its
    deadline, a candidate learns nothing of the key, the marks are right to the hundredth.

  \<^bold>\<open>What is a parameter.\<close> The cipher and the keyed hash of personal data (AES-GCM and HMAC in Keys), SHA-256, bcrypt, HMAC-SHA-1 and JWT
  signatures, the average computed by the database, the logarithm, the reader of workbooks, the regular
  expressions kept in stored schemas, the parsing of dates in other formats by the language, the national identity bridge,
  the tax application for employers, the language model, its tools and the recogniser of names. A theorem that
  needs a law of one of them states it as a hypothesis, and its witness gives a concrete function for it.

  \<^bold>\<open>What is not modelled.\<close> The web front end shows what the backend answers. Of the
  conversational assistant the drafts, exports and stored conversations are left out, and so is the proposal of
  column mappings, which a language model outside the repository makes. The triage service selects
  columns that the schema does not have, so that none of its queries runs. Dashboards, reports and listings
  count and format rows and change no state. Mail, timers, wiring of the framework and the database client
  have no rules of their own.
\<close>

end
